(* ===== verification/Prelude.thy ===== *)
theory Prelude
  imports Main "HOL-Library.Word" "HOL-Library.Monad_Syntax"
begin

text \<open>
  Shared material of the development.

  \<^item> Machine types: \<open>u8\<close>, \<open>u16\<close>, \<open>u32\<close>, \<open>u64\<close>.
  \<^item> Code that can panic, dereference a null pointer, read the wrong member of a union or loop
    for ever is a function into \<open>option\<close>: \<open>None\<close> stands for all of those, and the
    theorems show where it cannot happen.
  \<^item> Singly linked lists threaded through an array: \<open>npath\<close> relates a head pointer and a
    partial next map to the list of nodes, \<open>walk\<close> is the traversal loop shared by the
    list code of the kernel, and the locale \<open>linked_list\<close> is the contract of a next
    field (reading it back after a write) with the insertion and removal lemmas that hold for
    every such field.
\<close>

type_synonym u8 = "8 word"
type_synonym u16 = "16 word"
type_synonym u32 = "32 word"
type_synonym u64 = "64 word"

type_synonym ptr = "nat option"

named_theorems kdefs \<open>definitions of kernel operations\<close>
named_theorems kframe \<open>fields that an update leaves alone\<close>

section \<open>C arithmetic\<close>

text \<open>Division and remainder of C truncate towards zero.\<close>

definition c_div :: "int \<Rightarrow> int \<Rightarrow> int" where
  "c_div a b = sgn a * sgn b * (\<bar>a\<bar> div \<bar>b\<bar>)"

definition c_rem :: "int \<Rightarrow> int \<Rightarrow> int" where
  "c_rem a b = a - b * c_div a b"

lemma c_div_nonneg [simp]: "0 \<le> a \<Longrightarrow> 0 \<le> b \<Longrightarrow> c_div a b = a div b"
  by (cases "a = 0"; cases "b = 0") (auto simp: c_div_def)

lemma c_rem_nonneg [simp]: "0 \<le> a \<Longrightarrow> 0 \<le> b \<Longrightarrow> c_rem a b = a mod b"
  by (simp add: c_rem_def minus_mult_div_eq_mod)

section \<open>The clock\<close>

text \<open>The constants of \<^verbatim>\<open>kernel/interrupt.h\<close>.\<close>

definition QUARTZ :: int where "QUARTZ = 0x1234DD"
definition SCHEDFREQ :: int where "SCHEDFREQ = 50"
definition CLOCKFREQ :: int where "CLOCKFREQ = 200"

section \<open>Paths through a next map\<close>

primrec npath :: "(nat \<Rightarrow> ptr option) \<Rightarrow> ptr \<Rightarrow> nat list \<Rightarrow> bool" where
  "npath nx h [] \<longleftrightarrow> h = None"
| "npath nx h (x # xs) \<longleftrightarrow> h = Some x \<and> (\<exists>n. nx x = Some n \<and> npath nx n xs)"

lemma npath_None [simp]: "npath nx None xs \<longleftrightarrow> xs = []"
  by (cases xs) auto

lemma npath_Some: "npath nx (Some x) ys \<longleftrightarrow> (\<exists>n xs. ys = x # xs \<and> nx x = Some n \<and> npath nx n xs)"
  by (cases ys) auto

lemma npath_cong: "(\<And>x. x \<in> set xs \<Longrightarrow> nx x = nx' x) \<Longrightarrow> npath nx h xs = npath nx' h xs"
  by (induction xs arbitrary: h) auto

lemma npath_upd [simp]: "p \<notin> set xs \<Longrightarrow> npath (nx(p := n)) h xs = npath nx h xs"
  by (rule npath_cong) auto

lemma npath_if [simp]: "p \<notin> set xs \<Longrightarrow> npath (\<lambda>a. if a = p then f a else nx a) h xs = npath nx h xs"
  by (rule npath_cong) auto

lemma npath_append:
  "npath nx h (xs @ y # ys) \<Longrightarrow> \<exists>n. nx y = Some n \<and> npath nx n ys"
  by (induction xs arbitrary: h) auto

lemma npath_unique: "npath nx h xs \<Longrightarrow> npath nx h ys \<Longrightarrow> xs = ys"
proof (induction xs arbitrary: h ys)
  case (Cons x xs)
  then show ?case by (auto simp: npath_Some)
qed simp

lemma npath_head_notin: "nx x = Some n \<Longrightarrow> npath nx n xs \<Longrightarrow> x \<notin> set xs"
proof
  assume nx: "nx x = Some n" and path: "npath nx n xs" and mem: "x \<in> set xs"
  from mem obtain ys zs where xs: "xs = ys @ x # zs" by (auto simp: in_set_conv_decomp)
  with path nx have "npath nx n zs" by (auto dest: npath_append)
  with path have "xs = zs" by (rule npath_unique)
  with xs show False by simp
qed

lemma npath_distinct: "npath nx h xs \<Longrightarrow> distinct xs"
  by (induction xs arbitrary: h) (auto dest: npath_head_notin)

lemma npath_in_dom: "npath nx h xs \<Longrightarrow> p \<in> set xs \<Longrightarrow> \<exists>n. nx p = Some n"
  by (induction xs arbitrary: h) auto

section \<open>Ordered insertion, and the traversal loop\<close>

text \<open>\<open>ins stay p xs\<close> puts \<open>p\<close> behind the longest prefix of nodes that satisfy \<open>stay\<close>.\<close>

primrec ins :: "(nat \<Rightarrow> bool) \<Rightarrow> nat \<Rightarrow> nat list \<Rightarrow> nat list" where
  "ins stay p [] = [p]"
| "ins stay p (x # xs) = (if stay x then x # ins stay p xs else p # x # xs)"

lemma ins_conv_takeWhile: "ins stay p xs = takeWhile stay xs @ p # dropWhile stay xs"
  by (induction xs) auto

lemma set_ins [simp]: "set (ins stay p xs) = insert p (set xs)"
  by (induction xs) auto

lemma length_ins [simp]: "length (ins stay p xs) = Suc (length xs)"
  by (induction xs) auto

lemma ins_not_Nil [simp]: "ins stay p xs \<noteq> []"
  by (cases xs) auto

lemma distinct_ins: "distinct xs \<Longrightarrow> p \<notin> set xs \<Longrightarrow> distinct (ins stay p xs)"
  by (induction xs) auto

lemma sorted_wrt_ins:
  assumes "sorted_wrt R xs" and "transp R"
    and "\<And>x. x \<in> set xs \<Longrightarrow> stay x \<Longrightarrow> R x p" and "\<And>x. x \<in> set xs \<Longrightarrow> \<not> stay x \<Longrightarrow> R p x"
  shows "sorted_wrt R (ins stay p xs)"
  using assms by (induction xs) (auto dest: transpD)

lemma ins_cong: "(\<And>x. x \<in> set xs \<Longrightarrow> stay x = stay' x) \<Longrightarrow> ins stay p xs = ins stay' p xs"
  by (induction xs) auto

text \<open>
  The loop \<open>while (cur->next != NULL && go(cur->next)) cur = cur->next\<close>. The reads are
  checked (\<open>None\<close> when the field cannot be read); the first argument bounds the number of
  iterations, and running out of it stands for a loop that does not end.
\<close>

fun walk :: "nat \<Rightarrow> (nat \<Rightarrow> ptr option) \<Rightarrow> (nat \<Rightarrow> bool option) \<Rightarrow> nat \<Rightarrow> nat option" where
  "walk 0 nx go cur = None"
| "walk (Suc n) nx go cur = do {
     k \<leftarrow> nx cur;
     case k of None \<Rightarrow> Some cur
     | Some m \<Rightarrow> do { b \<leftarrow> go m; if b then walk n nx go m else Some cur } }"

section \<open>The contract of a next field\<close>

locale linked_list =
  fixes nx :: "'s \<Rightarrow> nat \<Rightarrow> ptr option"
    and setnx :: "nat \<Rightarrow> ptr \<Rightarrow> 's \<Rightarrow> 's"
  assumes nx_setnx: "nx (setnx p n s) q = (if q = p then Some n else nx s q)"
begin

lemma npath_setnx: "p \<notin> set xs \<Longrightarrow> npath (nx (setnx p n s)) h xs = npath (nx s) h xs"
  by (rule npath_cong) (auto simp: nx_setnx)

text \<open>A node put in front of the list.\<close>

lemma push_front: "npath (nx s) h xs \<Longrightarrow> p \<notin> set xs \<Longrightarrow> npath (nx (setnx p h s)) (Some p) (p # xs)"
  by (simp add: npath_setnx nx_setnx)

text \<open>A node linked behind the one the traversal stops at.\<close>

lemma walk_insert:
  assumes "npath (nx s) (Some x) (x # xs)" and "length xs < n" and "stay x"
    and "\<And>k. k \<in> set xs \<Longrightarrow> go k = Some (stay k)"
  shows "\<exists>cur k. walk n (nx s) go x = Some cur \<and> nx s cur = Some k \<and> cur \<in> set (x # xs) \<and>
    (\<forall>p. p \<notin> set (x # xs) \<longrightarrow>
      npath (nx (setnx cur (Some p) (setnx p k s))) (Some x) (ins stay p (x # xs)))"
  using assms
proof (induction xs arbitrary: x n)
  case Nil
  then obtain m where "n = Suc m" by (cases n) auto
  with Nil show ?case by (auto simp: nx_setnx)
next
  case (Cons y ys)
  then obtain m where n: "n = Suc m" by (cases n) auto
  from Cons.prems have nx: "nx s x = Some (Some y)" and path: "npath (nx s) (Some y) (y # ys)"
    by auto
  show ?case
  proof (cases "stay y")
    case False
    have "npath (nx (setnx x (Some p) (setnx p (Some y) s))) (Some x) (x # p # y # ys)"
      if "p \<notin> set (x # y # ys)" for p
    proof -
      have "x \<notin> set (y # ys)" using nx path by (rule npath_head_notin)
      with that path show ?thesis by (auto simp: nx_setnx npath_setnx)
    qed
    with False Cons.prems n nx show ?thesis by simp
  next
    case True
    from Cons.IH [OF path _ True, of m] Cons.prems n
    obtain cur k where w: "walk m (nx s) go y = Some cur" "nx s cur = Some k" "cur \<in> set (y # ys)"
      and ins: "\<And>p. p \<notin> set (y # ys) \<Longrightarrow>
        npath (nx (setnx cur (Some p) (setnx p k s))) (Some y) (ins stay p (y # ys))"
      by auto
    have "x \<notin> set (y # ys)" using nx path by (rule npath_head_notin)
    with w(3) have "cur \<noteq> x" by auto
    have "npath (nx (setnx cur (Some p) (setnx p k s))) (Some x) (x # ins stay p (y # ys))"
      if "p \<notin> set (x # y # ys)" for p
      using ins [of p] that \<open>cur \<noteq> x\<close> nx by (auto simp: nx_setnx)
    with w True Cons.prems n nx show ?thesis by auto
  qed
qed

text \<open>A node taken out behind the one the traversal stops at.\<close>

lemma walk_remove:
  assumes "npath (nx s) (Some x) (x # xs)" and "length xs < n" and "x \<noteq> p"
  shows "\<exists>cur k. walk n (nx s) (\<lambda>k. Some (k \<noteq> p)) x = Some cur \<and> nx s cur = Some k \<and>
    cur \<in> set (x # xs) \<and> (p \<notin> set xs \<longrightarrow> k = None) \<and>
    (p \<in> set xs \<longrightarrow> k = Some p \<and> (\<exists>k'. nx s p = Some k' \<and>
       npath (nx (setnx cur k' s)) (Some x) (remove1 p (x # xs))))"
  using assms
proof (induction xs arbitrary: x n)
  case Nil
  then obtain m where "n = Suc m" by (cases n) auto
  with Nil show ?case by auto
next
  case (Cons y ys)
  then obtain m where n: "n = Suc m" by (cases n) auto
  from Cons.prems have nx: "nx s x = Some (Some y)" and path: "npath (nx s) (Some y) (y # ys)"
    by auto
  have x: "x \<notin> set (y # ys)" using nx path by (rule npath_head_notin)
  show ?case
  proof (cases "y = p")
    case True
    from path obtain k' where "nx s y = Some k'" "npath (nx s) k' ys" by auto
    with True x Cons.prems n nx show ?thesis by (auto simp: nx_setnx npath_setnx)
  next
    case False
    from Cons.IH [OF path _ False, of m] Cons.prems n
    obtain cur k where w: "walk m (nx s) (\<lambda>k. Some (k \<noteq> p)) y = Some cur" "nx s cur = Some k"
        "cur \<in> set (y # ys)" "p \<notin> set ys \<longrightarrow> k = None"
      and rm: "p \<in> set ys \<longrightarrow> k = Some p \<and> (\<exists>k'. nx s p = Some k' \<and>
        npath (nx (setnx cur k' s)) (Some y) (remove1 p (y # ys)))"
      by auto
    from w(3) x have "cur \<noteq> x" by auto
    have "npath (nx (setnx cur k' s)) (Some x) (x # remove1 p (y # ys))"
      if "npath (nx (setnx cur k' s)) (Some y) (remove1 p (y # ys))" for k'
      using that \<open>cur \<noteq> x\<close> nx by (auto simp: nx_setnx)
    with w rm False Cons.prems n nx show ?thesis by auto
  qed
qed

end

end
