(* ===== verification/Kernel_State.thy ===== *)
theory Kernel_State
  imports Prelude
begin

text \<open>
  The data of the kernel: \<^verbatim>\<open>shared/system.h\<close>, \<^verbatim>\<open>kernel/scheduler.h\<close>, the globals of
  \<^verbatim>\<open>kernel/scheduler.c\<close>, \<^verbatim>\<open>kernel/queues.c\<close> and \<^verbatim>\<open>kernel/interrupt.c\<close>.

  A pointer to a process is an index into \<^verbatim>\<open>processes[]\<close>, or \<open>None\<close> for \<^verbatim>\<open>NULL\<close>.
  The union \<^verbatim>\<open>state_attr\<close> is a datatype with one constructor per member: a read of a member
  that is not the one last written gives \<open>None\<close>, so that a theorem saying that an
  operation succeeds also says that the union is used as the tagged union its comment describes.
  Fields of a struct member that have not been written since the member became active are
  \<open>None\<close> too.

  A process that calls the scheduler in the middle of a system call keeps the rest of that call
  on its kernel stack. The rest of the call is a value of type \<open>cont\<close>, stored in \<open>pend\<close> until
  the process is switched to again; the locals of the call whose addresses the code publishes
  (\<^verbatim>\<open>child_pid\<close>, \<^verbatim>\<open>retval\<close>, \<^verbatim>\<open>message\<close>) are cells of the state indexed by the process.
\<close>

section \<open>Constants and enumerations\<close>

definition NOPID :: int where "NOPID = -1"
definition NBPROC :: nat where "NBPROC = 30"
definition NBQUEUE :: nat where "NBQUEUE = 300"
definition NBSTACK :: nat where "NBSTACK = 1024"
definition MAXSTACK :: u32 where "MAXSTACK = push_bit 30 1"
definition MAXPRIO :: int where "MAXPRIO = 256"
definition USER_CS :: int where "USER_CS = 0x43"
definition USER_DS :: int where "USER_DS = 0x4b"

lemma NBPROC_gt_0 [simp]: "0 < NBPROC" by (simp add: NBPROC_def)
lemma NOPID_neg [simp]: "NOPID < 0" "NOPID \<noteq> int p" "int p \<noteq> NOPID" "\<not> 0 \<le> NOPID"
  by (simp_all add: NOPID_def)

datatype process_state_t =
  PS_DEAD | PS_ZOMBIE | PS_RUNNABLE | PS_RUNNING | PS_ASLEEP | PS_WAIT_CHILD
| PS_WAIT_QUEUE_EMPTY | PS_WAIT_QUEUE_FULL

fun ps_val :: "process_state_t \<Rightarrow> int" where
  "ps_val PS_DEAD = -2"
| "ps_val PS_ZOMBIE = -1"
| "ps_val PS_RUNNABLE = 0"
| "ps_val PS_RUNNING = 1"
| "ps_val PS_ASLEEP = 2"
| "ps_val PS_WAIT_CHILD = 3"
| "ps_val PS_WAIT_QUEUE_EMPTY = 4"
| "ps_val PS_WAIT_QUEUE_FULL = 5"

lemma ps_val_inject: "ps_val a = ps_val b \<Longrightarrow> a = b"
  by (cases a; cases b) auto

text \<open>The enumeration is compared with \<^verbatim>\<open><\<close> and \<^verbatim>\<open>>\<close> in the code: its order is that of the values.\<close>

instantiation process_state_t :: linorder
begin

definition less_eq_process_state_t :: "process_state_t \<Rightarrow> process_state_t \<Rightarrow> bool" where
  "less_eq_process_state_t a b \<longleftrightarrow> ps_val a \<le> ps_val b"

definition less_process_state_t :: "process_state_t \<Rightarrow> process_state_t \<Rightarrow> bool" where
  "less_process_state_t a b \<longleftrightarrow> ps_val a < ps_val b"

instance
  by intro_classes
    (auto simp: less_eq_process_state_t_def less_process_state_t_def dest: ps_val_inject)

end

lemma not_less_RUNNABLE [simp]: "x < PS_RUNNABLE \<longleftrightarrow> x = PS_DEAD \<or> x = PS_ZOMBIE"
  by (cases x) (auto simp: less_process_state_t_def)

lemma PS_DEAD_less [simp]: "PS_DEAD < x \<longleftrightarrow> x \<noteq> PS_DEAD"
  by (cases x) (auto simp: less_process_state_t_def)

section \<open>Processes\<close>

text \<open>
  A machine word that the kernel stores on a stack: an integer, a code address fixed by the
  linker (\<^verbatim>\<open>PROC_end\<close>, \<^verbatim>\<open>PROC_end_user\<close>, \<^verbatim>\<open>JMP_usermode\<close>) or the address of a slot of a kernel stack.
\<close>

datatype cword = CInt int | CAddr u32 | A_PROC_end | A_PROC_end_user | A_JMP_usermode | A_kstack nat nat

text \<open>Addresses of the \<^verbatim>\<open>int\<close> cells that blocked system calls publish.\<close>

datatype iptr = I_null | I_child nat | I_retval nat | I_message nat | I_user u32

datatype state_attr_t =
  SA_asleep (sa_clock: "u32 option") (sa_next: "ptr option")
| SA_retval int
| SA_child iptr
| SA_next_runnable ptr
| SA_wait_queue (wq_next: "ptr option") (wq_fid: "int option") (wq_retval: "iptr option")
    (wq_message: "iptr option")
| SA_next_dead ptr

record process_t =
  pid :: int
  parent :: int
  pname :: string
  prio :: int
  state :: process_state_t
  state_attr :: state_attr_t
  registers :: "nat \<Rightarrow> cword"
  kernel_stack :: "nat \<Rightarrow> cword"
  user_stack :: "u32 option"
  ssize :: u32

section \<open>Message queues\<close>

record queue_t =
  front :: int
  rear :: int
  qsize :: int
  capacity :: int
  messages :: "int list option"
  empty_process :: ptr
  full_process :: ptr

section \<open>The kernel state\<close>

text \<open>What is left of a system call when the process is switched back to.\<close>

datatype cont =
  K_ret int          \<comment> \<open>return this value\<close>
| K_retval           \<comment> \<open>return the local \<^verbatim>\<open>retval\<close> (blocked \<^verbatim>\<open>psend\<close>, \<^verbatim>\<open>preceive\<close>)\<close>
| K_waitpid iptr     \<comment> \<open>the rest of \<^verbatim>\<open>waitpid\<close> with this \<^verbatim>\<open>retvalp\<close>\<close>
| K_iret             \<comment> \<open>return from the timer interrupt\<close>
| K_hang             \<comment> \<open>the endless loop at the end of \<^verbatim>\<open>exit\<close>\<close>

record kstate =
  processes :: "nat \<Rightarrow> process_t"
  active_process :: nat
  runnable_process_head :: ptr
  dead_process_head :: ptr
  asleep_process_head :: ptr
  queues :: "nat \<Rightarrow> queue_t"
  pit_count :: u32
  tss_esp0 :: cword
  child_pid :: "nat \<Rightarrow> int"
  retval_cell :: "nat \<Rightarrow> int"
  message_cell :: "nat \<Rightarrow> int"
  umem :: "u32 \<Rightarrow> cword"
  ustack_blocks :: "(u32 \<times> u32) list"
  kheap_used :: int
  pend :: "nat \<Rightarrow> cont option"

definition upd_proc :: "nat \<Rightarrow> (process_t \<Rightarrow> process_t) \<Rightarrow> kstate \<Rightarrow> kstate" where
  "upd_proc p f s = s\<lparr>processes := (processes s)(p := f (processes s p))\<rparr>"

definition set_state :: "nat \<Rightarrow> process_state_t \<Rightarrow> kstate \<Rightarrow> kstate" where
  "set_state p x = upd_proc p (\<lambda>q. q\<lparr>state := x\<rparr>)"

definition set_attr :: "nat \<Rightarrow> state_attr_t \<Rightarrow> kstate \<Rightarrow> kstate" where
  "set_attr p x = upd_proc p (\<lambda>q. q\<lparr>state_attr := x\<rparr>)"

definition upd_queue :: "nat \<Rightarrow> (queue_t \<Rightarrow> queue_t) \<Rightarrow> kstate \<Rightarrow> kstate" where
  "upd_queue f g s = s\<lparr>queues := (queues s)(f := g (queues s f))\<rparr>"

section \<open>Reads and writes of the union\<close>

text \<open>Reads: \<open>None\<close> when the member is not the active one or the field has not been written.\<close>

definition u_next_runnable :: "state_attr_t \<Rightarrow> ptr option" where
  "u_next_runnable a = (case a of SA_next_runnable n \<Rightarrow> Some n | _ \<Rightarrow> None)"

definition u_next_dead :: "state_attr_t \<Rightarrow> ptr option" where
  "u_next_dead a = (case a of SA_next_dead n \<Rightarrow> Some n | _ \<Rightarrow> None)"

definition u_asleep_next :: "state_attr_t \<Rightarrow> ptr option" where
  "u_asleep_next a = (case a of SA_asleep _ n \<Rightarrow> n | _ \<Rightarrow> None)"

definition u_asleep_clock :: "state_attr_t \<Rightarrow> u32 option" where
  "u_asleep_clock a = (case a of SA_asleep c _ \<Rightarrow> c | _ \<Rightarrow> None)"

definition u_wait_next :: "state_attr_t \<Rightarrow> ptr option" where
  "u_wait_next a = (case a of SA_wait_queue n _ _ _ \<Rightarrow> n | _ \<Rightarrow> None)"

definition u_wait_fid :: "state_attr_t \<Rightarrow> int option" where
  "u_wait_fid a = (case a of SA_wait_queue _ f _ _ \<Rightarrow> f | _ \<Rightarrow> None)"

definition u_wait_retval :: "state_attr_t \<Rightarrow> iptr option" where
  "u_wait_retval a = (case a of SA_wait_queue _ _ r _ \<Rightarrow> r | _ \<Rightarrow> None)"

definition u_wait_message :: "state_attr_t \<Rightarrow> iptr option" where
  "u_wait_message a = (case a of SA_wait_queue _ _ _ m \<Rightarrow> m | _ \<Rightarrow> None)"

definition u_zombie_retval :: "state_attr_t \<Rightarrow> int option" where
  "u_zombie_retval a = (case a of SA_retval v \<Rightarrow> Some v | _ \<Rightarrow> None)"

definition u_child :: "state_attr_t \<Rightarrow> iptr option" where
  "u_child a = (case a of SA_child c \<Rightarrow> Some c | _ \<Rightarrow> None)"

text \<open>Writes of a field of a struct member keep its other fields when that member is active.\<close>

definition w_asleep_next :: "ptr \<Rightarrow> state_attr_t \<Rightarrow> state_attr_t" where
  "w_asleep_next n a = (case a of SA_asleep c _ \<Rightarrow> SA_asleep c (Some n) | _ \<Rightarrow> SA_asleep None (Some n))"

definition w_asleep_clock :: "u32 \<Rightarrow> state_attr_t \<Rightarrow> state_attr_t" where
  "w_asleep_clock c a = (case a of SA_asleep _ n \<Rightarrow> SA_asleep (Some c) n | _ \<Rightarrow> SA_asleep (Some c) None)"

definition w_wait_next :: "ptr \<Rightarrow> state_attr_t \<Rightarrow> state_attr_t" where
  "w_wait_next n a = (case a of SA_wait_queue _ f r m \<Rightarrow> SA_wait_queue (Some n) f r m
     | _ \<Rightarrow> SA_wait_queue (Some n) None None None)"

definition w_wait_fid :: "int \<Rightarrow> state_attr_t \<Rightarrow> state_attr_t" where
  "w_wait_fid f a = (case a of SA_wait_queue n _ r m \<Rightarrow> SA_wait_queue n (Some f) r m
     | _ \<Rightarrow> SA_wait_queue None (Some f) None None)"

definition w_wait_retval :: "iptr \<Rightarrow> state_attr_t \<Rightarrow> state_attr_t" where
  "w_wait_retval r a = (case a of SA_wait_queue n f _ m \<Rightarrow> SA_wait_queue n f (Some r) m
     | _ \<Rightarrow> SA_wait_queue None None (Some r) None)"

definition w_wait_message :: "iptr \<Rightarrow> state_attr_t \<Rightarrow> state_attr_t" where
  "w_wait_message m a = (case a of SA_wait_queue n f r _ \<Rightarrow> SA_wait_queue n f r (Some m)
     | _ \<Rightarrow> SA_wait_queue None None None (Some m))"

lemmas union_defs = u_next_runnable_def u_next_dead_def u_asleep_next_def u_asleep_clock_def
  u_wait_next_def u_wait_fid_def u_wait_retval_def u_wait_message_def u_zombie_retval_def u_child_def
  w_asleep_next_def w_asleep_clock_def w_wait_next_def w_wait_fid_def w_wait_retval_def w_wait_message_def

lemma union_simps [simp]:
  "u_next_runnable (SA_next_runnable n) = Some n" "u_next_dead (SA_next_dead n) = Some n"
  "u_zombie_retval (SA_retval v) = Some v" "u_child (SA_child c) = Some c"
  "u_asleep_next (w_asleep_next n a) = Some n" "u_asleep_clock (w_asleep_next n a) = u_asleep_clock a"
  "u_asleep_clock (w_asleep_clock t a) = Some t"
  "u_wait_next (w_wait_next n a) = Some n" "u_wait_fid (w_wait_next n a) = u_wait_fid a"
  "u_wait_retval (w_wait_next n a) = u_wait_retval a" "u_wait_message (w_wait_next n a) = u_wait_message a"
  "u_wait_fid (w_wait_fid f a) = Some f"
  "u_wait_fid (w_wait_retval r a) = u_wait_fid a" "u_wait_retval (w_wait_retval r a) = Some r"
  "u_wait_fid (w_wait_message m a) = u_wait_fid a" "u_wait_retval (w_wait_message m a) = u_wait_retval a"
  "u_wait_message (w_wait_message m a) = Some m"
  by (simp_all add: union_defs split: state_attr_t.split)

abbreviation next_runnable :: "kstate \<Rightarrow> nat \<Rightarrow> ptr option" where
  "next_runnable \<equiv> \<lambda>s p. u_next_runnable (state_attr (processes s p))"
abbreviation next_dead :: "kstate \<Rightarrow> nat \<Rightarrow> ptr option" where
  "next_dead \<equiv> \<lambda>s p. u_next_dead (state_attr (processes s p))"
abbreviation asleep_next :: "kstate \<Rightarrow> nat \<Rightarrow> ptr option" where
  "asleep_next \<equiv> \<lambda>s p. u_asleep_next (state_attr (processes s p))"
abbreviation asleep_clock :: "kstate \<Rightarrow> nat \<Rightarrow> u32 option" where
  "asleep_clock \<equiv> \<lambda>s p. u_asleep_clock (state_attr (processes s p))"
abbreviation wait_next :: "kstate \<Rightarrow> nat \<Rightarrow> ptr option" where
  "wait_next \<equiv> \<lambda>s p. u_wait_next (state_attr (processes s p))"
abbreviation wait_fid :: "kstate \<Rightarrow> nat \<Rightarrow> int option" where
  "wait_fid \<equiv> \<lambda>s p. u_wait_fid (state_attr (processes s p))"
abbreviation wait_retval :: "kstate \<Rightarrow> nat \<Rightarrow> iptr option" where
  "wait_retval \<equiv> \<lambda>s p. u_wait_retval (state_attr (processes s p))"
abbreviation wait_message :: "kstate \<Rightarrow> nat \<Rightarrow> iptr option" where
  "wait_message \<equiv> \<lambda>s p. u_wait_message (state_attr (processes s p))"
abbreviation zombie_retval :: "kstate \<Rightarrow> nat \<Rightarrow> int option" where
  "zombie_retval \<equiv> \<lambda>s p. u_zombie_retval (state_attr (processes s p))"
abbreviation child_ptr :: "kstate \<Rightarrow> nat \<Rightarrow> iptr option" where
  "child_ptr \<equiv> \<lambda>s p. u_child (state_attr (processes s p))"

definition upd_attr :: "nat \<Rightarrow> (state_attr_t \<Rightarrow> state_attr_t) \<Rightarrow> kstate \<Rightarrow> kstate" where
  "upd_attr p g = upd_proc p (\<lambda>q. q\<lparr>state_attr := g (state_attr q)\<rparr>)"

abbreviation set_next_runnable :: "nat \<Rightarrow> ptr \<Rightarrow> kstate \<Rightarrow> kstate" where
  "set_next_runnable \<equiv> \<lambda>p n. set_attr p (SA_next_runnable n)"
abbreviation set_next_dead :: "nat \<Rightarrow> ptr \<Rightarrow> kstate \<Rightarrow> kstate" where
  "set_next_dead \<equiv> \<lambda>p n. set_attr p (SA_next_dead n)"
abbreviation set_asleep_next :: "nat \<Rightarrow> ptr \<Rightarrow> kstate \<Rightarrow> kstate" where
  "set_asleep_next \<equiv> \<lambda>p n. upd_attr p (w_asleep_next n)"
abbreviation set_wait_next :: "nat \<Rightarrow> ptr \<Rightarrow> kstate \<Rightarrow> kstate" where
  "set_wait_next \<equiv> \<lambda>p n. upd_attr p (w_wait_next n)"

lemmas upd_defs = upd_proc_def set_state_def set_attr_def upd_attr_def upd_queue_def

lemma upd_proc_fields [simp]:
  "active_process (upd_proc p f s) = active_process s"
  "runnable_process_head (upd_proc p f s) = runnable_process_head s"
  "dead_process_head (upd_proc p f s) = dead_process_head s"
  "asleep_process_head (upd_proc p f s) = asleep_process_head s"
  "queues (upd_proc p f s) = queues s" "pit_count (upd_proc p f s) = pit_count s"
  "tss_esp0 (upd_proc p f s) = tss_esp0 s" "child_pid (upd_proc p f s) = child_pid s"
  "retval_cell (upd_proc p f s) = retval_cell s" "message_cell (upd_proc p f s) = message_cell s"
  "umem (upd_proc p f s) = umem s" "ustack_blocks (upd_proc p f s) = ustack_blocks s"
  "kheap_used (upd_proc p f s) = kheap_used s" "pend (upd_proc p f s) = pend s"
  by (simp_all add: upd_defs)

lemma set_state_fields [simp]:
  "active_process (set_state p x s) = active_process s"
  "runnable_process_head (set_state p x s) = runnable_process_head s"
  "dead_process_head (set_state p x s) = dead_process_head s"
  "asleep_process_head (set_state p x s) = asleep_process_head s"
  "queues (set_state p x s) = queues s" "pit_count (set_state p x s) = pit_count s"
  "tss_esp0 (set_state p x s) = tss_esp0 s" "child_pid (set_state p x s) = child_pid s"
  "retval_cell (set_state p x s) = retval_cell s"
  "message_cell (set_state p x s) = message_cell s" "umem (set_state p x s) = umem s"
  "ustack_blocks (set_state p x s) = ustack_blocks s"
  "kheap_used (set_state p x s) = kheap_used s" "pend (set_state p x s) = pend s"
  by (simp_all add: upd_defs)

lemma set_attr_fields [simp]:
  "active_process (set_attr p a s) = active_process s"
  "runnable_process_head (set_attr p a s) = runnable_process_head s"
  "dead_process_head (set_attr p a s) = dead_process_head s"
  "asleep_process_head (set_attr p a s) = asleep_process_head s"
  "queues (set_attr p a s) = queues s" "pit_count (set_attr p a s) = pit_count s"
  "tss_esp0 (set_attr p a s) = tss_esp0 s" "child_pid (set_attr p a s) = child_pid s"
  "retval_cell (set_attr p a s) = retval_cell s" "message_cell (set_attr p a s) = message_cell s"
  "umem (set_attr p a s) = umem s" "ustack_blocks (set_attr p a s) = ustack_blocks s"
  "kheap_used (set_attr p a s) = kheap_used s" "pend (set_attr p a s) = pend s"
  by (simp_all add: upd_defs)

lemma upd_attr_fields [simp]:
  "active_process (upd_attr p g s) = active_process s"
  "runnable_process_head (upd_attr p g s) = runnable_process_head s"
  "dead_process_head (upd_attr p g s) = dead_process_head s"
  "asleep_process_head (upd_attr p g s) = asleep_process_head s"
  "queues (upd_attr p g s) = queues s" "pit_count (upd_attr p g s) = pit_count s"
  "tss_esp0 (upd_attr p g s) = tss_esp0 s" "child_pid (upd_attr p g s) = child_pid s"
  "retval_cell (upd_attr p g s) = retval_cell s" "message_cell (upd_attr p g s) = message_cell s"
  "umem (upd_attr p g s) = umem s" "ustack_blocks (upd_attr p g s) = ustack_blocks s"
  "kheap_used (upd_attr p g s) = kheap_used s" "pend (upd_attr p g s) = pend s"
  by (simp_all add: upd_defs)

lemma set_state_reads [simp]:
  "state_attr (processes (set_state p x s) q) = state_attr (processes s q)"
  "state (processes (set_state p x s) q) = (if q = p then x else state (processes s q))"
  "prio (processes (set_state p x s) q) = prio (processes s q)"
  "parent (processes (set_state p x s) q) = parent (processes s q)"
  by (simp_all add: upd_defs)

lemma set_attr_reads [simp]:
  "state (processes (set_attr p a s) q) = state (processes s q)"
  "prio (processes (set_attr p a s) q) = prio (processes s q)"
  "parent (processes (set_attr p a s) q) = parent (processes s q)"
  "pid (processes (set_attr p a s) q) = pid (processes s q)"
  by (simp_all add: upd_defs)

lemma upd_attr_reads [simp]:
  "state (processes (upd_attr p g s) q) = state (processes s q)"
  "prio (processes (upd_attr p g s) q) = prio (processes s q)"
  "parent (processes (upd_attr p g s) q) = parent (processes s q)"
  "pid (processes (upd_attr p g s) q) = pid (processes s q)"
  by (simp_all add: upd_defs)

interpretation run: linked_list next_runnable set_next_runnable
  by unfold_locales (simp add: upd_defs)

interpretation dead: linked_list next_dead set_next_dead
  by unfold_locales (simp add: upd_defs)

interpretation slp: linked_list asleep_next set_asleep_next
  by unfold_locales (simp add: upd_defs)

interpretation wtq: linked_list wait_next set_wait_next
  by unfold_locales (simp add: upd_defs)

section \<open>User stack allocator\<close>

text \<open>
  The allocator of user stacks is the wrapper at the end of \<^verbatim>\<open>shared/malloc.c.h\<close> over a general
  purpose allocator. Its state here is the list of live blocks; \<^verbatim>\<open>mem_free\<close> does nothing for
  length 0 and stops the system when the length is not the one the block was allocated with.
\<close>

definition user_stack_free :: "u32 \<Rightarrow> u32 \<Rightarrow> kstate \<Rightarrow> kstate option" where
  "user_stack_free zone len s =
     (if len = 0 then Some s
      else if (zone, len) \<in> set (ustack_blocks s)
      then Some (s\<lparr>ustack_blocks := remove1 (zone, len) (ustack_blocks s)\<rparr>)
      else None)"

section \<open>Integer cells\<close>

definition load_int :: "iptr \<Rightarrow> kstate \<Rightarrow> int option" where
  "load_int a s = (case a of I_null \<Rightarrow> None
     | I_child p \<Rightarrow> Some (child_pid s p)
     | I_retval p \<Rightarrow> Some (retval_cell s p)
     | I_message p \<Rightarrow> Some (message_cell s p)
     | I_user u \<Rightarrow> (case umem s u of CInt v \<Rightarrow> Some v | _ \<Rightarrow> None))"

definition store_int :: "iptr \<Rightarrow> int \<Rightarrow> kstate \<Rightarrow> kstate option" where
  "store_int a v s = (case a of I_null \<Rightarrow> None
     | I_child p \<Rightarrow> Some (s\<lparr>child_pid := (child_pid s)(p := v)\<rparr>)
     | I_retval p \<Rightarrow> Some (s\<lparr>retval_cell := (retval_cell s)(p := v)\<rparr>)
     | I_message p \<Rightarrow> Some (s\<lparr>message_cell := (message_cell s)(p := v)\<rparr>)
     | I_user u \<Rightarrow> Some (s\<lparr>umem := (umem s)(u := CInt v)\<rparr>))"

lemma load_store: "store_int a v s = Some s' \<Longrightarrow> load_int a s' = Some v"
  by (auto simp: load_int_def store_int_def split: iptr.splits)

text \<open>\<^verbatim>\<open>push_cont k\<close>: the active process calls the scheduler with \<open>k\<close> left to do, or returns.\<close>

definition push_cont :: "cont \<Rightarrow> kstate \<Rightarrow> kstate" where
  "push_cont k s = s\<lparr>pend := (pend s)(active_process s := Some k)\<rparr>"

end
