(* ===== verification/Kernel_Lists.thy ===== *)
theory Kernel_Lists
  imports Kernel_State
begin

text \<open>
  The linked lists of the kernel: the runnable list and the dead stack of
  \<^verbatim>\<open>kernel/scheduler.c\<close>, the list of sleeping processes, and the two lists of waiting
  processes of each message queue of \<^verbatim>\<open>kernel/queues.c\<close>. Each operation is translated with the
  pointer it moves along the list; the bound of each traversal is the number of processes.
\<close>

section \<open>Runnable list\<close>

definition remove_runnable :: "nat \<Rightarrow> kstate \<Rightarrow> kstate option" where
  "remove_runnable ps s =
     (case runnable_process_head s of
        None \<Rightarrow> Some s
      | Some h \<Rightarrow>
          if state (processes s ps) = PS_RUNNABLE then
            (if h = ps then do {
               n \<leftarrow> next_runnable s h;
               Some (s\<lparr>runnable_process_head := n\<rparr>) }
             else do {
               node \<leftarrow> walk NBPROC (next_runnable s) (\<lambda>k. Some (k \<noteq> ps)) h;
               n \<leftarrow> next_runnable s node;
               (case n of
                  None \<Rightarrow> Some s
                | Some k \<Rightarrow> do {
                    n' \<leftarrow> next_runnable s k;
                    Some (set_next_runnable node n' s) }) })
          else Some s)"

definition push_runnable :: "nat \<Rightarrow> kstate \<Rightarrow> kstate option" where
  "push_runnable ps s =
     (if state (processes s ps) = PS_RUNNABLE then None
      else let s = set_state ps PS_RUNNABLE s; pr = prio (processes s ps) in
        (case runnable_process_head s of
           None \<Rightarrow> Some ((set_next_runnable ps None s)\<lparr>runnable_process_head := Some ps\<rparr>)
         | Some h \<Rightarrow>
             if pr > prio (processes s h) then
               Some ((set_next_runnable ps (Some h) s)\<lparr>runnable_process_head := Some ps\<rparr>)
             else do {
               current \<leftarrow> walk NBPROC (next_runnable s) (\<lambda>k. Some (pr \<le> prio (processes s k))) h;
               n \<leftarrow> next_runnable s current;
               Some (set_next_runnable current (Some ps) (set_next_runnable ps n s)) }))"

section \<open>Dead stack\<close>

definition push_dead :: "nat \<Rightarrow> kstate \<Rightarrow> kstate option" where
  "push_dead ps s =
     (if state (processes s ps) = PS_DEAD then None
      else do {
        s \<leftarrow> (case user_stack (processes s ps) of
                None \<Rightarrow> Some s
              | Some a \<Rightarrow> do {
                  s \<leftarrow> user_stack_free a (ssize (processes s ps)) s;
                  Some (upd_proc ps (\<lambda>q. q\<lparr>user_stack := None\<rparr>) s) });
        let s = set_state ps PS_DEAD s;
            s = set_next_dead ps (dead_process_head s) s
        in Some (s\<lparr>dead_process_head := Some ps\<rparr>) })"

definition pop_dead :: "kstate \<Rightarrow> (nat \<times> kstate) option" where
  "pop_dead s = do {
     ps \<leftarrow> dead_process_head s;
     n \<leftarrow> next_dead s ps;
     if state (processes s ps) = PS_DEAD then Some (ps, s\<lparr>dead_process_head := n\<rparr>) else None }"

section \<open>Sleeping processes\<close>

text \<open>The second half of \<^verbatim>\<open>wait_clock\<close>: linking the process by ascending wake time.\<close>

definition insert_asleep :: "nat \<Rightarrow> u32 \<Rightarrow> kstate \<Rightarrow> kstate option" where
  "insert_asleep ps clock s =
     (case asleep_process_head s of
        None \<Rightarrow> Some ((set_asleep_next ps None s)\<lparr>asleep_process_head := Some ps\<rparr>)
      | Some h \<Rightarrow> do {
          hc \<leftarrow> asleep_clock s h;
          if clock \<le> hc then
            Some ((set_asleep_next ps (Some h) s)\<lparr>asleep_process_head := Some ps\<rparr>)
          else do {
            prev \<leftarrow> walk NBPROC (asleep_next s)
                      (\<lambda>k. map_option (\<lambda>c. clock > c) (asleep_clock s k)) h;
            n \<leftarrow> asleep_next s prev;
            Some (set_asleep_next prev (Some ps) (set_asleep_next ps n s)) } })"

text \<open>The first case of the switch of \<^verbatim>\<open>stop\<close>: unlinking a sleeping process.\<close>

definition remove_asleep :: "nat \<Rightarrow> kstate \<Rightarrow> kstate option" where
  "remove_asleep ps s = do {
     h \<leftarrow> asleep_process_head s;
     if ps = h then do {
       n \<leftarrow> asleep_next s ps;
       Some (s\<lparr>asleep_process_head := n\<rparr>) }
     else do {
       prev \<leftarrow> walk NBPROC (asleep_next s) (\<lambda>k. Some (k \<noteq> ps)) h;
       n \<leftarrow> asleep_next s prev;
       (case n of
          None \<Rightarrow> Some s
        | Some _ \<Rightarrow> do {
            n' \<leftarrow> asleep_next s ps;
            Some (set_asleep_next prev n' s) }) } }"

text \<open>The loop at the start of \<^verbatim>\<open>tick_scheduler\<close>.\<close>

fun wake_asleep :: "nat \<Rightarrow> kstate \<Rightarrow> kstate option" where
  "wake_asleep fuel s =
     (case asleep_process_head s of
        None \<Rightarrow> Some s
      | Some h \<Rightarrow> do {
          c \<leftarrow> asleep_clock s h;
          if pit_count s \<ge> c then
            (case fuel of
               0 \<Rightarrow> None
             | Suc fuel' \<Rightarrow>
                 if state (processes s h) = PS_ASLEEP then do {
                   n \<leftarrow> asleep_next s h;
                   s \<leftarrow> push_runnable h (s\<lparr>asleep_process_head := n\<rparr>);
                   wake_asleep fuel' s }
                 else None)
          else Some s })"

declare wake_asleep.simps [simp del]

section \<open>Processes waiting on a message queue\<close>

text \<open>\<^verbatim>\<open>struct process_t **head\<close> is the address of one of the two list heads of a queue.\<close>

datatype wside = W_empty | W_full

definition wait_head :: "wside \<Rightarrow> nat \<Rightarrow> kstate \<Rightarrow> ptr" where
  "wait_head w f s = (case w of W_empty \<Rightarrow> empty_process (queues s f) | W_full \<Rightarrow> full_process (queues s f))"

definition set_wait_head :: "wside \<Rightarrow> nat \<Rightarrow> ptr \<Rightarrow> kstate \<Rightarrow> kstate" where
  "set_wait_head w f h = upd_queue f (\<lambda>q. case w of
     W_empty \<Rightarrow> q\<lparr>empty_process := h\<rparr> | W_full \<Rightarrow> q\<lparr>full_process := h\<rparr>)"

lemma wait_head_frame [simp]:
  "wait_head w f (processes_update g1 s) = wait_head w f s"
  "wait_head w f (active_process_update g2 s) = wait_head w f s"
  "wait_head w f (runnable_process_head_update g3 s) = wait_head w f s"
  "wait_head w f (dead_process_head_update g4 s) = wait_head w f s"
  "wait_head w f (asleep_process_head_update g5 s) = wait_head w f s"
  "wait_head w f (pit_count_update g6 s) = wait_head w f s"
  "wait_head w f (tss_esp0_update g7 s) = wait_head w f s"
  "wait_head w f (child_pid_update g8 s) = wait_head w f s"
  "wait_head w f (retval_cell_update g9 s) = wait_head w f s"
  "wait_head w f (message_cell_update g10 s) = wait_head w f s"
  "wait_head w f (umem_update g11 s) = wait_head w f s"
  "wait_head w f (ustack_blocks_update g12 s) = wait_head w f s"
  "wait_head w f (kheap_used_update g13 s) = wait_head w f s"
  "wait_head w f (pend_update g14 s) = wait_head w f s"
  "wait_head w f (upd_attr p h s) = wait_head w f s"
  "wait_head w f (set_attr p a s) = wait_head w f s"
  "wait_head w f (set_state p x s) = wait_head w f s"
  "wait_head w f (upd_proc p k s) = wait_head w f s"
  by (cases w; simp add: wait_head_def)+

abbreviation waiting_on_queue :: "process_state_t \<Rightarrow> bool" where
  "waiting_on_queue x \<equiv> x = PS_WAIT_QUEUE_EMPTY \<or> x = PS_WAIT_QUEUE_FULL"

definition push_waiting_process :: "wside \<Rightarrow> nat \<Rightarrow> nat \<Rightarrow> kstate \<Rightarrow> kstate option" where
  "push_waiting_process w f ps s =
     (if \<not> waiting_on_queue (state (processes s ps)) then None
      else let pr = prio (processes s ps) in
        (case wait_head w f s of
           None \<Rightarrow> Some (set_wait_head w f (Some ps) (set_wait_next ps None s))
         | Some h \<Rightarrow>
             if pr > prio (processes s h) then
               Some (set_wait_head w f (Some ps) (set_wait_next ps (Some h) s))
             else do {
               cur \<leftarrow> walk NBPROC (wait_next s) (\<lambda>k. Some (pr \<le> prio (processes s k))) h;
               n \<leftarrow> wait_next s cur;
               Some (set_wait_next cur (Some ps)
                      (set_wait_next ps (case n of None \<Rightarrow> None | Some k \<Rightarrow> Some k) s)) }))"

definition pop_waiting_process :: "wside \<Rightarrow> nat \<Rightarrow> nat \<Rightarrow> kstate \<Rightarrow> kstate option" where
  "pop_waiting_process w f ps s =
     (if \<not> waiting_on_queue (state (processes s ps)) then None
      else do {
        h \<leftarrow> wait_head w f s;
        if h = ps then do {
          n \<leftarrow> wait_next s ps;
          Some (set_wait_head w f n s) }
        else do {
          cur \<leftarrow> walk NBPROC (wait_next s) (\<lambda>k. Some (k \<noteq> ps)) h;
          n \<leftarrow> wait_next s cur;
          (case n of
             None \<Rightarrow> Some s
           | Some _ \<Rightarrow> do {
               n' \<leftarrow> wait_next s ps;
               Some (set_wait_next cur n' s) }) } })"

text \<open>\<^verbatim>\<open>queues[fid]\<close> with a checked index.\<close>

definition queue_index :: "kstate \<Rightarrow> nat \<Rightarrow> nat option" where
  "queue_index s ps = do {
     fid \<leftarrow> wait_fid s ps;
     if 0 \<le> fid \<and> fid < int NBQUEUE then Some (nat fid) else None }"

definition queue_reorder_empty_process :: "nat \<Rightarrow> kstate \<Rightarrow> kstate option" where
  "queue_reorder_empty_process ps s = do {
     f \<leftarrow> queue_index s ps;
     s \<leftarrow> pop_waiting_process W_empty f ps s;
     push_waiting_process W_empty f ps s }"

definition queue_reorder_full_process :: "nat \<Rightarrow> kstate \<Rightarrow> kstate option" where
  "queue_reorder_full_process ps s = do {
     f \<leftarrow> queue_index s ps;
     s \<leftarrow> pop_waiting_process W_full f ps s;
     push_waiting_process W_full f ps s }"

definition queue_remove_empty_process :: "nat \<Rightarrow> kstate \<Rightarrow> kstate option" where
  "queue_remove_empty_process ps s = do {
     f \<leftarrow> queue_index s ps;
     pop_waiting_process W_empty f ps s }"

definition queue_remove_full_process :: "nat \<Rightarrow> kstate \<Rightarrow> kstate option" where
  "queue_remove_full_process ps s = do {
     f \<leftarrow> queue_index s ps;
     pop_waiting_process W_full f ps s }"

end
