(* ===== verification/Scheduler.thy ===== *)
theory Scheduler
  imports Kernel_Lists
begin

text \<open>
  \<^verbatim>\<open>kernel/scheduler.c\<close>: choice of the running process, creation, termination, waiting.

  An operation called by the active process ends in one of two ways: it returns (\<open>push_cont\<close> with
  what it returns), or it calls the scheduler with the rest of its code pushed, in which case
  another process may be active in the resulting state. \<open>resume\<close> runs what the process that is
  active has pending: it is the return from \<^verbatim>\<open>CTX_switch\<close> (or from the operation itself) and
  gives the value that process receives.
\<close>

section \<open>The scheduler\<close>

definition tick_scheduler :: "kstate \<Rightarrow> kstate option" where
  "tick_scheduler s = do {
     s \<leftarrow> wake_asleep NBPROC s;
     if state (processes s (active_process s)) \<noteq> PS_RUNNING \<or>
        (case runnable_process_head s of None \<Rightarrow> False
         | Some h \<Rightarrow> prio (processes s h) \<ge> prio (processes s (active_process s)))
     then do {
       let prev = active_process s;
       h \<leftarrow> runnable_process_head s;
       n \<leftarrow> next_runnable s h;
       let s = s\<lparr>active_process := h, runnable_process_head := n\<rparr>;
       s \<leftarrow> (if state (processes s prev) = PS_RUNNING then push_runnable prev s else Some s);
       let s = set_state (active_process s) PS_RUNNING s;
       Some (s\<lparr>tss_esp0 := A_kstack (active_process s) (NBSTACK - 1)\<rparr>) }
     else Some s }"

definition fix_scheduler :: "kstate \<Rightarrow> kstate option" where
  "fix_scheduler s =
     (if state (processes s (active_process s)) \<noteq> PS_RUNNING \<or>
         (case runnable_process_head s of None \<Rightarrow> False
          | Some h \<Rightarrow> prio (processes s (active_process s)) < prio (processes s h))
      then tick_scheduler s else Some s)"

section \<open>Queries\<close>

definition getpid :: "kstate \<Rightarrow> int" where
  "getpid s = pid (processes s (active_process s))"

definition getproc :: "kstate \<Rightarrow> nat option" where
  "getproc s = (if 0 \<le> getpid s \<and> getpid s < int NBPROC then Some (nat (getpid s)) else None)"

definition is_valid_pid :: "kstate \<Rightarrow> int \<Rightarrow> bool" where
  "is_valid_pid s p \<longleftrightarrow> 0 \<le> p \<and> p < int NBPROC \<and> state (processes s (nat p)) \<noteq> PS_DEAD"

definition alive_pid :: "kstate \<Rightarrow> int \<Rightarrow> bool" where
  "alive_pid s p \<longleftrightarrow> \<not> (p < 0 \<or> p \<ge> int NBPROC \<or> state (processes s (nat p)) < PS_RUNNABLE)"

definition getprio :: "int \<Rightarrow> kstate \<Rightarrow> int" where
  "getprio p s = (if \<not> alive_pid s p then NOPID else prio (processes s (nat p)))"

definition getpname :: "int \<Rightarrow> kstate \<Rightarrow> string option" where
  "getpname p s = (if \<not> is_valid_pid s p then None else Some (pname (processes s (nat p))))"

section \<open>Change of priority\<close>

definition chprio :: "int \<Rightarrow> int \<Rightarrow> kstate \<Rightarrow> kstate option" where
  "chprio p newprio s =
     (if \<not> alive_pid s p then Some (push_cont (K_ret NOPID) s)
      else if newprio \<le> 0 \<or> newprio > MAXPRIO then Some (push_cont (K_ret (-2)) s)
      else let ps = nat p; oldprio = prio (processes s ps) in
        if oldprio = newprio then Some (push_cont (K_ret newprio) s)
        else let s = upd_proc ps (\<lambda>q. q\<lparr>prio := newprio\<rparr>) s in do {
          s \<leftarrow> (case state (processes s ps) of
                  PS_RUNNABLE \<Rightarrow> do {
                    s \<leftarrow> remove_runnable ps s;
                    push_runnable ps (set_state ps PS_ZOMBIE s) }
                | PS_WAIT_QUEUE_EMPTY \<Rightarrow> queue_reorder_empty_process ps s
                | PS_WAIT_QUEUE_FULL \<Rightarrow> queue_reorder_full_process ps s
                | _ \<Rightarrow> Some s);
          fix_scheduler (push_cont (K_ret oldprio) s) })"

section \<open>Creation\<close>

text \<open>
  The argument \<open>pt_func\<close> is a code address and \<open>arg\<close> the word passed to it. The new process has an
  empty kernel continuation: its first switch goes through the words put on its stack here.
  The first component of the result is the value returned.
\<close>

definition start_background :: "u32 \<Rightarrow> u32 \<Rightarrow> int \<Rightarrow> string \<Rightarrow> u32 \<Rightarrow> kstate \<Rightarrow> (int \<times> kstate) option" where
  "start_background pt_func sz pr nm arg s =
     (if unat sz div 4 > NBSTACK then Some (-2, s)
      else if dead_process_head s = None then Some (NOPID, s)
      else do {
        (ps, s) \<leftarrow> pop_dead s;
        let s = upd_proc ps (\<lambda>q. q\<lparr>
          pname := nm, prio := pr, parent := getpid s, ssize := 0, user_stack := None,
          kernel_stack := (kernel_stack q)(NBSTACK - 3 := CAddr pt_func, NBSTACK - 2 := A_PROC_end,
            NBSTACK - 1 := CAddr arg),
          registers := (registers q)(1 := A_kstack ps (NBSTACK - 3))\<rparr>) s;
        s \<leftarrow> push_runnable ps (s\<lparr>pend := (pend s)(ps := None)\<rparr>);
        Some (pid (processes s ps), s) })"

definition start :: "u32 \<Rightarrow> u32 \<Rightarrow> int \<Rightarrow> string \<Rightarrow> u32 \<Rightarrow> kstate \<Rightarrow> kstate option" where
  "start pt_func sz pr nm arg s = do {
     (p, s) \<leftarrow> start_background pt_func sz pr nm arg s;
     fix_scheduler (push_cont (K_ret p) s) }"

text \<open>
  \<open>alloc\<close> is \<^verbatim>\<open>user_stack_alloc\<close> at the moment of the call: the address of a new block of that
  length, or \<^verbatim>\<open>NULL\<close>.
\<close>

definition start_user_background ::
    "(u32 \<Rightarrow> u32 option) \<Rightarrow> u32 \<Rightarrow> u32 \<Rightarrow> int \<Rightarrow> string \<Rightarrow> u32 \<Rightarrow> kstate \<Rightarrow> (int \<times> kstate) option" where
  "start_user_background alloc pt_func sz pr nm arg s =
     (if sz > MAXSTACK then Some (-2, s)
      else if dead_process_head s = None then Some (NOPID, s)
      else do {
        (ps, s) \<leftarrow> pop_dead s;
        let n = sz + 20 * 4;
        let n = n + n mod 4;
        let s = upd_proc ps (\<lambda>q. q\<lparr>pname := nm, prio := pr, parent := getpid s,
          ssize := n, user_stack := alloc n\<rparr>) s;
        (case alloc n of
           None \<Rightarrow> Some (-1, s)
         | Some a \<Rightarrow> do {
             let k = n div 4;
             let top = a + 4 * (k - 2);
             let s = s\<lparr>ustack_blocks := (a, n) # ustack_blocks s,
               umem := (umem s)(top := A_PROC_end_user, a + 4 * (k - 1) := CAddr arg)\<rparr>;
             let s = upd_proc ps (\<lambda>q. q\<lparr>
               kernel_stack := (kernel_stack q)(
                 NBSTACK - 6 := A_JMP_usermode, NBSTACK - 5 := CAddr pt_func,
                 NBSTACK - 4 := CInt USER_CS, NBSTACK - 3 := CInt 0x202,
                 NBSTACK - 2 := CAddr top, NBSTACK - 1 := CInt USER_DS),
               registers := (registers q)(1 := A_kstack ps (NBSTACK - 6))\<rparr>) s;
             s \<leftarrow> push_runnable ps (s\<lparr>pend := (pend s)(ps := None)\<rparr>);
             Some (pid (processes s ps), s) }) })"

definition start_user ::
    "(u32 \<Rightarrow> u32 option) \<Rightarrow> u32 \<Rightarrow> u32 \<Rightarrow> int \<Rightarrow> string \<Rightarrow> u32 \<Rightarrow> kstate \<Rightarrow> kstate option" where
  "start_user alloc pt_func sz pr nm arg s = do {
     (p, s) \<leftarrow> start_user_background alloc pt_func sz pr nm arg s;
     fix_scheduler (push_cont (K_ret p) s) }"

section \<open>Termination\<close>

text \<open>The loop of \<^verbatim>\<open>stop\<close> over the process table.\<close>

primrec unbind_children :: "int \<Rightarrow> nat list \<Rightarrow> kstate \<Rightarrow> kstate option" where
  "unbind_children me [] s = Some s"
| "unbind_children me (i # is) s = do {
     s \<leftarrow> (if parent (processes s i) \<noteq> me then Some s
           else if state (processes s i) = PS_ZOMBIE then push_dead i s
           else Some (upd_proc i (\<lambda>q. q\<lparr>parent := NOPID\<rparr>) s));
     unbind_children me is s }"

text \<open>The switch of \<^verbatim>\<open>stop\<close>: the process leaves the list it waits on.\<close>

definition leave_wait :: "nat \<Rightarrow> kstate \<Rightarrow> kstate option" where
  "leave_wait ps s = (case state (processes s ps) of
      PS_ASLEEP \<Rightarrow> remove_asleep ps s
    | PS_WAIT_QUEUE_EMPTY \<Rightarrow> queue_remove_empty_process ps s
    | PS_WAIT_QUEUE_FULL \<Rightarrow> queue_remove_full_process ps s
    | _ \<Rightarrow> Some s)"

text \<open>The else branch at the end of \<^verbatim>\<open>stop\<close>: the process has a parent, which may be waiting for it.\<close>

definition become_zombie :: "nat \<Rightarrow> int \<Rightarrow> int \<Rightarrow> kstate \<Rightarrow> kstate option" where
  "become_zombie ps p retval s =
     (let par = parent (processes s ps);
          s = set_attr ps (SA_retval retval) (set_state ps PS_ZOMBIE s)
      in if par < 0 \<or> par \<ge> int NBPROC then None
         else if state (processes s (nat par)) = PS_WAIT_CHILD then do {
           c \<leftarrow> child_ptr s (nat par);
           v \<leftarrow> load_int c s;
           if v = NOPID \<or> v = p then do {
             s \<leftarrow> store_int c p s;
             push_runnable (nat par) s }
           else Some s }
         else Some s)"

text \<open>
  \<open>after\<close> is the code that follows the call of \<^verbatim>\<open>stop\<close>, given the value \<^verbatim>\<open>stop\<close> returns.
\<close>

definition stop :: "(int \<Rightarrow> cont) \<Rightarrow> int \<Rightarrow> int \<Rightarrow> kstate \<Rightarrow> kstate option" where
  "stop after p retval s =
     (if \<not> alive_pid s p then Some (push_cont (after NOPID) s)
      else let ps = nat p in do {
        s \<leftarrow> unbind_children (pid (processes s ps)) [0..<NBPROC] s;
        s \<leftarrow> leave_wait ps s;
        s \<leftarrow> remove_runnable ps s;
        s \<leftarrow> (if parent (processes s ps) = NOPID then push_dead ps s else become_zombie ps p retval s);
        fix_scheduler (push_cont (after retval) s) })"

definition kill :: "int \<Rightarrow> kstate \<Rightarrow> kstate option" where
  "kill p s = (if p \<le> 0 then Some (push_cont (K_ret NOPID) s) else stop K_ret p 0 s)"

definition exit :: "int \<Rightarrow> kstate \<Rightarrow> kstate option" where
  "exit retval s = stop (\<lambda>_. K_hang) (getpid s) retval s"

section \<open>Waiting\<close>

definition wait_clock :: "u32 \<Rightarrow> kstate \<Rightarrow> kstate option" where
  "wait_clock clock s = do {
     ps \<leftarrow> getproc s;
     s \<leftarrow> remove_runnable ps s;
     s \<leftarrow> insert_asleep ps clock (upd_attr ps (w_asleep_clock clock) (set_state ps PS_ASLEEP s));
     tick_scheduler (push_cont (K_ret 0) s) }"

text \<open>The loop of \<^verbatim>\<open>waitpid\<close> over the table: whether a child exists, and the first zombie one.\<close>

primrec scan_children :: "int \<Rightarrow> nat list \<Rightarrow> bool \<Rightarrow> kstate \<Rightarrow> bool \<times> ptr" where
  "scan_children me [] has_child s = (has_child, None)"
| "scan_children me (i # is) has_child s =
     (if parent (processes s i) = me \<and> state (processes s i) > PS_DEAD then
        (if state (processes s i) = PS_ZOMBIE then (True, Some i) else scan_children me is True s)
      else scan_children me is has_child s)"

text \<open>The end of \<^verbatim>\<open>waitpid\<close>: the child is collected.\<close>

definition waitpid_collect :: "nat \<Rightarrow> iptr \<Rightarrow> kstate \<Rightarrow> (int \<times> kstate) option" where
  "waitpid_collect child retvalp s = do {
     s \<leftarrow> (if retvalp = I_null then Some s else do {
             v \<leftarrow> zombie_retval s child;
             store_int retvalp v s });
     s \<leftarrow> push_dead child s;
     Some (pid (processes s child), s) }"

text \<open>What \<^verbatim>\<open>waitpid\<close> does after the scheduler has switched back to it.\<close>

definition waitpid_resume :: "iptr \<Rightarrow> kstate \<Rightarrow> (int \<times> kstate) option" where
  "waitpid_resume retvalp s =
     (let c = child_pid s (active_process s) in
      if is_valid_pid s c \<and> state (processes s (nat c)) = PS_ZOMBIE
      then waitpid_collect (nat c) retvalp s else None)"

definition waitpid :: "int \<Rightarrow> iptr \<Rightarrow> kstate \<Rightarrow> kstate option" where
  "waitpid p retvalp s = do {
     ps \<leftarrow> getproc s;
     let me = pid (processes s ps);
     let (err, child) =
       (if p \<ge> 0 then
          (if \<not> is_valid_pid s p then (Some NOPID, None)
           else if parent (processes s (nat p)) \<noteq> me then (Some (-2), None)
           else (None, if state (processes s (nat p)) = PS_ZOMBIE then Some (nat p) else None))
        else (case scan_children me [0..<NBPROC] False s of
                (has_child, c) \<Rightarrow> (if c = None \<and> \<not> has_child then Some (-2) else None, c)));
     (case err of
        Some e \<Rightarrow> Some (push_cont (K_ret e) s)
      | None \<Rightarrow>
          (case child of
             Some c \<Rightarrow> do {
               (v, s) \<leftarrow> waitpid_collect c retvalp s;
               Some (push_cont (K_ret v) s) }
           | None \<Rightarrow> do {
               s \<leftarrow> remove_runnable ps s;
               let s = s\<lparr>child_pid := (child_pid s)(ps := p)\<rparr>;
               let s = set_attr ps (SA_child (I_child ps)) (set_state ps PS_WAIT_CHILD s);
               tick_scheduler (push_cont (K_waitpid retvalp) s) })) }"

section \<open>Start-up\<close>

text \<open>
  \<^verbatim>\<open>setup_scheduler\<close>; in the last slot the pointer past the table written by the loop is
  replaced by \<^verbatim>\<open>NULL\<close>.
\<close>

definition setup_scheduler :: "kstate \<Rightarrow> kstate" where
  "setup_scheduler s =
     (let s = s\<lparr>processes := (\<lambda>i. if i < NBPROC
            then (processes s i)\<lparr>pid := int i, state := PS_DEAD, state_attr := SA_next_dead (Some (Suc i))\<rparr>
            else processes s i)\<rparr>;
          s = set_attr (NBPROC - 1) (SA_next_dead None) s;
          s = s\<lparr>dead_process_head := Some 1\<rparr>;
          s = upd_proc 0 (\<lambda>q. q\<lparr>prio := 0, parent := NOPID, pname := ''idle'', state := PS_RUNNING\<rparr>) s
      in s\<lparr>active_process := 0\<rparr>)"

section \<open>Returning to the caller\<close>

definition run_cont :: "cont \<Rightarrow> kstate \<Rightarrow> (int option \<times> kstate) option" where
  "run_cont k s = (case k of
     K_ret v \<Rightarrow> Some (Some v, s)
   | K_retval \<Rightarrow> Some (Some (retval_cell s (active_process s)), s)
   | K_waitpid r \<Rightarrow> map_option (\<lambda>(v, s). (Some v, s)) (waitpid_resume r s)
   | K_iret \<Rightarrow> Some (None, s)
   | K_hang \<Rightarrow> None)"

definition resume :: "kstate \<Rightarrow> (int option \<times> kstate) option" where
  "resume s = (let a = active_process s in
     case pend s a of
       None \<Rightarrow> Some (None, s)
     | Some k \<Rightarrow> run_cont k (s\<lparr>pend := (pend s)(a := None)\<rparr>))"

section \<open>Status\<close>

text \<open>\<^verbatim>\<open>processes_status\<close> fills at most \<^verbatim>\<open>count\<close> entries and counts every process that is not dead.\<close>

record process_status_t =
  st_pid :: int
  st_parent :: int
  st_name :: string
  st_prio :: int
  st_state :: process_state_t
  st_ssize :: u32

text \<open>\<^verbatim>\<open>strncpy(name, ps->name, 19); name[19] = 0\<close>: the string in the array is the first 19 characters.\<close>

definition status_of :: "process_t \<Rightarrow> process_status_t" where
  "status_of q = \<lparr>st_pid = pid q, st_parent = parent q, st_name = take 19 (pname q), st_prio = prio q,
     st_state = state q, st_ssize = ssize q\<rparr>"

primrec status_loop :: "int \<Rightarrow> nat list \<Rightarrow> int \<Rightarrow> process_status_t list \<Rightarrow> kstate \<Rightarrow> int \<times> process_status_t list" where
  "status_loop count [] alive out s = (alive, out)"
| "status_loop count (i # is) alive out s =
     (if state (processes s i) = PS_DEAD then status_loop count is alive out s
      else status_loop count is (alive + 1)
        (if alive < count then out @ [status_of (processes s i)] else out) s)"

definition processes_status :: "int \<Rightarrow> kstate \<Rightarrow> int \<times> process_status_t list" where
  "processes_status count s =
     (if count < 0 then (-1, []) else status_loop count [0..<NBPROC] 0 [] s)"

end
