(* ===== verification/Msg_Queue.thy ===== *)
theory Msg_Queue
  imports Scheduler
begin

text \<open>
  \<^verbatim>\<open>kernel/queues.c\<close>: bounded message queues. The messages of a queue are a ring buffer; a process
  that receives from an empty queue or sends to a full one is linked into one of the two waiting
  lists of the queue and blocks.
\<close>

section \<open>The ring buffer\<close>

definition is_queue_full :: "queue_t \<Rightarrow> bool" where
  "is_queue_full q \<longleftrightarrow> qsize q = capacity q"

definition is_queue_empty :: "queue_t \<Rightarrow> bool" where
  "is_queue_empty q \<longleftrightarrow> qsize q = 0"

definition is_queue_free :: "queue_t \<Rightarrow> bool" where
  "is_queue_free q \<longleftrightarrow> capacity q = 0"

text \<open>Array accesses are checked: \<^verbatim>\<open>NULL\<close> and indices out of range give \<open>None\<close>.\<close>

definition msg_read :: "queue_t \<Rightarrow> int \<Rightarrow> int option" where
  "msg_read q i = do {
     ms \<leftarrow> messages q;
     if 0 \<le> i \<and> nat i < length ms then Some (ms ! nat i) else None }"

definition msg_write :: "queue_t \<Rightarrow> int \<Rightarrow> int \<Rightarrow> queue_t option" where
  "msg_write q i v = do {
     ms \<leftarrow> messages q;
     if 0 \<le> i \<and> nat i < length ms then Some (q\<lparr>messages := Some (ms[nat i := v])\<rparr>) else None }"

definition push_message :: "queue_t \<Rightarrow> int \<Rightarrow> queue_t option" where
  "push_message q val =
     (if is_queue_full q \<or> capacity q = 0 then None
      else let q = q\<lparr>rear := c_rem (rear q + 1) (capacity q)\<rparr> in do {
        q \<leftarrow> msg_write q (rear q) val;
        Some (q\<lparr>qsize := qsize q + 1\<rparr>) })"

definition pop_message :: "queue_t \<Rightarrow> (int \<times> queue_t) option" where
  "pop_message q =
     (if is_queue_empty q \<or> capacity q = 0 then None
      else do {
        val \<leftarrow> msg_read q (front q);
        Some (val, q\<lparr>front := c_rem (front q + 1) (capacity q), qsize := qsize q - 1\<rparr>) })"

section \<open>Waking processes\<close>

definition wakeup_first_process :: "wside \<Rightarrow> nat \<Rightarrow> cont \<Rightarrow> kstate \<Rightarrow> kstate option" where
  "wakeup_first_process w f k s = do {
     h \<leftarrow> wait_head w f s;
     if \<not> waiting_on_queue (state (processes s h)) then None
     else do {
       ps \<leftarrow> wait_next s h;
       s \<leftarrow> push_runnable h s;
       fix_scheduler (push_cont k (set_wait_head w f ps s)) } }"

text \<open>
  The loop of \<^verbatim>\<open>wakeup_all_processes\<close>: \<^verbatim>\<open>cur\<close> is read before the head is made runnable, because
  that overwrites the union that holds the link.
\<close>

fun wakeup_all_loop :: "nat \<Rightarrow> wside \<Rightarrow> nat \<Rightarrow> nat \<Rightarrow> ptr \<Rightarrow> kstate \<Rightarrow> (nat \<times> kstate) option" where
  "wakeup_all_loop fuel w f h cur s =
     (case cur of
        None \<Rightarrow> Some (h, s)
      | Some c \<Rightarrow>
          (case fuel of
             0 \<Rightarrow> None
           | Suc fuel' \<Rightarrow> do {
               r \<leftarrow> wait_retval s h;
               s \<leftarrow> store_int r (-1) s;
               s \<leftarrow> push_runnable h s;
               let s = set_wait_head w f (Some c) s;
               n \<leftarrow> wait_next s c;
               wakeup_all_loop fuel' w f c n s }))"

declare wakeup_all_loop.simps [simp del]

definition wakeup_all_processes :: "wside \<Rightarrow> nat \<Rightarrow> kstate \<Rightarrow> kstate option" where
  "wakeup_all_processes w f s =
     (case wait_head w f s of
        None \<Rightarrow> Some s
      | Some h \<Rightarrow> do {
          cur \<leftarrow> wait_next s h;
          (h, s) \<leftarrow> wakeup_all_loop NBPROC w f h cur s;
          r \<leftarrow> wait_retval s h;
          s \<leftarrow> store_int r (-1) s;
          s \<leftarrow> push_runnable h s;
          Some (set_wait_head w f None s) })"

fun count_processes :: "nat \<Rightarrow> (nat \<Rightarrow> ptr option) \<Rightarrow> ptr \<Rightarrow> int \<Rightarrow> int option" where
  "count_processes fuel nx None c = Some c"
| "count_processes 0 nx (Some p) c = None"
| "count_processes (Suc fuel) nx (Some p) c = do {
     n \<leftarrow> nx p;
     count_processes fuel nx n (c + 1) }"

section \<open>The operations\<close>

definition valid_fid :: "kstate \<Rightarrow> int \<Rightarrow> bool" where
  "valid_fid s fid \<longleftrightarrow> \<not> (fid < 0 \<or> fid \<ge> int NBQUEUE \<or> is_queue_free (queues s (nat fid)))"

text \<open>The number that \<^verbatim>\<open>pcount\<close> writes to \<^verbatim>\<open>*count\<close>.\<close>

definition queue_count :: "nat \<Rightarrow> kstate \<Rightarrow> int option" where
  "queue_count f s = (let q = queues s f in
     if is_queue_empty q then map_option uminus (count_processes NBPROC (wait_next s) (empty_process q) 0)
     else map_option (\<lambda>c. qsize q + c) (count_processes NBPROC (wait_next s) (full_process q) 0))"

definition pcount :: "int \<Rightarrow> iptr \<Rightarrow> kstate \<Rightarrow> (int \<times> kstate) option" where
  "pcount fid count s =
     (if \<not> valid_fid s fid then Some (-1, s)
      else if count = I_null then Some (0, s)
      else do {
        v \<leftarrow> queue_count (nat fid) s;
        s \<leftarrow> store_int count v s;
        Some (0, s) })"

text \<open>
  \<^verbatim>\<open>pcreate\<close>: \<open>ok\<close> says whether \<^verbatim>\<open>mem_alloc\<close> succeeds; a new block is filled with zeros.
\<close>

primrec find_free_queue :: "nat list \<Rightarrow> kstate \<Rightarrow> nat option" where
  "find_free_queue [] s = None"
| "find_free_queue (f # fs) s = (if is_queue_free (queues s f) then Some f else find_free_queue fs s)"

definition pcreate :: "bool \<Rightarrow> int \<Rightarrow> kstate \<Rightarrow> int \<times> kstate" where
  "pcreate ok count s =
     (if count \<le> 0 \<or> count > 10000 then (-3, s)
      else (case find_free_queue [0..<NBQUEUE] s of
              None \<Rightarrow> (-1, s)
            | Some f \<Rightarrow>
                let s = upd_queue f (\<lambda>q. q\<lparr>capacity := count\<rparr>) s in
                if \<not> ok then (-2, upd_queue f (\<lambda>q. q\<lparr>messages := None\<rparr>) s)
                else (int f, (upd_queue f (\<lambda>q. q\<lparr>messages := Some (replicate (nat count) 0),
                       rear := count - 1, front := 0, qsize := 0\<rparr>) s)
                     \<lparr>kheap_used := kheap_used s + count * 4\<rparr>)))"

text \<open>\<^verbatim>\<open>mem_free(zone, length)\<close> returns at once for length 0.\<close>

definition mem_free_len :: "int \<Rightarrow> kstate \<Rightarrow> kstate" where
  "mem_free_len len s = (if len = 0 then s else s\<lparr>kheap_used := kheap_used s - len\<rparr>)"

definition pdelete :: "int \<Rightarrow> kstate \<Rightarrow> kstate option" where
  "pdelete fid s =
     (if \<not> valid_fid s fid then Some (push_cont (K_ret (-1)) s)
      else let f = nat fid;
               s = upd_queue f (\<lambda>q. q\<lparr>capacity := 0\<rparr>) s;
               s = mem_free_len (capacity (queues s f) * 4) s
           in do {
             s \<leftarrow> wakeup_all_processes W_empty f s;
             s \<leftarrow> wakeup_all_processes W_full f s;
             fix_scheduler (push_cont (K_ret 0) s) })"

definition preset :: "int \<Rightarrow> kstate \<Rightarrow> kstate option" where
  "preset fid s =
     (if \<not> valid_fid s fid then Some (push_cont (K_ret (-1)) s)
      else let f = nat fid;
               s = upd_queue f (\<lambda>q. q\<lparr>front := 0, rear := capacity q - 1, qsize := 0\<rparr>) s
           in do {
             s \<leftarrow> wakeup_all_processes W_empty f s;
             s \<leftarrow> wakeup_all_processes W_full f s;
             fix_scheduler (push_cont (K_ret 0) s) })"

text \<open>The part that \<^verbatim>\<open>preceive\<close> and \<^verbatim>\<open>psend\<close> share: the caller blocks on one side of the queue.\<close>

definition block_on :: "wside \<Rightarrow> nat \<Rightarrow> nat \<Rightarrow> iptr \<Rightarrow> kstate \<Rightarrow> kstate option" where
  "block_on w f ps msg s = do {
     s \<leftarrow> remove_runnable ps s;
     let s = set_state ps (case w of W_empty \<Rightarrow> PS_WAIT_QUEUE_EMPTY | W_full \<Rightarrow> PS_WAIT_QUEUE_FULL) s;
     let s = upd_attr ps (w_wait_fid (int f)) s;
     let s = upd_attr ps (w_wait_retval (I_retval ps)) s;
     let s = upd_attr ps (w_wait_message msg) s;
     s \<leftarrow> push_waiting_process w f ps s;
     tick_scheduler (push_cont K_retval s) }"

definition preceive :: "int \<Rightarrow> iptr \<Rightarrow> kstate \<Rightarrow> kstate option" where
  "preceive fid message s =
     (if \<not> valid_fid s fid then Some (push_cont (K_ret (-1)) s)
      else let f = nat fid in
        if is_queue_empty (queues s f) then do {
          ps \<leftarrow> getproc s;
          block_on W_empty f ps message (s\<lparr>retval_cell := (retval_cell s)(ps := 0)\<rparr>) }
        else do {
          (val, q) \<leftarrow> pop_message (queues s f);
          let s = upd_queue f (\<lambda>_. q) s;
          s \<leftarrow> (if message = I_null then Some s else store_int message val s);
          (case full_process (queues s f) of
             Some h \<Rightarrow>
               if qsize (queues s f) = capacity (queues s f) - 1 then do {
                 m \<leftarrow> wait_message s h;
                 v \<leftarrow> load_int m s;
                 q \<leftarrow> push_message (queues s f) v;
                 wakeup_first_process W_full f (K_ret 0) (upd_queue f (\<lambda>_. q) s) }
               else Some (push_cont (K_ret 0) s)
           | None \<Rightarrow> Some (push_cont (K_ret 0) s)) })"

definition psend :: "int \<Rightarrow> int \<Rightarrow> kstate \<Rightarrow> kstate option" where
  "psend fid message s =
     (if \<not> valid_fid s fid then Some (push_cont (K_ret (-1)) s)
      else let f = nat fid in
        if is_queue_full (queues s f) then do {
          ps \<leftarrow> getproc s;
          block_on W_full f ps (I_message ps)
            (s\<lparr>retval_cell := (retval_cell s)(ps := 0), message_cell := (message_cell s)(ps := message)\<rparr>) }
        else (case (is_queue_empty (queues s f), empty_process (queues s f)) of
           (True, Some h) \<Rightarrow> do {
             m \<leftarrow> wait_message s h;
             s \<leftarrow> (if m = I_null then Some s else store_int m message s);
             wakeup_first_process W_empty f (K_ret 0) s }
         | _ \<Rightarrow> do {
             q \<leftarrow> push_message (queues s f) message;
             Some (push_cont (K_ret 0) (upd_queue f (\<lambda>_. q) s)) }))"

section \<open>Status\<close>

record queue_status_t =
  qs_fid :: int
  qs_capacity :: int
  qs_count :: int

primrec queues_status_loop :: "int \<Rightarrow> nat list \<Rightarrow> int \<Rightarrow> queue_status_t list \<Rightarrow> kstate \<Rightarrow> (int \<times> queue_status_t list) option" where
  "queues_status_loop count [] alive out s = Some (alive, out)"
| "queues_status_loop count (f # fs) alive out s =
     (if is_queue_free (queues s f) then queues_status_loop count fs alive out s
      else if alive < count then do {
        c \<leftarrow> queue_count f s;
        queues_status_loop count fs (alive + 1)
          (out @ [\<lparr>qs_fid = int f, qs_capacity = capacity (queues s f), qs_count = c\<rparr>]) s }
      else queues_status_loop count fs (alive + 1) out s)"

definition queues_status :: "int \<Rightarrow> kstate \<Rightarrow> (int \<times> queue_status_t list) option" where
  "queues_status count s =
     (if count < 0 then Some (-1, []) else queues_status_loop count [0..<NBQUEUE] 0 [] s)"

end
