(* ===== verification/Kernel_Inv.thy ===== *)
theory Kernel_Inv
  imports Msg_Queue
begin

text \<open>
  The invariant of the process table, the linked lists and the message queues, and what each list
  operation does to it.

  \<open>ginv s L X\<close>: the heads and links of \<open>s\<close> represent the lists \<open>L\<close>; every process outside \<open>X\<close> is where
  its state says; the processes of \<open>X\<close> are in the middle of a transition. \<open>kinv\<close>, the invariant
  between operations, has an empty \<open>X\<close> and a running active process with nothing pending.
\<close>

record lists =
  LR :: "nat list"
  LA :: "nat list"
  LD :: "nat list"
  LW :: "wside \<Rightarrow> nat \<Rightarrow> nat list"

fun wstate :: "wside \<Rightarrow> process_state_t" where
  "wstate W_empty = PS_WAIT_QUEUE_EMPTY"
| "wstate W_full = PS_WAIT_QUEUE_FULL"

lemma wstate_simps [simp]:
  "wstate w \<noteq> PS_DEAD" "wstate w \<noteq> PS_ZOMBIE" "wstate w \<noteq> PS_RUNNABLE" "wstate w \<noteq> PS_RUNNING"
  "wstate w \<noteq> PS_ASLEEP" "wstate w \<noteq> PS_WAIT_CHILD"
  "PS_DEAD \<noteq> wstate w" "PS_ZOMBIE \<noteq> wstate w" "PS_RUNNABLE \<noteq> wstate w" "PS_RUNNING \<noteq> wstate w"
  "PS_ASLEEP \<noteq> wstate w" "PS_WAIT_CHILD \<noteq> wstate w"
  by (cases w; simp)+

lemma wstate_conv [simp]:
  "wstate w = PS_WAIT_QUEUE_EMPTY \<longleftrightarrow> w = W_empty" "PS_WAIT_QUEUE_EMPTY = wstate w \<longleftrightarrow> w = W_empty"
  "wstate w = PS_WAIT_QUEUE_FULL \<longleftrightarrow> w = W_full" "PS_WAIT_QUEUE_FULL = wstate w \<longleftrightarrow> w = W_full"
  by (cases w; simp)+

lemma wstate_eq [simp]: "wstate w = wstate w' \<longleftrightarrow> w = w'"
  by (cases w; cases w') simp_all

abbreviation st :: "kstate \<Rightarrow> nat \<Rightarrow> process_state_t" where
  "st s p \<equiv> state (processes s p)"

section \<open>Representation of the lists\<close>

definition run_ok :: "kstate \<Rightarrow> nat list \<Rightarrow> bool" where
  "run_ok s xs \<longleftrightarrow> npath (next_runnable s) (runnable_process_head s) xs \<and>
     (\<forall>p \<in> set xs. p < NBPROC \<and> st s p = PS_RUNNABLE)"

definition slp_ok :: "kstate \<Rightarrow> nat list \<Rightarrow> bool" where
  "slp_ok s xs \<longleftrightarrow> npath (asleep_next s) (asleep_process_head s) xs \<and>
     (\<forall>p \<in> set xs. p < NBPROC \<and> st s p = PS_ASLEEP \<and> asleep_clock s p \<noteq> None)"

definition dead_ok :: "kstate \<Rightarrow> nat list \<Rightarrow> bool" where
  "dead_ok s xs \<longleftrightarrow> npath (next_dead s) (dead_process_head s) xs \<and>
     (\<forall>p \<in> set xs. p < NBPROC \<and> st s p = PS_DEAD)"

definition wtq_ok :: "kstate \<Rightarrow> wside \<Rightarrow> nat \<Rightarrow> nat list \<Rightarrow> bool" where
  "wtq_ok s w f xs \<longleftrightarrow> npath (wait_next s) (wait_head w f s) xs \<and>
     (\<forall>p \<in> set xs. p < NBPROC \<and> st s p = wstate w \<and> wait_fid s p = Some (int f))"

definition lists_ok :: "kstate \<Rightarrow> lists \<Rightarrow> bool" where
  "lists_ok s L \<longleftrightarrow> run_ok s (LR L) \<and> slp_ok s (LA L) \<and> dead_ok s (LD L) \<and>
     (\<forall>w f. wtq_ok s w f (LW L w f))"

text \<open>Order of the lists, leaving out the processes in transition.\<close>

definition prio_sorted :: "kstate \<Rightarrow> nat set \<Rightarrow> nat list \<Rightarrow> bool" where
  "prio_sorted s X xs \<longleftrightarrow>
     sorted_wrt (\<lambda>p q. prio (processes s q) \<le> prio (processes s p)) (filter (\<lambda>p. p \<notin> X) xs)"

definition clock_sorted :: "kstate \<Rightarrow> nat list \<Rightarrow> bool" where
  "clock_sorted s xs \<longleftrightarrow>
     sorted_wrt (\<lambda>p q. the (asleep_clock s p) \<le> the (asleep_clock s q)) xs"

definition sorted_ok :: "kstate \<Rightarrow> lists \<Rightarrow> nat set \<Rightarrow> bool" where
  "sorted_ok s L X \<longleftrightarrow> prio_sorted s X (LR L) \<and> clock_sorted s (LA L) \<and>
     (\<forall>w f. prio_sorted s X (LW L w f))"

section \<open>Processes\<close>

text \<open>The parent of a process, where it has one, is another process that is alive.\<close>

definition parent_ok :: "kstate \<Rightarrow> nat set \<Rightarrow> nat \<Rightarrow> bool" where
  "parent_ok s X p \<longleftrightarrow> parent (processes s p) = NOPID \<or>
     (\<exists>q < NBPROC. parent (processes s p) = int q \<and> q \<noteq> p \<and>
        (q \<in> X \<or> st s q \<noteq> PS_DEAD \<and> st s q \<noteq> PS_ZOMBIE))"

text \<open>The child that a process woken in \<^verbatim>\<open>waitpid\<close> is about to collect.\<close>

definition collectable :: "kstate \<Rightarrow> nat \<Rightarrow> bool" where
  "collectable s p \<longleftrightarrow> (\<exists>c < NBPROC. child_pid s p = int c \<and> st s c = PS_ZOMBIE \<and>
     parent (processes s c) = int p)"

text \<open>What a caller may pass for \<^verbatim>\<open>retvalp\<close> or \<^verbatim>\<open>message\<close>: \<^verbatim>\<open>NULL\<close> or an address of its own.\<close>

abbreviation caller_ptr :: "iptr \<Rightarrow> bool" where
  "caller_ptr r \<equiv> r = I_null \<or> (\<exists>u. r = I_user u)"

definition runnable_pend :: "kstate \<Rightarrow> nat \<Rightarrow> bool" where
  "runnable_pend s p \<longleftrightarrow> pend s p \<noteq> Some K_hang \<and> (\<forall>r. pend s p = Some (K_waitpid r) \<longrightarrow> collectable s p \<and> caller_ptr r)"

text \<open>
  A process waiting for a child has a live child that it is waiting for. (A call of
  \<^verbatim>\<open>waitpid\<close> with a number below \<^verbatim>\<open>NOPID\<close> is left out: nothing wakes it up.)
\<close>

definition wait_live :: "kstate \<Rightarrow> nat set \<Rightarrow> nat \<Rightarrow> bool" where
  "wait_live s X p \<longleftrightarrow> child_pid s p < NOPID \<or> (\<exists>c < NBPROC. parent (processes s c) = int p \<and>
     (child_pid s p = int c \<or> child_pid s p < 0) \<and> (c \<in> X \<or> st s c \<noteq> PS_DEAD \<and> st s c \<noteq> PS_ZOMBIE))"

definition waiting_ok :: "kstate \<Rightarrow> lists \<Rightarrow> wside \<Rightarrow> nat \<Rightarrow> bool" where
  "waiting_ok s L w p \<longleftrightarrow> (\<exists>f < NBQUEUE. p \<in> set (LW L w f)) \<and>
     wait_retval s p = Some (I_retval p) \<and> pend s p = Some K_retval \<and>
     (\<exists>m. wait_message s p = Some m \<and> (w = W_full \<longrightarrow> m = I_message p) \<and>
        (w = W_empty \<longrightarrow> caller_ptr m))"

definition proc_ok :: "kstate \<Rightarrow> lists \<Rightarrow> nat set \<Rightarrow> nat \<Rightarrow> bool" where
  "proc_ok s L X p \<longleftrightarrow>
     (st s p = PS_RUNNABLE \<longrightarrow> p \<in> set (LR L) \<and> runnable_pend s p) \<and>
     (st s p = PS_RUNNING \<longrightarrow> p = active_process s \<and> runnable_pend s p) \<and>
     (st s p = PS_ASLEEP \<longrightarrow> p \<in> set (LA L) \<and> pend s p = Some (K_ret 0)) \<and>
     (st s p = PS_WAIT_CHILD \<longrightarrow> child_ptr s p = Some (I_child p) \<and> (\<exists>r. pend s p = Some (K_waitpid r) \<and> caller_ptr r) \<and>
        wait_live s X p) \<and>
     (\<forall>w. st s p = wstate w \<longrightarrow> waiting_ok s L w p) \<and>
     (st s p = PS_ZOMBIE \<longrightarrow> zombie_retval s p \<noteq> None \<and> parent (processes s p) \<noteq> NOPID) \<and>
     (p = 0 \<longrightarrow> st s p = PS_RUNNABLE \<or> st s p = PS_RUNNING) \<and>
     (st s p \<noteq> PS_DEAD \<longrightarrow> parent_ok s X p)"

section \<open>Queues and user stacks\<close>

definition ring_ok :: "queue_t \<Rightarrow> bool" where
  "ring_ok q \<longleftrightarrow> 0 < capacity q \<and> 0 \<le> front q \<and> front q < capacity q \<and> 0 \<le> qsize q \<and> qsize q \<le> capacity q \<and>
     rear q = (front q + qsize q - 1) mod capacity q \<and>
     (\<exists>ms. messages q = Some ms \<and> length ms = nat (capacity q))"

definition queue_ok :: "kstate \<Rightarrow> lists \<Rightarrow> nat \<Rightarrow> bool" where
  "queue_ok s L f \<longleftrightarrow> (let q = queues s f in
     capacity q \<le> 10000 \<and>
     (if capacity q = 0 then (\<forall>w. LW L w f = [])
      else ring_ok q \<and> (LW L W_empty f \<noteq> [] \<longrightarrow> qsize q = 0) \<and>
        (LW L W_full f \<noteq> [] \<longrightarrow> qsize q = capacity q)))"

definition ustack_ok :: "kstate \<Rightarrow> nat set \<Rightarrow> bool" where
  "ustack_ok s X \<longleftrightarrow> (\<forall>p < NBPROC. \<forall>a. user_stack (processes s p) = Some a \<longrightarrow>
     (a, ssize (processes s p)) \<in> set (ustack_blocks s) \<and> ssize (processes s p) \<noteq> 0 \<and>
     (p \<in> X \<or> st s p \<noteq> PS_DEAD) \<and>
     (\<forall>q < NBPROC. q \<noteq> p \<longrightarrow> user_stack (processes s q) \<noteq> Some a))"

section \<open>The invariant\<close>

definition ginv :: "kstate \<Rightarrow> lists \<Rightarrow> nat set \<Rightarrow> bool" where
  "ginv s L X \<longleftrightarrow> lists_ok s L \<and> sorted_ok s L X \<and>
     (\<forall>p < NBPROC. p \<notin> X \<longrightarrow> proc_ok s L X p) \<and>
     (\<forall>p < NBPROC. pid (processes s p) = int p) \<and>
     active_process s < NBPROC \<and>
     (\<forall>f < NBQUEUE. queue_ok s L f) \<and> (\<forall>w f. NBQUEUE \<le> f \<longrightarrow> LW L w f = []) \<and>
     ustack_ok s X"

text \<open>
  When the scheduler is done: the active process is the one that runs, and no runnable process has a
  higher priority.
\<close>

definition sched_ok :: "kstate \<Rightarrow> lists \<Rightarrow> bool" where
  "sched_ok s L \<longleftrightarrow> ginv s L {} \<and> st s (active_process s) = PS_RUNNING \<and>
     (\<forall>p \<in> set (LR L). prio (processes s p) \<le> prio (processes s (active_process s)))"

definition kinv :: "kstate \<Rightarrow> bool" where
  "kinv s \<longleftrightarrow> (\<exists>L. sched_ok s L) \<and> pend s (active_process s) = None"

end
