(* ===== verification/List_Specs.thy ===== *)
theory List_Specs
  imports Kernel_Inv
begin

text \<open>
  What the list operations do, in terms of the lists they represent: insertion by priority or wake
  time, removal, and the frame of each (which processes keep which fields).
\<close>

section \<open>Frames\<close>

text \<open>
  \<open>pupd p x Y P P'\<close>: the table \<open>P'\<close> is \<open>P\<close> with the state of \<open>p\<close> set to \<open>x\<close> and union members
  rewritten only in \<open>Y\<close>.
\<close>

lemma ex_attr [simp]: "\<exists>a. (q :: process_t) = q\<lparr>state_attr := a\<rparr>"
  by (rule exI [of _ "state_attr q"]) simp

definition pupd :: "nat \<Rightarrow> process_state_t \<Rightarrow> nat set \<Rightarrow> (nat \<Rightarrow> process_t) \<Rightarrow> (nat \<Rightarrow> process_t) \<Rightarrow> bool" where
  "pupd p x Y P P' \<longleftrightarrow> p \<in> Y \<and> (\<forall>q. \<exists>a. P' q = (P q)\<lparr>state := (if q = p then x else state (P q)), state_attr := a\<rparr>) \<and>
     (\<forall>q. q \<notin> Y \<longrightarrow> state_attr (P' q) = state_attr (P q))"

lemma pupd_fields:
  assumes "pupd p x Y P P'"
  shows "pid (P' q) = pid (P q)" "parent (P' q) = parent (P q)" "pname (P' q) = pname (P q)"
    "prio (P' q) = prio (P q)" "user_stack (P' q) = user_stack (P q)" "ssize (P' q) = ssize (P q)"
    "registers (P' q) = registers (P q)" "kernel_stack (P' q) = kernel_stack (P q)"
    "state (P' q) = (if q = p then x else state (P q))"
    "q \<notin> Y \<Longrightarrow> state_attr (P' q) = state_attr (P q)"
proof -
  from assms obtain a where "P' q = (P q)\<lparr>state := (if q = p then x else state (P q)), state_attr := a\<rparr>"
    unfolding pupd_def by blast
  then show "pid (P' q) = pid (P q)" "parent (P' q) = parent (P q)" "pname (P' q) = pname (P q)"
    "prio (P' q) = prio (P q)" "user_stack (P' q) = user_stack (P q)" "ssize (P' q) = ssize (P q)"
    "registers (P' q) = registers (P q)" "kernel_stack (P' q) = kernel_stack (P q)"
    "state (P' q) = (if q = p then x else state (P q))"
    by simp_all
  show "q \<notin> Y \<Longrightarrow> state_attr (P' q) = state_attr (P q)" using assms unfolding pupd_def by blast
qed

definition agree :: "kstate \<Rightarrow> kstate \<Rightarrow> nat list \<Rightarrow> bool" where
  "agree s s' xs \<longleftrightarrow> (\<forall>p \<in> set xs. st s' p = st s p \<and> state_attr (processes s' p) = state_attr (processes s p))"

lemma agree_reads:
  assumes "agree s s' xs" and "p \<in> set xs"
  shows "st s' p = st s p" "next_runnable s' p = next_runnable s p" "next_dead s' p = next_dead s p"
    "asleep_next s' p = asleep_next s p" "asleep_clock s' p = asleep_clock s p"
    "wait_next s' p = wait_next s p" "wait_fid s' p = wait_fid s p"
  using assms by (simp_all add: agree_def)

lemma agree_npath:
  assumes "agree s s' xs"
  shows "npath (next_runnable s') h xs = npath (next_runnable s) h xs"
    "npath (next_dead s') h xs = npath (next_dead s) h xs"
    "npath (asleep_next s') h xs = npath (asleep_next s) h xs"
    "npath (wait_next s') h xs = npath (wait_next s) h xs"
  using agree_reads [OF assms] by (auto intro!: npath_cong)

lemma run_ok_frame:
  "run_ok s xs \<Longrightarrow> runnable_process_head s' = runnable_process_head s \<Longrightarrow> agree s s' xs \<Longrightarrow> run_ok s' xs"
  by (simp add: run_ok_def agree_npath agree_reads)

lemma slp_ok_frame:
  "slp_ok s xs \<Longrightarrow> asleep_process_head s' = asleep_process_head s \<Longrightarrow> agree s s' xs \<Longrightarrow> slp_ok s' xs"
  by (simp add: slp_ok_def agree_npath agree_reads)

lemma dead_ok_frame:
  "dead_ok s xs \<Longrightarrow> dead_process_head s' = dead_process_head s \<Longrightarrow> agree s s' xs \<Longrightarrow> dead_ok s' xs"
  by (simp add: dead_ok_def agree_npath agree_reads)

lemma wtq_ok_frame:
  "wtq_ok s w f xs \<Longrightarrow> wait_head w f s' = wait_head w f s \<Longrightarrow> agree s s' xs \<Longrightarrow> wtq_ok s' w f xs"
  by (simp add: wtq_ok_def agree_npath agree_reads)

section \<open>Lengths\<close>

lemma short_list: "distinct xs \<Longrightarrow> \<forall>p \<in> set xs. p < NBPROC \<Longrightarrow> length xs \<le> NBPROC"
proof -
  assume "distinct xs" and "\<forall>p \<in> set xs. p < NBPROC"
  then have "set xs \<subseteq> {..<NBPROC}" by auto
  then have "card (set xs) \<le> card {..<NBPROC}" by (rule card_mono [rotated]) simp
  with \<open>distinct xs\<close> show ?thesis by (simp add: distinct_card)
qed

lemma run_ok_length: "run_ok s xs \<Longrightarrow> length xs \<le> NBPROC"
  unfolding run_ok_def by (rule short_list) (auto dest: npath_distinct)

lemma slp_ok_length: "slp_ok s xs \<Longrightarrow> length xs \<le> NBPROC"
  unfolding slp_ok_def by (rule short_list) (auto dest: npath_distinct)

lemma wtq_ok_length: "wtq_ok s w f xs \<Longrightarrow> length xs \<le> NBPROC"
  unfolding wtq_ok_def by (rule short_list) (auto dest: npath_distinct)

section \<open>Runnable list\<close>

text \<open>Operations that write the process table and one list head leave every other field alone.\<close>

definition rframe :: "kstate \<Rightarrow> kstate \<Rightarrow> bool" where
  "rframe s s' \<longleftrightarrow> s' = s\<lparr>processes := processes s', runnable_process_head := runnable_process_head s'\<rparr>"

lemma rframe_fields:
  assumes "rframe s s'"
  shows "active_process s' = active_process s" "dead_process_head s' = dead_process_head s"
    "asleep_process_head s' = asleep_process_head s" "queues s' = queues s" "pit_count s' = pit_count s"
    "child_pid s' = child_pid s" "retval_cell s' = retval_cell s" "message_cell s' = message_cell s"
    "umem s' = umem s" "ustack_blocks s' = ustack_blocks s" "kheap_used s' = kheap_used s"
    "pend s' = pend s" "tss_esp0 s' = tss_esp0 s" "wait_head w f s' = wait_head w f s"
proof -
  obtain P h where "s' = s\<lparr>processes := P, runnable_process_head := h\<rparr>"
    using assms unfolding rframe_def by blast
  then show "active_process s' = active_process s" "dead_process_head s' = dead_process_head s"
    "asleep_process_head s' = asleep_process_head s" "queues s' = queues s" "pit_count s' = pit_count s"
    "child_pid s' = child_pid s" "retval_cell s' = retval_cell s" "message_cell s' = message_cell s"
    "umem s' = umem s" "ustack_blocks s' = ustack_blocks s" "kheap_used s' = kheap_used s"
    "pend s' = pend s" "tss_esp0 s' = tss_esp0 s" "wait_head w f s' = wait_head w f s"
    by (simp_all add: wait_head_def split: wside.split)
qed

definition push_spec :: "nat \<Rightarrow> nat list \<Rightarrow> kstate \<Rightarrow> kstate \<Rightarrow> bool" where
  "push_spec p xs s s' \<longleftrightarrow>
     run_ok s' (ins (\<lambda>x. prio (processes s p) \<le> prio (processes s x)) p xs) \<and>
     pupd p PS_RUNNABLE (insert p (set xs)) (processes s) (processes s') \<and> rframe s s'"

lemma push_specI:
  assumes "run_ok s xs" and "p < NBPROC"
    and "npath (next_runnable s') (runnable_process_head s')
      (ins (\<lambda>x. prio (processes s p) \<le> prio (processes s x)) p xs)"
    and "\<And>q. \<exists>a. processes s' q = (processes s q)\<lparr>state := (if q = p then PS_RUNNABLE else st s q), state_attr := a\<rparr>"
    and "\<And>q. q \<notin> insert p (set xs) \<Longrightarrow> processes s' q = processes s q"
    and "rframe s s'"
  shows "push_spec p xs s s'"
proof -
  have "st s' q = (if q = p then PS_RUNNABLE else st s q)" for q using assms(4) [of q] by auto
  with assms show ?thesis by (auto simp: push_spec_def run_ok_def pupd_def)
qed

lemma upd_attr_pupd:
  "\<exists>a. processes (set_attr c b (set_attr p d (set_state p x s))) q =
     (processes s q)\<lparr>state := (if q = p then x else st s q), state_attr := a\<rparr>"
  "\<exists>a. processes (set_attr p d (set_state p x s)) q =
     (processes s q)\<lparr>state := (if q = p then x else st s q), state_attr := a\<rparr>"
  by (cases "q = c"; cases "q = p"; auto simp: upd_defs)
    (cases "q = p"; auto simp: upd_defs)

lemma push_runnable_list:
  assumes R: "run_ok s xs" and p: "p < NBPROC" and st: "st s p \<noteq> PS_RUNNABLE"
  shows "\<exists>s'. push_runnable p s = Some s' \<and> push_spec p xs s s'"
proof -
  let ?s = "set_state p PS_RUNNABLE s"
  let ?stay = "\<lambda>x. prio (processes s p) \<le> prio (processes s x)"
  from R st have notin: "p \<notin> set xs" by (auto simp: run_ok_def)
  from R have path: "npath (next_runnable ?s) (runnable_process_head s) xs" by (simp add: run_ok_def)
  have front: ?thesis if "xs = [] \<or> \<not> ?stay (hd xs)"
  proof -
    let ?s' = "(set_next_runnable p (runnable_process_head s) ?s)\<lparr>runnable_process_head := Some p\<rparr>"
    have "push_runnable p s = Some ?s'"
      using that path st
      by (cases xs) (auto simp: push_runnable_def Let_def upd_defs)
    moreover have "npath (next_runnable ?s') (Some p) (p # xs)"
      using run.push_front [OF path notin] by (simp add: upd_defs)
    moreover have "ins ?stay p xs = p # xs" using that by (cases xs) auto
    moreover have "push_spec p xs s ?s'"
    proof (rule push_specI [OF R p])
      show "npath (next_runnable ?s') (runnable_process_head ?s') (ins ?stay p xs)"
        using calculation by simp
      show "\<exists>a. processes ?s' q = (processes s q)\<lparr>state := (if q = p then PS_RUNNABLE else st s q), state_attr := a\<rparr>" for q
        using upd_attr_pupd(2) [of p _ PS_RUNNABLE s q] by simp
      show "rframe s ?s'" by (simp add: rframe_def upd_defs)
    qed (simp add: upd_defs)
    ultimately show ?thesis by blast
  qed
  show ?thesis
  proof (cases "xs = [] \<or> \<not> ?stay (hd xs)")
    case True then show ?thesis by (rule front)
  next
    case False
    then obtain h ys where xs: "xs = h # ys" and stay: "?stay h" by (cases xs) auto
    from path xs have h: "runnable_process_head s = Some h" by simp
    have "length ys < NBPROC" using run_ok_length [OF R] xs by simp
    from run.walk_insert [of ?s h ys NBPROC ?stay "\<lambda>k. Some (?stay k)"] path this xs h stay
    obtain cur k where w: "walk NBPROC (next_runnable ?s) (\<lambda>k. Some (?stay k)) h = Some cur"
        "next_runnable ?s cur = Some k" "cur \<in> set xs"
      and ins: "\<And>q. q \<notin> set xs \<Longrightarrow> npath (next_runnable (set_next_runnable cur (Some q)
          (set_next_runnable q k ?s))) (Some h) (ins ?stay q xs)"
      by auto
    let ?s' = "set_next_runnable cur (Some p) (set_next_runnable p k ?s)"
    have "push_runnable p s = Some ?s'"
      using h stay st w by (simp add: push_runnable_def Let_def)
    moreover have "push_spec p xs s ?s'"
    proof (rule push_specI [OF R p])
      show "npath (next_runnable ?s') (runnable_process_head ?s') (ins ?stay p xs)"
        using ins [OF notin] h by (simp add: upd_defs)
      show "\<exists>a. processes ?s' q = (processes s q)\<lparr>state := (if q = p then PS_RUNNABLE else st s q), state_attr := a\<rparr>" for q
        by (rule upd_attr_pupd)
      show "processes ?s' q = processes s q" if "q \<notin> insert p (set xs)" for q
        using that w(3) by (auto simp: upd_defs)
      show "rframe s ?s'" by (simp add: rframe_def upd_defs)
    qed
    ultimately show ?thesis by blast
  qed
qed

lemma remove_runnable_other:
  "st s p \<noteq> PS_RUNNABLE \<Longrightarrow> remove_runnable p s = Some s"
  by (simp add: remove_runnable_def split: option.split)

definition unlink_spec :: "nat \<Rightarrow> nat list \<Rightarrow> kstate \<Rightarrow> kstate \<Rightarrow> bool" where
  "unlink_spec p xs s s' \<longleftrightarrow> run_ok s' (remove1 p xs) \<and>
     pupd p (st s p) (set xs) (processes s) (processes s') \<and> rframe s s'"

lemma pupd_set_attr:
  "c \<in> Y \<Longrightarrow> p \<in> Y \<Longrightarrow> x = state (P p) \<Longrightarrow> pupd p x Y P (P(c := (P c)\<lparr>state_attr := a\<rparr>))"
proof -
  assume "c \<in> Y" "p \<in> Y" "x = state (P p)"
  moreover have "\<exists>b. (P(c := (P c)\<lparr>state_attr := a\<rparr>)) q = (P q)\<lparr>state_attr := b\<rparr>" for q
    by (cases "q = c") auto
  ultimately show ?thesis by (auto simp: pupd_def)
qed

lemma pupd_refl: "p \<in> Y \<Longrightarrow> x = state (P p) \<Longrightarrow> pupd p x Y P P"
  by (auto simp: pupd_def)

lemma remove_runnable_list:
  assumes R: "run_ok s xs" and p: "p \<in> set xs"
  shows "\<exists>s'. remove_runnable p s = Some s' \<and> unlink_spec p xs s s'"
proof -
  from R p have st: "st s p = PS_RUNNABLE" by (simp add: run_ok_def)
  from R have path: "npath (next_runnable s) (runnable_process_head s) xs" by (simp add: run_ok_def)
  from p obtain h ys where xs: "xs = h # ys" by (cases xs) auto
  with path have h: "runnable_process_head s = Some h" by simp
  show ?thesis
  proof (cases "h = p")
    case True
    from path xs obtain n where n: "next_runnable s h = Some n" "npath (next_runnable s) n ys" by auto
    with True h xs st R show ?thesis
      by (auto simp: remove_runnable_def unlink_spec_def rframe_def run_ok_def intro: pupd_refl)
  next
    case False
    have "length ys < NBPROC" using run_ok_length [OF R] xs by simp
    from run.walk_remove [of s h ys NBPROC p] path this xs h False p
    obtain cur k' where w: "walk NBPROC (next_runnable s) (\<lambda>k. Some (k \<noteq> p)) h = Some cur"
        "next_runnable s cur = Some (Some p)" "cur \<in> set xs" "next_runnable s p = Some k'"
      and rm: "npath (next_runnable (set_next_runnable cur k' s)) (Some h) (remove1 p xs)"
      by auto
    have "remove_runnable p s = Some (set_next_runnable cur k' s)"
      using h st False w by (simp add: remove_runnable_def)
    moreover have "run_ok (set_next_runnable cur k' s) (remove1 p xs)"
      using rm h R notin_set_remove1 [of _ xs p] by (auto simp: run_ok_def upd_defs)
    moreover have "pupd p (st s p) (set xs) (processes s) (processes (set_next_runnable cur k' s))"
      using pupd_set_attr [OF w(3) p] by (simp add: upd_defs)
    moreover have "rframe s (set_next_runnable cur k' s)" by (simp add: rframe_def upd_defs)
    ultimately show ?thesis by (auto simp: unlink_spec_def)
  qed
qed

section \<open>Sleeping processes\<close>

definition aframe :: "kstate \<Rightarrow> kstate \<Rightarrow> bool" where
  "aframe s s' \<longleftrightarrow> s' = s\<lparr>processes := processes s', asleep_process_head := asleep_process_head s'\<rparr>"

lemma aframe_fields:
  assumes "aframe s s'"
  shows "active_process s' = active_process s" "dead_process_head s' = dead_process_head s"
    "runnable_process_head s' = runnable_process_head s" "queues s' = queues s" "pit_count s' = pit_count s"
    "child_pid s' = child_pid s" "retval_cell s' = retval_cell s" "message_cell s' = message_cell s"
    "umem s' = umem s" "ustack_blocks s' = ustack_blocks s" "kheap_used s' = kheap_used s"
    "pend s' = pend s" "wait_head w f s' = wait_head w f s"
proof -
  obtain P h where "s' = s\<lparr>processes := P, asleep_process_head := h\<rparr>"
    using assms unfolding aframe_def by blast
  then show "active_process s' = active_process s" "dead_process_head s' = dead_process_head s"
    "runnable_process_head s' = runnable_process_head s" "queues s' = queues s" "pit_count s' = pit_count s"
    "child_pid s' = child_pid s" "retval_cell s' = retval_cell s" "message_cell s' = message_cell s"
    "umem s' = umem s" "ustack_blocks s' = ustack_blocks s" "kheap_used s' = kheap_used s"
    "pend s' = pend s" "wait_head w f s' = wait_head w f s"
    by (simp_all add: wait_head_def split: wside.split)
qed

text \<open>The union of a node that is linked keeps its wake time.\<close>

definition slp_spec :: "nat list \<Rightarrow> nat \<Rightarrow> nat set \<Rightarrow> kstate \<Rightarrow> kstate \<Rightarrow> bool" where
  "slp_spec ys p Y s s' \<longleftrightarrow> slp_ok s' ys \<and> pupd p (st s p) Y (processes s) (processes s') \<and> aframe s s' \<and>
     (\<forall>q. asleep_clock s' q = asleep_clock s q)"

lemma pupd_upd_attr2:
  "c \<in> Y \<Longrightarrow> p \<in> Y \<Longrightarrow> pupd p (st s p) Y (processes s) (processes (upd_attr c g (upd_attr p g' s)))"
proof -
  assume "c \<in> Y" "p \<in> Y"
  moreover have "\<exists>b. processes (upd_attr c g (upd_attr p g' s)) q = (processes s q)\<lparr>state_attr := b\<rparr>" for q
    by (cases "q = c"; cases "q = p") (auto simp: upd_defs)
  ultimately show ?thesis by (auto simp: pupd_def upd_defs)
qed

lemma pupd_upd_attr1:
  "c \<in> Y \<Longrightarrow> p \<in> Y \<Longrightarrow> pupd p (st s p) Y (processes s) (processes (upd_attr c g s))"
  using pupd_set_attr [of c Y p "st s p" "processes s" "g (state_attr (processes s c))"]
  by (simp add: upd_defs)

lemma insert_asleep_list:
  assumes A: "slp_ok s xs" and p: "p < NBPROC" and st: "st s p = PS_ASLEEP" and notin: "p \<notin> set xs"
    and c: "asleep_clock s p = Some c"
  shows "\<exists>s'. insert_asleep p c s = Some s' \<and>
    slp_spec (ins (\<lambda>x. c > the (asleep_clock s x)) p xs) p (insert p (set xs)) s s'"
proof -
  let ?stay = "\<lambda>x. c > the (asleep_clock s x)"
  from A have path: "npath (asleep_next s) (asleep_process_head s) xs"
    and clk: "\<And>q. q \<in> set xs \<Longrightarrow> \<exists>t. asleep_clock s q = Some t"
    by (auto simp: slp_ok_def)
  have specI: "slp_spec (ins ?stay p xs) p (insert p (set xs)) s s'"
    if "npath (asleep_next s') (asleep_process_head s') (ins ?stay p xs)"
      and "pupd p (st s p) (insert p (set xs)) (processes s) (processes s')"
      and "aframe s s'" and "\<And>q. asleep_clock s' q = asleep_clock s q" for s'
    using that A p st c by (auto simp: slp_spec_def slp_ok_def pupd_fields)
  have front: ?thesis if "xs = [] \<or> \<not> ?stay (hd xs)"
  proof -
    let ?s' = "(set_asleep_next p (asleep_process_head s) s)\<lparr>asleep_process_head := Some p\<rparr>"
    have "insert_asleep p c s = Some ?s'"
      using that path clk by (cases xs) (fastforce simp: insert_asleep_def)+
    moreover have "slp_spec (ins ?stay p xs) p (insert p (set xs)) s ?s'"
    proof (rule specI)
      have "ins ?stay p xs = p # xs" using that by (cases xs) auto
      then show "npath (asleep_next ?s') (asleep_process_head ?s') (ins ?stay p xs)"
        using slp.push_front [OF path notin] by simp
      show "pupd p (st s p) (insert p (set xs)) (processes s) (processes ?s')"
        using pupd_upd_attr1 [of p] by simp
    qed (simp_all add: aframe_def upd_defs)
    ultimately show ?thesis by blast
  qed
  show ?thesis
  proof (cases "xs = [] \<or> \<not> ?stay (hd xs)")
    case True then show ?thesis by (rule front)
  next
    case False
    then obtain h ys where xs: "xs = h # ys" and stay: "?stay h" by (cases xs) auto
    from path xs have h: "asleep_process_head s = Some h" by simp
    have "length ys < NBPROC" using slp_ok_length [OF A] xs by simp
    moreover have "map_option (\<lambda>t. c > t) (asleep_clock s k) = Some (?stay k)" if "k \<in> set ys" for k
      using clk [of k] that xs by auto
    ultimately obtain cur k where
        w: "walk NBPROC (asleep_next s) (\<lambda>k. map_option (\<lambda>t. c > t) (asleep_clock s k)) h = Some cur"
        "asleep_next s cur = Some k" "cur \<in> set xs"
      and ins: "\<And>q. q \<notin> set xs \<Longrightarrow> npath (asleep_next (set_asleep_next cur (Some q)
          (set_asleep_next q k s))) (Some h) (ins ?stay q xs)"
      using slp.walk_insert [of s h ys NBPROC ?stay "\<lambda>k. map_option (\<lambda>t. c > t) (asleep_clock s k)"]
        path xs h stay by auto
    let ?s' = "set_asleep_next cur (Some p) (set_asleep_next p k s)"
    have "insert_asleep p c s = Some ?s'"
      using h stay w clk [of h] xs by (auto simp: insert_asleep_def)
    moreover have "slp_spec (ins ?stay p xs) p (insert p (set xs)) s ?s'"
    proof (rule specI)
      show "npath (asleep_next ?s') (asleep_process_head ?s') (ins ?stay p xs)"
        using ins [OF notin] h by simp
      show "pupd p (st s p) (insert p (set xs)) (processes s) (processes ?s')"
        using w(3) by (intro pupd_upd_attr2) auto
    qed (simp_all add: aframe_def upd_defs)
    ultimately show ?thesis by blast
  qed
qed

lemma remove_asleep_list:
  assumes A: "slp_ok s xs" and p: "p \<in> set xs"
  shows "\<exists>s'. remove_asleep p s = Some s' \<and> slp_spec (remove1 p xs) p (set xs) s s'"
proof -
  from A have path: "npath (asleep_next s) (asleep_process_head s) xs" by (simp add: slp_ok_def)
  from p obtain h ys where xs: "xs = h # ys" by (cases xs) auto
  with path have h: "asleep_process_head s = Some h" by simp
  show ?thesis
  proof (cases "h = p")
    case True
    from path xs obtain n where n: "asleep_next s h = Some n" "npath (asleep_next s) n ys" by auto
    with True h xs A show ?thesis
      by (auto simp: remove_asleep_def slp_spec_def aframe_def slp_ok_def intro: pupd_refl)
  next
    case False
    have "length ys < NBPROC" using slp_ok_length [OF A] xs by simp
    from slp.walk_remove [of s h ys NBPROC p] path this xs h False p
    obtain cur k' where w: "walk NBPROC (asleep_next s) (\<lambda>k. Some (k \<noteq> p)) h = Some cur"
        "asleep_next s cur = Some (Some p)" "cur \<in> set xs" "asleep_next s p = Some k'"
      and rm: "npath (asleep_next (set_asleep_next cur k' s)) (Some h) (remove1 p xs)"
      by auto
    let ?s' = "set_asleep_next cur k' s"
    have "remove_asleep p s = Some ?s'" using h False w by (simp add: remove_asleep_def)
    moreover have pu: "pupd p (st s p) (set xs) (processes s) (processes ?s')"
      using w(3) p by (rule pupd_upd_attr1)
    moreover have "slp_ok ?s' (remove1 p xs)"
      using rm h A notin_set_remove1 [of _ xs p] by (auto simp: slp_ok_def upd_defs)
    ultimately show ?thesis by (simp add: slp_spec_def aframe_def upd_defs)
  qed
qed

section \<open>Processes waiting on a queue\<close>

text \<open>Two queues with the same messages.\<close>

definition qsame :: "queue_t \<Rightarrow> queue_t \<Rightarrow> bool" where
  "qsame q q' \<longleftrightarrow> front q' = front q \<and> rear q' = rear q \<and> qsize q' = qsize q \<and> capacity q' = capacity q \<and>
     messages q' = messages q"

definition wframe :: "wside \<Rightarrow> nat \<Rightarrow> kstate \<Rightarrow> kstate \<Rightarrow> bool" where
  "wframe w f s s' \<longleftrightarrow> s' = s\<lparr>processes := processes s', queues := queues s'\<rparr> \<and>
     (\<forall>g. qsame (queues s g) (queues s' g)) \<and>
     (\<forall>w' g. \<not> (w' = w \<and> g = f) \<longrightarrow> wait_head w' g s' = wait_head w' g s)"

lemma wframe_fields:
  assumes "wframe w f s s'"
  shows "active_process s' = active_process s" "dead_process_head s' = dead_process_head s"
    "runnable_process_head s' = runnable_process_head s" "asleep_process_head s' = asleep_process_head s"
    "pit_count s' = pit_count s" "child_pid s' = child_pid s" "retval_cell s' = retval_cell s"
    "message_cell s' = message_cell s" "umem s' = umem s" "ustack_blocks s' = ustack_blocks s"
    "kheap_used s' = kheap_used s" "pend s' = pend s"
proof -
  obtain P h where "s' = s\<lparr>processes := P, queues := h\<rparr>"
    using assms unfolding wframe_def by blast
  then show "active_process s' = active_process s" "dead_process_head s' = dead_process_head s"
    "runnable_process_head s' = runnable_process_head s" "asleep_process_head s' = asleep_process_head s"
    "pit_count s' = pit_count s" "child_pid s' = child_pid s" "retval_cell s' = retval_cell s"
    "message_cell s' = message_cell s" "umem s' = umem s" "ustack_blocks s' = ustack_blocks s"
    "kheap_used s' = kheap_used s" "pend s' = pend s"
    by simp_all
qed

lemma set_wait_head_simps [simp]:
  "processes (set_wait_head w f h s) = processes s"
  "wait_head w' g (set_wait_head w f h s) = (if w' = w \<and> g = f then h else wait_head w' g s)"
  "qsame (queues s g) (queues (set_wait_head w f h s) g)"
  by (cases w; cases w'; simp add: set_wait_head_def wait_head_def upd_queue_def qsame_def)+

lemma wframe_upd [simp]:
  "wframe w f s (upd_attr c g s)" "wframe w f s (upd_attr c g (upd_attr p g' s))"
  "wframe w f s (set_wait_head w f h s)" "wframe w f s (set_wait_head w f h (upd_attr p g s))"
  by (simp_all add: wframe_def qsame_def) (cases w; simp add: set_wait_head_def upd_defs)+

definition wtq_spec :: "wside \<Rightarrow> nat \<Rightarrow> nat list \<Rightarrow> nat \<Rightarrow> nat set \<Rightarrow> kstate \<Rightarrow> kstate \<Rightarrow> bool" where
  "wtq_spec w f ys p Y s s' \<longleftrightarrow> wtq_ok s' w f ys \<and> pupd p (st s p) Y (processes s) (processes s') \<and> wframe w f s s' \<and>
     (\<forall>q. q \<in> Y \<longrightarrow> wait_fid s' q = wait_fid s q \<and> wait_retval s' q = wait_retval s q \<and> wait_message s' q = wait_message s q)"

lemma waiting_wstate [simp]: "waiting_on_queue (wstate w)"
  by (cases w) simp_all

lemma push_waiting_list:
  assumes W: "wtq_ok s w f xs" and p: "p < NBPROC" and st: "st s p = wstate w" and notin: "p \<notin> set xs"
    and fid: "wait_fid s p = Some (int f)"
  shows "\<exists>s'. push_waiting_process w f p s = Some s' \<and>
    wtq_spec w f (ins (\<lambda>x. prio (processes s p) \<le> prio (processes s x)) p xs) p (insert p (set xs)) s s'"
proof -
  let ?stay = "\<lambda>x. prio (processes s p) \<le> prio (processes s x)"
  from W have path: "npath (wait_next s) (wait_head w f s) xs" by (simp add: wtq_ok_def)
  have specI: "wtq_spec w f (ins ?stay p xs) p (insert p (set xs)) s s'"
    if "npath (wait_next s') (wait_head w f s') (ins ?stay p xs)"
      and "pupd p (st s p) (insert p (set xs)) (processes s) (processes s')" and "wframe w f s s'"
      and "\<And>q. wait_fid s' q = wait_fid s q \<and> wait_retval s' q = wait_retval s q \<and> wait_message s' q = wait_message s q"
    for s'
    using that W p st fid by (auto simp: wtq_spec_def wtq_ok_def pupd_fields)
  show ?thesis
  proof (cases "xs = [] \<or> \<not> ?stay (hd xs)")
    case True
    let ?s' = "set_wait_head w f (Some p) (set_wait_next p (wait_head w f s) s)"
    have "push_waiting_process w f p s = Some ?s'"
      using True path st by (cases xs; cases w) (auto simp: push_waiting_process_def Let_def)
    moreover have "wtq_spec w f (ins ?stay p xs) p (insert p (set xs)) s ?s'"
    proof (rule specI)
      have "ins ?stay p xs = p # xs" using True by (cases xs) auto
      then show "npath (wait_next ?s') (wait_head w f ?s') (ins ?stay p xs)"
        using wtq.push_front [OF path notin] by simp
      show "pupd p (st s p) (insert p (set xs)) (processes s) (processes ?s')"
        using pupd_upd_attr1 [of p] by simp
      show "wframe w f s ?s'" by simp
    qed (simp add: upd_defs)
    ultimately show ?thesis by blast
  next
    case False
    then obtain h ys where xs: "xs = h # ys" and stay: "?stay h" by (cases xs) auto
    from path xs have h: "wait_head w f s = Some h" by simp
    have "length ys < NBPROC" using wtq_ok_length [OF W] xs by simp
    from wtq.walk_insert [of s h ys NBPROC ?stay "\<lambda>k. Some (?stay k)"] path this xs h stay
    obtain cur k where w: "walk NBPROC (wait_next s) (\<lambda>k. Some (?stay k)) h = Some cur"
        "wait_next s cur = Some k" "cur \<in> set xs"
      and ins: "\<And>q. q \<notin> set xs \<Longrightarrow> npath (wait_next (set_wait_next cur (Some q)
          (set_wait_next q k s))) (Some h) (ins ?stay q xs)"
      by auto
    let ?s' = "set_wait_next cur (Some p) (set_wait_next p k s)"
    have "(case k of None \<Rightarrow> None | Some m \<Rightarrow> Some m) = k" by (cases k) simp_all
    then have "push_waiting_process w f p s = Some ?s'"
      using h stay w st by (cases w) (simp_all add: push_waiting_process_def Let_def)
    moreover have "wtq_spec w f (ins ?stay p xs) p (insert p (set xs)) s ?s'"
    proof (rule specI)
      show "npath (wait_next ?s') (wait_head w f ?s') (ins ?stay p xs)"
        using ins [OF notin] h by simp
      show "pupd p (st s p) (insert p (set xs)) (processes s) (processes ?s')"
        using w(3) by (intro pupd_upd_attr2) auto
      show "wframe w f s ?s'" by simp
    qed (simp add: upd_defs)
    ultimately show ?thesis by blast
  qed
qed

lemma pop_waiting_list:
  assumes W: "wtq_ok s w f xs" and p: "p \<in> set xs"
  shows "\<exists>s'. pop_waiting_process w f p s = Some s' \<and> wtq_spec w f (remove1 p xs) p (set xs) s s'"
proof -
  from W p have st: "st s p = wstate w" by (simp add: wtq_ok_def)
  from W have path: "npath (wait_next s) (wait_head w f s) xs" by (simp add: wtq_ok_def)
  from p obtain h ys where xs: "xs = h # ys" by (cases xs) auto
  with path have h: "wait_head w f s = Some h" by simp
  show ?thesis
  proof (cases "h = p")
    case True
    from path xs obtain n where n: "wait_next s h = Some n" "npath (wait_next s) n ys" by auto
    have "pop_waiting_process w f p s = Some (set_wait_head w f n s)"
      using n True h st by (cases w) (simp_all add: pop_waiting_process_def)
    with True n xs W show ?thesis
      by (auto simp: wtq_spec_def wtq_ok_def intro: pupd_refl)
  next
    case False
    have "length ys < NBPROC" using wtq_ok_length [OF W] xs by simp
    from wtq.walk_remove [of s h ys NBPROC p] path this xs h False p
    obtain cur k' where w: "walk NBPROC (wait_next s) (\<lambda>k. Some (k \<noteq> p)) h = Some cur"
        "wait_next s cur = Some (Some p)" "cur \<in> set xs" "wait_next s p = Some k'"
      and rm: "npath (wait_next (set_wait_next cur k' s)) (Some h) (remove1 p xs)"
      by auto
    let ?s' = "set_wait_next cur k' s"
    have "pop_waiting_process w f p s = Some ?s'"
      using h False w st by (cases w) (simp_all add: pop_waiting_process_def)
    moreover have "pupd p (st s p) (set xs) (processes s) (processes ?s')"
      using w(3) p by (rule pupd_upd_attr1)
    moreover have "wtq_ok ?s' w f (remove1 p xs)"
      using rm h W notin_set_remove1 [of _ xs p] by (auto simp: wtq_ok_def upd_defs)
    moreover have "wait_fid ?s' q = wait_fid s q \<and> wait_retval ?s' q = wait_retval s q \<and>
      wait_message ?s' q = wait_message s q" for q by (simp add: upd_defs)
    ultimately show ?thesis by (simp add: wtq_spec_def)
  qed
qed

section \<open>Dead stack\<close>

lemma pop_dead_list:
  "dead_ok s (p # xs) \<Longrightarrow>
    \<exists>n. pop_dead s = Some (p, s\<lparr>dead_process_head := n\<rparr>) \<and> dead_ok (s\<lparr>dead_process_head := n\<rparr>) xs"
  by (auto simp: dead_ok_def pop_dead_def)

end
