(* ===== verification/Inv_Steps.thy ===== *)
theory Inv_Steps
  imports List_Specs
begin

text \<open>
  The invariant under the list operations, each as a transition of the set of processes that are
  between two states: taking a process off its list adds it to the set, putting it somewhere
  removes it.
\<close>

section \<open>Congruences\<close>

lemma parent_ok_mono:
  assumes "parent_ok s X p" and "parent (processes s' p) = parent (processes s p) \<or> parent (processes s' p) = NOPID"
    and "\<And>q. q \<in> X \<or> st s q \<noteq> PS_DEAD \<and> st s q \<noteq> PS_ZOMBIE \<Longrightarrow>
      q \<in> X' \<or> st s' q \<noteq> PS_DEAD \<and> st s' q \<noteq> PS_ZOMBIE"
  shows "parent_ok s' X' p"
  using assms unfolding parent_ok_def by metis

lemma collectable_mono:
  assumes "collectable s p" and "child_pid s' p = child_pid s p"
    and "\<And>c. st s c = PS_ZOMBIE \<Longrightarrow> parent (processes s c) = int p \<Longrightarrow>
      st s' c = PS_ZOMBIE \<and> parent (processes s' c) = int p"
  shows "collectable s' p"
  using assms unfolding collectable_def by metis

lemma runnable_pend_mono:
  assumes "runnable_pend s p" and "pend s' p = pend s p" and "child_pid s' p = child_pid s p"
    and "\<And>c. st s c = PS_ZOMBIE \<Longrightarrow> parent (processes s c) = int p \<Longrightarrow>
      st s' c = PS_ZOMBIE \<and> parent (processes s' c) = int p"
  shows "runnable_pend s' p"
  using assms collectable_mono [of s p s'] unfolding runnable_pend_def by simp

lemma wait_live_mono:
  assumes "wait_live s X p" and "child_pid s' p = child_pid s p"
    and "\<And>c. parent (processes s c) = int p \<Longrightarrow> c \<in> X \<or> st s c \<noteq> PS_DEAD \<and> st s c \<noteq> PS_ZOMBIE \<Longrightarrow>
      parent (processes s' c) = int p \<and> (c \<in> X' \<or> st s' c \<noteq> PS_DEAD \<and> st s' c \<noteq> PS_ZOMBIE)"
  shows "wait_live s' X' p"
  using assms unfolding wait_live_def by metis

text \<open>A process that an operation does not touch stays in order.\<close>

lemma proc_ok_frame:
  assumes ok: "proc_ok s L X p"
    and st: "st s' p = st s p"
    and attr: "st s p \<noteq> PS_RUNNABLE \<Longrightarrow> u_zombie_retval (state_attr (processes s' p)) = u_zombie_retval (state_attr (processes s p)) \<and>
        u_child (state_attr (processes s' p)) = u_child (state_attr (processes s p)) \<and>
        wait_retval s' p = wait_retval s p \<and> wait_message s' p = wait_message s p"
    and par: "parent (processes s' p) = parent (processes s p) \<or>
        parent (processes s' p) = NOPID \<and> st s p \<noteq> PS_ZOMBIE"
    and pend: "pend s' p = pend s p" and cp: "child_pid s' p = child_pid s p"
    and act: "st s p = PS_RUNNING \<Longrightarrow> active_process s' = active_process s"
    and LR: "st s p = PS_RUNNABLE \<Longrightarrow> p \<in> set (LR L) \<Longrightarrow> p \<in> set (LR L')"
    and LA: "st s p = PS_ASLEEP \<Longrightarrow> p \<in> set (LA L) \<Longrightarrow> p \<in> set (LA L')"
    and LW: "\<And>w f. p \<in> set (LW L w f) \<Longrightarrow> p \<in> set (LW L' w f)"
    and zomb: "\<And>c. st s p = PS_RUNNABLE \<or> st s p = PS_RUNNING \<Longrightarrow> st s c = PS_ZOMBIE \<Longrightarrow>
        parent (processes s c) = int p \<Longrightarrow> st s' c = PS_ZOMBIE \<and> parent (processes s' c) = int p"
    and live: "\<And>c. st s p = PS_WAIT_CHILD \<Longrightarrow> parent (processes s c) = int p \<Longrightarrow>
        c \<in> X \<or> st s c \<noteq> PS_DEAD \<and> st s c \<noteq> PS_ZOMBIE \<Longrightarrow>
        parent (processes s' c) = int p \<and> (c \<in> X' \<or> st s' c \<noteq> PS_DEAD \<and> st s' c \<noteq> PS_ZOMBIE)"
    and alive: "\<And>q. q \<in> X \<or> st s q \<noteq> PS_DEAD \<and> st s q \<noteq> PS_ZOMBIE \<Longrightarrow> parent (processes s' p) = int q \<Longrightarrow>
        q \<in> X' \<or> st s' q \<noteq> PS_DEAD \<and> st s' q \<noteq> PS_ZOMBIE"
  shows "proc_ok s' L' X' p"
proof -
  have rp: "runnable_pend s' p" if "st s p = PS_RUNNABLE \<or> st s p = PS_RUNNING" "runnable_pend s p"
    using runnable_pend_mono [OF that(2) pend cp] zomb [OF that(1)] by blast
  have wl: "wait_live s' X' p" if "st s p = PS_WAIT_CHILD" "wait_live s X p"
    using wait_live_mono [OF that(2) cp] live [OF that(1)] by blast
  have po: "parent_ok s' X' p" if "parent_ok s X p"
    using that par alive unfolding parent_ok_def by metis
  have wk: "waiting_ok s' L' w p" if "waiting_ok s L w p" "st s p = wstate w" for w
    using that attr pend LW unfolding waiting_ok_def by force
  show ?thesis
  proof (cases "st s p")
    case PS_ZOMBIE with ok st attr par po show ?thesis by (auto simp: proc_ok_def)
  next
    case PS_RUNNABLE with ok st rp po LR show ?thesis by (auto simp: proc_ok_def)
  next
    case PS_RUNNING with ok st rp po act show ?thesis by (auto simp: proc_ok_def)
  next
    case PS_ASLEEP with ok st po pend LA show ?thesis by (auto simp: proc_ok_def)
  next
    case PS_WAIT_CHILD with ok st po pend attr wl show ?thesis by (auto simp: proc_ok_def)
  next
    case PS_WAIT_QUEUE_EMPTY with ok st po wk [of W_empty] show ?thesis by (auto simp: proc_ok_def)
  next
    case PS_WAIT_QUEUE_FULL with ok st po wk [of W_full] show ?thesis by (auto simp: proc_ok_def)
  qed (use ok st in \<open>auto simp: proc_ok_def\<close>)
qed

lemma agree_pupd:
  assumes "pupd p x Y (processes s) (processes s')" and "p \<notin> set ys" and "Y \<inter> set ys = {}"
  shows "agree s s' ys"
  unfolding agree_def using assms pupd_fields(9,10) [OF assms(1)] by (metis disjoint_iff)

lemma wtq_frames:
  assumes "\<forall>w f. wtq_ok s w f (LW L w f)" and "\<And>w f. wait_head w f s' = wait_head w f s"
    and "\<And>w f. agree s s' (LW L w f)"
  shows "wtq_ok s' w f (LW L w f)"
  using assms by (blast intro: wtq_ok_frame)

text \<open>Members of the lists.\<close>

lemma lists_okD:
  assumes "lists_ok s L"
  shows "p \<in> set (LR L) \<Longrightarrow> p < NBPROC \<and> st s p = PS_RUNNABLE"
    "p \<in> set (LA L) \<Longrightarrow> p < NBPROC \<and> st s p = PS_ASLEEP \<and> asleep_clock s p \<noteq> None"
    "p \<in> set (LD L) \<Longrightarrow> p < NBPROC \<and> st s p = PS_DEAD"
    "p \<in> set (LW L w f) \<Longrightarrow> p < NBPROC \<and> st s p = wstate w \<and> wait_fid s p = Some (int f)"
  using assms by (auto simp: lists_ok_def run_ok_def slp_ok_def dead_ok_def wtq_ok_def)

lemma ginvD:
  assumes "ginv s L X"
  shows "lists_ok s L" "sorted_ok s L X" "p < NBPROC \<Longrightarrow> p \<notin> X \<Longrightarrow> proc_ok s L X p"
    "p < NBPROC \<Longrightarrow> pid (processes s p) = int p" "active_process s < NBPROC"
    "f < NBQUEUE \<Longrightarrow> queue_ok s L f" "NBQUEUE \<le> f \<Longrightarrow> LW L w f = []" "ustack_ok s X"
  using assms by (auto simp: ginv_def)

lemma queue_ok_same:
  "queue_ok s L f \<Longrightarrow> qsame (queues s f) (queues s' f) \<Longrightarrow>
    (\<And>w. LW L w f = [] \<Longrightarrow> LW L' w f = []) \<Longrightarrow> queue_ok s' L' f"
  by (auto simp: queue_ok_def Let_def ring_ok_def qsame_def split: if_splits)

lemma qsame_refl [simp]: "qsame q q"
  by (simp add: qsame_def)

lemma ustack_ok_frame:
  assumes "ustack_ok s X" and "\<And>p. p < NBPROC \<Longrightarrow> user_stack (processes s' p) = user_stack (processes s p)"
    and "\<And>p. p < NBPROC \<Longrightarrow> ssize (processes s' p) = ssize (processes s p)"
    and "ustack_blocks s' = ustack_blocks s"
    and "\<And>p. p < NBPROC \<Longrightarrow> p \<in> X \<or> st s p \<noteq> PS_DEAD \<Longrightarrow> p \<in> X' \<or> st s' p \<noteq> PS_DEAD"
  shows "ustack_ok s' X'"
  using assms unfolding ustack_ok_def by simp

lemma prio_sorted_cong:
  assumes "prio_sorted s X xs" and "\<And>p. p \<in> set xs \<Longrightarrow> prio (processes s' p) = prio (processes s p)"
    and "\<And>p. p \<in> set xs \<Longrightarrow> (p \<in> X' \<longleftrightarrow> p \<in> X)"
  shows "prio_sorted s' X' xs"
proof -
  have "filter (\<lambda>p. p \<notin> X') xs = filter (\<lambda>p. p \<notin> X) xs" using assms(3) by (intro filter_cong) auto
  moreover have "sorted_wrt (\<lambda>p q. prio (processes s' q) \<le> prio (processes s' p)) (filter (\<lambda>p. p \<notin> X) xs)"
    by (rule sorted_wrt_mono_rel [OF _ assms(1) [unfolded prio_sorted_def]]) (simp add: assms(2))
  ultimately show ?thesis by (simp add: prio_sorted_def)
qed

lemma clock_sorted_cong:
  assumes "clock_sorted s xs" and "\<And>p. p \<in> set xs \<Longrightarrow> asleep_clock s' p = asleep_clock s p"
  shows "clock_sorted s' xs"
  unfolding clock_sorted_def
  by (rule sorted_wrt_mono_rel [OF _ assms(1) [unfolded clock_sorted_def]]) (simp add: assms(2))

lemma prio_sorted_ins:
  assumes "prio_sorted s X xs" and "set xs \<inter> X = {}" and "p \<notin> set xs"
  shows "prio_sorted s Y (ins (\<lambda>x. prio (processes s p) \<le> prio (processes s x)) p xs)"
proof -
  have "filter (\<lambda>p. p \<notin> X) xs = xs" using assms(2) by (intro filter_True) auto
  with assms(1) have "sorted_wrt (\<lambda>p q. prio (processes s q) \<le> prio (processes s p)) xs"
    by (simp add: prio_sorted_def)
  then have "sorted_wrt (\<lambda>p q. prio (processes s q) \<le> prio (processes s p))
      (ins (\<lambda>x. prio (processes s p) \<le> prio (processes s x)) p xs)"
    by (rule sorted_wrt_ins) (auto simp: transp_def)
  then show ?thesis unfolding prio_sorted_def by (rule sorted_wrt_filter)
qed

section \<open>Making a process runnable\<close>

lemma ginv_push_runnable:
  assumes inv: "ginv s L X" and p: "p \<in> X" "p < NBPROC" "st s p \<noteq> PS_RUNNABLE" "st s p \<noteq> PS_ZOMBIE"
    and notin: "p \<notin> set (LA L)" "p \<notin> set (LD L)" "\<And>w f. p \<notin> set (LW L w f)"
    and R: "set (LR L) \<inter> X = {}" and rp: "runnable_pend s p" and pok: "parent_ok s (X - {p}) p"
  shows "\<exists>s'. push_runnable p s = Some s' \<and> push_spec p (LR L) s s' \<and>
    ginv s' (L\<lparr>LR := ins (\<lambda>x. prio (processes s p) \<le> prio (processes s x)) p (LR L)\<rparr>) (X - {p})"
proof -
  let ?L = "L\<lparr>LR := ins (\<lambda>x. prio (processes s p) \<le> prio (processes s x)) p (LR L)\<rparr>"
  from inv have lok: "lists_ok s L" by (rule ginvD)
  then have rok: "run_ok s (LR L)" by (simp add: lists_ok_def)
  from push_runnable_list [OF rok p(2,3)] obtain s' where eq: "push_runnable p s = Some s'"
    and spec: "push_spec p (LR L) s s'" by blast
  from spec have run': "run_ok s' (LR ?L)" and pu: "pupd p PS_RUNNABLE (insert p (set (LR L))) (processes s) (processes s')"
    and fr: "rframe s s'" by (simp_all add: push_spec_def)
  note pf = pupd_fields [OF pu] rframe_fields [OF fr]
  have ag: "agree s s' ys" if "\<And>q. q \<in> set ys \<Longrightarrow> st s q \<noteq> PS_RUNNABLE" "p \<notin> set ys" for ys
    using that lists_okD(1) [OF lok] by (intro agree_pupd [OF pu]) auto
  have agree: "agree s s' (LA L)" "agree s s' (LD L)" "agree s s' (LW L w f)" for w f
    by (rule ag; use lists_okD(2-4) [OF lok] notin in fastforce)+
  have "lists_ok s' ?L"
    using lok run' agree unfolding lists_ok_def
    by (auto simp: pf elim!: slp_ok_frame dead_ok_frame wtq_frames)
  moreover have "sorted_ok s' ?L (X - {p})"
  proof -
    have so: "prio_sorted s X (LR L)" "clock_sorted s (LA L)" "\<And>w f. prio_sorted s X (LW L w f)"
      using ginvD(2) [OF inv] by (simp_all add: sorted_ok_def)
    have "p \<notin> set (LR L)" using lists_okD(1) [OF lok] p(3) by blast
    then have "prio_sorted s (X - {p}) (LR ?L)" using prio_sorted_ins [OF so(1) R] by simp
    then have "prio_sorted s' (X - {p}) (LR ?L)" by (rule prio_sorted_cong) (simp_all add: pf)
    moreover have "clock_sorted s' (LA L)"
      using so(2) by (rule clock_sorted_cong) (use agree(1) in \<open>simp add: agree_def\<close>)
    moreover have "prio_sorted s' (X - {p}) (LW L w f)" for w f
      using so(3) by (rule prio_sorted_cong) (use notin(3) in \<open>auto simp: pf\<close>)
    ultimately show ?thesis by (simp add: sorted_ok_def)
  qed
  moreover have "proc_ok s' ?L (X - {p}) q" if q: "q < NBPROC" "q \<notin> X - {p}" for q
  proof (cases "q = p")
    case True
    have "runnable_pend s' p" using rp by (rule runnable_pend_mono) (use p(4) in \<open>auto simp: pf\<close>)
    moreover have "parent_ok s' (X - {p}) p" using pok by (rule parent_ok_mono) (auto simp: pf)
    ultimately show ?thesis using True by (simp add: proc_ok_def pf)
  next
    case False
    with q have ok: "proc_ok s L X q" using ginvD(3) [OF inv] by blast
    have "state_attr (processes s' q) = state_attr (processes s q)" if "st s q \<noteq> PS_RUNNABLE"
      using that False lists_okD(1) [OF lok] by (intro pf) auto
    with False p show ?thesis
      by (intro proc_ok_frame [OF ok]) (auto simp: pf)
  qed
  moreover have "ustack_ok s' (X - {p})"
    using ginvD(8) [OF inv] by (rule ustack_ok_frame) (auto simp: pf)
  moreover have "queue_ok s' ?L f" if "f < NBQUEUE" for f
    using ginvD(6) [OF inv that] by (rule queue_ok_same) (simp_all add: pf)
  ultimately have "ginv s' ?L (X - {p})"
    using ginvD(4,5,7) [OF inv] by (simp add: ginv_def pf)
  with eq spec show ?thesis by blast
qed

section \<open>Widening, and fields outside the invariant\<close>

lemma parent_ok_subset: "parent_ok s X p \<Longrightarrow> X \<subseteq> Y \<Longrightarrow> parent_ok s Y p"
  by (erule parent_ok_mono) auto

lemma wait_live_subset: "wait_live s X p \<Longrightarrow> X \<subseteq> Y \<Longrightarrow> wait_live s Y p"
  by (erule wait_live_mono) auto

lemma proc_ok_subset: "proc_ok s L X p \<Longrightarrow> X \<subseteq> Y \<Longrightarrow> proc_ok s L Y p"
  by (erule proc_ok_frame) auto

lemma prio_sorted_subset: "prio_sorted s X xs \<Longrightarrow> X \<subseteq> Y \<Longrightarrow> prio_sorted s Y xs"
proof -
  assume "prio_sorted s X xs" "X \<subseteq> Y"
  moreover from this(2) have "filter (\<lambda>p. p \<notin> Y) xs = filter (\<lambda>p. p \<notin> Y) (filter (\<lambda>p. p \<notin> X) xs)"
    unfolding filter_filter by (intro filter_cong) auto
  ultimately show ?thesis unfolding prio_sorted_def by (metis sorted_wrt_filter)
qed

lemma ginv_subset: "ginv s L X \<Longrightarrow> X \<subseteq> Y \<Longrightarrow> ginv s L Y"
  unfolding ginv_def sorted_ok_def ustack_ok_def
  by (blast intro: proc_ok_subset prio_sorted_subset)

lemma ginv_other:
  assumes inv: "ginv s L X" and pr: "processes s' = processes s" and hd: "runnable_process_head s' = runnable_process_head s"
    "asleep_process_head s' = asleep_process_head s" "dead_process_head s' = dead_process_head s"
    and q: "queues s' = queues s" and a: "active_process s' = active_process s" "ustack_blocks s' = ustack_blocks s"
    and cells: "\<And>p. p < NBPROC \<Longrightarrow> p \<notin> X \<Longrightarrow> pend s' p = pend s p \<and> child_pid s' p = child_pid s p"
  shows "ginv s' L X"
proof -
  have wh: "wait_head w f s' = wait_head w f s" for w f by (cases w) (simp_all add: wait_head_def q)
  have "lists_ok s' L" using ginvD(1) [OF inv]
    by (simp add: lists_ok_def run_ok_def slp_ok_def dead_ok_def wtq_ok_def pr hd wh)
  moreover have "sorted_ok s' L X" using ginvD(2) [OF inv]
    by (simp add: sorted_ok_def prio_sorted_def clock_sorted_def pr)
  moreover have "proc_ok s' L X p" if "p < NBPROC" "p \<notin> X" for p
    by (rule proc_ok_frame [OF ginvD(3) [OF inv that]]) (use cells [OF that] in \<open>simp_all add: pr a\<close>)
  moreover have "queue_ok s' L f" if "f < NBQUEUE" for f
    using ginvD(6) [OF inv that] by (rule queue_ok_same) (simp_all add: q)
  moreover have "ustack_ok s' X" using ginvD(8) [OF inv] by (rule ustack_ok_frame) (simp_all add: pr a)
  ultimately show ?thesis using inv by (simp add: ginv_def pr a)
qed

lemma ginv_store_user:
  "ginv s L X \<Longrightarrow> ginv (s\<lparr>umem := m\<rparr>) L X" "ginv s L X \<Longrightarrow> ginv (s\<lparr>retval_cell := r\<rparr>) L X"
  "ginv s L X \<Longrightarrow> ginv (s\<lparr>message_cell := r\<rparr>) L X" "ginv s L X \<Longrightarrow> ginv (s\<lparr>tss_esp0 := e\<rparr>) L X"
  "ginv s L X \<Longrightarrow> ginv (s\<lparr>kheap_used := h\<rparr>) L X" "ginv s L X \<Longrightarrow> ginv (s\<lparr>pit_count := t\<rparr>) L X"
  by (erule ginv_other; simp)+

lemma push_cont_fields [simp]:
  "processes (push_cont k s) = processes s" "runnable_process_head (push_cont k s) = runnable_process_head s"
  "asleep_process_head (push_cont k s) = asleep_process_head s"
  "dead_process_head (push_cont k s) = dead_process_head s" "queues (push_cont k s) = queues s"
  "active_process (push_cont k s) = active_process s" "ustack_blocks (push_cont k s) = ustack_blocks s"
  "child_pid (push_cont k s) = child_pid s" "pend (push_cont k s) = (pend s)(active_process s := Some k)"
  "umem (push_cont k s) = umem s" "retval_cell (push_cont k s) = retval_cell s"
  "message_cell (push_cont k s) = message_cell s" "pit_count (push_cont k s) = pit_count s"
  "kheap_used (push_cont k s) = kheap_used s" "tss_esp0 (push_cont k s) = tss_esp0 s"
  by (simp_all add: push_cont_def)

text \<open>The active process may be left with anything that is safe to resume.\<close>

lemma ginv_pend_active:
  assumes inv: "ginv s L X" and a: "st s (active_process s) = PS_RUNNING \<or> active_process s \<in> X"
    and k: "active_process s \<in> X \<or> k = None \<or> (\<exists>v. k = Some (K_ret v)) \<or> k = Some K_iret"
  shows "ginv (s\<lparr>pend := (pend s)(active_process s := k)\<rparr>) L X"
proof (cases "active_process s \<in> X")
  case True
  then show ?thesis by (intro ginv_other [OF inv]) auto
next
  case False
  let ?a = "active_process s" and ?s = "s\<lparr>pend := (pend s)(active_process s := k)\<rparr>"
  have "ginv ?s L (insert ?a X)"
    by (rule ginv_other [OF ginv_subset [OF inv subset_insertI]]) simp_all
  moreover have "proc_ok ?s L X p" if "p < NBPROC" "p \<notin> X" for p
  proof (cases "p = ?a")
    case True
    from a False have r: "st s ?a = PS_RUNNING" by simp
    with ginvD(3) [OF inv that] True have "parent_ok s X ?a" by (simp add: proc_ok_def)
    then have "parent_ok ?s X ?a" by (rule parent_ok_mono) auto
    moreover have "runnable_pend ?s ?a" using k False by (auto simp: runnable_pend_def)
    ultimately show ?thesis using True r by (auto simp: proc_ok_def)
  next
    case neq: False
    show ?thesis by (rule proc_ok_frame [OF ginvD(3) [OF inv that]]) (use neq in auto)
  qed
  moreover have "sorted_ok ?s L X" using ginvD(2) [OF inv]
    by (simp add: sorted_ok_def prio_sorted_def clock_sorted_def)
  moreover have "ustack_ok ?s X" using ginvD(8) [OF inv] by (simp add: ustack_ok_def)
  ultimately show ?thesis by (simp add: ginv_def)
qed

lemma ginv_push_ret:
  "ginv s L X \<Longrightarrow> st s (active_process s) = PS_RUNNING \<or> active_process s \<in> X \<Longrightarrow> ginv (push_cont (K_ret v) s) L X"
  unfolding push_cont_def by (rule ginv_pend_active) auto

lemma ginv_push_cont_X:
  "ginv s L X \<Longrightarrow> active_process s \<in> X \<Longrightarrow> ginv (push_cont k s) L X"
  unfolding push_cont_def by (rule ginv_pend_active) auto

end
