(* ===== verification/Inv_Moves.thy ===== *)
theory Inv_Moves
  imports Inv_Steps
begin

text \<open>
  Moves of a process between the lists, as transitions of \<open>ginv\<close>: a process in transition may be
  unlinked, rewritten and linked elsewhere, and leaves the set of processes in transition once it is
  where its state says.
\<close>

section \<open>Steps of a process in transition\<close>

text \<open>The members of the union that the invariant reads.\<close>

definition attr_same :: "kstate \<Rightarrow> kstate \<Rightarrow> nat \<Rightarrow> bool" where
  "attr_same s s' q \<longleftrightarrow> u_zombie_retval (state_attr (processes s' q)) = u_zombie_retval (state_attr (processes s q)) \<and>
     u_child (state_attr (processes s' q)) = u_child (state_attr (processes s q)) \<and>
     wait_retval s' q = wait_retval s q \<and> wait_message s' q = wait_message s q"

lemma ginv_inner:
  assumes inv: "ginv s L X" and p: "p \<in> X" and pu: "pupd p x Y (processes s) (processes s')"
    and z: "st s p = PS_ZOMBIE \<Longrightarrow> x = PS_ZOMBIE"
    and fr: "active_process s' = active_process s" "pend s' = pend s" "child_pid s' = child_pid s"
      "ustack_blocks s' = ustack_blocks s"
    and lists: "lists_ok s' L'" and so: "sorted_ok s' L' X"
    and attr: "\<And>q. q \<in> Y \<Longrightarrow> q \<noteq> p \<Longrightarrow> st s q = PS_RUNNABLE \<or> attr_same s s' q"
    and LR: "\<And>q. q \<noteq> p \<Longrightarrow> q \<in> set (LR L) \<Longrightarrow> q \<in> set (LR L')"
    and LA: "\<And>q. q \<noteq> p \<Longrightarrow> q \<in> set (LA L) \<Longrightarrow> q \<in> set (LA L')"
    and LW: "\<And>q w f. q \<noteq> p \<Longrightarrow> q \<in> set (LW L w f) \<Longrightarrow> q \<in> set (LW L' w f)"
    and Q: "\<And>f. f < NBQUEUE \<Longrightarrow> queue_ok s' L' f" and LW0: "\<And>w f. NBQUEUE \<le> f \<Longrightarrow> LW L' w f = []"
  shows "ginv s' L' X"
proof -
  note pf = pupd_fields [OF pu]
  have "proc_ok s' L' X q" if q: "q < NBPROC" "q \<notin> X" for q
  proof -
    from q p have neq: "q \<noteq> p" by blast
    have "attr_same s s' q" if "st s q \<noteq> PS_RUNNABLE"
      using attr [of q] neq that pf(10) [of q] by (cases "q \<in> Y") (auto simp: attr_same_def)
    then show ?thesis
      using neq z LR LA LW p by (intro proc_ok_frame [OF ginvD(3) [OF inv q]]) (auto simp: pf fr attr_same_def)
  qed
  moreover have "ustack_ok s' X"
    using ginvD(8) [OF inv] by (rule ustack_ok_frame) (use p in \<open>auto simp: pf fr\<close>)
  ultimately show ?thesis using inv lists so Q LW0 by (simp add: ginv_def pf fr)
qed

lemma ginv_settle:
  assumes inv: "ginv s L X" and so: "sorted_ok s L (X - {p})"
    and ok: "proc_ok s L (X - {p}) p" and dead: "user_stack (processes s p) = None \<or> st s p \<noteq> PS_DEAD"
    and others: "st s p \<noteq> PS_DEAD \<and> st s p \<noteq> PS_ZOMBIE \<or>
      (\<forall>q < NBPROC. q \<notin> X \<longrightarrow> (st s q \<noteq> PS_DEAD \<longrightarrow> parent_ok s (X - {p}) q) \<and>
        (st s q = PS_WAIT_CHILD \<longrightarrow> wait_live s (X - {p}) q))"
  shows "ginv s L (X - {p})"
proof -
  have "proc_ok s L (X - {p}) q" if q: "q < NBPROC" "q \<notin> X - {p}" for q
  proof (cases "q = p")
    case True then show ?thesis using ok by simp
  next
    case False
    with q have ok: "proc_ok s L X q" using ginvD(3) [OF inv] by blast
    from others show ?thesis
    proof
      assume "st s p \<noteq> PS_DEAD \<and> st s p \<noteq> PS_ZOMBIE"
      then show ?thesis using ok by (intro proc_ok_frame [OF ok]) auto
    next
      assume "\<forall>q < NBPROC. q \<notin> X \<longrightarrow> (st s q \<noteq> PS_DEAD \<longrightarrow> parent_ok s (X - {p}) q) \<and>
        (st s q = PS_WAIT_CHILD \<longrightarrow> wait_live s (X - {p}) q)"
      with ok q False show ?thesis by (simp add: proc_ok_def)
    qed
  qed
  moreover have "ustack_ok s (X - {p})"
    using ginvD(8) [OF inv] dead unfolding ustack_ok_def by (metis Diff_iff insertE option.distinct(1) singletonD)
  ultimately show ?thesis using inv so by (simp add: ginv_def)
qed

section \<open>Order of the lists\<close>

lemma prio_sorted_remove:
  "prio_sorted s X xs \<Longrightarrow> p \<in> X \<Longrightarrow> prio_sorted s X (remove1 p xs)"
  by (simp add: prio_sorted_def filter_remove1)

lemma prio_sorted_tl: "prio_sorted s X (x # xs) \<Longrightarrow> prio_sorted s X xs"
  by (simp add: prio_sorted_def split: if_splits)

lemma sorted_wrt_remove1: "sorted_wrt P xs \<Longrightarrow> sorted_wrt P (remove1 x xs)"
  by (induction xs) (auto dest: notin_set_remove1)

lemma clock_sorted_remove: "clock_sorted s xs \<Longrightarrow> clock_sorted s (remove1 p xs)"
  by (simp add: clock_sorted_def sorted_wrt_remove1)

text \<open>A process that is on no list may leave the set in transition without affecting the order.\<close>

lemma prio_sorted_notin:
  "prio_sorted s X xs \<Longrightarrow> p \<notin> set xs \<Longrightarrow> prio_sorted s (X - {p}) xs"
  by (rule prio_sorted_cong) auto

lemma sorted_ok_notin:
  "sorted_ok s L X \<Longrightarrow> p \<notin> set (LR L) \<Longrightarrow> (\<And>w f. p \<notin> set (LW L w f)) \<Longrightarrow> sorted_ok s L (X - {p})"
  by (auto simp: sorted_ok_def intro: prio_sorted_notin)

lemma sorted_okD:
  assumes "sorted_ok s L X"
  shows "prio_sorted s X (LR L)" "clock_sorted s (LA L)" "prio_sorted s X (LW L w f)"
  using assms by (simp_all add: sorted_ok_def)

section \<open>Unlinking\<close>

lemma asleep_attr_same:
  "asleep_clock s q \<noteq> None \<Longrightarrow> asleep_clock s' q \<noteq> None \<Longrightarrow> attr_same s s' q"
  by (auto simp: attr_same_def union_defs split: state_attr_t.splits)

lemma wait_attr_same:
  "wait_fid s q \<noteq> None \<Longrightarrow> wait_fid s' q \<noteq> None \<Longrightarrow> wait_retval s' q = wait_retval s q \<Longrightarrow>
    wait_message s' q = wait_message s q \<Longrightarrow> attr_same s s' q"
  by (auto simp: attr_same_def union_defs split: state_attr_t.splits)

lemma agree_other:
  assumes pu: "pupd p x Y (processes s) (processes s')" and x: "x = st s p"
    and Y: "\<And>q. q \<in> Y \<Longrightarrow> q \<in> set ys \<Longrightarrow> False"
  shows "agree s s' ys"
  using pupd_fields(9,10) [OF pu] x Y by (auto simp: agree_def)

lemma ginv_remove_runnable:
  assumes inv: "ginv s L X" and p: "p \<in> X" "p \<in> set (LR L)"
  shows "\<exists>s'. remove_runnable p s = Some s' \<and> unlink_spec p (LR L) s s' \<and> ginv s' (L\<lparr>LR := remove1 p (LR L)\<rparr>) X"
proof -
  from inv have lok: "lists_ok s L" by (rule ginvD)
  then have "run_ok s (LR L)" by (simp add: lists_ok_def)
  from remove_runnable_list [OF this p(2)] obtain s' where eq: "remove_runnable p s = Some s'"
    and spec: "unlink_spec p (LR L) s s'" by blast
  from spec have run': "run_ok s' (remove1 p (LR L))"
    and pu: "pupd p (st s p) (set (LR L)) (processes s) (processes s')"
    and fr: "rframe s s'" by (simp_all add: unlink_spec_def)
  note pf = pupd_fields [OF pu] rframe_fields [OF fr]
  note D = lists_okD [OF lok] and so = sorted_okD [OF ginvD(2) [OF inv]]
  have ag: "agree s s' (LA L)" "agree s s' (LD L)" "agree s s' (LW L w f)" for w f
    by (rule agree_other [OF pu]; use D in fastforce)+
  have "ginv s' (L\<lparr>LR := remove1 p (LR L)\<rparr>) X"
  proof (rule ginv_inner [OF inv p(1) pu])
    show "lists_ok s' (L\<lparr>LR := remove1 p (LR L)\<rparr>)"
      using lok run' ag unfolding lists_ok_def
      by (auto simp: pf elim!: slp_ok_frame dead_ok_frame wtq_frames)
    show "sorted_ok s' (L\<lparr>LR := remove1 p (LR L)\<rparr>) X" unfolding sorted_ok_def
    proof (intro conjI allI; simp)
      show "prio_sorted s' X (remove1 p (LR L))"
        by (rule prio_sorted_cong [OF prio_sorted_remove [OF so(1) p(1)]]) (simp_all add: pf)
      show "clock_sorted s' (LA L)" by (rule clock_sorted_cong [OF so(2)]) (use ag(1) in \<open>simp add: agree_def\<close>)
      show "prio_sorted s' X (LW L w f)" for w f by (rule prio_sorted_cong [OF so(3)]) (simp_all add: pf)
    qed
    show "queue_ok s' (L\<lparr>LR := remove1 p (LR L)\<rparr>) f" if "f < NBQUEUE" for f
      using ginvD(6) [OF inv that] by (rule queue_ok_same) (simp_all add: pf)
  qed (use D p ginvD(7) [OF inv] in \<open>auto simp: pf\<close>)
  with eq spec show ?thesis by blast
qed

text \<open>Rewriting the list of sleeping processes.\<close>

lemma ginv_asleep:
  assumes inv: "ginv s L X" and p: "p \<in> X" and spec: "slp_spec ys p Y s s'"
    and Y: "Y \<subseteq> insert p (set (LA L))" and ys: "\<And>q. q \<noteq> p \<Longrightarrow> q \<in> set (LA L) \<Longrightarrow> q \<in> set ys"
    and sor: "clock_sorted s ys"
    and notin: "p \<notin> set (LR L)" "p \<notin> set (LD L)" "\<And>w f. p \<notin> set (LW L w f)"
  shows "ginv s' (L\<lparr>LA := ys\<rparr>) X"
proof -
  from inv have lok: "lists_ok s L" by (rule ginvD)
  from spec have slp': "slp_ok s' ys" and pu: "pupd p (st s p) Y (processes s) (processes s')"
    and fr: "aframe s s'" and clk: "\<And>q. asleep_clock s' q = asleep_clock s q" by (simp_all add: slp_spec_def)
  note pf = pupd_fields [OF pu] aframe_fields [OF fr]
  note D = lists_okD [OF lok] and so = sorted_okD [OF ginvD(2) [OF inv]]
  have ag: "agree s s' (LR L)" "agree s s' (LD L)" "agree s s' (LW L w f)" for w f
    by (rule agree_other [OF pu]; use D Y notin in fastforce)+
  show ?thesis
  proof (rule ginv_inner [OF inv p pu])
    show "lists_ok s' (L\<lparr>LA := ys\<rparr>)"
      using lok slp' ag unfolding lists_ok_def
      by (auto simp: pf elim!: run_ok_frame dead_ok_frame wtq_frames)
    show "sorted_ok s' (L\<lparr>LA := ys\<rparr>) X" unfolding sorted_ok_def
    proof (intro conjI allI; simp)
      show "prio_sorted s' X (LR L)" by (rule prio_sorted_cong [OF so(1)]) (simp_all add: pf)
      show "clock_sorted s' ys" by (rule clock_sorted_cong [OF sor]) (simp add: clk)
      show "prio_sorted s' X (LW L w f)" for w f by (rule prio_sorted_cong [OF so(3)]) (simp_all add: pf)
    qed
    show "queue_ok s' (L\<lparr>LA := ys\<rparr>) f" if "f < NBQUEUE" for f
      using ginvD(6) [OF inv that] by (rule queue_ok_same) (simp_all add: pf)
    show "st s q = PS_RUNNABLE \<or> attr_same s s' q" if "q \<in> Y" "q \<noteq> p" for q
      using that Y D(2) [of q] clk [of q] asleep_attr_same [of s q s'] by auto
  qed (use D ys ginvD(7) [OF inv] in \<open>auto simp: pf\<close>)
qed

lemma ginv_remove_asleep:
  assumes inv: "ginv s L X" and p: "p \<in> X" "p \<in> set (LA L)"
  shows "\<exists>s'. remove_asleep p s = Some s' \<and> slp_spec (remove1 p (LA L)) p (set (LA L)) s s' \<and>
    ginv s' (L\<lparr>LA := remove1 p (LA L)\<rparr>) X"
proof -
  from inv have lok: "lists_ok s L" by (rule ginvD)
  then have "slp_ok s (LA L)" by (simp add: lists_ok_def)
  from remove_asleep_list [OF this p(2)] obtain s' where eq: "remove_asleep p s = Some s'"
    and spec: "slp_spec (remove1 p (LA L)) p (set (LA L)) s s'" by blast
  moreover have "clock_sorted s (remove1 p (LA L))"
    by (rule clock_sorted_remove [OF sorted_okD(2) [OF ginvD(2) [OF inv]]])
  ultimately have "ginv s' (L\<lparr>LA := remove1 p (LA L)\<rparr>) X"
    using lists_okD [OF lok, of p] p by (intro ginv_asleep [OF inv p(1) spec]) auto
  with eq spec show ?thesis by blast
qed

lemma clock_sorted_ins:
  assumes "clock_sorted s xs" and "asleep_clock s p = Some c"
  shows "clock_sorted s (ins (\<lambda>x. c > the (asleep_clock s x)) p xs)"
  using assms unfolding clock_sorted_def by (intro sorted_wrt_ins) (auto simp: transp_def not_less)

lemma ginv_insert_asleep:
  assumes inv: "ginv s L X" and p: "p \<in> X" "p < NBPROC" and st: "st s p = PS_ASLEEP"
    and c: "asleep_clock s p = Some c" and notin: "p \<notin> set (LA L)"
  shows "\<exists>s'. insert_asleep p c s = Some s' \<and>
    slp_spec (ins (\<lambda>x. c > the (asleep_clock s x)) p (LA L)) p (insert p (set (LA L))) s s' \<and>
    ginv s' (L\<lparr>LA := ins (\<lambda>x. c > the (asleep_clock s x)) p (LA L)\<rparr>) X"
proof -
  let ?ys = "ins (\<lambda>x. c > the (asleep_clock s x)) p (LA L)"
  from inv have lok: "lists_ok s L" by (rule ginvD)
  then have "slp_ok s (LA L)" by (simp add: lists_ok_def)
  from insert_asleep_list [OF this p(2) st notin c] obtain s' where eq: "insert_asleep p c s = Some s'"
    and spec: "slp_spec ?ys p (insert p (set (LA L))) s s'" by blast
  moreover have "clock_sorted s ?ys"
    by (rule clock_sorted_ins [OF sorted_okD(2) [OF ginvD(2) [OF inv]] c])
  ultimately have "ginv s' (L\<lparr>LA := ?ys\<rparr>) X"
    using lists_okD [OF lok, of p] st by (intro ginv_asleep [OF inv p(1) spec]) auto
  with eq spec show ?thesis by blast
qed

text \<open>Rewriting one list of waiting processes.\<close>

abbreviation set_LW :: "wside \<Rightarrow> nat \<Rightarrow> nat list \<Rightarrow> lists \<Rightarrow> lists" where
  "set_LW w f ys L \<equiv> L\<lparr>LW := (LW L)(w := (LW L w)(f := ys))\<rparr>"

lemma ginv_waiting:
  assumes inv: "ginv s L X" and p: "p \<in> X" and spec: "wtq_spec w f ys p Y s s'"
    and Y: "Y \<subseteq> insert p (set (LW L w f))" and ys: "\<And>q. q \<noteq> p \<Longrightarrow> q \<in> set (LW L w f) \<Longrightarrow> q \<in> set ys"
    and sor: "prio_sorted s X ys" and f: "f < NBQUEUE"
    and notin: "p \<notin> set (LR L)" "p \<notin> set (LD L)" "p \<notin> set (LA L)" "\<And>w' g. w' \<noteq> w \<or> g \<noteq> f \<Longrightarrow> p \<notin> set (LW L w' g)"
    and Q: "queue_ok s (set_LW w f ys L) f"
  shows "ginv s' (set_LW w f ys L) X"
proof -
  let ?L = "set_LW w f ys L"
  from inv have lok: "lists_ok s L" by (rule ginvD)
  from spec have wtq': "wtq_ok s' w f ys" and pu: "pupd p (st s p) Y (processes s) (processes s')"
    and fr: "wframe w f s s'" and att: "\<And>q. q \<in> Y \<Longrightarrow> wait_fid s' q = wait_fid s q \<and>
      wait_retval s' q = wait_retval s q \<and> wait_message s' q = wait_message s q" by (simp_all add: wtq_spec_def)
  from fr have qs: "\<And>g. qsame (queues s g) (queues s' g)"
    and wh: "\<And>w' g. \<not> (w' = w \<and> g = f) \<Longrightarrow> wait_head w' g s' = wait_head w' g s" by (simp_all add: wframe_def)
  note pf = pupd_fields [OF pu] wframe_fields [OF fr]
  note D = lists_okD [OF lok] and so = sorted_okD [OF ginvD(2) [OF inv]]
  have ag: "agree s s' (LR L)" "agree s s' (LD L)" "agree s s' (LA L)"
    by (rule agree_other [OF pu]; use D Y notin in fastforce)+
  have agw: "agree s s' (LW L w' g)" if "w' \<noteq> w \<or> g \<noteq> f" for w' g
    by (rule agree_other [OF pu]; use D(4) [of _ w' g] D(4) [of _ w f] Y notin(4) [OF that] that in fastforce)
  show ?thesis
  proof (rule ginv_inner [OF inv p pu])
    have "wtq_ok s' w' g (LW ?L w' g)" for w' g
      using wtq' agw [of w' g] wh [of w' g] lok wtq_ok_frame [of s w' g "LW L w' g" s']
      by (auto simp: lists_ok_def)
    then show "lists_ok s' ?L"
      using lok ag unfolding lists_ok_def
      by (auto simp: pf elim!: run_ok_frame dead_ok_frame slp_ok_frame)
    have "prio_sorted s' X ys" by (rule prio_sorted_cong [OF sor]) (simp_all add: pf)
    moreover have "prio_sorted s' X (LW L w' g)" for w' g by (rule prio_sorted_cong [OF so(3)]) (simp_all add: pf)
    ultimately have "prio_sorted s' X (LW ?L w' g)" for w' g by simp
    moreover have "prio_sorted s' X (LR L)" by (rule prio_sorted_cong [OF so(1)]) (simp_all add: pf)
    moreover have "clock_sorted s' (LA L)"
      by (rule clock_sorted_cong [OF so(2)]) (use ag(3) in \<open>simp add: agree_def\<close>)
    ultimately show "sorted_ok s' ?L X" by (simp add: sorted_ok_def)
    show "queue_ok s' ?L g" if "g < NBQUEUE" for g
    proof (cases "g = f")
      case True then show ?thesis using queue_ok_same [OF Q qs] by simp
    next
      case False show ?thesis by (rule queue_ok_same [OF ginvD(6) [OF inv that] qs]) (use False in auto)
    qed
    show "st s q = PS_RUNNABLE \<or> attr_same s s' q" if "q \<in> Y" "q \<noteq> p" for q
      using that Y D(4) [of q w f] att [of q] wait_attr_same [of s q s'] by auto
    show "LW ?L w' g = []" if "NBQUEUE \<le> g" for w' g using ginvD(7) [OF inv that] f that by simp
  qed (use D ys in \<open>auto simp: pf\<close>)
qed

lemma remove1_Nil: "xs = [] \<Longrightarrow> remove1 p xs = []"
  by simp

lemma ginv_pop_waiting:
  assumes inv: "ginv s L X" and p: "p \<in> X" "p \<in> set (LW L w f)" and f: "f < NBQUEUE"
  shows "\<exists>s'. pop_waiting_process w f p s = Some s' \<and> wtq_spec w f (remove1 p (LW L w f)) p (set (LW L w f)) s s' \<and>
    ginv s' (set_LW w f (remove1 p (LW L w f)) L) X"
proof -
  from inv have lok: "lists_ok s L" by (rule ginvD)
  then have "wtq_ok s w f (LW L w f)" by (simp add: lists_ok_def)
  from pop_waiting_list [OF this p(2)] obtain s' where eq: "pop_waiting_process w f p s = Some s'"
    and spec: "wtq_spec w f (remove1 p (LW L w f)) p (set (LW L w f)) s s'" by blast
  note D = lists_okD [OF lok, of p]
  have ot: "p \<notin> set (LW L w' g)" if "w' \<noteq> w \<or> g \<noteq> f" for w' g
    using D(4) [of w' g] D(4) [OF p(2)] that by auto
  have so: "prio_sorted s X (remove1 p (LW L w f))"
    by (rule prio_sorted_remove [OF sorted_okD(3) [OF ginvD(2) [OF inv]] p(1)])
  have q: "queue_ok s (set_LW w f (remove1 p (LW L w f)) L) f"
    by (rule queue_ok_same [OF ginvD(6) [OF inv f]]) auto
  have "ginv s' (set_LW w f (remove1 p (LW L w f)) L) X"
    by (rule ginv_waiting [OF inv p(1) spec _ _ so f _ _ _ ot q]) (use D p in auto)
  with eq spec show ?thesis by blast
qed

lemma ginv_push_waiting:
  assumes inv: "ginv s L X" and p: "p \<in> X" "p < NBPROC" and f: "f < NBQUEUE"
    and st: "st s p = wstate w" and fid: "wait_fid s p = Some (int f)"
    and notin: "\<And>w f. p \<notin> set (LW L w f)" and X: "set (LW L w f) \<inter> X = {}"
    and cap: "capacity (queues s f) \<noteq> 0" "w = W_empty \<Longrightarrow> qsize (queues s f) = 0"
      "w = W_full \<Longrightarrow> qsize (queues s f) = capacity (queues s f)"
  shows "\<exists>s' ys. push_waiting_process w f p s = Some s' \<and>
    ys = ins (\<lambda>x. prio (processes s p) \<le> prio (processes s x)) p (LW L w f) \<and>
    wtq_spec w f ys p (insert p (set (LW L w f))) s s' \<and> ginv s' (set_LW w f ys L) X \<and>
    sorted_ok s' (set_LW w f ys L) (X - {p})"
proof -
  let ?ys = "ins (\<lambda>x. prio (processes s p) \<le> prio (processes s x)) p (LW L w f)"
  let ?L = "set_LW w f ?ys L"
  from inv have lok: "lists_ok s L" by (rule ginvD)
  then have "wtq_ok s w f (LW L w f)" by (simp add: lists_ok_def)
  from push_waiting_list [OF this p(2) st notin fid] obtain s'
    where eq: "push_waiting_process w f p s = Some s'"
      and spec: "wtq_spec w f ?ys p (insert p (set (LW L w f))) s s'" by blast
  note D = lists_okD [OF lok, of p] and so = sorted_okD [OF ginvD(2) [OF inv]]
  have sor: "prio_sorted s Z ?ys" for Z by (rule prio_sorted_ins [OF so(3) X notin])
  have q: "queue_ok s ?L f"
    using ginvD(6) [OF inv f] cap by (cases w) (auto simp: queue_ok_def Let_def)
  have inv': "ginv s' ?L X"
    by (rule ginv_waiting [OF inv p(1) spec _ _ sor f _ _ _ _ q]) (use D st notin in auto)
  from spec have pu: "pupd p (st s p) (insert p (set (LW L w f))) (processes s) (processes s')"
    by (simp add: wtq_spec_def)
  note pf = pupd_fields [OF pu]
  have "prio_sorted s' (X - {p}) (LW ?L w' g)" for w' g
    by (rule prio_sorted_cong [of s "X - {p}"])
      (use sor notin prio_sorted_notin [OF so(3)] in \<open>auto simp: pf\<close>)
  moreover have "prio_sorted s' (X - {p}) (LR L)"
    using sorted_okD(1) [OF ginvD(2) [OF inv']] D(1) st by (auto intro: prio_sorted_notin)
  ultimately have "sorted_ok s' ?L (X - {p})"
    using sorted_okD(2) [OF ginvD(2) [OF inv']] by (simp add: sorted_ok_def)
  with eq spec inv' show ?thesis by blast
qed

section \<open>Rewriting a process in transition\<close>

text \<open>A process that is on no list may get any state and any union.\<close>

definition unlisted :: "lists \<Rightarrow> nat \<Rightarrow> bool" where
  "unlisted L p \<longleftrightarrow> p \<notin> set (LR L) \<and> p \<notin> set (LA L) \<and> p \<notin> set (LD L) \<and> (\<forall>w f. p \<notin> set (LW L w f))"

lemma ginv_rewrite:
  assumes inv: "ginv s L X" and p: "p \<in> X" "unlisted L p" and z: "st s p = PS_ZOMBIE \<Longrightarrow> x = PS_ZOMBIE"
    and s': "s' = s\<lparr>processes := (processes s)(p := (processes s p)\<lparr>state := x, state_attr := a\<rparr>)\<rparr>"
  shows "ginv s' L X"
proof -
  have pu: "pupd p x {p} (processes s) (processes s')" by (auto simp: pupd_def s')
  have fr: "rframe s s'" by (simp add: rframe_def s')
  note pf = pupd_fields [OF pu] rframe_fields [OF fr]
  from inv have lok: "lists_ok s L" by (rule ginvD)
  note so = sorted_okD [OF ginvD(2) [OF inv]]
  have ag: "agree s s' (LR L)" "agree s s' (LA L)" "agree s s' (LD L)" "agree s s' (LW L w f)" for w f
    using p(2) by (auto simp: agree_def s' unlisted_def)
  have hd: "runnable_process_head s' = runnable_process_head s" by (simp add: s')
  show ?thesis
  proof (rule ginv_inner [OF inv p(1) pu])
    show "lists_ok s' L" using lok ag hd unfolding lists_ok_def
      by (auto simp: pf elim!: run_ok_frame slp_ok_frame dead_ok_frame wtq_frames)
    have "prio_sorted s' X (LW L w f)" for w f by (rule prio_sorted_cong [OF so(3)]) (simp_all add: pf)
    moreover have "prio_sorted s' X (LR L)" by (rule prio_sorted_cong [OF so(1)]) (simp_all add: pf)
    moreover have "clock_sorted s' (LA L)"
      by (rule clock_sorted_cong [OF so(2)]) (use ag(2) in \<open>simp add: agree_def\<close>)
    ultimately show "sorted_ok s' L X" by (simp add: sorted_ok_def)
    show "queue_ok s' L f" if "f < NBQUEUE" for f
      using ginvD(6) [OF inv that] by (rule queue_ok_same) (simp_all add: pf)
  qed (use z ginvD(7) [OF inv] in \<open>auto simp: pf\<close>)
qed

lemma ginv_set_state:
  "ginv s L X \<Longrightarrow> p \<in> X \<Longrightarrow> unlisted L p \<Longrightarrow> (st s p = PS_ZOMBIE \<Longrightarrow> x = PS_ZOMBIE) \<Longrightarrow> ginv (set_state p x s) L X"
  by (erule ginv_rewrite [where x = x and a = "state_attr (processes s p)"])
    (assumption | cases "processes s p"; simp add: upd_defs)+

lemma ginv_set_attr:
  "ginv s L X \<Longrightarrow> p \<in> X \<Longrightarrow> unlisted L p \<Longrightarrow> ginv (set_attr p a s) L X"
  by (erule ginv_rewrite [where x = "st s p" and a = a])
    (assumption | cases "processes s p"; simp add: upd_defs)+

lemma ginv_upd_attr:
  "ginv s L X \<Longrightarrow> p \<in> X \<Longrightarrow> unlisted L p \<Longrightarrow> ginv (upd_attr p g s) L X"
  by (erule ginv_rewrite [where x = "st s p" and a = "g (state_attr (processes s p))"])
    (assumption | cases "processes s p"; simp add: upd_defs)+

end
