(* ===== verification/Inv_Sched.thy ===== *)
theory Inv_Sched
  imports Inv_Moves
begin

text \<open>
  The invariant under the operations of the scheduler itself: the dead stack, waking up sleeping
  processes, and switching.
\<close>

section \<open>Dead stack\<close>

definition dead_spec :: "nat \<Rightarrow> kstate \<Rightarrow> kstate \<Rightarrow> bool" where
  "dead_spec i s s' \<longleftrightarrow> (\<exists>B. s' = s\<lparr>processes := (processes s)(i := (processes s i)\<lparr>state := PS_DEAD,
     state_attr := SA_next_dead (dead_process_head s), user_stack := None\<rparr>),
     dead_process_head := Some i, ustack_blocks := B\<rparr>)"

lemma dead_spec_fields:
  assumes "dead_spec i s s'"
  shows "active_process s' = active_process s" "runnable_process_head s' = runnable_process_head s"
    "asleep_process_head s' = asleep_process_head s" "queues s' = queues s" "pit_count s' = pit_count s"
    "child_pid s' = child_pid s" "retval_cell s' = retval_cell s" "message_cell s' = message_cell s"
    "umem s' = umem s" "pend s' = pend s" "wait_head w f s' = wait_head w f s"
    "st s' q = (if q = i then PS_DEAD else st s q)" "parent (processes s' q) = parent (processes s q)"
    "prio (processes s' q) = prio (processes s q)" "pid (processes s' q) = pid (processes s q)"
    "ssize (processes s' q) = ssize (processes s q)"
    "user_stack (processes s' q) = (if q = i then None else user_stack (processes s q))"
    "q \<noteq> i \<Longrightarrow> processes s' q = processes s q"
  using assms by (auto simp: dead_spec_def)

lemma push_dead_list:
  assumes "ustack_ok s X" and "i < NBPROC" and "st s i \<noteq> PS_DEAD"
  shows "\<exists>s'. push_dead i s = Some s' \<and> dead_spec i s s' \<and>
    ustack_blocks s' = (case user_stack (processes s i) of None \<Rightarrow> ustack_blocks s
      | Some a \<Rightarrow> remove1 (a, ssize (processes s i)) (ustack_blocks s))"
proof (cases "user_stack (processes s i)")
  case None
  let ?s' = "s\<lparr>processes := (processes s)(i := (processes s i)\<lparr>state := PS_DEAD,
     state_attr := SA_next_dead (dead_process_head s)\<rparr>), dead_process_head := Some i\<rparr>"
  have "push_dead i s = Some ?s'" using None assms by (simp add: push_dead_def upd_defs)
  moreover have "dead_spec i s ?s'" unfolding dead_spec_def
    by (rule exI [of _ "ustack_blocks s"]) (use None in \<open>cases s; cases "processes s i"; simp\<close>)
  ultimately show ?thesis using None by auto
next
  case (Some a)
  with assms have "(a, ssize (processes s i)) \<in> set (ustack_blocks s)" "ssize (processes s i) \<noteq> 0"
    by (auto simp: ustack_ok_def)
  note mem = this
  let ?B = "remove1 (a, ssize (processes s i)) (ustack_blocks s)"
  let ?s' = "s\<lparr>processes := (processes s)(i := (processes s i)\<lparr>state := PS_DEAD,
     state_attr := SA_next_dead (dead_process_head s), user_stack := None\<rparr>),
     dead_process_head := Some i, ustack_blocks := ?B\<rparr>"
  have "push_dead i s = Some ?s'" using Some assms mem
    by (simp add: push_dead_def upd_defs user_stack_free_def) (cases s; cases "processes s i"; simp)
  moreover have "dead_spec i s ?s'" unfolding dead_spec_def by blast
  ultimately show ?thesis using Some by auto
qed

lemma dead_spec_ustack:
  assumes us: "ustack_ok s X" and spec: "dead_spec i s s'" and i: "i < NBPROC"
    and bl: "ustack_blocks s' = (case user_stack (processes s i) of None \<Rightarrow> ustack_blocks s
      | Some a \<Rightarrow> remove1 (a, ssize (processes s i)) (ustack_blocks s))"
  shows "ustack_ok s' (X - {i})"
  unfolding ustack_ok_def
proof (intro allI impI)
  note pf = dead_spec_fields [OF spec]
  fix p a
  assume p: "p < NBPROC" and "user_stack (processes s' p) = Some a"
  then have "p \<noteq> i" and a: "user_stack (processes s p) = Some a" by (auto simp: pf split: if_splits)
  with us p have b: "(a, ssize (processes s p)) \<in> set (ustack_blocks s)" "ssize (processes s p) \<noteq> 0"
      "p \<in> X \<or> st s p \<noteq> PS_DEAD"
    and uni: "\<And>q. q < NBPROC \<Longrightarrow> q \<noteq> p \<Longrightarrow> user_stack (processes s q) \<noteq> Some a"
    unfolding ustack_ok_def by blast+
  have "(a, ssize (processes s p)) \<in> set (ustack_blocks s')"
    using b(1) uni [OF i] \<open>p \<noteq> i\<close> bl by (auto split: option.splits)
  with b uni \<open>p \<noteq> i\<close> show "(a, ssize (processes s' p)) \<in> set (ustack_blocks s') \<and> ssize (processes s' p) \<noteq> 0 \<and>
      (p \<in> X - {i} \<or> st s' p \<noteq> PS_DEAD) \<and> (\<forall>q < NBPROC. q \<noteq> p \<longrightarrow> user_stack (processes s' q) \<noteq> Some a)"
    by (simp add: pf)
qed

text \<open>The other processes stay well formed: the slot that dies is the parent of none of them.\<close>

lemma dead_spec_proc:
  assumes inv: "ginv s L X" and spec: "dead_spec i s s'" and i: "i \<noteq> 0" and q: "q < NBPROC" "q \<notin> X - {i}"
    and par: "parent (processes s i) = NOPID \<or> (\<exists>a \<in> X. parent (processes s i) = int a)"
    and np: "q \<notin> X \<Longrightarrow> q \<noteq> i \<Longrightarrow> st s q \<noteq> PS_DEAD \<Longrightarrow> parent (processes s q) \<noteq> int i"
  shows "proc_ok s' (L\<lparr>LD := i # LD L\<rparr>) (X - {i}) q"
proof -
  note pf = dead_spec_fields [OF spec]
  consider "q = i" | "q \<noteq> i" "q \<notin> X" using q by blast
  then show ?thesis
  proof cases
    case 1 with i show ?thesis by (simp add: proc_ok_def pf)
  next
    case 2
    note ok = ginvD(3) [OF inv q(1) 2(2)]
    show ?thesis
    proof (cases "st s q = PS_DEAD")
      case True with ok 2 show ?thesis by (auto simp: proc_ok_def pf)
    next
      case False
      show ?thesis by (rule proc_ok_frame [OF ok]) (use 2 par np [OF 2(2,1) False] pf(18) [OF 2(1)] in \<open>auto simp: pf\<close>)
    qed
  qed
qed

lemma ginv_push_dead:
  assumes inv: "ginv s L X" and i: "i < NBPROC" "i \<noteq> 0" "st s i \<noteq> PS_DEAD" "unlisted L i"
    and par: "parent (processes s i) = NOPID \<or> (\<exists>a \<in> X. parent (processes s i) = int a)"
    and nochild: "\<And>q. q < NBPROC \<Longrightarrow> q \<notin> X \<Longrightarrow> q \<noteq> i \<Longrightarrow> st s q \<noteq> PS_DEAD \<Longrightarrow> parent (processes s q) \<noteq> int i"
  shows "\<exists>s'. push_dead i s = Some s' \<and> dead_spec i s s' \<and> ginv s' (L\<lparr>LD := i # LD L\<rparr>) (X - {i})"
proof -
  let ?L = "L\<lparr>LD := i # LD L\<rparr>"
  note us = ginvD(8) [OF inv]
  from push_dead_list [OF us i(1,3)] obtain s' where eq: "push_dead i s = Some s'" and spec: "dead_spec i s s'"
    and bl: "ustack_blocks s' = (case user_stack (processes s i) of None \<Rightarrow> ustack_blocks s
      | Some a \<Rightarrow> remove1 (a, ssize (processes s i)) (ustack_blocks s))" by blast
  note pf = dead_spec_fields [OF spec]
  from inv have lok: "lists_ok s L" by (rule ginvD)
  note so = sorted_okD [OF ginvD(2) [OF inv]]
  have ag: "agree s s' (LR L)" "agree s s' (LA L)" "agree s s' (LD L)" "agree s s' (LW L w f)" for w f
    using i(4) pf(18) by (auto simp: agree_def unlisted_def pf)
  have "dead_ok s' (i # LD L)"
  proof -
    have "next_dead s' i = Some (dead_process_head s)" "dead_process_head s' = Some i"
      using spec by (auto simp: dead_spec_def)
    moreover have "npath (next_dead s') (dead_process_head s) (LD L)"
      using lok by (simp add: agree_npath [OF ag(3)] lists_ok_def dead_ok_def)
    ultimately show ?thesis using lok i by (auto simp: dead_ok_def pf lists_ok_def)
  qed
  then have "lists_ok s' ?L"
    using lok ag unfolding lists_ok_def by (auto simp: pf elim!: run_ok_frame slp_ok_frame wtq_frames)
  moreover have "sorted_ok s' ?L (X - {i})"
  proof -
    have "prio_sorted s' (X - {i}) (LW L w f)" for w f
      by (rule prio_sorted_cong [OF so(3)]) (use i(4) in \<open>auto simp: pf unlisted_def\<close>)
    moreover have "prio_sorted s' (X - {i}) (LR L)"
      by (rule prio_sorted_cong [OF so(1)]) (use i(4) in \<open>auto simp: pf unlisted_def\<close>)
    moreover have "clock_sorted s' (LA L)"
      by (rule clock_sorted_cong [OF so(2)]) (use ag(2) in \<open>simp add: agree_def\<close>)
    ultimately show ?thesis by (simp add: sorted_ok_def)
  qed
  moreover have "proc_ok s' ?L (X - {i}) q" if "q < NBPROC" "q \<notin> X - {i}" for q
    by (rule dead_spec_proc [OF inv spec i(2) that par]) (use nochild that in auto)
  moreover have "queue_ok s' ?L f" if "f < NBQUEUE" for f
    using ginvD(6) [OF inv that] by (rule queue_ok_same) (simp_all add: pf)
  moreover have "ustack_ok s' (X - {i})" by (rule dead_spec_ustack [OF us spec i(1) bl])
  ultimately have "ginv s' ?L (X - {i})" using inv by (simp add: ginv_def pf)
  with eq spec show ?thesis by blast
qed

section \<open>What the scheduler may change\<close>

abbreviation on_cpu :: "process_state_t \<Rightarrow> bool" where
  "on_cpu x \<equiv> x = PS_RUNNABLE \<or> x = PS_RUNNING \<or> x = PS_ASLEEP"

text \<open>
  The scheduler rewrites the state and the union of runnable, running and sleeping processes, the heads of
  their lists, the active process and \<^verbatim>\<open>tss.esp0\<close>, and nothing else.
\<close>

definition sframe :: "kstate \<Rightarrow> kstate \<Rightarrow> bool" where
  "sframe s s' \<longleftrightarrow> s' = s\<lparr>processes := processes s', active_process := active_process s',
       runnable_process_head := runnable_process_head s', asleep_process_head := asleep_process_head s',
       tss_esp0 := tss_esp0 s'\<rparr> \<and>
     (\<forall>p. \<exists>x a. processes s' p = (processes s p)\<lparr>state := x, state_attr := a\<rparr>) \<and>
     (\<forall>p. if on_cpu (st s p) then on_cpu (st s' p) else processes s' p = processes s p)"

lemma sframe_fields:
  assumes "sframe s s'"
  shows "dead_process_head s' = dead_process_head s" "queues s' = queues s" "pit_count s' = pit_count s"
    "child_pid s' = child_pid s" "retval_cell s' = retval_cell s" "message_cell s' = message_cell s"
    "umem s' = umem s" "ustack_blocks s' = ustack_blocks s" "kheap_used s' = kheap_used s"
    "pend s' = pend s" "prio (processes s' p) = prio (processes s p)" "parent (processes s' p) = parent (processes s p)"
    "pid (processes s' p) = pid (processes s p)" "on_cpu (st s' p) \<longleftrightarrow> on_cpu (st s p)"
    "\<not> on_cpu (st s p) \<Longrightarrow> processes s' p = processes s p"
proof -
  obtain P a h k e where "s' = s\<lparr>processes := P, active_process := a, runnable_process_head := h,
      asleep_process_head := k, tss_esp0 := e\<rparr>"
    using assms unfolding sframe_def by blast
  then show "dead_process_head s' = dead_process_head s" "queues s' = queues s" "pit_count s' = pit_count s"
    "child_pid s' = child_pid s" "retval_cell s' = retval_cell s" "message_cell s' = message_cell s"
    "umem s' = umem s" "ustack_blocks s' = ustack_blocks s" "kheap_used s' = kheap_used s"
    "pend s' = pend s" by simp_all
  from assms obtain x a where "processes s' p = (processes s p)\<lparr>state := x, state_attr := a\<rparr>"
    unfolding sframe_def by blast
  then show "prio (processes s' p) = prio (processes s p)" "parent (processes s' p) = parent (processes s p)"
    "pid (processes s' p) = pid (processes s p)" by simp_all
  from assms have "if on_cpu (st s p) then on_cpu (st s' p) else processes s' p = processes s p"
    unfolding sframe_def by blast
  then show "on_cpu (st s' p) \<longleftrightarrow> on_cpu (st s p)" "\<not> on_cpu (st s p) \<Longrightarrow> processes s' p = processes s p"
    by (auto split: if_splits)
qed

lemma ex_state_attr [simp]: "\<exists>x a. (q :: process_t) = q\<lparr>state := x, state_attr := a\<rparr>"
  by (rule exI [of _ "state q"], rule exI [of _ "state_attr q"]) (cases q; simp)

lemma sframe_refl [simp]: "sframe s s"
  by (simp add: sframe_def)

lemma sframe_trans:
  assumes "sframe s s'" and "sframe s' s''"
  shows "sframe s s''"
  unfolding sframe_def
proof (intro conjI allI)
  obtain P a h k e where 1: "s' = s\<lparr>processes := P, active_process := a, runnable_process_head := h,
      asleep_process_head := k, tss_esp0 := e\<rparr>" using assms(1) unfolding sframe_def by blast
  obtain P' a' h' k' e' where 2: "s'' = s'\<lparr>processes := P', active_process := a', runnable_process_head := h',
      asleep_process_head := k', tss_esp0 := e'\<rparr>" using assms(2) unfolding sframe_def by blast
  show "s'' = s\<lparr>processes := processes s'', active_process := active_process s'',
      runnable_process_head := runnable_process_head s'', asleep_process_head := asleep_process_head s'',
      tss_esp0 := tss_esp0 s''\<rparr>" using 1 2 by simp
  fix p
  from assms obtain x a y b where "processes s' p = (processes s p)\<lparr>state := x, state_attr := a\<rparr>"
      "processes s'' p = (processes s' p)\<lparr>state := y, state_attr := b\<rparr>" unfolding sframe_def by blast
  then show "\<exists>x a. processes s'' p = (processes s p)\<lparr>state := x, state_attr := a\<rparr>" by auto
  show "if on_cpu (st s p) then on_cpu (st s'' p) else processes s'' p = processes s p"
    using sframe_fields(14,15) [OF assms(1), of p] sframe_fields(14,15) [OF assms(2), of p] by auto
qed

lemma sframe_push_spec:
  assumes "push_spec p xs s s'" and "on_cpu (st s p)" and "\<And>q. q \<in> set xs \<Longrightarrow> st s q = PS_RUNNABLE"
  shows "sframe s s'"
proof -
  from assms(1) have pu: "pupd p PS_RUNNABLE (insert p (set xs)) (processes s) (processes s')"
    and fr: "rframe s s'" by (simp_all add: push_spec_def)
  obtain P h where "s' = s\<lparr>processes := P, runnable_process_head := h\<rparr>"
    using fr unfolding rframe_def by blast
  then have "s' = s\<lparr>processes := processes s', active_process := active_process s',
       runnable_process_head := runnable_process_head s', asleep_process_head := asleep_process_head s',
       tss_esp0 := tss_esp0 s'\<rparr>" by simp
  moreover have "\<exists>x a. processes s' q = (processes s q)\<lparr>state := x, state_attr := a\<rparr>" for q
    using pu unfolding pupd_def by blast
  moreover have "processes s' q = processes s q" if "\<not> on_cpu (st s q)" for q
  proof -
    from pu obtain a where a: "processes s' q = (processes s q)\<lparr>state := (if q = p then PS_RUNNABLE else st s q), state_attr := a\<rparr>"
      unfolding pupd_def by blast
    from that assms(2,3) have "q \<notin> insert p (set xs)" by auto
    with pupd_fields(10) [OF pu] have "state_attr (processes s' q) = state_attr (processes s q)" by blast
    with a \<open>q \<notin> insert p (set xs)\<close> show ?thesis by (cases "processes s q") simp
  qed
  ultimately show ?thesis using pupd_fields(9) [OF pu] by (simp add: sframe_def)
qed

section \<open>Waking up sleeping processes\<close>

lemma runnable_pendI: "pend s p = Some (K_ret v) \<or> pend s p = Some K_retval \<or> pend s p = None \<or> pend s p = Some K_iret \<Longrightarrow> runnable_pend s p"
  by (auto simp: runnable_pend_def)

lemma ginv_wake_one:
  assumes inv: "ginv s L {}" and LA: "LA L = h # as"
  shows "\<exists>n s' ys. asleep_next s h = Some n \<and> push_runnable h (s\<lparr>asleep_process_head := n\<rparr>) = Some s' \<and>
    ys = ins (\<lambda>x. prio (processes s h) \<le> prio (processes s x)) h (LR L) \<and>
    ginv s' (L\<lparr>LA := as, LR := ys\<rparr>) {} \<and> sframe s s' \<and> st s h = PS_ASLEEP \<and>
    (\<forall>q. st s' q = (if q = h then PS_RUNNABLE else st s q)) \<and> active_process s' = active_process s \<and>
    (\<forall>q \<in> set as. asleep_clock s' q = asleep_clock s q)"
proof -
  from inv have lok: "lists_ok s L" by (rule ginvD)
  note D = lists_okD [OF lok]
  from LA lok have hd: "asleep_process_head s = Some h" and "\<exists>n. asleep_next s h = Some n"
    by (auto simp: lists_ok_def slp_ok_def)
  then obtain n where n: "asleep_next s h = Some n" by blast
  let ?s = "s\<lparr>asleep_process_head := n\<rparr>"
  have rem: "remove_asleep h s = Some ?s" by (simp add: remove_asleep_def hd n)
  have h: "h < NBPROC" "st s h = PS_ASLEEP" using D(2) [of h] LA by auto
  have "h \<in> set (LA L)" by (simp add: LA)
  from ginv_remove_asleep [OF ginv_subset [OF inv, of "{h}"] _ this] rem
  have inv1: "ginv ?s (L\<lparr>LA := as\<rparr>) {h}" by (simp add: LA)
  have "npath (asleep_next s) (asleep_process_head s) (LA L)" using lok by (simp add: lists_ok_def slp_ok_def)
  from npath_distinct [OF this] have dis: "h \<notin> set as" by (simp add: LA)
  from ginvD(3) [OF inv h(1)] h(2) have p: "pend s h = Some (K_ret 0)" "parent_ok s {} h"
    by (simp_all add: proc_ok_def)
  from p(2) have "parent_ok ?s ({h} - {h}) h" by (simp add: parent_ok_def)
  moreover have "runnable_pend ?s h" using p(1) by (intro runnable_pendI) simp
  moreover have "h \<notin> set (LD L)" "h \<notin> set (LW L w f)" "h \<notin> set (LR L)" for w f
    using D(3) [of h] D(4) [of h w f] D(1) [of h] h(2) by auto
  ultimately obtain s' where push: "push_runnable h ?s = Some s'" "push_spec h (LR L) ?s s'"
      and inv2: "ginv s' (L\<lparr>LA := as, LR := ins (\<lambda>x. prio (processes s h) \<le> prio (processes s x)) h (LR L)\<rparr>) {}"
    using ginv_push_runnable [OF inv1, of h] h dis by auto
  from push(2) have pu: "pupd h PS_RUNNABLE (insert h (set (LR L))) (processes s) (processes s')"
    and fr: "rframe ?s s'" by (simp_all add: push_spec_def)
  have "sframe ?s s'" by (rule sframe_push_spec [OF push(2)]) (use D(1) h in auto)
  moreover have "sframe s ?s" by (simp add: sframe_def)
  ultimately have "sframe s s'" by (blast intro: sframe_trans)
  moreover have "asleep_clock s' q = asleep_clock s q" if "q \<in> set as" for q
  proof -
    have "q \<notin> insert h (set (LR L))" using that dis D(1) [of q] D(2) [of q] LA by auto
    then show ?thesis using pupd_fields(10) [OF pu] by simp
  qed
  ultimately show ?thesis
    using n push(1) inv2 h(2) pupd_fields(9) [OF pu] rframe_fields(1) [OF fr] by auto
qed

text \<open>
  The loop ends, and leaves exactly the processes whose wake time has not come.
\<close>

lemma ginv_wake_asleep:
  assumes "ginv s L {}" and "length (LA L) \<le> fuel"
  shows "\<exists>s' L'. wake_asleep fuel s = Some s' \<and> ginv s' L' {} \<and> sframe s s' \<and>
    active_process s' = active_process s \<and> LA L' = dropWhile (\<lambda>p. the (asleep_clock s p) \<le> pit_count s) (LA L) \<and>
    (\<forall>q. st s' q = (if q \<in> set (takeWhile (\<lambda>p. the (asleep_clock s p) \<le> pit_count s) (LA L)) then PS_RUNNABLE else st s q))"
  using assms
proof (induction "LA L" arbitrary: s L fuel)
  case Nil
  then have "asleep_process_head s = None"
    using ginvD(1) [OF Nil.prems(1)] unfolding lists_ok_def slp_ok_def by (metis npath.simps(1))
  then show ?case using Nil by (subst wake_asleep.simps) auto
next
  case (Cons h as)
  then have LA: "LA L = h # as" by simp
  from ginv_wake_one [OF Cons.prems(1) LA] obtain n s' ys where
    one: "asleep_next s h = Some n" "push_runnable h (s\<lparr>asleep_process_head := n\<rparr>) = Some s'"
      "ginv s' (L\<lparr>LA := as, LR := ys\<rparr>) {}" "sframe s s'" "st s h = PS_ASLEEP"
      "\<And>q. st s' q = (if q = h then PS_RUNNABLE else st s q)" "active_process s' = active_process s"
    and clk: "\<And>q. q \<in> set as \<Longrightarrow> asleep_clock s' q = asleep_clock s q" by blast
  from ginvD(1) [OF Cons.prems(1)] LA have hd: "asleep_process_head s = Some h"
    by (simp add: lists_ok_def slp_ok_def)
  from lists_okD(2) [OF ginvD(1) [OF Cons.prems(1)], of h] LA obtain c where c: "asleep_clock s h = Some c" by auto
  have pit: "pit_count s' = pit_count s" by (rule sframe_fields(3) [OF one(4)])
  show ?case
  proof (cases "c \<le> pit_count s")
    case False
    have "wake_asleep fuel s = Some s" using False by (subst wake_asleep.simps) (simp add: hd c)
    then show ?thesis using Cons.prems LA c False by auto
  next
    case True
    from Cons.prems(2) LA obtain fuel' where fuel: "fuel = Suc fuel'" "length as \<le> fuel'" by (cases fuel) auto
    have w: "wake_asleep fuel s = wake_asleep fuel' s'"
      by (subst wake_asleep.simps) (simp add: hd c True fuel one)
    have tw: "takeWhile (\<lambda>p. the (asleep_clock s' p) \<le> pit_count s') as = takeWhile (\<lambda>p. the (asleep_clock s p) \<le> pit_count s) as"
      by (rule takeWhile_cong) (use clk pit in auto)
    have dw: "dropWhile (\<lambda>p. the (asleep_clock s' p) \<le> pit_count s') as = dropWhile (\<lambda>p. the (asleep_clock s p) \<le> pit_count s) as"
      by (rule dropWhile_cong) (use clk pit in auto)
    from Cons.hyps(1) [of "L\<lparr>LA := as, LR := ys\<rparr>" s' fuel'] one(3) fuel(2)
    obtain s'' L' where "wake_asleep fuel' s' = Some s''" "ginv s'' L' {}" "sframe s' s''"
      "active_process s'' = active_process s'" "LA L' = dropWhile (\<lambda>p. the (asleep_clock s p) \<le> pit_count s) as"
      "\<And>q. st s'' q = (if q \<in> set (takeWhile (\<lambda>p. the (asleep_clock s p) \<le> pit_count s) as) then PS_RUNNABLE else st s' q)"
      by (auto simp: tw dw)
    then show ?thesis using w one LA c True by (auto intro: sframe_trans)
  qed
qed

section \<open>Switching\<close>

lemma ginv_active:
  assumes inv: "ginv s L X" and h: "h < NBPROC" and run: "\<And>p. p < NBPROC \<Longrightarrow> p \<notin> X \<Longrightarrow> st s p \<noteq> PS_RUNNING"
  shows "ginv (s\<lparr>active_process := h\<rparr>) L X"
proof -
  let ?s = "s\<lparr>active_process := h\<rparr>"
  have "proc_ok ?s L X p" if "p < NBPROC" "p \<notin> X" for p
    by (rule proc_ok_frame [OF ginvD(3) [OF inv that]]) (use run [OF that] in simp_all)
  moreover have "lists_ok ?s L" using ginvD(1) [OF inv]
    by (simp add: lists_ok_def run_ok_def slp_ok_def dead_ok_def wtq_ok_def)
  moreover have "sorted_ok ?s L X" using ginvD(2) [OF inv]
    by (simp add: sorted_ok_def prio_sorted_def clock_sorted_def)
  moreover have "queue_ok ?s L f" if "f < NBQUEUE" for f
    by (rule queue_ok_same [OF ginvD(6) [OF inv that]]) simp_all
  moreover have "ustack_ok ?s X" by (rule ustack_ok_frame [OF ginvD(8) [OF inv]]) simp_all
  ultimately show ?thesis using inv h by (simp add: ginv_def)
qed

text \<open>The last part of the switch: the process that was first in the list runs.\<close>

lemma ginv_run:
  assumes inv: "ginv s L {h}" and h: "h < NBPROC" "active_process s = h" "st s h = PS_RUNNABLE" "h \<notin> set (LR L)"
    and rp: "runnable_pend s h" and pok: "parent_ok s {} h"
  shows "ginv (set_state h PS_RUNNING s) L {}" (is "ginv ?s L {}")
proof -
  note D = lists_okD [OF ginvD(1) [OF inv], of h]
  have un: "unlisted L h" using D h by (auto simp: unlisted_def)
  have inv': "ginv ?s L {h}" by (rule ginv_set_state [OF inv _ un]) (simp_all add: h)
  have "runnable_pend ?s h" by (rule runnable_pend_mono [OF rp]) (use h in auto)
  moreover have "parent_ok ?s {} h" by (rule parent_ok_mono [OF pok]) auto
  ultimately have "proc_ok ?s L ({h} - {h}) h" using h by (simp add: proc_ok_def)
  moreover have "sorted_ok ?s L ({h} - {h})"
    by (rule sorted_ok_notin [OF ginvD(2) [OF inv']]) (use un in \<open>simp_all add: unlisted_def\<close>)
  ultimately show ?thesis using ginv_settle [OF inv', of h] by simp
qed

lemma pop_commute:
  "s\<lparr>runnable_process_head := n, active_process := h\<rparr> = s\<lparr>active_process := h, runnable_process_head := n\<rparr>"
  by (cases s) simp

lemma ex_state [simp]: "\<exists>x a. (q :: process_t)\<lparr>state := y\<rparr> = q\<lparr>state := x, state_attr := a\<rparr>"
  by (rule exI [of _ y], rule exI [of _ "state_attr q"]) (cases q; simp)

lemma sframe_run_pop:
  "st s h = PS_RUNNABLE \<Longrightarrow> sframe s (s\<lparr>active_process := h, runnable_process_head := n\<rparr>)"
  "on_cpu (st s h) \<Longrightarrow> sframe s ((set_state h PS_RUNNING s)\<lparr>tss_esp0 := e\<rparr>)"
  by (simp add: sframe_def) (auto simp: sframe_def upd_defs)

text \<open>The runnable list after the first process has been taken.\<close>

lemma ginv_pop_runnable:
  assumes inv: "ginv s L X" and LR: "LR L = h # rs" and h: "h \<in> X"
  shows "\<exists>n. next_runnable s h = Some n \<and> ginv (s\<lparr>runnable_process_head := n\<rparr>) (L\<lparr>LR := rs\<rparr>) X"
proof -
  from inv have lok: "lists_ok s L" by (rule ginvD)
  then obtain n where n: "runnable_process_head s = Some h" "next_runnable s h = Some n"
    by (auto simp: lists_ok_def run_ok_def LR)
  have "st s h = PS_RUNNABLE" using lists_okD(1) [OF lok, of h] LR by simp
  then have "remove_runnable h s = Some (s\<lparr>runnable_process_head := n\<rparr>)" by (simp add: remove_runnable_def n)
  with ginv_remove_runnable [OF inv h] LR n(2) show ?thesis by auto
qed

definition switch_spec :: "nat \<Rightarrow> kstate \<Rightarrow> lists \<Rightarrow> kstate \<Rightarrow> lists \<Rightarrow> bool" where
  "switch_spec h s L s' L' \<longleftrightarrow> ginv s' L' {} \<and> active_process s' = h \<and> st s' h = PS_RUNNING \<and> sframe s s' \<and> LA L' = LA L \<and>
     (let a = active_process s in if st s a = PS_RUNNING
      then LR L' = ins (\<lambda>x. prio (processes s a) \<le> prio (processes s x)) a (tl (LR L)) else LR L' = tl (LR L))"

lemma distinct_LR: "lists_ok s L \<Longrightarrow> distinct (LR L)"
  by (auto simp: lists_ok_def run_ok_def dest: npath_distinct)

lemma ginv_switch_running:
  assumes inv: "ginv s L {}" and LR: "LR L = h # rs" and run: "st s (active_process s) = PS_RUNNING"
    and n: "next_runnable s h = Some n"
  shows "\<exists>s'. push_runnable (active_process s) (s\<lparr>active_process := h, runnable_process_head := n\<rparr>) = Some s' \<and>
    switch_spec h s L ((set_state h PS_RUNNING s')\<lparr>tss_esp0 := e\<rparr>)
      (L\<lparr>LR := ins (\<lambda>x. prio (processes s (active_process s)) \<le> prio (processes s x)) (active_process s) rs\<rparr>) \<and>
    active_process s' = h"
proof -
  let ?a = "active_process s" and ?s2 = "s\<lparr>active_process := h, runnable_process_head := n\<rparr>"
  let ?ys = "ins (\<lambda>x. prio (processes s ?a) \<le> prio (processes s x)) ?a rs"
  from inv have lok: "lists_ok s L" by (rule ginvD)
  note D = lists_okD [OF lok]
  have h: "h < NBPROC" "st s h = PS_RUNNABLE" "h \<noteq> ?a" using D(1) [of h] LR run by auto
  have a: "?a < NBPROC" using ginvD(5) [OF inv] .
  have dis: "h \<notin> set rs" "?a \<notin> set rs" using distinct_LR [OF lok] D(1) [of ?a] LR run by auto
  have nr: "st s p \<noteq> PS_RUNNING" if "p < NBPROC" "p \<noteq> ?a" for p
    using ginvD(3) [OF inv that(1)] that(2) by (auto simp: proc_ok_def)
  from ginv_pop_runnable [OF ginv_subset [OF inv, of "{h, ?a}"] LR] n
  have "ginv (s\<lparr>runnable_process_head := n\<rparr>) (L\<lparr>LR := rs\<rparr>) {h, ?a}" by simp
  then have "ginv ((s\<lparr>runnable_process_head := n\<rparr>)\<lparr>active_process := h\<rparr>) (L\<lparr>LR := rs\<rparr>) {h, ?a}"
    by (rule ginv_active) (use h nr in auto)
  then have inv2: "ginv ?s2 (L\<lparr>LR := rs\<rparr>) {h, ?a}" by (simp only: pop_commute)
  from ginvD(3) [OF inv a] run have pa: "runnable_pend s ?a" "parent_ok s {} ?a" by (simp_all add: proc_ok_def)
  have rp: "runnable_pend ?s2 ?a" by (rule runnable_pend_mono [OF pa(1)]) auto
  have po: "parent_ok ?s2 ({h, ?a} - {?a}) ?a" by (rule parent_ok_mono [OF pa(2)]) auto
  have out: "?a \<notin> set (LA L)" "?a \<notin> set (LD L)" "?a \<notin> set (LW L w f)" for w f
    using D(2,3) [of ?a] D(4) [of ?a w f] run by auto
  have Xa: "{h, ?a} - {?a} = {h}" using h by auto
  obtain s' where push: "push_runnable ?a ?s2 = Some s'" "push_spec ?a rs ?s2 s'"
      and inv3: "ginv s' (L\<lparr>LR := ?ys\<rparr>) {h}"
    using ginv_push_runnable [OF inv2 _ _ _ _ _ _ _ _ rp po] a run out dis h by (auto simp: Xa)
  from push(2) have pu: "pupd ?a PS_RUNNABLE (insert ?a (set rs)) (processes s) (processes s')"
    and fr: "rframe ?s2 s'" by (simp_all add: push_spec_def)
  note pf = pupd_fields [OF pu] rframe_fields [OF fr]
  from ginvD(3) [OF inv h(1)] h have ph: "runnable_pend s h" "parent_ok s {} h" by (simp_all add: proc_ok_def)
  have "ginv (set_state h PS_RUNNING s') (L\<lparr>LR := ?ys\<rparr>) {}"
  proof (rule ginv_run [OF inv3])
    show "runnable_pend s' h" by (rule runnable_pend_mono [OF ph(1)]) (use run in \<open>auto simp: pf\<close>)
    show "parent_ok s' {} h" by (rule parent_ok_mono [OF ph(2)]) (use run in \<open>auto simp: pf\<close>)
  qed (use h dis in \<open>auto simp: pf\<close>)
  then have "ginv ((set_state h PS_RUNNING s')\<lparr>tss_esp0 := e\<rparr>) (L\<lparr>LR := ?ys\<rparr>) {}" by (rule ginv_store_user)
  moreover have "sframe s ((set_state h PS_RUNNING s')\<lparr>tss_esp0 := e\<rparr>)"
  proof (rule sframe_trans [OF sframe_run_pop(1) [OF h(2)] sframe_trans])
    show "sframe ?s2 s'" by (rule sframe_push_spec [OF push(2)]) (use run D(1) LR in auto)
    show "sframe s' ((set_state h PS_RUNNING s')\<lparr>tss_esp0 := e\<rparr>)"
      by (rule sframe_run_pop(2)) (use h in \<open>simp add: pf\<close>)
  qed
  ultimately show ?thesis using push(1) run LR by (simp add: switch_spec_def pf)
qed

lemma ginv_switch_other:
  assumes inv: "ginv s L {}" and LR: "LR L = h # rs" and run: "st s (active_process s) \<noteq> PS_RUNNING"
    and n: "next_runnable s h = Some n"
  shows "switch_spec h s L ((set_state h PS_RUNNING (s\<lparr>active_process := h, runnable_process_head := n\<rparr>))\<lparr>tss_esp0 := e\<rparr>)
      (L\<lparr>LR := rs\<rparr>)"
proof -
  let ?s2 = "s\<lparr>active_process := h, runnable_process_head := n\<rparr>"
  from inv have lok: "lists_ok s L" by (rule ginvD)
  have h: "h < NBPROC" "st s h = PS_RUNNABLE" using lists_okD(1) [OF lok, of h] LR by auto
  have dis: "h \<notin> set rs" using distinct_LR [OF lok] LR by auto
  have nr: "st s p \<noteq> PS_RUNNING" if "p < NBPROC" for p
    using ginvD(3) [OF inv that] run by (auto simp: proc_ok_def)
  from ginv_pop_runnable [OF ginv_subset [OF inv, of "{h}"] LR] n
  have "ginv (s\<lparr>runnable_process_head := n\<rparr>) (L\<lparr>LR := rs\<rparr>) {h}" by simp
  then have "ginv ((s\<lparr>runnable_process_head := n\<rparr>)\<lparr>active_process := h\<rparr>) (L\<lparr>LR := rs\<rparr>) {h}"
    by (rule ginv_active) (use h nr in auto)
  then have inv2: "ginv ?s2 (L\<lparr>LR := rs\<rparr>) {h}" by (simp only: pop_commute)
  from ginvD(3) [OF inv h(1)] h have ph: "runnable_pend s h" "parent_ok s {} h" by (simp_all add: proc_ok_def)
  have "ginv (set_state h PS_RUNNING ?s2) (L\<lparr>LR := rs\<rparr>) {}"
  proof (rule ginv_run [OF inv2])
    show "runnable_pend ?s2 h" by (rule runnable_pend_mono [OF ph(1)]) auto
    show "parent_ok ?s2 {} h" by (rule parent_ok_mono [OF ph(2)]) auto
  qed (use h dis in auto)
  then have "ginv ((set_state h PS_RUNNING ?s2)\<lparr>tss_esp0 := e\<rparr>) (L\<lparr>LR := rs\<rparr>) {}" by (rule ginv_store_user)
  moreover have "sframe s ((set_state h PS_RUNNING ?s2)\<lparr>tss_esp0 := e\<rparr>)"
    by (rule sframe_trans [OF sframe_run_pop(1) [OF h(2)] sframe_run_pop(2)]) (use h in simp)
  ultimately show ?thesis using run LR by (simp add: switch_spec_def)
qed

section \<open>The scheduler\<close>

text \<open>Process 0 is always runnable or running: the list is not empty when nothing runs.\<close>

lemma idle_runnable:
  assumes inv: "ginv s L {}" and "st s (active_process s) \<noteq> PS_RUNNING"
  shows "0 \<in> set (LR L)"
  using ginvD(3) [OF inv, of 0] assms(2) by (auto simp: proc_ok_def)

lemma head_LR: "lists_ok s L \<Longrightarrow> runnable_process_head s = (case LR L of [] \<Rightarrow> None | h # _ \<Rightarrow> Some h)"
  by (cases "LR L") (auto simp: lists_ok_def run_ok_def)

lemma ginv_tick:
  assumes inv: "ginv s L {}"
  shows "\<exists>s' L'. tick_scheduler s = Some s' \<and> sched_ok s' L' \<and> sframe s s' \<and>
    LA L' = dropWhile (\<lambda>p. the (asleep_clock s p) \<le> pit_count s) (LA L)"
proof -
  have len: "length (LA L) \<le> NBPROC"
    using ginvD(1) [OF inv] by (auto simp: lists_ok_def intro: slp_ok_length)
  from ginv_wake_asleep [OF inv len] obtain s1 L1 where w: "wake_asleep NBPROC s = Some s1" and inv1: "ginv s1 L1 {}"
    and sf: "sframe s s1" and LA: "LA L1 = dropWhile (\<lambda>p. the (asleep_clock s p) \<le> pit_count s) (LA L)" by blast
  let ?a = "active_process s1"
  note hd = head_LR [OF ginvD(1) [OF inv1]]
  have sorted: "\<forall>p \<in> set rs. prio (processes s1 p) \<le> prio (processes s1 h)" if "LR L1 = h # rs" for h rs
    using sorted_okD(1) [OF ginvD(2) [OF inv1]] that by (simp add: prio_sorted_def)
  show ?thesis
  proof (cases "st s1 ?a \<noteq> PS_RUNNING \<or> (\<exists>h rs. LR L1 = h # rs \<and> prio (processes s1 ?a) \<le> prio (processes s1 h))")
    case False
    then have "tick_scheduler s = Some s1" by (auto simp: tick_scheduler_def w hd split: list.splits)
    moreover have "sched_ok s1 L1"
      using False inv1 sorted by (cases "LR L1") (fastforce simp: sched_ok_def)+
    ultimately show ?thesis using sf LA by blast
  next
    case True
    then obtain h rs where LR: "LR L1 = h # rs" using idle_runnable [OF inv1] by (cases "LR L1") auto
    from ginv_pop_runnable [OF ginv_subset [OF inv1, of "{h}"] LR] obtain n where n: "next_runnable s1 h = Some n" by auto
    show ?thesis
    proof (cases "st s1 ?a = PS_RUNNING")
      case run: True
      with True LR have ge: "prio (processes s1 ?a) \<le> prio (processes s1 h)" by simp
      from ginv_switch_running [OF inv1 LR run n, of "A_kstack h (NBSTACK - 1)"] obtain s'
        where push: "push_runnable ?a (s1\<lparr>active_process := h, runnable_process_head := n\<rparr>) = Some s'" "active_process s' = h"
          and sw: "switch_spec h s1 L1 ((set_state h PS_RUNNING s')\<lparr>tss_esp0 := A_kstack h (NBSTACK - 1)\<rparr>)
            (L1\<lparr>LR := ins (\<lambda>x. prio (processes s1 ?a) \<le> prio (processes s1 x)) ?a rs\<rparr>)" (is "switch_spec _ _ _ ?s' ?L'")
        by blast
      have "tick_scheduler s = Some ?s'"
        using ge by (simp add: tick_scheduler_def w hd LR n run push Let_def)
      moreover have "sched_ok ?s' ?L'"
        using sw sorted [OF LR] ge sframe_fields(11) [of s1 ?s'] by (auto simp: switch_spec_def sched_ok_def)
      ultimately show ?thesis using sw sf LA sframe_trans by (auto simp: switch_spec_def)
    next
      case run: False
      let ?s' = "(set_state h PS_RUNNING (s1\<lparr>active_process := h, runnable_process_head := n\<rparr>))\<lparr>tss_esp0 := A_kstack h (NBSTACK - 1)\<rparr>"
      from ginv_switch_other [OF inv1 LR run n, of "A_kstack h (NBSTACK - 1)"]
      have sw: "switch_spec h s1 L1 ?s' (L1\<lparr>LR := rs\<rparr>)" .
      have "tick_scheduler s = Some ?s'"
        using run by (simp add: tick_scheduler_def w hd LR n Let_def)
      moreover have "sched_ok ?s' (L1\<lparr>LR := rs\<rparr>)"
        using sw sorted [OF LR] sframe_fields(11) [of s1 ?s'] by (auto simp: switch_spec_def sched_ok_def)
      ultimately show ?thesis using sw sf LA sframe_trans by (auto simp: switch_spec_def)
    qed
  qed
qed

lemma ginv_fix:
  assumes inv: "ginv s L {}"
  shows "\<exists>s' L'. fix_scheduler s = Some s' \<and> sched_ok s' L' \<and> sframe s s'"
proof (cases "st s (active_process s) \<noteq> PS_RUNNING \<or> (\<exists>h rs. LR L = h # rs \<and> prio (processes s (active_process s)) < prio (processes s h))")
  case True
  then have "fix_scheduler s = tick_scheduler s"
    by (auto simp: fix_scheduler_def head_LR [OF ginvD(1) [OF inv]])
  then show ?thesis using ginv_tick [OF inv] by auto
next
  case False
  then have "fix_scheduler s = Some s"
    by (auto simp: fix_scheduler_def head_LR [OF ginvD(1) [OF inv]] split: list.splits)
  moreover have "sched_ok s L"
    using False inv sorted_okD(1) [OF ginvD(2) [OF inv]]
    by (cases "LR L") (fastforce simp: sched_ok_def prio_sorted_def)+
  ultimately show ?thesis by auto
qed

end
