(* ===== verification/Inv_Ops.thy ===== *)
theory Inv_Ops
  imports Inv_Sched
begin

text \<open>
  The invariant under the operations of \<^verbatim>\<open>kernel/scheduler.c\<close>: every call succeeds from a state that
  satisfies \<open>kinv\<close>, and so does the return to the process that is active afterwards.
\<close>

section \<open>Returning\<close>

lemma sched_okD:
  assumes "sched_ok s L"
  shows "ginv s L {}" "st s (active_process s) = PS_RUNNING"
    "p \<in> set (LR L) \<Longrightarrow> prio (processes s p) \<le> prio (processes s (active_process s))"
    "active_process s < NBPROC" "runnable_pend s (active_process s)" "parent_ok s {} (active_process s)"
proof -
  show inv: "ginv s L {}" and r: "st s (active_process s) = PS_RUNNING"
    and "p \<in> set (LR L) \<Longrightarrow> prio (processes s p) \<le> prio (processes s (active_process s))"
    using assms by (simp_all add: sched_ok_def)
  show a: "active_process s < NBPROC" by (rule ginvD(5) [OF inv])
  show "runnable_pend s (active_process s)" "parent_ok s {} (active_process s)"
    using ginvD(3) [OF inv a] r by (simp_all add: proc_ok_def)
qed

lemma sched_ok_pend:
  assumes ok: "sched_ok s L" and k: "k = None \<or> (\<exists>v. k = Some (K_ret v)) \<or> k = Some K_iret"
  shows "sched_ok (s\<lparr>pend := (pend s)(active_process s := k)\<rparr>) L"
proof -
  have "ginv (s\<lparr>pend := (pend s)(active_process s := k)\<rparr>) L {}"
    by (rule ginv_pend_active [OF sched_okD(1) [OF ok]]) (use sched_okD(2) [OF ok] k in auto)
  then show ?thesis using ok by (simp add: sched_ok_def)
qed

lemma sched_ok_ret: "sched_ok s L \<Longrightarrow> sched_ok (push_cont (K_ret v) s) L"
  unfolding push_cont_def by (erule sched_ok_pend) blast

lemma sched_ok_store:
  "sched_ok s L \<Longrightarrow> sched_ok (s\<lparr>umem := m\<rparr>) L" "sched_ok s L \<Longrightarrow> sched_ok (s\<lparr>retval_cell := r\<rparr>) L"
  "sched_ok s L \<Longrightarrow> sched_ok (s\<lparr>message_cell := r\<rparr>) L" "sched_ok s L \<Longrightarrow> sched_ok (s\<lparr>pit_count := t\<rparr>) L"
  "sched_ok s L \<Longrightarrow> sched_ok (s\<lparr>kheap_used := h\<rparr>) L"
  by (simp_all add: sched_ok_def ginv_store_user)

lemma zombie_unlisted: "lists_ok s L \<Longrightarrow> st s c = PS_ZOMBIE \<Longrightarrow> unlisted L c"
  using lists_okD [of s L c] by (auto simp: unlisted_def)

text \<open>Collecting a zombie child.\<close>

lemma push_dead_child:
  assumes ok: "sched_ok s L" and pend: "pend s (active_process s) = None"
    and c: "c < NBPROC" "st s c = PS_ZOMBIE" "parent (processes s c) = int (active_process s)"
  shows "\<exists>s'. push_dead c s = Some s' \<and> dead_spec c s s' \<and> sched_ok s' (L\<lparr>LD := c # LD L\<rparr>) \<and>
    pend s' (active_process s') = None"
proof -
  let ?a = "active_process s" and ?L = "L\<lparr>LD := c # LD L\<rparr>"
  note inv = sched_okD(1) [OF ok] and run = sched_okD(2) [OF ok]
  from inv have lok: "lists_ok s L" by (rule ginvD)
  note un = zombie_unlisted [OF lok c(2)]
  have c0: "c \<noteq> 0" using ginvD(3) [OF inv c(1)] c(2) by (intro notI) (simp add: proc_ok_def)
  have ca: "c \<noteq> ?a" using c run by auto
  have np: "parent (processes s q) \<noteq> int c" if "q < NBPROC" "st s q \<noteq> PS_DEAD" for q
    using ginvD(3) [OF inv that(1)] that(2) c(2) by (auto simp: proc_ok_def parent_ok_def)
  have inv1: "ginv s L {?a}" by (rule ginv_subset [OF inv]) simp
  from ginv_push_dead [OF inv1 c(1) c0 _ un] c np obtain s'
    where eq: "push_dead c s = Some s'" and spec: "dead_spec c s s'" and inv2: "ginv s' ?L ({?a} - {c})"
    by auto
  note pf = dead_spec_fields [OF spec]
  from inv2 ca have inv2: "ginv s' ?L {?a}" by simp
  have "parent_ok s' {} ?a"
    using sched_okD(6) [OF ok] np [OF sched_okD(4) [OF ok]] run by (auto simp: parent_ok_def pf)
  then have "proc_ok s' ?L ({?a} - {?a}) ?a"
    using run ca pend by (auto simp: proc_ok_def pf intro: runnable_pendI)
  moreover have "sorted_ok s' ?L ({?a} - {?a})"
    by (rule sorted_ok_notin [OF ginvD(2) [OF inv2]])
      (use lists_okD [OF lok, of ?a] run in auto)
  ultimately have "ginv s' ?L ({?a} - {?a})"
    using run ca by (intro ginv_settle [OF inv2]) (auto simp: pf)
  then have "sched_ok s' ?L" using ok ca by (simp add: sched_ok_def pf)
  moreover have "pend s' (active_process s') = None" by (simp add: pf pend)
  ultimately show ?thesis using eq spec by blast
qed

lemma waitpid_collect_ok:
  assumes ok: "sched_ok s L" and pend: "pend s (active_process s) = None" and r: "caller_ptr r"
    and c: "c < NBPROC" "st s c = PS_ZOMBIE" "parent (processes s c) = int (active_process s)"
  shows "\<exists>s' L'. waitpid_collect c r s = Some (int c, s') \<and> sched_ok s' L' \<and> pend s' (active_process s') = None \<and>
    st s' c = PS_DEAD \<and> (\<forall>u. r = I_user u \<longrightarrow> Some (umem s' u) = map_option CInt (zombie_retval s c))"
proof -
  note inv = sched_okD(1) [OF ok]
  from ginvD(3) [OF inv c(1)] c(2) obtain v where v: "zombie_retval s c = Some v" by (auto simp: proc_ok_def)
  have cpid: "pid (processes s c) = int c" by (rule ginvD(4) [OF inv c(1)])
  from r show ?thesis
  proof (elim disjE exE)
    assume "r = I_null"
    with push_dead_child [OF ok pend c] cpid v show ?thesis
      by (auto simp: waitpid_collect_def dead_spec_fields)
  next
    fix u assume u: "r = I_user u"
    let ?s = "s\<lparr>umem := (umem s)(u := CInt v)\<rparr>"
    have "sched_ok ?s L" by (rule sched_ok_store [OF ok])
    from push_dead_child [OF this, of c] pend c obtain s'
      where "push_dead c ?s = Some s'" "dead_spec c ?s s'" "sched_ok s' (L\<lparr>LD := c # LD L\<rparr>)"
        "pend s' (active_process s') = None" by auto
    with cpid v u show ?thesis
      by (auto simp: waitpid_collect_def store_int_def dead_spec_fields)
  qed
qed

theorem resume_ok:
  assumes ok: "sched_ok s L"
  shows "\<exists>v s'. resume s = Some (v, s') \<and> kinv s'"
proof -
  let ?a = "active_process s" and ?s = "s\<lparr>pend := (pend s)(active_process s := None)\<rparr>"
  have ok': "sched_ok ?s L" by (rule sched_ok_pend [OF ok]) simp
  then have k: "kinv ?s" by (auto simp: kinv_def)
  show ?thesis
  proof (cases "pend s ?a")
    case None
    then show ?thesis using ok by (auto simp: resume_def kinv_def)
  next
    case (Some c)
    show ?thesis
    proof (cases c)
      case (K_waitpid r)
      from sched_okD(5) [OF ok] Some K_waitpid have "collectable s ?a" and r: "caller_ptr r"
        by (auto simp: runnable_pend_def)
      then obtain c where c: "c < NBPROC" "child_pid s ?a = int c" "st s c = PS_ZOMBIE" "parent (processes s c) = int ?a"
        unfolding collectable_def by blast
      from waitpid_collect_ok [OF ok' _ r, of c] c obtain s' L' where
        "waitpid_collect c r ?s = Some (int c, s')" "sched_ok s' L'" "pend s' (active_process s') = None" by auto
      then show ?thesis using c Some K_waitpid
        by (auto simp: resume_def run_cont_def Let_def waitpid_resume_def is_valid_pid_def kinv_def)
    next
      case K_hang with sched_okD(5) [OF ok] Some show ?thesis by (simp add: runnable_pend_def)
    qed (use k Some in \<open>auto simp: resume_def run_cont_def Let_def\<close>)
  qed
qed

section \<open>Blocking the active process\<close>

lemma sorted_ok_push_cont [simp]: "sorted_ok (push_cont k s) L X = sorted_ok s L X"
  by (simp add: sorted_ok_def prio_sorted_def clock_sorted_def)

lemma parent_ok_push_cont [simp]: "parent_ok (push_cont k s) X p = parent_ok s X p"
  by (simp add: parent_ok_def)

lemma kinvE:
  assumes "kinv s"
  obtains L where "sched_ok s L" "pend s (active_process s) = None"
  using assms by (auto simp: kinv_def)

lemma running_unlisted: "lists_ok s L \<Longrightarrow> st s p = PS_RUNNING \<Longrightarrow> unlisted L p"
  using lists_okD [of s L p] by (auto simp: unlisted_def)

lemma getproc_active: "ginv s L X \<Longrightarrow> getproc s = Some (active_process s)"
  using ginvD(4,5) [of s L X] by (auto simp: getproc_def getpid_def)

lemma getpid_active: "ginv s L X \<Longrightarrow> getpid s = int (active_process s)"
  using ginvD(4,5) [of s L X] by (auto simp: getpid_def)

lemma parent_ok_Diff:
  "parent_ok s {} p \<Longrightarrow> (\<And>q. st s' q = (if q = p then x else st s q)) \<Longrightarrow> x \<noteq> PS_DEAD \<Longrightarrow> x \<noteq> PS_ZOMBIE \<Longrightarrow>
    (\<And>q. parent (processes s' q) = parent (processes s q)) \<Longrightarrow> parent_ok s' {} p"
  by (erule parent_ok_mono) (auto split: if_splits)

theorem wait_clock_ok:
  assumes k: "kinv s" and a: "active_process s \<noteq> 0"
  shows "\<exists>s' L'. wait_clock clock s = Some s' \<and> sched_ok s' L'"
proof -
  let ?a = "active_process s"
  from k obtain L where ok: "sched_ok s L" and pn: "pend s ?a = None" by (rule kinvE)
  note inv = sched_okD(1) [OF ok] and run = sched_okD(2) [OF ok] and an = sched_okD(4) [OF ok]
  let ?s1 = "upd_attr ?a (w_asleep_clock clock) (set_state ?a PS_ASLEEP s)"
  have un: "unlisted L ?a" by (rule running_unlisted [OF ginvD(1) [OF inv] run])
  have "ginv s L {?a}" by (rule ginv_subset [OF inv]) simp
  then have "ginv (set_state ?a PS_ASLEEP s) L {?a}" by (rule ginv_set_state) (use run un in auto)
  then have inv1: "ginv ?s1 L {?a}" by (rule ginv_upd_attr) (use un in auto)
  have s1: "st ?s1 ?a = PS_ASLEEP" "asleep_clock ?s1 ?a = Some clock" by (simp_all add: upd_defs)
  let ?ys = "ins (\<lambda>x. clock > the (asleep_clock ?s1 x)) ?a (LA L)"
  from ginv_insert_asleep [OF inv1 _ an s1] un obtain s2 where
    ins: "insert_asleep ?a clock ?s1 = Some s2" and spec: "slp_spec ?ys ?a (insert ?a (set (LA L))) ?s1 s2"
    and inv2: "ginv s2 (L\<lparr>LA := ?ys\<rparr>) {?a}" by (auto simp: unlisted_def)
  from spec have pu: "pupd ?a (st ?s1 ?a) (insert ?a (set (LA L))) (processes ?s1) (processes s2)" and fr: "aframe ?s1 s2"
    by (simp_all add: slp_spec_def)
  note pf = pupd_fields [OF pu] aframe_fields [OF fr]
  let ?s3 = "push_cont (K_ret 0) s2"
  have inv3: "ginv ?s3 (L\<lparr>LA := ?ys\<rparr>) {?a}" by (rule ginv_push_cont_X [OF inv2]) (simp add: pf)
  have st3: "st ?s3 q = (if q = ?a then PS_ASLEEP else st s q)" "parent (processes ?s3 q) = parent (processes s q)" for q
    by (simp_all add: pf upd_defs)
  have "parent_ok ?s3 {} ?a" by (rule parent_ok_Diff [OF sched_okD(6) [OF ok] st3(1)]) (simp_all add: pf upd_defs)
  then have "proc_ok ?s3 (L\<lparr>LA := ?ys\<rparr>) ({?a} - {?a}) ?a" using a st3(1) [of ?a] by (simp add: proc_ok_def pf)
  moreover have "sorted_ok ?s3 (L\<lparr>LA := ?ys\<rparr>) ({?a} - {?a})"
    using sorted_ok_notin [OF ginvD(2) [OF inv3], of ?a] un by (simp add: unlisted_def)
  ultimately have "ginv ?s3 (L\<lparr>LA := ?ys\<rparr>) ({?a} - {?a})"
    using st3(1) [of ?a] by (intro ginv_settle [OF inv3]) auto
  then have "\<exists>s' L'. tick_scheduler ?s3 = Some s' \<and> sched_ok s' L'" using ginv_tick by fastforce
  then show ?thesis
    using ins run by (simp add: wait_clock_def getproc_active [OF inv] remove_runnable_other)
qed

section \<open>Waiting for a child\<close>

lemma scan_children_Some:
  "scan_children me is b s = (h, Some c) \<Longrightarrow> c \<in> set is \<and> st s c = PS_ZOMBIE \<and> parent (processes s c) = me"
  by (induction "is" arbitrary: b) (auto split: if_splits)

lemma scan_children_None:
  "scan_children me is b s = (h, None) \<Longrightarrow>
    (h \<longleftrightarrow> b \<or> (\<exists>c \<in> set is. parent (processes s c) = me \<and> st s c \<noteq> PS_DEAD)) \<and>
    (\<forall>c \<in> set is. parent (processes s c) = me \<longrightarrow> st s c \<noteq> PS_ZOMBIE)"
  by (induction "is" arbitrary: b) (auto split: if_splits)

lemma waitpid_block_frame:
  assumes k: "kinv s" and a: "active_process s \<noteq> 0" and r: "caller_ptr r"
    and live: "p < NOPID \<or> (\<exists>c < NBPROC. parent (processes s c) = int (active_process s) \<and>
      (p = int c \<or> p < 0) \<and> st s c \<noteq> PS_DEAD \<and> st s c \<noteq> PS_ZOMBIE)"
  shows "\<exists>s' L'. tick_scheduler (push_cont (K_waitpid r) (set_attr (active_process s) (SA_child (I_child (active_process s)))
      (set_state (active_process s) PS_WAIT_CHILD (s\<lparr>child_pid := (child_pid s)(active_process s := p)\<rparr>)))) = Some s' \<and> sched_ok s' L' \<and>
    sframe (push_cont (K_waitpid r) (set_attr (active_process s) (SA_child (I_child (active_process s)))
      (set_state (active_process s) PS_WAIT_CHILD (s\<lparr>child_pid := (child_pid s)(active_process s := p)\<rparr>)))) s'"
proof -
  let ?a = "active_process s" and ?s0 = "s\<lparr>child_pid := (child_pid s)(active_process s := p)\<rparr>"
  from k obtain L where ok: "sched_ok s L" and pn: "pend s ?a = None" by (rule kinvE)
  note inv = sched_okD(1) [OF ok] and run = sched_okD(2) [OF ok] and an = sched_okD(4) [OF ok]
  have un: "unlisted L ?a" by (rule running_unlisted [OF ginvD(1) [OF inv] run])
  have "ginv s L {?a}" by (rule ginv_subset [OF inv]) simp
  then have "ginv ?s0 L {?a}" by (rule ginv_other) auto
  then have "ginv (set_state ?a PS_WAIT_CHILD ?s0) L {?a}" by (rule ginv_set_state) (use run un in auto)
  then have "ginv (set_attr ?a (SA_child (I_child ?a)) (set_state ?a PS_WAIT_CHILD ?s0)) L {?a}" (is "ginv ?s1 L _")
    by (rule ginv_set_attr) (use un in auto)
  then have inv2: "ginv (push_cont (K_waitpid r) ?s1) L {?a}" (is "ginv ?s2 L _") by (rule ginv_push_cont_X) simp
  have st2: "st ?s2 q = (if q = ?a then PS_WAIT_CHILD else st s q)" "parent (processes ?s2 q) = parent (processes s q)"
    for q by (simp_all add: upd_defs)
  have "wait_live ?s2 {} ?a"
  proof (cases "p < NOPID")
    case True then show ?thesis by (simp add: wait_live_def)
  next
    case False
    with live obtain c where "c < NBPROC" "parent (processes s c) = int ?a" "p = int c \<or> p < 0" "st s c \<noteq> PS_DEAD" "st s c \<noteq> PS_ZOMBIE"
      by blast
    then have "c < NBPROC \<and> parent (processes ?s2 c) = int ?a \<and> (child_pid ?s2 ?a = int c \<or> child_pid ?s2 ?a < 0) \<and>
      (c \<in> {} \<or> st ?s2 c \<noteq> PS_DEAD \<and> st ?s2 c \<noteq> PS_ZOMBIE)" by simp
    then show ?thesis unfolding wait_live_def by blast
  qed
  moreover have "parent_ok ?s2 {} ?a" by (rule parent_ok_Diff [OF sched_okD(6) [OF ok] st2(1)]) (simp_all add: st2)
  moreover have "child_ptr ?s2 ?a = Some (I_child ?a)" "pend ?s2 ?a = Some (K_waitpid r)" by (simp_all add: upd_defs)
  ultimately have "proc_ok ?s2 L ({?a} - {?a}) ?a" using a r st2(1) [of ?a] by (auto simp: proc_ok_def)
  moreover have "sorted_ok ?s2 L ({?a} - {?a})"
    by (rule sorted_ok_notin [OF ginvD(2) [OF inv2]]) (use un in \<open>simp_all add: unlisted_def\<close>)
  ultimately have "ginv ?s2 L ({?a} - {?a})"
    using st2(1) [of ?a] by (intro ginv_settle [OF inv2]) auto
  then show ?thesis using ginv_tick [of ?s2 L] by auto
qed

lemma waitpid_block:
  assumes k: "kinv s" and a: "active_process s \<noteq> 0" and r: "caller_ptr r"
    and live: "p < NOPID \<or> (\<exists>c < NBPROC. parent (processes s c) = int (active_process s) \<and>
      (p = int c \<or> p < 0) \<and> st s c \<noteq> PS_DEAD \<and> st s c \<noteq> PS_ZOMBIE)"
  shows "\<exists>s' L'. tick_scheduler (push_cont (K_waitpid r) (set_attr (active_process s) (SA_child (I_child (active_process s)))
      (set_state (active_process s) PS_WAIT_CHILD (s\<lparr>child_pid := (child_pid s)(active_process s := p)\<rparr>)))) = Some s' \<and> sched_ok s' L'"
  using waitpid_block_frame [OF k a r live] by blast

lemma waitpid_zombie:
  assumes k: "kinv s" and r: "caller_ptr r" and ok: "sched_ok s L"
    and c: "c < NBPROC" "st s c = PS_ZOMBIE" "parent (processes s c) = int (active_process s)"
  shows "\<exists>s' L'. (do { (v, s) \<leftarrow> waitpid_collect c r s; Some (push_cont (K_ret v) s) }) = Some s' \<and> sched_ok s' L'"
  using k waitpid_collect_ok [OF ok _ r c] sched_ok_ret by (fastforce elim!: kinvE)

lemma waitpid_pid_ok:
  assumes k: "kinv s" and a: "active_process s \<noteq> 0" and r: "caller_ptr r" and ok: "sched_ok s L" and p: "0 \<le> p"
    and gp: "getproc s = Some (active_process s)" "pid (processes s (active_process s)) = int (active_process s)"
      "remove_runnable (active_process s) s = Some s"
  shows "\<exists>s' L'. waitpid p r s = Some s' \<and> sched_ok s' L'"
proof (cases "is_valid_pid s p \<and> parent (processes s (nat p)) = int (active_process s)")
  case False
  then show ?thesis using p gp sched_ok_ret [OF ok] by (auto simp: waitpid_def)
next
  case valid: True
  then have c: "nat p < NBPROC" "p = int (nat p)" "st s (nat p) \<noteq> PS_DEAD" "parent (processes s (nat p)) = int (active_process s)"
    using p by (auto simp: is_valid_pid_def)
  show ?thesis
  proof (cases "st s (nat p) = PS_ZOMBIE")
    case True
    show ?thesis using waitpid_zombie [OF k r ok c(1) True c(4)] p gp valid True by (simp add: waitpid_def)
  next
    case False
    from c False have "\<exists>c < NBPROC. parent (processes s c) = int (active_process s) \<and> (p = int c \<or> p < 0) \<and> st s c \<noteq> PS_DEAD \<and> st s c \<noteq> PS_ZOMBIE"
      by blast
    with waitpid_block [OF k a r, of p] show ?thesis using False p gp valid by (simp add: waitpid_def Let_def)
  qed
qed

lemma waitpid_any_ok:
  assumes k: "kinv s" and a: "active_process s \<noteq> 0" and r: "caller_ptr r" and ok: "sched_ok s L" and p: "p < 0"
    and gp: "getproc s = Some (active_process s)" "pid (processes s (active_process s)) = int (active_process s)"
      "remove_runnable (active_process s) s = Some s"
  shows "\<exists>s' L'. waitpid p r s = Some s' \<and> sched_ok s' L'"
proof -
  let ?a = "active_process s"
  obtain h c where sc: "scan_children (int ?a) [0..<NBPROC] False s = (h, c)" by force
  show ?thesis
  proof (cases c)
    case (Some d)
    from scan_children_Some [OF sc [unfolded Some]] have "d < NBPROC" "st s d = PS_ZOMBIE" "parent (processes s d) = int ?a"
      by auto
    from waitpid_zombie [OF k r ok this] show ?thesis using p gp sc Some by (simp add: waitpid_def)
  next
    case None
    from scan_children_None [OF sc [unfolded None]]
    have h: "h \<longleftrightarrow> (\<exists>d < NBPROC. parent (processes s d) = int ?a \<and> st s d \<noteq> PS_DEAD \<and> st s d \<noteq> PS_ZOMBIE)" by auto
    show ?thesis
    proof (cases h)
      case True
      with h waitpid_block [OF k a r, of p] p have "\<exists>s' L'. tick_scheduler (push_cont (K_waitpid r) (set_attr ?a (SA_child (I_child ?a))
        (set_state ?a PS_WAIT_CHILD (s\<lparr>child_pid := (child_pid s)(?a := p)\<rparr>)))) = Some s' \<and> sched_ok s' L'" by auto
      then show ?thesis using p gp sc None True by (simp add: waitpid_def Let_def)
    next
      case False
      then show ?thesis using sched_ok_ret [OF ok] p gp sc None by (auto simp: waitpid_def)
    qed
  qed
qed

theorem waitpid_ok:
  assumes k: "kinv s" and a: "active_process s \<noteq> 0" and r: "caller_ptr r"
  shows "\<exists>s' L'. waitpid p r s = Some s' \<and> sched_ok s' L'"
proof -
  from k obtain L where ok: "sched_ok s L" by (rule kinvE)
  note inv = sched_okD(1) [OF ok]
  have "remove_runnable (active_process s) s = Some s" using sched_okD(2) [OF ok] by (simp add: remove_runnable_other)
  note me = getproc_active [OF inv] ginvD(4) [OF inv sched_okD(4) [OF ok]] this
  show ?thesis using waitpid_pid_ok [OF k a r ok _ me] waitpid_any_ok [OF k a r ok _ me] by (cases "0 \<le> p") simp_all
qed

text \<open>What the return to the active process may change.\<close>

lemma push_dead_fields:
  "push_dead c s = Some s' \<Longrightarrow> active_process s' = active_process s \<and> child_pid s' = child_pid s \<and> queues s' = queues s \<and>
    (\<forall>p. p \<noteq> c \<longrightarrow> processes s' p = processes s p)"
  by (auto simp: push_dead_def user_stack_free_def bind_eq_Some_conv upd_defs split: if_splits option.splits)

lemma resume_frame:
  assumes ok: "sched_ok s L" and r: "resume s = Some (v, s')"
  shows "active_process s' = active_process s" "child_pid s' = child_pid s"
    "st s p \<noteq> PS_ZOMBIE \<Longrightarrow> processes s' p = processes s p" "queues s' = queues s"
proof -
  let ?a = "active_process s" and ?s = "s\<lparr>pend := (pend s)(active_process s := None)\<rparr>"
  have "active_process s' = active_process s \<and> child_pid s' = child_pid s \<and> queues s' = queues s \<and> (st s p \<noteq> PS_ZOMBIE \<longrightarrow> processes s' p = processes s p)"
  proof (cases "\<exists>r. pend s ?a = Some (K_waitpid r)")
    case False
    then show ?thesis using r by (auto simp: resume_def run_cont_def Let_def split: option.splits cont.splits)
  next
    case True
    then obtain q where q: "pend s ?a = Some (K_waitpid q)" by blast
    with sched_okD(5) [OF ok] have cp: "caller_ptr q" by (simp add: runnable_pend_def)
    let ?c = "nat (child_pid s ?a)"
    from r q have w: "waitpid_collect ?c q ?s = Some (the v, s')" "st s ?c = PS_ZOMBIE"
      by (auto simp: resume_def run_cont_def waitpid_resume_def Let_def split: if_splits)
    then obtain s1 where s1: "push_dead ?c s1 = Some s'" "active_process s1 = ?a" "child_pid s1 = child_pid s" "processes s1 = processes s" "queues s1 = queues s"
      using cp by (auto simp: waitpid_collect_def store_int_def bind_eq_Some_conv split: if_splits)
    have "p \<noteq> ?c" if "st s p \<noteq> PS_ZOMBIE" using that w(2) by auto
    then show ?thesis using push_dead_fields [OF s1(1)] s1 by auto
  qed
  then show "active_process s' = active_process s" "child_pid s' = child_pid s"
    "st s p \<noteq> PS_ZOMBIE \<Longrightarrow> processes s' p = processes s p" "queues s' = queues s" by blast+
qed

end
