(* ===== verification/Inv_Prio.thy ===== *)
theory Inv_Prio
  imports Inv_Ops
begin

text \<open>
  The invariant under \<^verbatim>\<open>chprio\<close>: the process is taken off the ordered list it is on, if any, and
  linked again at its new place.
\<close>

lemma upd_proc_same:
  assumes "\<And>q. state (g q) = state q \<and> state_attr (g q) = state_attr q \<and> pid (g q) = pid q \<and> parent (g q) = parent q \<and>
    user_stack (g q) = user_stack q \<and> ssize (g q) = ssize q"
  shows "st (upd_proc p g s) q = st s q" "state_attr (processes (upd_proc p g s) q) = state_attr (processes s q)"
    "pid (processes (upd_proc p g s) q) = pid (processes s q)" "parent (processes (upd_proc p g s) q) = parent (processes s q)"
    "user_stack (processes (upd_proc p g s) q) = user_stack (processes s q)"
    "ssize (processes (upd_proc p g s) q) = ssize (processes s q)"
    "q \<noteq> p \<Longrightarrow> prio (processes (upd_proc p g s) q) = prio (processes s q)"
  using assms by (auto simp: upd_defs)

lemma ginv_upd_proc:
  assumes inv: "ginv s L X" and p: "p \<in> X"
    and g: "\<And>q. state (g q) = state q \<and> state_attr (g q) = state_attr q \<and> pid (g q) = pid q \<and> parent (g q) = parent q \<and>
      user_stack (g q) = user_stack q \<and> ssize (g q) = ssize q"
  shows "ginv (upd_proc p g s) L X"
proof -
  let ?s = "upd_proc p g s"
  note u = upd_proc_same [where g = g and p = p and s = s, OF g]
  note so = sorted_okD [OF ginvD(2) [OF inv]]
  have "proc_ok ?s L X q" if "q < NBPROC" "q \<notin> X" for q
    by (rule proc_ok_frame [OF ginvD(3) [OF inv that]]) (simp_all add: u)
  moreover have "lists_ok ?s L" using ginvD(1) [OF inv]
    by (simp add: lists_ok_def run_ok_def slp_ok_def dead_ok_def wtq_ok_def u)
  moreover have srt: "prio_sorted ?s X xs" if "prio_sorted s X xs" for xs
    unfolding prio_sorted_def
    by (rule sorted_wrt_mono_rel [OF _ that [unfolded prio_sorted_def]]) (use p in \<open>auto simp: upd_defs\<close>)
  have "clock_sorted ?s (LA L)" using so(2) by (rule clock_sorted_cong) (simp add: u)
  with so srt have "sorted_ok ?s L X" by (simp add: sorted_ok_def)
  moreover have "queue_ok ?s L f" if "f < NBQUEUE" for f
    by (rule queue_ok_same [OF ginvD(6) [OF inv that]]) simp_all
  moreover have "ustack_ok ?s X" by (rule ustack_ok_frame [OF ginvD(8) [OF inv]]) (simp_all add: u)
  ultimately show ?thesis using inv by (simp add: ginv_def u)
qed

abbreviation with_prio :: "nat \<Rightarrow> int \<Rightarrow> kstate \<Rightarrow> kstate" where
  "with_prio p v \<equiv> upd_proc p (\<lambda>q. q\<lparr>prio := v\<rparr>)"

lemma with_prio_fields [simp]:
  "st (with_prio p v s) q = st s q" "state_attr (processes (with_prio p v s) q) = state_attr (processes s q)"
  "parent (processes (with_prio p v s) q) = parent (processes s q)" "pid (processes (with_prio p v s) q) = pid (processes s q)"
  by (simp_all add: upd_defs)

lemma proc_ok_with_prio: "proc_ok s L X p \<Longrightarrow> proc_ok (with_prio q v s) L X p"
  by (erule proc_ok_frame) simp_all

text \<open>The state that \<^verbatim>\<open>chprio\<close> calls undefined does not matter.\<close>

lemma push_runnable_any_state:
  "x \<noteq> PS_RUNNABLE \<Longrightarrow> y \<noteq> PS_RUNNABLE \<Longrightarrow> push_runnable p (set_state p x s) = push_runnable p (set_state p y s)"
proof -
  assume "x \<noteq> PS_RUNNABLE" "y \<noteq> PS_RUNNABLE"
  moreover have "set_state p PS_RUNNABLE (set_state p z s) = set_state p PS_RUNNABLE s" for z
    by (simp add: upd_defs)
  ultimately show ?thesis by (simp add: push_runnable_def)
qed

lemma chprio_runnable:
  assumes inv: "ginv s L {}" and p: "p < NBPROC" "st s p = PS_RUNNABLE" and a: "st s (active_process s) = PS_RUNNING"
  shows "\<exists>s1 s2 L'. remove_runnable p (with_prio p v s) = Some s1 \<and> push_runnable p (set_state p PS_ZOMBIE s1) = Some s2 \<and>
    ginv s2 L' {} \<and> active_process s2 = active_process s \<and> st s2 (active_process s) = PS_RUNNING"
proof -
  let ?s = "with_prio p v s"
  from ginvD(3) [OF inv p(1)] p(2) have ok: "p \<in> set (LR L)" "runnable_pend s p" "parent_ok s {} p"
    by (simp_all add: proc_ok_def)
  have "ginv s L {p}" by (rule ginv_subset [OF inv]) simp
  then have "ginv ?s L {p}" by (rule ginv_upd_proc) simp_all
  from ginv_remove_runnable [OF this _ ok(1)] obtain s1 where rm: "remove_runnable p ?s = Some s1"
    and us: "unlink_spec p (LR L) ?s s1" and inv1: "ginv s1 (L\<lparr>LR := remove1 p (LR L)\<rparr>) {p}" by auto
  from us have pu: "pupd p (st ?s p) (set (LR L)) (processes ?s) (processes s1)" and fr: "rframe ?s s1"
    by (simp_all add: unlink_spec_def)
  note pf = pupd_fields [OF pu] rframe_fields [OF fr]
  let ?L = "L\<lparr>LR := remove1 p (LR L)\<rparr>"
  have nR: "p \<notin> set (remove1 p (LR L))" using distinct_LR [OF ginvD(1) [OF inv]] by simp
  have un: "unlisted ?L p" using lists_okD [OF ginvD(1) [OF inv], of p] p(2) nR by (auto simp: unlisted_def)
  let ?s1 = "set_state p PS_ASLEEP s1"
  have inv2: "ginv ?s1 ?L {p}" by (rule ginv_set_state [OF inv1 _ un]) (use p in \<open>simp_all add: pf\<close>)
  have rp: "runnable_pend ?s1 p" by (rule runnable_pend_mono [OF ok(2)]) (use p in \<open>auto simp: pf\<close>)
  have po: "parent_ok ?s1 ({p} - {p}) p" by (rule parent_ok_mono [OF ok(3)]) (auto simp: pf)
  obtain s2 L2 where push: "push_runnable p ?s1 = Some s2" "push_spec p (remove1 p (LR L)) ?s1 s2" and inv3: "ginv s2 L2 ({p} - {p})"
    using ginv_push_runnable [OF inv2 _ p(1) _ _ _ _ _ _ rp po] un by (auto simp: unlisted_def)
  from push(2) have pu2: "pupd p PS_RUNNABLE (insert p (set (remove1 p (LR L)))) (processes ?s1) (processes s2)" and fr2: "rframe ?s1 s2"
    by (simp_all add: push_spec_def)
  have "push_runnable p (set_state p PS_ZOMBIE s1) = Some s2"
    using push(1) push_runnable_any_state [of PS_ZOMBIE PS_ASLEEP p s1] by simp
  moreover have "p \<noteq> active_process s" using a p(2) by auto
  ultimately show ?thesis
    using rm inv3 a by (auto simp: rframe_fields [OF fr2] pupd_fields [OF pu2] pf)
qed

lemma chprio_waiting:
  assumes inv: "ginv s L {}" and p: "p < NBPROC" "st s p = wstate w" and a: "st s (active_process s) = PS_RUNNING"
  shows "\<exists>f s1 s2 L'. queue_index (with_prio p v s) p = Some f \<and> pop_waiting_process w f p (with_prio p v s) = Some s1 \<and>
    push_waiting_process w f p s1 = Some s2 \<and> ginv s2 L' {} \<and> active_process s2 = active_process s \<and>
    st s2 (active_process s) = PS_RUNNING"
proof -
  let ?s = "with_prio p v s"
  from ginvD(3) [OF inv p(1)] p(2) have wk: "waiting_ok s L w p" and po: "parent_ok s {} p"
    by (simp_all add: proc_ok_def)
  then obtain f where f: "f < NBQUEUE" "p \<in> set (LW L w f)" by (auto simp: waiting_ok_def)
  have fid: "wait_fid s p = Some (int f)" using lists_okD(4) [OF ginvD(1) [OF inv] f(2)] by simp
  have qi: "queue_index ?s p = Some f" using f fid by (simp add: queue_index_def)
  have "ginv s L {p}" by (rule ginv_subset [OF inv]) simp
  then have invs: "ginv ?s L {p}" by (rule ginv_upd_proc) simp_all
  let ?xs = "remove1 p (LW L w f)" and ?L = "set_LW w f (remove1 p (LW L w f)) L"
  from ginv_pop_waiting [OF invs _ f(2,1)] obtain s1 where pop: "pop_waiting_process w f p ?s = Some s1"
    and sp: "wtq_spec w f ?xs p (set (LW L w f)) ?s s1" and inv1: "ginv s1 ?L {p}" by auto
  from sp have pu: "pupd p (st ?s p) (set (LW L w f)) (processes ?s) (processes s1)" and fr: "wframe w f ?s s1"
    and at: "wait_fid s1 p = wait_fid s p" "wait_retval s1 p = wait_retval s p" "wait_message s1 p = wait_message s p"
    using f(2) by (simp_all add: wtq_spec_def)
  note pf = pupd_fields [OF pu] wframe_fields [OF fr]
  have dis: "distinct (LW L w f)"
    using ginvD(1) [OF inv] npath_distinct unfolding lists_ok_def wtq_ok_def by blast
  have out: "p \<notin> set (LW ?L w' g)" for w' g
  proof (cases "w' = w \<and> g = f")
    case True then show ?thesis using dis by simp
  next
    case False
    then have "LW ?L w' g = LW L w' g" by auto
    moreover have "p \<notin> set (LW L w' g)"
      using lists_okD(4) [OF ginvD(1) [OF inv], of p w' g] p(2) fid False by auto
    ultimately show ?thesis by simp
  qed
  have q: "queue_ok s L f" by (rule ginvD(6) [OF inv f(1)])
  from f(2) have ne: "LW L w f \<noteq> []" by auto
  have qs: "qsame (queues s f) (queues s1 f)" using fr by (simp add: wframe_def)
  have cap: "capacity (queues s1 f) \<noteq> 0" "w = W_empty \<Longrightarrow> qsize (queues s1 f) = 0"
    "w = W_full \<Longrightarrow> qsize (queues s1 f) = capacity (queues s1 f)"
    using q ne qs by (auto simp: queue_ok_def qsame_def Let_def split: if_splits)
  from ginv_push_waiting [OF inv1 _ p(1) f(1) _ _ out _ cap] p(2) fid at(1) dis
  obtain s2 ys where push: "push_waiting_process w f p s1 = Some s2"
    and sp2: "wtq_spec w f ys p (insert p (set ?xs)) s1 s2" and inv2: "ginv s2 (set_LW w f ys ?L) {p}"
    and so2: "sorted_ok s2 (set_LW w f ys ?L) ({p} - {p})" and ys: "p \<in> set ys" by (auto simp: pf)
  from sp2 have pu2: "pupd p (st s1 p) (insert p (set ?xs)) (processes s1) (processes s2)" and fr2: "wframe w f s1 s2"
    and at2: "wait_retval s2 p = wait_retval s1 p" "wait_message s2 p = wait_message s1 p"
    by (simp_all add: wtq_spec_def)
  note pf2 = pupd_fields [OF pu2] wframe_fields [OF fr2]
  have "parent_ok s2 {} p" by (rule parent_ok_mono [OF po]) (auto simp: pf pf2)
  moreover have "waiting_ok s2 (set_LW w f ys ?L) w p"
    using wk ys f at at2 by (auto simp: waiting_ok_def pf pf2)
  moreover have "p \<noteq> 0" using ginvD(3) [OF inv p(1)] p(2) by (intro notI) (auto simp: proc_ok_def)
  ultimately have "proc_ok s2 (set_LW w f ys ?L) ({p} - {p}) p" using p(2) by (auto simp: proc_ok_def pf pf2)
  with so2 have "ginv s2 (set_LW w f ys ?L) ({p} - {p})"
    using p(2) by (intro ginv_settle [OF inv2]) (auto simp: pf pf2)
  then have "ginv s2 (set_LW w f ys ?L) {}" by simp
  moreover have "active_process s2 = active_process s" "st s2 (active_process s) = PS_RUNNING" using a by (auto simp: pf pf2)
  ultimately show ?thesis using qi pop push by blast
qed

lemma chprio_unordered:
  assumes inv: "ginv s L {}" and p: "p < NBPROC" "st s p = PS_RUNNING \<or> st s p = PS_ASLEEP \<or> st s p = PS_WAIT_CHILD"
  shows "ginv (with_prio p v s) L {}"
proof -
  let ?s = "with_prio p v s"
  have "ginv s L {p}" by (rule ginv_subset [OF inv]) simp
  then have inv1: "ginv ?s L {p}" by (rule ginv_upd_proc) simp_all
  note D = lists_okD [OF ginvD(1) [OF inv], of p]
  have "sorted_ok ?s L ({p} - {p})"
    by (rule sorted_ok_notin [OF ginvD(2) [OF inv1]]) (use D p(2) in auto)
  moreover have "proc_ok ?s L ({p} - {p}) p" using proc_ok_with_prio [OF ginvD(3) [OF inv p(1)]] by simp
  ultimately have "ginv ?s L ({p} - {p})" using p(2) by (intro ginv_settle [OF inv1]) auto
  then show ?thesis by simp
qed

lemma fix_ret_ok:
  assumes "ginv s L {}" and "st s (active_process s) = PS_RUNNING"
  shows "\<exists>s' L'. fix_scheduler (push_cont (K_ret v) s) = Some s' \<and> sched_ok s' L'"
  using ginv_fix [OF ginv_push_ret [OF assms(1), of v]] assms(2) by blast

text \<open>Whatever list the process is in, \<open>chprio\<close> puts it back at the place of its new priority.\<close>

lemma chprio_relink:
  assumes inv: "ginv s L {}" and run: "st s (active_process s) = PS_RUNNING"
    and p: "p < NBPROC" "st s p \<noteq> PS_DEAD" "st s p \<noteq> PS_ZOMBIE"
  shows "\<exists>s2 L2. (case st s p of
      PS_RUNNABLE \<Rightarrow> do { s \<leftarrow> remove_runnable p (with_prio p v s); push_runnable p (set_state p PS_ZOMBIE s) }
    | PS_WAIT_QUEUE_EMPTY \<Rightarrow> queue_reorder_empty_process p (with_prio p v s)
    | PS_WAIT_QUEUE_FULL \<Rightarrow> queue_reorder_full_process p (with_prio p v s)
    | _ \<Rightarrow> Some (with_prio p v s)) = Some s2 \<and> ginv s2 L2 {} \<and> st s2 (active_process s2) = PS_RUNNING"
proof -
  consider "st s p = PS_RUNNABLE" | w where "st s p = wstate w" | "st s p = PS_RUNNING \<or> st s p = PS_ASLEEP \<or> st s p = PS_WAIT_CHILD"
  proof (cases "st s p")
    case PS_WAIT_QUEUE_EMPTY then show ?thesis using that(2) [of W_empty] by simp
  next
    case PS_WAIT_QUEUE_FULL then show ?thesis using that(2) [of W_full] by simp
  qed (use p that in simp_all)
  then show ?thesis
  proof cases
    case 1 with chprio_runnable [OF inv p(1) 1 run, of v] show ?thesis by auto
  next
    case (2 w)
    from chprio_waiting [OF inv p(1) 2 run, of v] obtain f s1 s2 L' where
      *: "queue_index (with_prio p v s) p = Some f" "pop_waiting_process w f p (with_prio p v s) = Some s1"
      "push_waiting_process w f p s1 = Some s2" "ginv s2 L' {}" "st s2 (active_process s2) = PS_RUNNING" by auto
    then show ?thesis using 2 by (cases w) (auto simp: queue_reorder_empty_process_def queue_reorder_full_process_def)
  next
    case 3
    have "st (with_prio p v s) (active_process s) = PS_RUNNING" using run by simp
    with chprio_unordered [OF inv p(1) 3, of v] 3 show ?thesis by auto
  qed
qed

theorem chprio_ok:
  assumes k: "kinv s"
  shows "\<exists>s' L'. chprio p newprio s = Some s' \<and> sched_ok s' L'"
proof -
  from k obtain L where ok: "sched_ok s L" by (rule kinvE)
  let ?p = "nat p"
  show ?thesis
  proof (cases "alive_pid s p \<and> 0 < newprio \<and> newprio \<le> MAXPRIO \<and> prio (processes s ?p) \<noteq> newprio")
    case False
    then show ?thesis using sched_ok_ret [OF ok] by (auto simp: chprio_def Let_def)
  next
    case True
    then have "?p < NBPROC" "st s ?p \<noteq> PS_DEAD" "st s ?p \<noteq> PS_ZOMBIE" by (auto simp: alive_pid_def)
    from chprio_relink [OF sched_okD(1,2) [OF ok] this, of newprio] obtain s2 L2 where
      s2: "(case st s ?p of
          PS_RUNNABLE \<Rightarrow> do { s \<leftarrow> remove_runnable ?p (with_prio ?p newprio s); push_runnable ?p (set_state ?p PS_ZOMBIE s) }
        | PS_WAIT_QUEUE_EMPTY \<Rightarrow> queue_reorder_empty_process ?p (with_prio ?p newprio s)
        | PS_WAIT_QUEUE_FULL \<Rightarrow> queue_reorder_full_process ?p (with_prio ?p newprio s)
        | _ \<Rightarrow> Some (with_prio ?p newprio s)) = Some s2" "ginv s2 L2 {}" "st s2 (active_process s2) = PS_RUNNING" by blast
    then have "chprio p newprio s = fix_scheduler (push_cont (K_ret (prio (processes s ?p))) s2)"
      using True by (simp add: chprio_def Let_def)
    then show ?thesis using fix_ret_ok [OF s2(2,3)] by simp
  qed
qed

end
