(* ===== verification/Inv_Start.thy ===== *)
theory Inv_Start
  imports Inv_Prio
begin

text \<open>
  The invariant under process creation: a slot is taken from the dead stack, filled and made
  runnable.
\<close>

section \<open>Taking a slot\<close>

lemma ginv_alloc:
  assumes inv: "ginv s L {}" and LD: "LD L = p # ds" and n: "next_dead s p = Some n"
    and pr: "processes s' = (processes s)(p := r)" "state r = PS_DEAD" "pid r = pid (processes s p)"
    and hd: "dead_process_head s' = n" "runnable_process_head s' = runnable_process_head s"
      "asleep_process_head s' = asleep_process_head s" "queues s' = queues s" "active_process s' = active_process s"
      "child_pid s' = child_pid s" "\<And>q. q \<noteq> p \<Longrightarrow> pend s' q = pend s q"
    and us: "ustack_ok s' {p}"
  shows "ginv s' (L\<lparr>LD := ds\<rparr>) {p}"
proof -
  from inv have lok: "lists_ok s L" by (rule ginvD)
  note so = sorted_okD [OF ginvD(2) [OF inv]] and D = lists_okD [OF lok, of p]
  from LD lok have p: "p < NBPROC" "st s p = PS_DEAD" "p \<notin> set ds"
    using D(3) npath_distinct [of "next_dead s" "dead_process_head s" "LD L"] by (auto simp: lists_ok_def dead_ok_def)
  have ag: "agree s s' xs" if "p \<notin> set xs" for xs using that pr by (auto simp: agree_def)
  have out: "p \<notin> set (LR L)" "p \<notin> set (LA L)" "p \<notin> set (LW L w f)" for w f using D(1,2) D(4) [of w f] p(2) by auto
  have wh: "wait_head w f s' = wait_head w f s" for w f by (cases w) (simp_all add: wait_head_def hd)
  have "npath (next_dead s) n ds" using lok LD n by (auto simp: lists_ok_def dead_ok_def)
  then have "npath (next_dead s') n ds" using agree_npath(2) [OF ag [OF p(3)]] by simp
  then have "dead_ok s' ds" using lok LD p(3) by (auto simp: dead_ok_def hd lists_ok_def pr)
  moreover have "run_ok s' (LR L)" using lok by (auto simp: lists_ok_def hd intro!: run_ok_frame [OF _ _ ag] out)
  moreover have "slp_ok s' (LA L)" using lok by (auto simp: lists_ok_def hd intro!: slp_ok_frame [OF _ _ ag] out)
  moreover have "wtq_ok s' w f (LW L w f)" for w f
    using lok wh by (auto simp: lists_ok_def intro!: wtq_ok_frame [OF _ _ ag] out)
  ultimately have "lists_ok s' (L\<lparr>LD := ds\<rparr>)" by (simp add: lists_ok_def)
  moreover have "prio_sorted s' {p} (LR L)" by (rule prio_sorted_cong [OF so(1)]) (use out pr in auto)
  moreover have "prio_sorted s' {p} (LW L w f)" for w f by (rule prio_sorted_cong [OF so(3)]) (use out pr in auto)
  moreover have "clock_sorted s' (LA L)" by (rule clock_sorted_cong [OF so(2)]) (use out pr in auto)
  moreover have "proc_ok s' (L\<lparr>LD := ds\<rparr>) {p} q" if "q < NBPROC" "q \<noteq> p" for q
    by (rule proc_ok_frame [OF ginvD(3) [OF inv that(1)]]) (use that p pr hd in auto)
  moreover have "queue_ok s' (L\<lparr>LD := ds\<rparr>) f" if "f < NBQUEUE" for f
    by (rule queue_ok_same [OF ginvD(6) [OF inv that]]) (simp_all add: hd)
  ultimately show ?thesis using inv us pr hd by (simp add: ginv_def sorted_ok_def)
qed

text \<open>A slot that was taken and not used stays dead, on no list.\<close>

lemma ginv_alloc_dead:
  assumes inv0: "ginv s L {}" and st0: "st s p = PS_DEAD" and pr: "\<And>q. q \<noteq> p \<Longrightarrow> processes s' q = processes s q"
    and cp: "child_pid s' = child_pid s" and inv: "ginv s' L' {p}" and p: "p < NBPROC" "st s' p = PS_DEAD" "p \<noteq> 0"
    and un: "p \<notin> set (LR L')" "\<And>w f. p \<notin> set (LW L' w f)" and us: "user_stack (processes s' p) = None"
  shows "ginv s' L' {}"
proof -
  have same: "processes s' q = processes s q" if "st s q \<noteq> PS_DEAD" for q using that pr [of q] st0 by auto
  have "ginv s' L' ({p} - {p})"
  proof (rule ginv_settle [OF inv])
    show "sorted_ok s' L' ({p} - {p})" by (rule sorted_ok_notin [OF ginvD(2) [OF inv] un])
    show "proc_ok s' L' ({p} - {p}) p" using p by (simp add: proc_ok_def)
    have "parent_ok s' {} q" if "q < NBPROC" "q \<noteq> p" "st s' q \<noteq> PS_DEAD" for q
    proof -
      have "parent_ok s {} q" using ginvD(3) [OF inv0 that(1)] that pr by (simp add: proc_ok_def)
      then show ?thesis by (rule parent_ok_mono) (use pr [OF that(2)] same in auto)
    qed
    moreover have "wait_live s' {} q" if "q < NBPROC" "q \<noteq> p" "st s' q = PS_WAIT_CHILD" for q
    proof -
      have "wait_live s {} q" using ginvD(3) [OF inv0 that(1)] that pr by (simp add: proc_ok_def)
      then show ?thesis by (rule wait_live_mono) (use same cp in auto)
    qed
    ultimately show "st s' p \<noteq> PS_DEAD \<and> st s' p \<noteq> PS_ZOMBIE \<or> (\<forall>q < NBPROC. q \<notin> {p} \<longrightarrow>
        (st s' q \<noteq> PS_DEAD \<longrightarrow> parent_ok s' ({p} - {p}) q) \<and> (st s' q = PS_WAIT_CHILD \<longrightarrow> wait_live s' ({p} - {p}) q))"
      by simp
  qed (use us in simp)
  then show ?thesis by simp
qed

lemma ustack_okD:
  assumes "ustack_ok s X" and "p < NBPROC" and "user_stack (processes s p) = Some a"
  shows "(a, ssize (processes s p)) \<in> set (ustack_blocks s)" "ssize (processes s p) \<noteq> 0" "p \<in> X \<or> st s p \<noteq> PS_DEAD"
    "q < NBPROC \<Longrightarrow> q \<noteq> p \<Longrightarrow> user_stack (processes s q) \<noteq> Some a"
  using assms unfolding ustack_ok_def by blast+

lemma ustack_alloc:
  assumes us: "ustack_ok s {}" and pr: "processes s' = (processes s)(p := r)"
    and r: "\<And>a. user_stack r = Some a \<Longrightarrow> (a, ssize r) \<in> set (ustack_blocks s') \<and> ssize r \<noteq> 0 \<and> a \<notin> fst ` set (ustack_blocks s)"
    and bl: "set (ustack_blocks s) \<subseteq> set (ustack_blocks s')"
  shows "ustack_ok s' {p}"
  unfolding ustack_ok_def
proof (intro allI impI)
  fix q a assume q: "q < NBPROC" and a: "user_stack (processes s' q) = Some a"
  have old: "user_stack (processes s x) = Some a \<Longrightarrow> a \<in> fst ` set (ustack_blocks s)" if "x < NBPROC" for x
    using ustack_okD(1) [OF us that, of a] by force
  show "(a, ssize (processes s' q)) \<in> set (ustack_blocks s') \<and> ssize (processes s' q) \<noteq> 0 \<and> (q \<in> {p} \<or> st s' q \<noteq> PS_DEAD) \<and>
    (\<forall>x < NBPROC. x \<noteq> q \<longrightarrow> user_stack (processes s' x) \<noteq> Some a)"
  proof (cases "q = p")
    case True
    with a pr r [of a] old show ?thesis by auto
  next
    case False
    with a pr have "user_stack (processes s q) = Some a" by simp
    from ustack_okD [OF us q this] old [OF q this] False bl r [of a] show ?thesis by (auto simp: pr)
  qed
qed

text \<open>Making the new process runnable.\<close>

lemma ginv_start_push:
  assumes inv: "ginv s L {p}" and p: "p < NBPROC" "p \<noteq> 0" "st s p = PS_DEAD" "pend s p = None" "p \<notin> set (LD L)"
    and par: "parent (processes s p) = int (active_process s)" and run: "st s (active_process s) = PS_RUNNING"
  shows "\<exists>s' L'. push_runnable p s = Some s' \<and> ginv s' L' {} \<and> active_process s' = active_process s \<and>
    st s' (active_process s) = PS_RUNNING \<and> pid (processes s' p) = int p \<and> st s' p = PS_RUNNABLE \<and> p \<in> set (LR L') \<and>
    pend s' = pend s \<and> parent (processes s' p) = int (active_process s) \<and>
    (\<forall>q. prio (processes s' q) = prio (processes s q)) \<and> set (LR L') = insert p (set (LR L)) \<and>
    (\<forall>q. st s' q = (if q = p then PS_RUNNABLE else st s q)) \<and> (\<forall>q. parent (processes s' q) = parent (processes s q))"
proof -
  note D = lists_okD [OF ginvD(1) [OF inv], of p]
  have po: "parent_ok s ({p} - {p}) p" using par run p ginvD(5) [OF inv] by (auto simp: parent_ok_def)
  have rp: "runnable_pend s p" by (rule runnable_pendI) (simp add: p)
  have R: "set (LR L) \<inter> {p} = {}" using D(1) p(3) by auto
  obtain s' L' where push: "push_runnable p s = Some s'" "push_spec p (LR L) s s'" "ginv s' L' ({p} - {p})"
    "set (LR L') = insert p (set (LR L))"
    using ginv_push_runnable [OF inv _ p(1) _ _ _ _ _ R rp po] p D(2) D(4) by fastforce
  from push(2) have pu: "pupd p PS_RUNNABLE (insert p (set (LR L))) (processes s) (processes s')" and fr: "rframe s s'"
    by (simp_all add: push_spec_def)
  note pf = pupd_fields [OF pu] rframe_fields [OF fr]
  from push show ?thesis using run p par ginvD(4) [OF inv p(1)] by (auto simp: pf)
qed

section \<open>Kernel and user processes\<close>

lemma dead_head:
  assumes inv: "ginv s L {}"
  shows "dead_process_head s = (case LD L of [] \<Rightarrow> None | p # _ \<Rightarrow> Some p)"
    "LD L = p # ds \<Longrightarrow> p < NBPROC \<and> p \<noteq> 0 \<and> st s p = PS_DEAD \<and> p \<notin> set ds \<and> (\<exists>n. next_dead s p = Some n)"
proof -
  have d: "dead_ok s (LD L)" using ginvD(1) [OF inv] by (simp add: lists_ok_def)
  then show "dead_process_head s = (case LD L of [] \<Rightarrow> None | p # _ \<Rightarrow> Some p)"
    by (cases "LD L") (auto simp: dead_ok_def)
  assume LD: "LD L = p # ds"
  from d LD have p: "p < NBPROC" "st s p = PS_DEAD" "\<exists>n. next_dead s p = Some n" by (auto simp: dead_ok_def)
  moreover have "p \<noteq> 0" using ginvD(3) [OF inv p(1)] p(2) by (intro notI) (simp add: proc_ok_def)
  moreover have "p \<notin> set ds" using d LD npath_distinct [of "next_dead s" "dead_process_head s" "LD L"] by (simp add: dead_ok_def)
  ultimately show "p < NBPROC \<and> p \<noteq> 0 \<and> st s p = PS_DEAD \<and> p \<notin> set ds \<and> (\<exists>n. next_dead s p = Some n)" by simp
qed

lemma ginv_start_slot:
  assumes inv: "ginv s L {}" and run: "st s (active_process s) = PS_RUNNING" and LD: "LD L = p # ds"
    and n: "next_dead s p = Some n" and r: "state r = PS_DEAD" "pid r = pid (processes s p)" "parent r = int (active_process s)"
    and s': "processes s' = (processes s)(p := r)" "dead_process_head s' = n" "runnable_process_head s' = runnable_process_head s"
      "asleep_process_head s' = asleep_process_head s" "queues s' = queues s" "active_process s' = active_process s"
      "child_pid s' = child_pid s" "pend s' = (pend s)(p := None)" and us: "ustack_ok s' {p}"
  shows "\<exists>s2 L'. push_runnable p s' = Some s2 \<and> ginv s2 L' {} \<and> active_process s2 = active_process s \<and>
    st s2 (active_process s) = PS_RUNNING \<and> pid (processes s2 p) = int p \<and> st s2 p = PS_RUNNABLE \<and> p \<in> set (LR L') \<and>
    pend s2 = (pend s)(p := None) \<and> parent (processes s2 p) = int (active_process s) \<and>
    (\<forall>q. prio (processes s2 q) = prio (if q = p then r else processes s q)) \<and> set (LR L') = insert p (set (LR L)) \<and>
    (\<forall>q. q \<noteq> p \<longrightarrow> st s2 q = st s q \<and> parent (processes s2 q) = parent (processes s q))"
proof -
  note d = dead_head(2) [OF inv LD]
  have "p \<noteq> active_process s" using d run by auto
  have "ginv s' (L\<lparr>LD := ds\<rparr>) {p}"
    by (rule ginv_alloc [OF inv LD n, where r = r]) (use r us in \<open>simp_all add: s'\<close>)
  from ginv_start_push [OF this] d r run \<open>p \<noteq> active_process s\<close> obtain s2 L' where
    "push_runnable p s' = Some s2 \<and> ginv s2 L' {} \<and> active_process s2 = active_process s \<and> st s2 (active_process s) = PS_RUNNING \<and>
      pid (processes s2 p) = int p \<and> st s2 p = PS_RUNNABLE \<and> p \<in> set (LR L') \<and> pend s2 = (pend s)(p := None) \<and>
      parent (processes s2 p) = int (active_process s)"
    and o: "\<And>q. prio (processes s2 q) = prio (if q = p then r else processes s q)" "set (LR L') = insert p (set (LR L))"
      "\<And>q. q \<noteq> p \<Longrightarrow> st s2 q = st s q" "\<And>q. q \<noteq> p \<Longrightarrow> parent (processes s2 q) = parent (processes s q)" by (auto simp: s')
  then show ?thesis using o by blast
qed

lemma start_background_ok:
  assumes inv: "ginv s L {}" and run: "st s (active_process s) = PS_RUNNING"
  shows "\<exists>p s' L'. start_background fn sz pr nm arg s = Some (p, s') \<and> ginv s' L' {} \<and>
    active_process s' = active_process s \<and> st s' (active_process s) = PS_RUNNING \<and>
    (if unat sz div 4 > NBSTACK then p = -2 \<and> s' = s else if LD L = [] then p = NOPID \<and> s' = s
     else p = int (hd (LD L)) \<and> st s' (hd (LD L)) = PS_RUNNABLE \<and> parent (processes s' (hd (LD L))) = int (active_process s) \<and>
       (\<forall>q. prio (processes s' q) = (if q = hd (LD L) then pr else prio (processes s q))) \<and> set (LR L') = insert (hd (LD L)) (set (LR L)) \<and>
       pend s' = (pend s)(hd (LD L) := None) \<and>
       (\<forall>q. q \<noteq> hd (LD L) \<longrightarrow> st s' q = st s q \<and> parent (processes s' q) = parent (processes s q)))"
proof (cases "unat sz div 4 > NBSTACK \<or> LD L = []")
  case True
  then show ?thesis using inv run by (auto simp: start_background_def dead_head(1) [OF inv])
next
  case False
  then obtain p ds where LD: "LD L = p # ds" by (cases "LD L") auto
  note d = dead_head(2) [OF inv LD]
  then obtain n where n: "next_dead s p = Some n" by blast
  let ?r = "(processes s p)\<lparr>pname := nm, prio := pr, parent := getpid s, ssize := 0, user_stack := None,
          kernel_stack := (kernel_stack (processes s p))(NBSTACK - 3 := CAddr fn, NBSTACK - 2 := A_PROC_end, NBSTACK - 1 := CAddr arg),
          registers := (registers (processes s p))(1 := A_kstack p (NBSTACK - 3))\<rparr>"
  let ?s = "s\<lparr>dead_process_head := n, processes := (processes s)(p := ?r), pend := (pend s)(p := None)\<rparr>"
  have us: "ustack_ok ?s {p}" by (rule ustack_alloc [OF ginvD(8) [OF inv], where r = ?r]) simp_all
  have "getpid s = int (active_process s)" by (rule getpid_active [OF inv])
  with ginv_start_slot [OF inv run LD n, of ?r ?s] us d obtain s2 L' where
    push: "push_runnable p ?s = Some s2" and post: "ginv s2 L' {}" "active_process s2 = active_process s"
      "st s2 (active_process s) = PS_RUNNING" "pid (processes s2 p) = int p" "st s2 p = PS_RUNNABLE" "parent (processes s2 p) = int (active_process s)"
      "\<And>q. prio (processes s2 q) = (if q = p then pr else prio (processes s q))" "set (LR L') = insert p (set (LR L))"
      "pend s2 = (pend s)(p := None)" "\<And>q. q \<noteq> p \<Longrightarrow> st s2 q = st s q \<and> parent (processes s2 q) = parent (processes s q)" by auto
  have "start_background fn sz pr nm arg s = Some (int p, s2)"
    using False LD d n push post(4)
    by (simp add: start_background_def dead_head(1) [OF inv] pop_dead_def upd_defs getpid_def Let_def)
  then show ?thesis using False LD post by auto
qed

theorem start_ok:
  assumes k: "kinv s"
  shows "\<exists>s' L'. start fn sz pr nm arg s = Some s' \<and> sched_ok s' L'"
proof -
  from k obtain L where ok: "sched_ok s L" by (rule kinvE)
  from start_background_ok [OF sched_okD(1,2) [OF ok], of fn sz pr nm arg] obtain p s1 L1 where
    "start_background fn sz pr nm arg s = Some (p, s1)" and inv: "ginv s1 L1 {}" and
    "active_process s1 = active_process s" "st s1 (active_process s) = PS_RUNNING" by blast
  then show ?thesis using fix_ret_ok [OF inv, of p] by (simp add: start_def)
qed

lemma user_stack_size:
  assumes "sz \<le> MAXSTACK" and "n = sz + 20 * 4"
  shows "n + n mod 4 \<noteq> (0 :: u32)"
proof -
  have "unat MAXSTACK = 2 ^ 30" by (simp add: MAXSTACK_def push_bit_eq_mult)
  then have "unat sz \<le> 2 ^ 30" using assms(1) by (simp add: word_le_nat_alt)
  moreover from this have n: "unat n = unat sz + 80" unfolding assms(2) by (subst unat_add_lem [THEN iffD1]) simp_all
  moreover have "unat (n mod 4) < 4" by (simp add: unat_mod)
  ultimately have "unat (n + n mod 4) = unat n + unat (n mod 4)" by (intro unat_add_lem [THEN iffD1]) simp
  then have "unat (n + n mod 4) \<noteq> 0" using n by simp
  then show ?thesis by auto
qed

text \<open>Without memory for the user stack the slot is unlinked from the dead list and given back to nobody.\<close>

lemma start_user_no_memory:
  assumes inv: "ginv s L {}" and run: "st s (active_process s) = PS_RUNNING" and LD: "LD L = p # ds" and n: "next_dead s p = Some n"
    and sz: "sz \<le> MAXSTACK" and None: "alloc (sz + 20 * 4 + (sz + 20 * 4) mod 4) = None"
  shows "\<exists>s'. start_user_background alloc fn sz pr nm arg s = Some (-1, s') \<and> ginv s' (L\<lparr>LD := ds\<rparr>) {} \<and>
    active_process s' = active_process s \<and> st s' (active_process s) = PS_RUNNING \<and>
    pend s' (active_process s) = pend s (active_process s)"
proof -
  let ?r = "(processes s p)\<lparr>pname := nm, prio := pr, parent := getpid s, ssize := sz + 20 * 4 + (sz + 20 * 4) mod 4, user_stack := None\<rparr>"
  let ?s = "s\<lparr>dead_process_head := n, processes := (processes s)(p := ?r)\<rparr>"
  note d = dead_head(2) [OF inv LD]
  have pop: "pop_dead s = Some (p, s\<lparr>dead_process_head := n\<rparr>)" "dead_process_head s = Some p"
    using LD n d by (simp_all add: pop_dead_def dead_head(1) [OF inv])
  have us: "ustack_ok ?s {p}" by (rule ustack_alloc [OF ginvD(8) [OF inv], where r = ?r]) simp_all
  have inv1: "ginv ?s (L\<lparr>LD := ds\<rparr>) {p}" by (rule ginv_alloc [OF inv LD n, where r = ?r]) (use d us in simp_all)
  note D = lists_okD [OF ginvD(1) [OF inv], of p]
  have "ginv ?s (L\<lparr>LD := ds\<rparr>) {}"
    by (rule ginv_alloc_dead [OF inv _ _ _ inv1]) (use d D in auto)
  moreover have "start_user_background alloc fn sz pr nm arg s = Some (-1, ?s)"
    using sz LD pop None by (simp add: start_user_background_def upd_defs getpid_def Let_def)
  moreover have "st ?s (active_process s) = PS_RUNNING" using run d by auto
  ultimately show ?thesis by auto
qed

lemma start_user_background_ok:
  assumes inv: "ginv s L {}" and run: "st s (active_process s) = PS_RUNNING"
    and fresh: "\<And>n a. alloc n = Some a \<Longrightarrow> a \<notin> fst ` set (ustack_blocks s)"
  shows "\<exists>v s' L'. start_user_background alloc fn sz pr nm arg s = Some (v, s') \<and> ginv s' L' {} \<and>
    active_process s' = active_process s \<and> st s' (active_process s) = PS_RUNNING \<and>
    pend s' (active_process s) = pend s (active_process s)"
proof -
  have fin: ?thesis if "start_user_background alloc fn sz pr nm arg s = Some (v, s1)" "ginv s1 L1 {}"
      "active_process s1 = active_process s" "st s1 (active_process s) = PS_RUNNING"
      "pend s1 (active_process s) = pend s (active_process s)" for v s1 L1
    using that by blast
  show ?thesis
  proof (cases "sz > MAXSTACK \<or> LD L = []")
    case True
    have "\<exists>v. start_user_background alloc fn sz pr nm arg s = Some (v, s)"
      using True by (auto simp: start_user_background_def dead_head(1) [OF inv])
    then show ?thesis using fin inv run by blast
  next
    case False
    then obtain p ds where LD: "LD L = p # ds" and sz: "sz \<le> MAXSTACK" by (cases "LD L") auto
    note d = dead_head(2) [OF inv LD]
    then obtain n where n: "next_dead s p = Some n" by blast
    have pop: "pop_dead s = Some (p, s\<lparr>dead_process_head := n\<rparr>)" "dead_process_head s = Some p"
      using LD n d by (simp_all add: pop_dead_def dead_head(1) [OF inv])
    have pid: "getpid s = int (active_process s)" by (rule getpid_active [OF inv])
    define m where "m = sz + 20 * 4 + (sz + 20 * 4) mod 4"
    have m0: "m \<noteq> 0" unfolding m_def by (rule user_stack_size [OF sz refl])
    show ?thesis
    proof (cases "alloc m")
      case None
      show ?thesis
        using fin start_user_no_memory [where alloc = alloc, OF inv run LD n sz None [unfolded m_def]] by blast
    next
      case (Some a)
      let ?k = "m div 4"
      let ?r = "(processes s p)\<lparr>pname := nm, prio := pr, parent := getpid s, ssize := m, user_stack := Some a,
        kernel_stack := (kernel_stack (processes s p))(NBSTACK - 6 := A_JMP_usermode, NBSTACK - 5 := CAddr fn,
                 NBSTACK - 4 := CInt USER_CS, NBSTACK - 3 := CInt 0x202,
                 NBSTACK - 2 := CAddr (a + 4 * (?k - 2)), NBSTACK - 1 := CInt USER_DS),
        registers := (registers (processes s p))(1 := A_kstack p (NBSTACK - 6))\<rparr>"
      let ?s = "s\<lparr>dead_process_head := n, ustack_blocks := (a, m) # ustack_blocks s,
        umem := (umem s)(a + 4 * (?k - 2) := A_PROC_end_user, a + 4 * (?k - 1) := CAddr arg),
        processes := (processes s)(p := ?r), pend := (pend s)(p := None)\<rparr>"
      have us: "ustack_ok ?s {p}"
        by (rule ustack_alloc [OF ginvD(8) [OF inv], where r = ?r]) (use fresh [OF Some] m0 in auto)
      from ginv_start_slot [OF inv run LD n, of ?r ?s] us d pid obtain s2 L' where
        push: "push_runnable p ?s = Some s2" and post: "ginv s2 L' {}" "active_process s2 = active_process s"
          "st s2 (active_process s) = PS_RUNNING" "pid (processes s2 p) = int p" "pend s2 = (pend s)(p := None)" by auto
      have "start_user_background alloc fn sz pr nm arg s = Some (int p, s2)"
        using False pop Some push post(4) unfolding m_def
        by (simp add: start_user_background_def upd_defs getpid_def Let_def)
      moreover have "p \<noteq> active_process s" using d run by auto
      ultimately show ?thesis using fin post by simp
    qed
  qed
qed

theorem start_user_ok:
  assumes k: "kinv s" and fresh: "\<And>n a. alloc n = Some a \<Longrightarrow> a \<notin> fst ` set (ustack_blocks s)"
  shows "\<exists>s' L'. start_user alloc fn sz pr nm arg s = Some s' \<and> sched_ok s' L'"
proof -
  from k obtain L where ok: "sched_ok s L" by (rule kinvE)
  from start_user_background_ok [OF sched_okD(1,2) [OF ok], where alloc = alloc and fn = fn and sz = sz and pr = pr and nm = nm and arg = arg] fresh obtain v s1 L1 where
    "start_user_background alloc fn sz pr nm arg s = Some (v, s1)" and inv: "ginv s1 L1 {}" and
    "active_process s1 = active_process s" "st s1 (active_process s) = PS_RUNNING" by blast
  then show ?thesis using fix_ret_ok [OF inv, of v] by (simp add: start_user_def)
qed

end
