(* ===== verification/Inv_Stop.thy ===== *)
theory Inv_Stop
  imports Inv_Start
begin

text \<open>
  The invariant under \<^verbatim>\<open>stop\<close>, that is \<^verbatim>\<open>kill\<close> and \<^verbatim>\<open>exit\<close>: the children are unbound, the process
  leaves the list it is on, and becomes dead or a zombie whose parent may wake up.
\<close>

section \<open>Unbinding the children\<close>

lemma ginv_orphan:
  assumes inv: "ginv s L X" and par: "parent (processes s i) = int a" "a \<in> X" and z: "st s i \<noteq> PS_ZOMBIE"
  shows "ginv (upd_proc i (\<lambda>q. q\<lparr>parent := NOPID\<rparr>) s) L X" (is "ginv ?s L X")
proof -
  have u: "st ?s q = st s q" "state_attr (processes ?s q) = state_attr (processes s q)" "pid (processes ?s q) = pid (processes s q)"
    "user_stack (processes ?s q) = user_stack (processes s q)" "ssize (processes ?s q) = ssize (processes s q)"
    "prio (processes ?s q) = prio (processes s q)"
    "parent (processes ?s q) = (if q = i then NOPID else parent (processes s q))" for q
    by (simp_all add: upd_defs)
  note so = sorted_okD [OF ginvD(2) [OF inv]]
  have "proc_ok ?s L X q" if "q < NBPROC" "q \<notin> X" for q
    by (rule proc_ok_frame [OF ginvD(3) [OF inv that]]) (use that par z in \<open>auto simp: u\<close>)
  moreover have "lists_ok ?s L" using ginvD(1) [OF inv]
    by (simp add: lists_ok_def run_ok_def slp_ok_def dead_ok_def wtq_ok_def u)
  moreover have "prio_sorted ?s X (LR L)" by (rule prio_sorted_cong [OF so(1)]) (simp_all add: u)
  moreover have "clock_sorted ?s (LA L)" by (rule clock_sorted_cong [OF so(2)]) (simp add: u)
  moreover have "prio_sorted ?s X (LW L w f)" for w f by (rule prio_sorted_cong [OF so(3)]) (simp_all add: u)
  moreover have "queue_ok ?s L f" if "f < NBQUEUE" for f
    by (rule queue_ok_same [OF ginvD(6) [OF inv that]]) simp_all
  moreover have "ustack_ok ?s X" by (rule ustack_ok_frame [OF ginvD(8) [OF inv]]) (simp_all add: u)
  ultimately show ?thesis using inv by (simp add: ginv_def sorted_ok_def u)
qed

text \<open>What the loop does to the table.\<close>

definition unbound_at :: "nat \<Rightarrow> bool \<Rightarrow> process_t \<Rightarrow> process_t \<Rightarrow> bool" where
  "unbound_at a b q q' \<longleftrightarrow> prio q' = prio q \<and>
     state q' = (if b \<and> parent q = int a \<and> state q = PS_ZOMBIE then PS_DEAD else state q) \<and>
     parent q' = (if b \<and> parent q = int a \<and> state q \<noteq> PS_ZOMBIE then NOPID else parent q) \<and>
     (state q \<noteq> PS_ZOMBIE \<longrightarrow> state_attr q' = state_attr q)"

definition unbound :: "nat \<Rightarrow> nat set \<Rightarrow> kstate \<Rightarrow> kstate \<Rightarrow> bool" where
  "unbound a I s s' \<longleftrightarrow> active_process s' = active_process s \<and> pend s' = pend s \<and> child_pid s' = child_pid s \<and> queues s' = queues s \<and>
     (\<forall>q. unbound_at a (q \<in> I) (processes s q) (processes s' q))"

lemma unbound_at_trans:
  "unbound_at a b q q' \<Longrightarrow> unbound_at a c q' q'' \<Longrightarrow> \<not> (b \<and> c) \<Longrightarrow> unbound_at a (b \<or> c) q q''"
  by (cases b; cases c; cases "parent q = int a"; cases "state q = PS_ZOMBIE") (simp_all add: unbound_at_def)

lemma unbound_trans:
  assumes "unbound a I s s'" and "unbound a J s' s''" and "I \<inter> J = {}"
  shows "unbound a (I \<union> J) s s''"
  using assms unbound_at_trans unfolding unbound_def by (simp add: disjoint_iff) blast

lemma unbound_fields:
  assumes "unbound a I s s'"
  shows "active_process s' = active_process s" "pend s' = pend s" "child_pid s' = child_pid s" "queues s' = queues s"
    "prio (processes s' q) = prio (processes s q)"
    "st s' q = (if q \<in> I \<and> parent (processes s q) = int a \<and> st s q = PS_ZOMBIE then PS_DEAD else st s q)"
    "parent (processes s' q) = (if q \<in> I \<and> parent (processes s q) = int a \<and> st s q \<noteq> PS_ZOMBIE then NOPID else parent (processes s q))"
    "st s q \<noteq> PS_ZOMBIE \<Longrightarrow> state_attr (processes s' q) = state_attr (processes s q)"
  using assms unfolding unbound_def unbound_at_def by blast+

lemma ginv_unbind_one:
  assumes inv: "ginv s L {a}" and i: "i < NBPROC" and a: "st s a \<noteq> PS_ZOMBIE" "st s a \<noteq> PS_DEAD" and po: "parent_ok s {a} a"
  shows "\<exists>s' ds. (if parent (processes s i) \<noteq> int a then Some s
           else if st s i = PS_ZOMBIE then push_dead i s
           else Some (upd_proc i (\<lambda>q. q\<lparr>parent := NOPID\<rparr>) s)) = Some s' \<and> ginv s' (L\<lparr>LD := ds\<rparr>) {a} \<and>
    unbound a {i} s s' \<and> parent_ok s' {a} a"
proof (cases "parent (processes s i) = int a")
  case False
  then show ?thesis using inv po by (auto simp: unbound_def unbound_at_def intro!: exI [of _ "LD L"])
next
  case par: True
  show ?thesis
  proof (cases "st s i = PS_ZOMBIE")
    case True
    have ia: "i \<noteq> a" using True a by auto
    have ok: "proc_ok s L {a} i" using ginvD(3) [OF inv i] ia by simp
    with True have i0: "i \<noteq> 0" by (intro notI) (simp add: proc_ok_def)
    have np: "parent (processes s q) \<noteq> int i" if "q < NBPROC" "q \<notin> {a}" "q \<noteq> i" "st s q \<noteq> PS_DEAD" for q
    proof -
      have "parent_ok s {a} q" using ginvD(3) [OF inv that(1,2)] that(4) by (simp add: proc_ok_def)
      then show ?thesis using ia True by (auto simp: parent_ok_def)
    qed
    have "{a} - {i} = {a}" using ia by auto
    moreover have "st s i \<noteq> PS_DEAD" using True by simp
    ultimately obtain s' where eq: "push_dead i s = Some s'" and spec: "dead_spec i s s'"
      and inv': "ginv s' (L\<lparr>LD := i # LD L\<rparr>) {a}"
      using ginv_push_dead [OF inv i i0 _ zombie_unlisted [OF ginvD(1) [OF inv] True] _ np] par by auto
    note pf = dead_spec_fields [OF spec]
    have "unbound a {i} s s'" using par True pf(18) by (auto simp: unbound_def unbound_at_def pf)
    moreover have "parent_ok s' {a} a" using po True by (auto simp: parent_ok_def pf)
    ultimately show ?thesis using eq inv' par True by auto
  next
    case False
    let ?s = "upd_proc i (\<lambda>q. q\<lparr>parent := NOPID\<rparr>) s"
    have "ginv ?s (L\<lparr>LD := LD L\<rparr>) {a}" using ginv_orphan [OF inv par _ False] by simp
    moreover have "unbound a {i} s ?s" using par False by (auto simp: unbound_def unbound_at_def upd_defs)
    moreover have "parent_ok ?s {a} a" by (rule parent_ok_mono [OF po]) (auto simp: upd_defs)
    ultimately show ?thesis using par False by (intro exI [of _ ?s] exI [of _ "LD L"]) simp
  qed
qed

lemma ginv_unbind:
  assumes "ginv s L {a}" and "distinct is \<and> (\<forall>i \<in> set is. i < NBPROC)" and "st s a \<noteq> PS_ZOMBIE" "st s a \<noteq> PS_DEAD" and "parent_ok s {a} a"
  shows "\<exists>s' ds. unbind_children (int a) is s = Some s' \<and> ginv s' (L\<lparr>LD := ds\<rparr>) {a} \<and> unbound a (set is) s s' \<and> parent_ok s' {a} a"
  using assms
proof (induction "is" arbitrary: s L)
  case Nil
  then show ?case by (auto simp: unbound_def unbound_at_def intro!: exI [of _ "LD L"])
next
  case (Cons i "is")
  from ginv_unbind_one [OF Cons.prems(1) _ Cons.prems(3-5), of i] Cons.prems(2) obtain s1 ds where
    one: "(if parent (processes s i) \<noteq> int a then Some s else if st s i = PS_ZOMBIE then push_dead i s
           else Some (upd_proc i (\<lambda>q. q\<lparr>parent := NOPID\<rparr>) s)) = Some s1"
    and inv1: "ginv s1 (L\<lparr>LD := ds\<rparr>) {a}" and ub: "unbound a {i} s s1" and po1: "parent_ok s1 {a} a" by auto
  have a1: "st s1 a \<noteq> PS_ZOMBIE" "st s1 a \<noteq> PS_DEAD" using Cons.prems(3,4) by (simp_all add: unbound_fields [OF ub])
  from Cons.IH [OF inv1 _ a1 po1] Cons.prems(2) obtain s2 ds2 where
    two: "unbind_children (int a) is s1 = Some s2" and inv2: "ginv s2 (L\<lparr>LD := ds2\<rparr>) {a}" and ub2: "unbound a (set is) s1 s2"
    and po2: "parent_ok s2 {a} a" by auto
  have "unbind_children (int a) (i # is) s = Some s2" using one two by simp
  moreover have "unbound a (set (i # is)) s s2" using unbound_trans [OF ub ub2] Cons.prems(2) by simp
  ultimately show ?case using inv2 po2 by blast
qed

section \<open>Leaving the lists\<close>

text \<open>What unlinking keeps of every process.\<close>

definition unlinked :: "kstate \<Rightarrow> kstate \<Rightarrow> bool" where
  "unlinked s s' \<longleftrightarrow> active_process s' = active_process s \<and> pend s' = pend s \<and> child_pid s' = child_pid s \<and>
     (\<forall>q. st s' q = st s q \<and> parent (processes s' q) = parent (processes s q) \<and> prio (processes s' q) = prio (processes s q) \<and>
       pid (processes s' q) = pid (processes s q))"

lemma unlinked_fields:
  assumes "unlinked s s'"
  shows "active_process s' = active_process s" "pend s' = pend s" "child_pid s' = child_pid s" "st s' q = st s q"
    "parent (processes s' q) = parent (processes s q)" "prio (processes s' q) = prio (processes s q)"
    "pid (processes s' q) = pid (processes s q)"
  using assms unfolding unlinked_def by blast+

lemma unlinked_refl [simp]: "unlinked s s"
  by (simp add: unlinked_def)

lemma unlinked_trans: "unlinked s s' \<Longrightarrow> unlinked s' s'' \<Longrightarrow> unlinked s s''"
  unfolding unlinked_def by simp

lemma unlinkedI:
  "pupd p (st s p) Y (processes s) (processes s') \<Longrightarrow> active_process s' = active_process s \<Longrightarrow> pend s' = pend s \<Longrightarrow>
    child_pid s' = child_pid s \<Longrightarrow> unlinked s s'"
  by (simp add: unlinked_def pupd_fields)

definition listed_ok :: "kstate \<Rightarrow> lists \<Rightarrow> nat \<Rightarrow> bool" where
  "listed_ok s L p \<longleftrightarrow> (st s p = PS_RUNNABLE \<longrightarrow> p \<in> set (LR L)) \<and> (st s p = PS_ASLEEP \<longrightarrow> p \<in> set (LA L)) \<and>
     (\<forall>w. st s p = wstate w \<longrightarrow> (\<exists>f < NBQUEUE. p \<in> set (LW L w f)))"

lemma leave_wait_queue:
  assumes inv: "ginv s L {p}" and st: "st s p = wstate w" and f: "f < NBQUEUE" "p \<in> set (LW L w f)"
  shows "\<exists>s' L'. leave_wait p s = Some s' \<and> ginv s' L' {p} \<and> unlinked s s' \<and> unlisted L' p"
proof -
  note lok = ginvD(1) [OF inv]
  have fid: "wait_fid s p = Some (int f)" using lists_okD(4) [OF lok f(2)] by simp
  then have qi: "queue_index s p = Some f" using f by (simp add: queue_index_def)
  let ?L = "set_LW w f (remove1 p (LW L w f)) L"
  from ginv_pop_waiting [OF inv _ f(2,1)] obtain s1 where pop: "pop_waiting_process w f p s = Some s1"
    and sp: "wtq_spec w f (remove1 p (LW L w f)) p (set (LW L w f)) s s1" and inv1: "ginv s1 ?L {p}" by auto
  have "leave_wait p s = Some s1"
    using st qi pop by (cases w) (simp_all add: leave_wait_def queue_remove_empty_process_def queue_remove_full_process_def)
  moreover have "unlinked s s1"
    using sp wframe_fields [of w f s s1] by (intro unlinkedI) (auto simp: wtq_spec_def)
  moreover have "unlisted ?L p"
  proof -
    have "distinct (LW L w f)" using lok npath_distinct unfolding lists_ok_def wtq_ok_def by blast
    moreover have "p \<notin> set (LW L w' g)" if "w' \<noteq> w \<or> g \<noteq> f" for w' g
      using lists_okD(4) [OF lok, of p w' g] st fid that by auto
    ultimately show ?thesis using lists_okD(1-3) [OF lok, of p] st by (auto simp: unlisted_def)
  qed
  ultimately show ?thesis using inv1 by blast
qed

lemma leave_lists:
  assumes inv: "ginv s L {p}" and p: "listed_ok s L p" "st s p \<noteq> PS_DEAD"
  shows "\<exists>s1 s2 L'. leave_wait p s = Some s1 \<and> remove_runnable p s1 = Some s2 \<and> ginv s2 L' {p} \<and> unlinked s s2 \<and> unlisted L' p"
proof -
  note lok = ginvD(1) [OF inv] and D = lists_okD [OF ginvD(1) [OF inv], of p]
  have two: ?thesis if "leave_wait p s = Some s1" "ginv s1 L1 {p}" "unlinked s s1" "unlisted L1 p" "st s p \<noteq> PS_RUNNABLE" for s1 L1
    using that remove_runnable_other [of s1 p] unlinked_fields(4) [OF that(3), of p] by auto
  have other: ?thesis if "leave_wait p s = Some s" "st s p = PS_ZOMBIE \<or> st s p = PS_RUNNING \<or> st s p = PS_WAIT_CHILD"
    by (rule two [OF that(1) inv]) (use D that(2) in \<open>auto simp: unlisted_def\<close>)
  show ?thesis
  proof (cases "st s p")
    case PS_RUNNABLE
    with p have "p \<in> set (LR L)" by (simp add: listed_ok_def)
    from ginv_remove_runnable [OF inv _ this] obtain s' where rm: "remove_runnable p s = Some s'" and
      sp: "unlink_spec p (LR L) s s'" and inv': "ginv s' (L\<lparr>LR := remove1 p (LR L)\<rparr>) {p}" by auto
    have "unlinked s s'" using sp rframe_fields [of s s'] by (intro unlinkedI) (auto simp: unlink_spec_def)
    moreover have "unlisted (L\<lparr>LR := remove1 p (LR L)\<rparr>) p"
      using distinct_LR [OF lok] D PS_RUNNABLE by (auto simp: unlisted_def)
    ultimately show ?thesis using rm inv' PS_RUNNABLE by (auto simp: leave_wait_def)
  next
    case PS_ASLEEP
    with p have mem: "p \<in> set (LA L)" by (simp add: listed_ok_def)
    from ginv_remove_asleep [OF inv _ this] obtain s' where rm: "remove_asleep p s = Some s'" and
      sp: "slp_spec (remove1 p (LA L)) p (set (LA L)) s s'" and inv': "ginv s' (L\<lparr>LA := remove1 p (LA L)\<rparr>) {p}" by auto
    have "unlinked s s'" using sp aframe_fields [of s s'] by (intro unlinkedI) (auto simp: slp_spec_def)
    moreover have "distinct (LA L)" using lok npath_distinct unfolding lists_ok_def slp_ok_def by blast
    then have "unlisted (L\<lparr>LA := remove1 p (LA L)\<rparr>) p" using D PS_ASLEEP by (auto simp: unlisted_def)
    ultimately show ?thesis using rm inv' PS_ASLEEP by (intro two) (simp_all add: leave_wait_def)
  next
    case PS_WAIT_QUEUE_EMPTY
    then have st: "st s p = wstate W_empty" by simp
    with p obtain f where "f < NBQUEUE" "p \<in> set (LW L W_empty f)" unfolding listed_ok_def by blast
    from leave_wait_queue [OF inv st this] PS_WAIT_QUEUE_EMPTY show ?thesis by (elim exE conjE) (rule two; simp)
  next
    case PS_WAIT_QUEUE_FULL
    then have st: "st s p = wstate W_full" by simp
    with p obtain f where "f < NBQUEUE" "p \<in> set (LW L W_full f)" unfolding listed_ok_def by blast
    from leave_wait_queue [OF inv st this] PS_WAIT_QUEUE_FULL show ?thesis by (elim exE conjE) (rule two; simp)
  next
    case PS_ZOMBIE then show ?thesis by (intro other) (simp_all add: leave_wait_def)
  next
    case PS_RUNNING then show ?thesis by (intro other) (simp_all add: leave_wait_def)
  next
    case PS_WAIT_CHILD then show ?thesis by (intro other) (simp_all add: leave_wait_def)
  qed (use p in simp)
qed

section \<open>Becoming a zombie\<close>

lemma ginv_settle_zombie:
  assumes inv: "ginv s L {p}" and p: "p < NBPROC" "p \<noteq> 0" "unlisted L p" "st s p = PS_ZOMBIE" "zombie_retval s p \<noteq> None"
    and par: "parent (processes s p) = int q" "q < NBPROC" "st s q \<noteq> PS_DEAD" "st s q \<noteq> PS_ZOMBIE"
    and nochild: "\<And>c. c < NBPROC \<Longrightarrow> c \<noteq> p \<Longrightarrow> st s c \<noteq> PS_DEAD \<Longrightarrow> parent (processes s c) \<noteq> int p"
    and nowait: "st s q = PS_WAIT_CHILD \<Longrightarrow> child_pid s q \<noteq> NOPID \<and> child_pid s q \<noteq> int p"
  shows "ginv s L {}"
proof -
  have "ginv s L ({p} - {p})"
  proof (rule ginv_settle [OF inv])
    show "sorted_ok s L ({p} - {p})" by (rule sorted_ok_notin [OF ginvD(2) [OF inv]]) (use p in \<open>simp_all add: unlisted_def\<close>)
    have "q \<noteq> p" using par(4) p(4) by auto
    then have "parent_ok s {} p" using par by (auto simp: parent_ok_def)
    then show "proc_ok s L ({p} - {p}) p" using p par by (simp add: proc_ok_def)
    have "parent_ok s {} r" if r: "r < NBPROC" "r \<noteq> p" "st s r \<noteq> PS_DEAD" for r
    proof -
      have "parent_ok s {p} r" using ginvD(3) [OF inv r(1)] r by (simp add: proc_ok_def)
      then show ?thesis using nochild [OF r] by (auto simp: parent_ok_def)
    qed
    moreover have "wait_live s {} r" if r: "r < NBPROC" "r \<noteq> p" "st s r = PS_WAIT_CHILD" for r
    proof -
      have "wait_live s {p} r" using ginvD(3) [OF inv r(1)] r by (simp add: proc_ok_def)
      then consider "child_pid s r < NOPID" | c where "c < NBPROC" "parent (processes s c) = int r"
          "child_pid s r = int c \<or> child_pid s r < 0" "c = p \<or> st s c \<noteq> PS_DEAD \<and> st s c \<noteq> PS_ZOMBIE"
        unfolding wait_live_def by auto
      then show ?thesis
      proof cases
        case 1 then show ?thesis by (simp add: wait_live_def)
      next
        case 2
        show ?thesis
        proof (cases "c = p")
          case True
          with 2 par have "r = q" by simp
          with nowait r(3) 2 True have "child_pid s r < 0" "child_pid s r \<noteq> NOPID" by auto
          then show ?thesis by (simp add: wait_live_def NOPID_def)
        next
          case False with 2 show ?thesis by (auto simp: wait_live_def)
        qed
      qed
    qed
    ultimately show "st s p \<noteq> PS_DEAD \<and> st s p \<noteq> PS_ZOMBIE \<or> (\<forall>r < NBPROC. r \<notin> {p} \<longrightarrow>
        (st s r \<noteq> PS_DEAD \<longrightarrow> parent_ok s ({p} - {p}) r) \<and> (st s r = PS_WAIT_CHILD \<longrightarrow> wait_live s ({p} - {p}) r))"
      by simp
  qed (use p in simp)
  then show ?thesis by simp
qed

lemma become_zombie_ok:
  assumes inv: "ginv s L {p}" and p: "p < NBPROC" "p \<noteq> 0" "unlisted L p" "st s p \<noteq> PS_ZOMBIE"
    and par: "parent (processes s p) = int q" "q < NBPROC" "q \<noteq> p" "st s q \<noteq> PS_DEAD" "st s q \<noteq> PS_ZOMBIE"
    and nochild: "\<And>c. c < NBPROC \<Longrightarrow> c \<noteq> p \<Longrightarrow> st s c \<noteq> PS_DEAD \<Longrightarrow> parent (processes s c) \<noteq> int p"
  shows "\<exists>s' L'. become_zombie p (int p) v s = Some s' \<and> ginv s' L' {} \<and> active_process s' = active_process s \<and>
    pend s' = pend s \<and> (\<forall>r. prio (processes s' r) = prio (processes s r)) \<and> st s' p = PS_ZOMBIE \<and> zombie_retval s' p = Some v \<and> parent (processes s' p) = int q \<and>
    (\<forall>r. r \<noteq> p \<longrightarrow> st s' r = (if r = q \<and> st s q = PS_WAIT_CHILD \<and> (child_pid s q = NOPID \<or> child_pid s q = int p)
      then PS_RUNNABLE else st s r))"
proof -
  let ?s = "set_attr p (SA_retval v) (set_state p PS_ZOMBIE s)"
  have "ginv (set_state p PS_ZOMBIE s) L {p}" by (rule ginv_set_state [OF inv]) (use p in auto)
  then have inv1: "ginv ?s L {p}" by (rule ginv_set_attr) (use p in auto)
  have zr: "zombie_retval ?s p = Some v" and at: "state_attr (processes ?s q) = state_attr (processes s q)"
    using par(3) by (simp_all add: upd_defs)
  have okq: "proc_ok s L {p} q" using ginvD(3) [OF inv par(2)] par(3) by simp
  show ?thesis
  proof (cases "st s q = PS_WAIT_CHILD \<and> (child_pid s q = NOPID \<or> child_pid s q = int p)")
    case False
    have "ginv ?s L {}"
      by (rule ginv_settle_zombie [OF inv1 p(1-3), where q = q]) (use par p nochild False zr in auto)
    moreover have "become_zombie p (int p) v s = Some ?s"
    proof (cases "st s q = PS_WAIT_CHILD")
      case True
      with okq have "child_ptr s q = Some (I_child q)" by (simp add: proc_ok_def)
      with True False par at show ?thesis by (simp add: become_zombie_def load_int_def Let_def)
    qed (use par in \<open>simp add: become_zombie_def Let_def\<close>)
    ultimately show ?thesis using False zr par by auto
  next
    case True
    let ?s1 = "?s\<lparr>child_pid := (child_pid s)(q := int p)\<rparr>"
    from okq True obtain r where q: "child_ptr s q = Some (I_child q)" "pend s q = Some (K_waitpid r)" "caller_ptr r"
      and poq: "parent_ok s {p} q" by (auto simp: proc_ok_def)
    have inv2: "ginv ?s1 L {p, q}" by (rule ginv_other [OF ginv_subset [OF inv1]]) auto
    have un: "unlisted L q" using lists_okD [OF ginvD(1) [OF inv], of q] True by (auto simp: unlisted_def)
    have "collectable ?s1 q" unfolding collectable_def using p(1) par by (intro exI [of _ p]) simp
    with q have rp: "runnable_pend ?s1 q" by (auto simp: runnable_pend_def)
    have po: "parent_ok ?s1 ({p, q} - {q}) q" by (rule parent_ok_mono [OF poq]) (use par in auto)
    have Xq: "{p, q} - {q} = {p}" using par(3) by auto
    let ?L2 = "L\<lparr>LR := ins (\<lambda>x. prio (processes s q) \<le> prio (processes s x)) q (LR L)\<rparr>"
    obtain s2 where push: "push_runnable q ?s1 = Some s2" "push_spec q (LR L) ?s1 s2" and inv3: "ginv s2 ?L2 {p}"
      using ginv_push_runnable [OF inv2 _ par(2) _ _ _ _ _ _ rp po] un p(3) True par(3) Xq by (auto simp: unlisted_def)
    from push(2) have pu: "pupd q PS_RUNNABLE (insert q (set (LR L))) (processes ?s1) (processes s2)" and fr: "rframe ?s1 s2"
      by (simp_all add: push_spec_def)
    note pf = pupd_fields [OF pu] rframe_fields [OF fr]
    have un2: "unlisted ?L2 p" using p(3) par(3) by (auto simp: unlisted_def)
    have zr2: "zombie_retval s2 p = Some v" using zr pf(10) [of p] p(3) par(3) by (simp add: unlisted_def)
    have "ginv s2 ?L2 {}"
      by (rule ginv_settle_zombie [OF inv3 p(1,2) un2, where q = q]) (use par p nochild zr2 in \<open>auto simp: pf split: if_splits\<close>)
    moreover have "become_zombie p (int p) v s = Some s2"
      using True par q push(1) at by (auto simp: become_zombie_def load_int_def store_int_def Let_def)
    ultimately show ?thesis using True zr2 par by (auto simp: pf)
  qed
qed

section \<open>Stopping a process\<close>

lemma ginv_push_cont_done:
  assumes inv: "ginv s L {}" and a: "st s (active_process s) = PS_DEAD \<or> st s (active_process s) = PS_ZOMBIE"
  shows "ginv (push_cont k s) L {}"
proof -
  let ?a = "active_process s" and ?s = "push_cont k s"
  have "proc_ok ?s L {} p" if "p < NBPROC" for p
  proof (cases "p = ?a")
    case True
    have ok: "proc_ok s L {} ?a" using ginvD(3) [OF inv that] True by simp
    from a show ?thesis unfolding True by (elim disjE) (use ok in \<open>simp_all add: proc_ok_def\<close>)
  next
    case False
    show ?thesis by (rule proc_ok_frame [OF ginvD(3) [OF inv that]]) (use False in simp_all)
  qed
  moreover have "ginv ?s L {?a}" by (rule ginv_other [OF ginv_subset [OF inv]]) simp_all
  moreover have "ustack_ok ?s {}" by (rule ustack_ok_frame [OF ginvD(8) [OF inv]]) simp_all
  ultimately show ?thesis using ginvD(2) [OF inv] by (simp add: ginv_def)
qed

text \<open>The first half of \<open>stop\<close>: the children are given up and the process leaves every list.\<close>

lemma stop_leave:
  assumes inv: "ginv s L {}" and p: "p < NBPROC" "st s p \<noteq> PS_DEAD" "st s p \<noteq> PS_ZOMBIE"
  shows "\<exists>s1 s2 s3 L3. unbind_children (int p) [0..<NBPROC] s = Some s1 \<and> leave_wait p s1 = Some s2 \<and> remove_runnable p s2 = Some s3 \<and>
    ginv s3 L3 {p} \<and> unlisted L3 p \<and> parent_ok s3 {p} p \<and> (\<forall>c < NBPROC. st s3 c \<noteq> PS_DEAD \<longrightarrow> parent (processes s3 c) \<noteq> int p) \<and>
    st s3 p = st s p \<and> parent (processes s3 p) = parent (processes s p) \<and> (\<forall>q. st s3 q = st s q \<or> st s q = PS_ZOMBIE \<and> st s3 q = PS_DEAD) \<and>
    active_process s3 = active_process s \<and> pend s3 = pend s \<and> (\<forall>q. prio (processes s3 q) = prio (processes s q))"
proof -
  from ginvD(3) [OF inv p(1)] have ok: "proc_ok s L {} p" by simp
  then have "listed_ok s L p" and po: "parent_ok s {} p"
    using p by (auto simp: proc_ok_def listed_ok_def waiting_ok_def)
  have inv0: "ginv s L {p}" by (rule ginv_subset [OF inv]) simp
  from ginv_unbind [OF inv0 _ p(3,2) parent_ok_subset [OF po], of "[0..<NBPROC]"] obtain s1 ds where
    un: "unbind_children (int p) [0..<NBPROC] s = Some s1" and inv1: "ginv s1 (L\<lparr>LD := ds\<rparr>) {p}"
    and ub: "unbound p {0..<NBPROC} s s1" and po1: "parent_ok s1 {p} p" by auto
  note u = unbound_fields [OF ub]
  have "listed_ok s1 (L\<lparr>LD := ds\<rparr>) p" using \<open>listed_ok s L p\<close> p by (simp add: listed_ok_def u)
  from leave_lists [OF inv1 this] p obtain s2 s3 L3 where lv: "leave_wait p s1 = Some s2" "remove_runnable p s2 = Some s3"
    and inv3: "ginv s3 L3 {p}" and ul: "unlinked s1 s3" and un3: "unlisted L3 p" by (auto simp: u)
  note l = unlinked_fields [OF ul]
  have "parent_ok s3 {p} p" by (rule parent_ok_mono [OF po1]) (auto simp: l)
  moreover have "\<forall>c < NBPROC. st s3 c \<noteq> PS_DEAD \<longrightarrow> parent (processes s3 c) \<noteq> int p" by (auto simp: l u)
  moreover have "st s3 p = st s p" using p by (simp add: l u)
  moreover have "parent (processes s3 p) = parent (processes s p)" using po by (auto simp: l u parent_ok_def split: if_splits)
  moreover have "\<forall>q. st s3 q = st s q \<or> st s q = PS_ZOMBIE \<and> st s3 q = PS_DEAD" by (simp add: l u)
  moreover have "active_process s3 = active_process s" "pend s3 = pend s" "\<forall>q. prio (processes s3 q) = prio (processes s q)"
    by (simp_all add: l u)
  ultimately show ?thesis using un lv inv3 un3 by blast
qed

text \<open>The second half: without a parent the slot is free again, otherwise the process stays a zombie and a waiting parent wakes up.\<close>

lemma stop_settle:
  assumes inv: "ginv s L {p}" and p: "p < NBPROC" "p \<noteq> 0" "st s p \<noteq> PS_DEAD" "unlisted L p" "parent_ok s {p} p" "st s p \<noteq> PS_ZOMBIE"
    and nochild: "\<forall>c < NBPROC. st s c \<noteq> PS_DEAD \<longrightarrow> parent (processes s c) \<noteq> int p"
  shows "\<exists>s4 L4. (if parent (processes s p) = NOPID then push_dead p s else become_zombie p (int p) v s) = Some s4 \<and> ginv s4 L4 {} \<and>
    active_process s4 = active_process s \<and> pend s4 = pend s \<and> (\<forall>q. prio (processes s4 q) = prio (processes s q)) \<and>
    (if parent (processes s p) = NOPID then st s4 p = PS_DEAD
     else st s4 p = PS_ZOMBIE \<and> zombie_retval s4 p = Some v \<and> parent (processes s4 p) = parent (processes s p)) \<and>
    (\<forall>q. q \<noteq> p \<longrightarrow> st s4 q = st s q \<or> st s q = PS_WAIT_CHILD \<and> parent (processes s p) = int q \<and> st s4 q = PS_RUNNABLE)"
proof (cases "parent (processes s p) = NOPID")
  case True
  from ginv_push_dead [OF inv p(1,2,3,4)] True nochild obtain s4 where
    pd: "push_dead p s = Some s4" and spec: "dead_spec p s s4" and inv4: "ginv s4 (L\<lparr>LD := p # LD L\<rparr>) {}" by auto
  note d = dead_spec_fields [OF spec]
  show ?thesis
  proof (intro exI conjI)
    show "ginv s4 (L\<lparr>LD := p # LD L\<rparr>) {}" by (rule inv4)
  qed (use True pd in \<open>auto simp: d\<close>)
next
  case False
  have "parent (processes s p) \<noteq> int p" using nochild p by blast
  then obtain q where q: "parent (processes s p) = int q" "q < NBPROC" "q \<noteq> p" "st s q \<noteq> PS_DEAD" "st s q \<noteq> PS_ZOMBIE"
    using False p(5) by (auto simp: parent_ok_def)
  from become_zombie_ok [OF inv p(1,2,4) _ q, of v] nochild p obtain s4 L4 where
    bz: "become_zombie p (int p) v s = Some s4" "ginv s4 L4 {}" "active_process s4 = active_process s" "st s4 p = PS_ZOMBIE"
    "zombie_retval s4 p = Some v" "parent (processes s4 p) = int q" and st4: "\<And>r. r \<noteq> p \<Longrightarrow> st s4 r = (if r = q \<and> st s q = PS_WAIT_CHILD \<and>
      (child_pid s q = NOPID \<or> child_pid s q = int p) then PS_RUNNABLE else st s r)"
    and pp: "pend s4 = pend s" "\<And>r. prio (processes s4 r) = prio (processes s r)" by auto
  have "st s4 r = st s r \<or> st s r = PS_WAIT_CHILD \<and> parent (processes s p) = int r \<and> st s4 r = PS_RUNNABLE" if "r \<noteq> p" for r
    using st4 [OF that] q(1) by auto
  with bz pp q(1) show ?thesis using False by auto
qed

lemma stop_step:
  assumes inv: "ginv s L {}" and p: "p < NBPROC" "p \<noteq> 0" "st s p \<noteq> PS_DEAD" "st s p \<noteq> PS_ZOMBIE"
  shows "\<exists>s1 s2 s3 s4 L4. unbind_children (int p) [0..<NBPROC] s = Some s1 \<and> leave_wait p s1 = Some s2 \<and>
    remove_runnable p s2 = Some s3 \<and>
    (if parent (processes s3 p) = NOPID then push_dead p s3 else become_zombie p (int p) v s3) = Some s4 \<and>
    ginv s4 L4 {} \<and> active_process s4 = active_process s \<and>
    (st s4 p = PS_DEAD \<or> st s4 p = PS_ZOMBIE) \<and>
    (parent (processes s p) \<noteq> NOPID \<longrightarrow> st s4 p = PS_ZOMBIE \<and> zombie_retval s4 p = Some v \<and>
       parent (processes s4 p) = parent (processes s p)) \<and>
    (\<forall>q. q \<noteq> p \<longrightarrow> st s q = PS_RUNNING \<longrightarrow> st s4 q = PS_RUNNING) \<and>
    (\<forall>q. prio (processes s4 q) = prio (processes s q)) \<and> pend s4 = pend s \<and>
    (\<forall>q. q \<noteq> p \<longrightarrow> st s4 q = PS_RUNNABLE \<longrightarrow> st s q = PS_RUNNABLE \<or> st s q = PS_WAIT_CHILD \<and> parent (processes s p) = int q)"
proof -
  from stop_leave [OF inv p(1,3,4)] obtain s1 s2 s3 L3 where
    lv: "unbind_children (int p) [0..<NBPROC] s = Some s1" "leave_wait p s1 = Some s2" "remove_runnable p s2 = Some s3"
    and s3: "ginv s3 L3 {p}" "unlisted L3 p" "parent_ok s3 {p} p" "\<forall>c < NBPROC. st s3 c \<noteq> PS_DEAD \<longrightarrow> parent (processes s3 c) \<noteq> int p"
    and same: "st s3 p = st s p" "parent (processes s3 p) = parent (processes s p)"
      "\<And>q. st s3 q = st s q \<or> st s q = PS_ZOMBIE \<and> st s3 q = PS_DEAD"
      "active_process s3 = active_process s" "pend s3 = pend s" "\<And>q. prio (processes s3 q) = prio (processes s q)" by blast
  have "st s3 p \<noteq> PS_DEAD" "st s3 p \<noteq> PS_ZOMBIE" using p same(1) by simp_all
  from stop_settle [OF s3(1) p(1,2) this(1) s3(2,3) this(2) s3(4), of v] obtain s4 L4 where
    s4: "(if parent (processes s3 p) = NOPID then push_dead p s3 else become_zombie p (int p) v s3) = Some s4" "ginv s4 L4 {}"
      "active_process s4 = active_process s3" "pend s4 = pend s3" "\<And>q. prio (processes s4 q) = prio (processes s3 q)"
      "if parent (processes s3 p) = NOPID then st s4 p = PS_DEAD
       else st s4 p = PS_ZOMBIE \<and> zombie_retval s4 p = Some v \<and> parent (processes s4 p) = parent (processes s3 p)"
    and st4: "\<And>q. q \<noteq> p \<Longrightarrow> st s4 q = st s3 q \<or> st s3 q = PS_WAIT_CHILD \<and> parent (processes s3 p) = int q \<and> st s4 q = PS_RUNNABLE" by blast
  have "st s4 q = PS_RUNNING" if "q \<noteq> p" "st s q = PS_RUNNING" for q
    using st4 [OF that(1)] same(3) [of q] that(2) by auto
  moreover have "st s q = PS_RUNNABLE \<or> st s q = PS_WAIT_CHILD \<and> parent (processes s p) = int q" if "q \<noteq> p" "st s4 q = PS_RUNNABLE" for q
    using st4 [OF that(1)] same(2) same(3) [of q] that(2) by auto
  moreover have "st s4 p = PS_DEAD \<or> st s4 p = PS_ZOMBIE" using s4(6) by (auto split: if_splits)
  moreover have "st s4 p = PS_ZOMBIE \<and> zombie_retval s4 p = Some v \<and> parent (processes s4 p) = parent (processes s p)"
    if "parent (processes s p) \<noteq> NOPID" using s4(6) same(2) that by simp
  moreover have "active_process s4 = active_process s" "pend s4 = pend s" "\<forall>q. prio (processes s4 q) = prio (processes s q)"
    using s4 same by simp_all
  ultimately show ?thesis using lv s4(1,2) by blast
qed

theorem stop_ok:
  assumes k: "kinv s" and p: "0 < p" and after: "p = int (active_process s) \<or> (\<forall>v. \<exists>u. after v = K_ret u)"
  shows "\<exists>s' L'. stop after p v s = Some s' \<and> (alive_pid s p \<or> (\<exists>u. after NOPID = K_ret u) \<longrightarrow> sched_ok s' L') \<and>
    (alive_pid s p \<longrightarrow> (st s' (nat p) = PS_DEAD \<or> st s' (nat p) = PS_ZOMBIE) \<and>
      (parent (processes s (nat p)) \<noteq> NOPID \<longrightarrow>
        st s' (nat p) = PS_ZOMBIE \<and> zombie_retval s' (nat p) = Some v))"
proof -
  from k obtain L where ok: "sched_ok s L" by (rule kinvE)
  note inv = sched_okD(1) [OF ok] and run = sched_okD(2) [OF ok]
  show ?thesis
  proof (cases "alive_pid s p")
    case False
    then have "stop after p v s = Some (push_cont (after NOPID) s)" by (simp add: stop_def)
    moreover have "sched_ok (push_cont (after NOPID) s) L" if "\<exists>u. after NOPID = K_ret u" using that sched_ok_ret [OF ok] by auto
    ultimately show ?thesis using False by auto
  next
    case True
    let ?p = "nat p"
    from True p have np: "?p < NBPROC" "?p \<noteq> 0" "st s ?p \<noteq> PS_DEAD" "st s ?p \<noteq> PS_ZOMBIE" and ip: "int ?p = p"
      by (auto simp: alive_pid_def)
    have pid: "pid (processes s ?p) = p" using ginvD(4) [OF inv np(1)] ip by simp
    from stop_step [OF inv np, of v] obtain s1 s2 s3 s4 L4 where
      ch: "unbind_children p [0..<NBPROC] s = Some s1" "leave_wait ?p s1 = Some s2" "remove_runnable ?p s2 = Some s3"
        "(if parent (processes s3 ?p) = NOPID then push_dead ?p s3 else become_zombie ?p p v s3) = Some s4"
      and inv4: "ginv s4 L4 {}" and a4: "active_process s4 = active_process s"
      and dz: "st s4 ?p = PS_DEAD \<or> st s4 ?p = PS_ZOMBIE"
        "parent (processes s ?p) \<noteq> NOPID \<longrightarrow> st s4 ?p = PS_ZOMBIE \<and> zombie_retval s4 ?p = Some v"
      and r4: "\<And>q. q \<noteq> ?p \<Longrightarrow> st s q = PS_RUNNING \<Longrightarrow> st s4 q = PS_RUNNING"
      unfolding ip by blast
    have eq: "stop after p v s = fix_scheduler (push_cont (after v) s4)"
      using True pid ch by (simp add: stop_def Let_def)
    have "ginv (push_cont (after v) s4) L4 {}"
    proof (cases "active_process s = ?p")
      case True
      then show ?thesis using dz a4 by (intro ginv_push_cont_done [OF inv4]) simp
    next
      case False
      with after ip obtain u where "after v = K_ret u" by auto
      moreover have "st s4 (active_process s4) = PS_RUNNING" using r4 [of "active_process s"] False run a4 by simp
      ultimately show ?thesis using ginv_push_ret [OF inv4] by simp
    qed
    from ginv_fix [OF this] obtain s5 L5 where fx: "fix_scheduler (push_cont (after v) s4) = Some s5" "sched_ok s5 L5"
      "sframe (push_cont (after v) s4) s5" by blast
    have "processes s5 ?p = processes s4 ?p" using sframe_fields(15) [OF fx(3), of ?p] dz(1) by auto
    then show ?thesis using eq fx(1,2) dz by auto
  qed
qed

theorem kill_ok:
  assumes "kinv s"
  shows "\<exists>s' L'. kill p s = Some s' \<and> sched_ok s' L'"
proof (cases "p \<le> 0")
  case True
  from assms obtain L where "sched_ok s L" by (rule kinvE)
  from sched_ok_ret [OF this] True show ?thesis by (auto simp: kill_def)
next
  case False
  then show ?thesis using stop_ok [OF assms, of p K_ret 0] by (auto simp: kill_def)
qed

theorem exit_ok:
  assumes k: "kinv s" and a: "active_process s \<noteq> 0"
  shows "\<exists>s' L'. exit v s = Some s' \<and> sched_ok s' L' \<and> active_process s' \<noteq> active_process s \<and>
    (parent (processes s (active_process s)) \<noteq> NOPID \<longrightarrow>
      st s' (active_process s) = PS_ZOMBIE \<and> zombie_retval s' (active_process s) = Some v)"
proof -
  from k obtain L where ok: "sched_ok s L" by (rule kinvE)
  have pid: "getpid s = int (active_process s)" by (rule getpid_active [OF sched_okD(1) [OF ok]])
  have "alive_pid s (int (active_process s))" using sched_okD(2,4) [OF ok] by (simp add: alive_pid_def)
  with stop_ok [OF k, of "int (active_process s)" "\<lambda>_. K_hang" v] a obtain s' L' where
    "exit v s = Some s'" and ok': "sched_ok s' L'" and
    d: "st s' (active_process s) = PS_DEAD \<or> st s' (active_process s) = PS_ZOMBIE" and
    z: "parent (processes s (active_process s)) \<noteq> NOPID \<longrightarrow>
      st s' (active_process s) = PS_ZOMBIE \<and> zombie_retval s' (active_process s) = Some v"
    by (auto simp: exit_def pid)
  moreover have "active_process s' \<noteq> active_process s" using sched_okD(2) [OF ok'] d by auto
  ultimately show ?thesis by blast
qed

end
