(* ===== verification/Ring.thy ===== *)
theory Ring
  imports Kernel_Inv
begin

text \<open>
  The ring buffer of a message queue implements a bounded first-in first-out queue. The contract of
  such a queue is the locale \<open>bounded_fifo\<close>; the interpretation \<open>ring\<close> shows that
  \<^verbatim>\<open>push_message\<close> and \<^verbatim>\<open>pop_message\<close> satisfy it.
\<close>

section \<open>The contract\<close>

locale bounded_fifo =
  fixes ok :: "'q \<Rightarrow> bool" and contents :: "'q \<Rightarrow> 'v list" and cap :: "'q \<Rightarrow> nat"
    and push :: "'q \<Rightarrow> 'v \<Rightarrow> 'q option" and pop :: "'q \<Rightarrow> ('v \<times> 'q) option"
  assumes bounded: "ok q \<Longrightarrow> length (contents q) \<le> cap q"
    and push_room: "ok q \<Longrightarrow> length (contents q) < cap q \<Longrightarrow>
      \<exists>q'. push q v = Some q' \<and> ok q' \<and> contents q' = contents q @ [v] \<and> cap q' = cap q"
    and push_full: "ok q \<Longrightarrow> length (contents q) = cap q \<Longrightarrow> push q v = None"
    and pop_some: "ok q \<Longrightarrow> contents q = x # xs \<Longrightarrow> \<exists>q'. pop q = Some (x, q') \<and> ok q' \<and> contents q' = xs \<and> cap q' = cap q"
    and pop_empty: "ok q \<Longrightarrow> contents q = [] \<Longrightarrow> pop q = None"
begin

primrec pushes :: "'v list \<Rightarrow> 'q \<Rightarrow> 'q option" where
  "pushes [] q = Some q"
| "pushes (v # vs) q = do { q \<leftarrow> push q v; pushes vs q }"

primrec pops :: "nat \<Rightarrow> 'q \<Rightarrow> ('v list \<times> 'q) option" where
  "pops 0 q = Some ([], q)"
| "pops (Suc n) q = do { (v, q) \<leftarrow> pop q; (vs, q) \<leftarrow> pops n q; Some (v # vs, q) }"

lemma pushes_room:
  "ok q \<Longrightarrow> length (contents q) + length vs \<le> cap q \<Longrightarrow>
    \<exists>q'. pushes vs q = Some q' \<and> ok q' \<and> contents q' = contents q @ vs \<and> cap q' = cap q"
proof (induction vs arbitrary: q)
  case (Cons v vs)
  from push_room [of q v] Cons.prems obtain q1 where "push q v = Some q1" "ok q1" "contents q1 = contents q @ [v]" "cap q1 = cap q"
    by auto
  with Cons.IH [of q1] Cons.prems show ?case by auto
qed simp

lemma pops_contents:
  "ok q \<Longrightarrow> n \<le> length (contents q) \<Longrightarrow>
    \<exists>q'. pops n q = Some (take n (contents q), q') \<and> ok q' \<and> contents q' = drop n (contents q) \<and> cap q' = cap q"
proof (induction n arbitrary: q)
  case (Suc n)
  then obtain x xs where xs: "contents q = x # xs" by (cases "contents q") auto
  from pop_some [OF Suc.prems(1) xs] obtain q1 where "pop q = Some (x, q1)" "ok q1" "contents q1 = xs" "cap q1 = cap q" by auto
  with Suc.IH [of q1] Suc.prems xs show ?case by auto
qed simp

text \<open>Messages come out in the order they went in.\<close>

lemma fifo:
  assumes "ok q" and "length (contents q) + length vs \<le> cap q"
  shows "\<exists>q1 q2. pushes vs q = Some q1 \<and> pops (length (contents q) + length vs) q1 = Some (contents q @ vs, q2) \<and>
    ok q2 \<and> contents q2 = []"
proof -
  from pushes_room [OF assms] obtain q1 where q1: "pushes vs q = Some q1" "ok q1" "contents q1 = contents q @ vs" by blast
  from pops_contents [OF q1(2), of "length (contents q) + length vs"] q1 show ?thesis by auto
qed

end

section \<open>The ring buffer\<close>

definition ring_list :: "queue_t \<Rightarrow> int list" where
  "ring_list q = map (\<lambda>i. the (messages q) ! nat ((front q + int i) mod capacity q)) [0..<nat (qsize q)]"

lemma length_ring_list [simp]: "length (ring_list q) = nat (qsize q)"
  by (simp add: ring_list_def)

lemma ring_list_cong:
  "messages q' = messages q \<Longrightarrow> front q' = front q \<Longrightarrow> capacity q' = capacity q \<Longrightarrow> qsize q' = qsize q \<Longrightarrow>
    ring_list q' = ring_list q"
  by (simp add: ring_list_def)

lemma ring_okD:
  assumes "ring_ok q"
  shows "0 < capacity q" "0 \<le> front q" "front q < capacity q" "0 \<le> qsize q" "qsize q \<le> capacity q"
    "rear q = (front q + qsize q - 1) mod capacity q" "\<exists>ms. messages q = Some ms \<and> length ms = nat (capacity q)"
  using assms by (simp_all add: ring_ok_def)

text \<open>Positions of distinct messages are distinct.\<close>

lemma ring_pos_inj:
  fixes f c i j :: int
  assumes "0 \<le> i" "i < c" "0 \<le> j" "j < c" "(f + i) mod c = (f + j) mod c"
  shows "i = j"
proof -
  from assms(5) have "c dvd (f + i) - (f + j)" by (simp add: mod_eq_dvd_iff)
  then have "c dvd i - j" by simp
  moreover have "\<bar>i - j\<bar> < c" using assms(1-4) by linarith
  ultimately show ?thesis using dvd_imp_le_int [of "i - j" c] by fastforce
qed

definition qlinks_same :: "queue_t \<Rightarrow> queue_t \<Rightarrow> bool" where
  "qlinks_same q q' \<longleftrightarrow> capacity q' = capacity q \<and> empty_process q' = empty_process q \<and> full_process q' = full_process q"

lemma push_message_ok:
  assumes ok: "ring_ok q" and room: "qsize q < capacity q"
  shows "\<exists>q'. push_message q v = Some q' \<and> ring_ok q' \<and> ring_list q' = ring_list q @ [v] \<and>
    qsize q' = qsize q + 1 \<and> qlinks_same q q'"
proof -
  note R = ring_okD [OF ok]
  obtain ms where ms: "messages q = Some ms" "length ms = nat (capacity q)" using R(7) by blast
  let ?r = "(front q + qsize q) mod capacity q"
  have rear: "c_rem (rear q + 1) (capacity q) = ?r"
  proof -
    have "0 \<le> rear q" using R by simp
    then have "c_rem (rear q + 1) (capacity q) = (rear q + 1) mod capacity q" using R by simp
    also have "\<dots> = (front q + qsize q - 1 + 1) mod capacity q" by (simp only: R(6) mod_add_left_eq)
    finally show ?thesis by simp
  qed
  have r: "0 \<le> ?r" "nat ?r < length ms" using R(1) ms by simp_all
  let ?q = "q\<lparr>rear := ?r, messages := Some (ms[nat ?r := v]), qsize := qsize q + 1\<rparr>"
  have eq: "push_message q v = Some ?q"
    using room R(1-5) r ms by (simp add: push_message_def is_queue_full_def rear msg_write_def)
  have "ring_ok ?q" using R ms room by (simp add: ring_ok_def)
  moreover have "ring_list ?q = ring_list q @ [v]"
  proof -
    have old: "ms[nat ?r := v] ! nat ((front q + int i) mod capacity q) = ms ! nat ((front q + int i) mod capacity q)"
      if "i < nat (qsize q)" for i
    proof -
      have "int i \<noteq> qsize q" "int i < capacity q" using that room by auto
      then have "(front q + int i) mod capacity q \<noteq> ?r"
        using ring_pos_inj [of "int i" "capacity q" "qsize q" "front q"] that R room by auto
      then have "nat ((front q + int i) mod capacity q) \<noteq> nat ?r" using R(1) by (simp add: nat_eq_iff)
      then show ?thesis by simp
    qed
    have "nat (qsize q + 1) = Suc (nat (qsize q))" using R(4) by simp
    then show ?thesis using r R(4) ms by (simp add: ring_list_def old)
  qed
  ultimately show ?thesis using eq by (simp add: qlinks_same_def)
qed

lemma ring_list_Cons:
  assumes "0 < qsize q"
  shows "ring_list q = the (messages q) ! nat (front q mod capacity q) #
    map (\<lambda>i. the (messages q) ! nat ((front q + 1 + int i) mod capacity q)) [0..<nat (qsize q - 1)]"
proof -
  have n: "nat (qsize q) = Suc (nat (qsize q - 1))" using assms by simp
  show ?thesis unfolding ring_list_def n
    by (simp add: upt_conv_Cons map_Suc_upt [symmetric] comp_def algebra_simps del: upt_Suc)
qed

lemma pop_message_ok:
  assumes ok: "ring_ok q" and ne: "0 < qsize q"
  shows "\<exists>q'. pop_message q = Some (hd (ring_list q), q') \<and> ring_ok q' \<and> ring_list q' = tl (ring_list q) \<and>
    qsize q' = qsize q - 1 \<and> qlinks_same q q'"
proof -
  note R = ring_okD [OF ok]
  obtain ms where ms: "messages q = Some ms" "length ms = nat (capacity q)" using R(7) by blast
  let ?q = "q\<lparr>front := (front q + 1) mod capacity q, qsize := qsize q - 1\<rparr>"
  have "msg_read q (front q) = Some (ms ! nat (front q))" using R ms by (simp add: msg_read_def)
  moreover have hd: "hd (ring_list q) = ms ! nat (front q)" using R ms ring_list_Cons [OF ne] by simp
  ultimately have eq: "pop_message q = Some (hd (ring_list q), ?q)"
    using R ne by (simp add: pop_message_def is_queue_empty_def)
  have "rear q = ((front q + 1) mod capacity q + (qsize q - 1) - 1) mod capacity q"
  proof -
    have "((front q + 1) mod capacity q + (qsize q - 1) - 1) mod capacity q = ((front q + 1) mod capacity q + (qsize q - 2)) mod capacity q"
      by (simp add: algebra_simps)
    also have "\<dots> = (front q + 1 + (qsize q - 2)) mod capacity q" by (rule mod_add_left_eq)
    finally show ?thesis using R(6) by (simp add: algebra_simps)
  qed
  then have "ring_ok ?q" using R ms ne by (simp add: ring_ok_def)
  moreover have "ring_list ?q = tl (ring_list q)"
    by (simp add: ring_list_Cons [OF ne]) (simp add: ring_list_def mod_add_left_eq)
  ultimately show ?thesis using eq by (simp add: qlinks_same_def)
qed

interpretation ring: bounded_fifo ring_ok ring_list "\<lambda>q. nat (capacity q)" push_message pop_message
proof
  fix q :: queue_t and v x :: int and xs :: "int list"
  assume ok: "ring_ok q"
  note R = ring_okD [OF ok]
  show "length (ring_list q) \<le> nat (capacity q)" using R by simp
  show "\<exists>q'. push_message q v = Some q' \<and> ring_ok q' \<and> ring_list q' = ring_list q @ [v] \<and> nat (capacity q') = nat (capacity q)"
    if "length (ring_list q) < nat (capacity q)"
    using push_message_ok [OF ok, of v] that R by (auto simp: qlinks_same_def)
  show "push_message q v = None" if "length (ring_list q) = nat (capacity q)"
    using that R by (auto simp: push_message_def is_queue_full_def)
  show "\<exists>q'. pop_message q = Some (x, q') \<and> ring_ok q' \<and> ring_list q' = xs \<and> nat (capacity q') = nat (capacity q)"
    if c: "ring_list q = x # xs"
  proof -
    have "0 < qsize q" using c length_ring_list [of q] by (cases "0 < qsize q") auto
    from pop_message_ok [OF ok this] c show ?thesis by (auto simp: qlinks_same_def)
  qed
  show "pop_message q = None" if "ring_list q = []"
    using that R length_ring_list [of q] by (auto simp: pop_message_def is_queue_empty_def)
qed

end
