(* ===== verification/Inv_Queue.thy ===== *)
theory Inv_Queue
  imports Inv_Stop Ring
begin

text \<open>
  The invariant under the operations of \<^verbatim>\<open>kernel/queues.c\<close>. Waking a process overwrites the union that
  holds its link before the head of the list moves on; the proofs move the head first, which is the
  same because making a process runnable does not look at the queues.
\<close>

section \<open>Operations that do not look at the queues\<close>

lemma upd_record_swap:
  "(s\<lparr>queues := Q\<rparr>)\<lparr>processes := P\<rparr> = (s\<lparr>processes := P\<rparr>)\<lparr>queues := Q\<rparr>"
  "(s\<lparr>queues := Q\<rparr>)\<lparr>runnable_process_head := h\<rparr> = (s\<lparr>runnable_process_head := h\<rparr>)\<lparr>queues := Q\<rparr>"
  "(s\<lparr>queues := Q\<rparr>)\<lparr>retval_cell := r\<rparr> = (s\<lparr>retval_cell := r\<rparr>)\<lparr>queues := Q\<rparr>"
  by (cases s; simp)+

lemma push_runnable_queues:
  "push_runnable p (s\<lparr>queues := Q\<rparr>) = map_option (\<lambda>s. s\<lparr>queues := Q\<rparr>) (push_runnable p s)"
proof -
  have set: "set_state p x (s\<lparr>queues := Q\<rparr>) = (set_state p x s)\<lparr>queues := Q\<rparr>" "set_attr p a (s\<lparr>queues := Q\<rparr>) = (set_attr p a s)\<lparr>queues := Q\<rparr>"
    for p x a s by (simp_all add: upd_defs upd_record_swap)
  show ?thesis
    by (auto simp: push_runnable_def set upd_record_swap Let_def map_option_bind comp_def split: option.split)
qed

lemma push_runnable_upd_queue:
  "push_runnable p (upd_queue f g s) = map_option (upd_queue f g) (push_runnable p s)"
proof -
  let ?Q = "(queues s)(f := g (queues s f))"
  have "map_option (\<lambda>s. s\<lparr>queues := ?Q\<rparr>) (push_runnable p s) = map_option (upd_queue f g) (push_runnable p s)"
  proof (rule option.map_cong0)
    fix s' assume "s' \<in> set_option (push_runnable p s)"
    then have "queues s' = queues s"
      by (auto simp: push_runnable_def Let_def bind_eq_Some_conv split: if_splits option.splits)
    then show "s'\<lparr>queues := ?Q\<rparr> = upd_queue f g s'" by (simp add: upd_queue_def)
  qed
  then show ?thesis using push_runnable_queues [where p = p and s = s and Q = ?Q] by (simp add: upd_queue_def)
qed

lemma push_runnable_set_wait_head:
  "push_runnable p (set_wait_head w f h s) = map_option (set_wait_head w f h) (push_runnable p s)"
  by (simp add: set_wait_head_def push_runnable_upd_queue)

section \<open>Replacing the messages of a queue\<close>

lemma ginv_set_queue:
  assumes inv: "ginv s L X" and same: "empty_process q = empty_process (queues s f)" "full_process q = full_process (queues s f)"
    and ok: "f < NBQUEUE \<Longrightarrow> queue_ok (upd_queue f (\<lambda>_. q) s) L f"
  shows "ginv (upd_queue f (\<lambda>_. q) s) L X" (is "ginv ?s L X")
proof -
  have pr: "processes ?s = processes s" "active_process ?s = active_process s" "pend ?s = pend s" "child_pid ?s = child_pid s"
    "ustack_blocks ?s = ustack_blocks s" "runnable_process_head ?s = runnable_process_head s"
    "asleep_process_head ?s = asleep_process_head s" "dead_process_head ?s = dead_process_head s" by (simp_all add: upd_queue_def)
  have wh: "wait_head w g ?s = wait_head w g s" for w g using same by (cases w) (simp_all add: wait_head_def upd_queue_def)
  have "lists_ok ?s L" using ginvD(1) [OF inv]
    by (simp add: lists_ok_def run_ok_def slp_ok_def dead_ok_def wtq_ok_def pr wh)
  moreover have "sorted_ok ?s L X" using ginvD(2) [OF inv] by (simp add: sorted_ok_def prio_sorted_def clock_sorted_def pr)
  moreover have "proc_ok ?s L X p" if "p < NBPROC" "p \<notin> X" for p
    by (rule proc_ok_frame [OF ginvD(3) [OF inv that]]) (simp_all add: pr)
  moreover have "queue_ok ?s L g" if "g < NBQUEUE" for g
  proof (cases "g = f")
    case True with ok that show ?thesis by simp
  next
    case False show ?thesis by (rule queue_ok_same [OF ginvD(6) [OF inv that]]) (use False in \<open>simp_all add: upd_queue_def\<close>)
  qed
  moreover have "ustack_ok ?s X" by (rule ustack_ok_frame [OF ginvD(8) [OF inv]]) (simp_all add: pr)
  ultimately show ?thesis using inv by (simp add: ginv_def pr)
qed

section \<open>Waking the first process\<close>

lemma LW_index: "ginv s L X \<Longrightarrow> LW L w f \<noteq> [] \<Longrightarrow> f < NBQUEUE"
  using ginvD(7) [of s L X f w] by (cases "f < NBQUEUE") auto

lemma LW_head:
  assumes inv: "ginv s L X" and LW: "LW L w f = h # hs"
  shows "wait_head w f s = Some h" "wait_next s h = Some (case hs of [] \<Rightarrow> None | c # _ \<Rightarrow> Some c)" "st s h = wstate w" "h < NBPROC"
proof -
  have wt: "wtq_ok s w f (h # hs)" using ginvD(1) [OF inv] LW by (auto simp: lists_ok_def) (metis LW)
  then show "wait_head w f s = Some h" "st s h = wstate w" "h < NBPROC" by (auto simp: wtq_ok_def)
  from wt show "wait_next s h = Some (case hs of [] \<Rightarrow> None | c # _ \<Rightarrow> Some c)"
    by (cases hs) (auto simp: wtq_ok_def)
qed

lemma waiter_head:
  assumes inv: "ginv s L X" and h: "wait_head w f s = Some h"
  shows "\<exists>hs. LW L w f = h # hs"
proof -
  have "wtq_ok s w f (LW L w f)" using ginvD(1) [OF inv] by (simp add: lists_ok_def)
  then have "npath (wait_next s) (Some h) (LW L w f)" using h by (simp add: wtq_ok_def)
  then show ?thesis by (auto simp: npath_Some)
qed

lemma no_waiter:
  assumes inv: "ginv s L X" and h: "wait_head w f s = None"
  shows "LW L w f = []"
  using LW_head(1) [OF inv] h by (cases "LW L w f") auto

lemma ginv_wake_first:
  assumes inv: "ginv s L {}" and LW: "LW L w f = h # hs" and a: "st s (active_process s) = PS_RUNNING"
  shows "\<exists>s'. push_runnable h s = Some s' \<and>
    (\<exists>ys. ginv (set_wait_head w f (case hs of [] \<Rightarrow> None | c # _ \<Rightarrow> Some c) s') ((set_LW w f hs L)\<lparr>LR := ys\<rparr>) {}) \<and>
    (\<forall>q. st s' q = (if q = h then PS_RUNNABLE else st s q)) \<and> rframe s s'"
proof -
  let ?n = "case hs of [] \<Rightarrow> None | c # _ \<Rightarrow> Some c" and ?L = "set_LW w f hs L"
  note hd = LW_head [OF inv LW]
  have f: "f < NBQUEUE" by (rule LW_index [OF inv, of w]) (use LW in simp)
  have mem: "h \<in> set (LW L w f)" by (simp add: LW)
  have ginv0: "ginv s L {h}" by (rule ginv_subset [OF inv]) simp
  have pop: "pop_waiting_process w f h s = Some (set_wait_head w f ?n s)"
    using hd(1-3) by (cases w) (simp_all add: pop_waiting_process_def)
  with ginv_pop_waiting [OF ginv0 _ mem f] LW have inv1: "ginv (set_wait_head w f ?n s) ?L {h}" by simp
  let ?s1 = "set_wait_head w f ?n s"
  have s1: "processes ?s1 = processes s" "pend ?s1 = pend s" "active_process ?s1 = active_process s"
    by (simp_all add: set_wait_head_def upd_queue_def)
  from ginvD(3) [OF inv hd(4)] hd(3) have wk: "waiting_ok s L w h" "parent_ok s {} h" by (auto simp: proc_ok_def)
  then have rp: "runnable_pend ?s1 h" by (intro runnable_pendI) (simp add: waiting_ok_def s1)
  have po: "parent_ok ?s1 ({h} - {h}) h" using wk(2) by (simp add: parent_ok_def s1)
  have "npath (wait_next s) (wait_head w f s) (LW L w f)" using ginvD(1) [OF inv] by (simp add: lists_ok_def wtq_ok_def)
  from npath_distinct [OF this] have dis: "h \<notin> set hs" by (simp add: LW)
  have un: "unlisted ?L h"
  proof -
    have "h \<notin> set (LW L w' g)" if "w' \<noteq> w \<or> g \<noteq> f" for w' g
      using lists_okD(4) [OF ginvD(1) [OF inv], of h w' g] lists_okD(4) [OF ginvD(1) [OF inv] mem] that by auto
    then show ?thesis using dis lists_okD(1-3) [OF ginvD(1) [OF inv], of h] hd(3) by (auto simp: unlisted_def)
  qed
  obtain s2 ys where push: "push_runnable h ?s1 = Some s2" and sp: "push_spec h (LR L) ?s1 s2" and inv2: "ginv s2 (?L\<lparr>LR := ys\<rparr>) {}"
    using ginv_push_runnable [OF inv1 _ hd(4) _ _ _ _ _ _ rp po] un hd(3) s1 by (auto simp: unlisted_def)
  from push push_runnable_set_wait_head obtain s' where s': "push_runnable h s = Some s'" "s2 = set_wait_head w f ?n s'" by auto
  have rok: "run_ok s (LR L)" using ginvD(1) [OF inv] by (simp add: lists_ok_def)
  from push_runnable_list [OF rok hd(4)] s'(1) hd(3) have sp': "push_spec h (LR L) s s'" by auto
  then have "\<forall>q. st s' q = (if q = h then PS_RUNNABLE else st s q)" and "rframe s s'"
    by (auto simp: push_spec_def pupd_fields)
  with s' inv2 show ?thesis by auto
qed

lemma wakeup_first_frame:
  assumes inv: "ginv s L {}" and lw: "LW L w f = h # hs" and a: "st s (active_process s) = PS_RUNNING"
  shows "\<exists>s' L'. wakeup_first_process w f (K_ret v) s = Some s' \<and> sched_ok s' L' \<and> on_cpu (st s' h) \<and>
    umem s' = umem s \<and> retval_cell s' = retval_cell s \<and> (\<forall>g. qsame (queues s g) (queues s' g)) \<and>
    (\<forall>p. p \<noteq> active_process s \<longrightarrow> pend s' p = pend s p)"
proof -
  note hd = LW_head [OF inv lw]
  let ?n = "case hs of [] \<Rightarrow> None | c # _ \<Rightarrow> Some c"
  from ginv_wake_first [OF inv lw a] obtain s' L' where push: "push_runnable h s = Some s'"
    and inv': "ginv (set_wait_head w f ?n s') L' {}" and st: "\<And>q. st s' q = (if q = h then PS_RUNNABLE else st s q)"
    and fr: "rframe s s'" by blast
  let ?s = "set_wait_head w f ?n s'"
  have act: "active_process ?s = active_process s" using rframe_fields(1) [OF fr] by (simp add: set_wait_head_def upd_queue_def)
  moreover have "h \<noteq> active_process s" using hd(3) a by auto
  ultimately have run: "st ?s (active_process ?s) = PS_RUNNING" using st a by simp
  from ginv_fix [OF ginv_push_ret [OF inv', of v]] run obtain s2 L2 where
    fx: "fix_scheduler (push_cont (K_ret v) ?s) = Some s2" "sched_ok s2 L2" "sframe (push_cont (K_ret v) ?s) s2" by blast
  note sf = sframe_fields [OF fx(3)]
  have "on_cpu (st s2 h)" using sf(14) [of h] st by simp
  moreover have "umem s2 = umem s" "retval_cell s2 = retval_cell s"
    using rframe_fields [OF fr] by (simp_all add: sf) (simp_all add: set_wait_head_def upd_queue_def)
  moreover have "qsame (queues s g) (queues s2 g)" for g
    using set_wait_head_simps(3) [of s' g w f ?n] rframe_fields(4) [OF fr] by (simp add: sf qsame_def)
  moreover have "pend s2 p = pend s p" if "p \<noteq> active_process s" for p
    using that act rframe_fields(12) [OF fr] by (simp add: sf) (simp add: set_wait_head_def upd_queue_def)
  moreover have "wakeup_first_process w f (K_ret v) s = Some s2"
    using hd push fx(1) by (cases w) (simp_all add: wakeup_first_process_def)
  ultimately show ?thesis using fx(2) by blast
qed

lemma wakeup_first_ok:
  assumes inv: "ginv s L {}" and LW: "LW L w f \<noteq> []" and a: "st s (active_process s) = PS_RUNNING"
  shows "\<exists>s' L'. wakeup_first_process w f (K_ret v) s = Some s' \<and> sched_ok s' L'"
proof -
  from LW obtain h hs where "LW L w f = h # hs" by (cases "LW L w f") auto
  from wakeup_first_frame [OF inv this a, of v] show ?thesis by blast
qed

section \<open>Waking all processes\<close>

lemma waiting_retval:
  assumes inv: "ginv s L {}" and p: "p \<in> set (LW L w f)"
  shows "wait_retval s p = Some (I_retval p)" "\<exists>m. wait_message s p = Some m \<and> (w = W_full \<longrightarrow> m = I_message p) \<and> (w = W_empty \<longrightarrow> caller_ptr m)"
proof -
  have "p < NBPROC" "st s p = wstate w" using lists_okD(4) [OF ginvD(1) [OF inv] p] by auto
  with ginvD(3) [OF inv, of p] have "waiting_ok s L w p" by (simp add: proc_ok_def)
  then show "wait_retval s p = Some (I_retval p)" "\<exists>m. wait_message s p = Some m \<and> (w = W_full \<longrightarrow> m = I_message p) \<and> (w = W_empty \<longrightarrow> caller_ptr m)"
    by (auto simp: waiting_ok_def)
qed

text \<open>What waking the processes of a list does: they are runnable and their call will return \<open>-1\<close>.\<close>

definition woken :: "nat set \<Rightarrow> kstate \<Rightarrow> kstate \<Rightarrow> bool" where
  "woken W s s' \<longleftrightarrow> active_process s' = active_process s \<and> pend s' = pend s \<and>
     retval_cell s' = (\<lambda>q. if q \<in> W then -1 else retval_cell s q) \<and>
     (\<forall>q. st s' q = (if q \<in> W then PS_RUNNABLE else st s q)) \<and> (\<forall>g. qsame (queues s g) (queues s' g)) \<and>
     kheap_used s' = kheap_used s \<and> umem s' = umem s"

lemma woken_trans: "woken V s s' \<Longrightarrow> woken W s' s'' \<Longrightarrow> woken (V \<union> W) s s''"
  unfolding woken_def qsame_def by auto

lemma wake_one_failed:
  assumes inv: "ginv s L {}" and LW: "LW L w f = h # hs" and a: "st s (active_process s) = PS_RUNNING"
  shows "\<exists>s'. (do { r \<leftarrow> wait_retval s h; s \<leftarrow> store_int r (-1) s; push_runnable h s }) = Some s' \<and>
    (\<exists>ys. ginv (set_wait_head w f (case hs of [] \<Rightarrow> None | c # _ \<Rightarrow> Some c) s') ((set_LW w f hs L)\<lparr>LR := ys\<rparr>) {}) \<and>
    woken {h} s (set_wait_head w f (case hs of [] \<Rightarrow> None | c # _ \<Rightarrow> Some c) s')"
proof -
  let ?s = "s\<lparr>retval_cell := (retval_cell s)(h := -1)\<rparr>"
  have inv0: "ginv ?s L {}" by (rule ginv_store_user [OF inv])
  from ginv_wake_first [OF inv0 LW] a obtain s' ys where s': "push_runnable h ?s = Some s'"
    and inv': "ginv (set_wait_head w f (case hs of [] \<Rightarrow> None | c # _ \<Rightarrow> Some c) s') ((set_LW w f hs L)\<lparr>LR := ys\<rparr>) {}"
    and st: "\<And>q. st s' q = (if q = h then PS_RUNNABLE else st s q)" and fr: "rframe ?s s'" by auto
  have "woken {h} s (set_wait_head w f n s')" for n
    using st rframe_fields [OF fr] set_wait_head_simps(3) [of s' _ w f n]
    by (auto simp: woken_def) (simp_all add: set_wait_head_def upd_queue_def fun_eq_iff qsame_def)
  moreover have "wait_retval s h = Some (I_retval h)" by (rule waiting_retval(1) [OF inv, of h w f]) (simp add: LW)
  ultimately show ?thesis using s' inv' by (auto simp: store_int_def)
qed

lemma wakeup_all_loop_ok:
  assumes "ginv s L {}" and "LW L w f = h # hs" and "st s (active_process s) = PS_RUNNING" and "length hs \<le> fuel"
  shows "\<exists>h' s' ys. wakeup_all_loop fuel w f h (case hs of [] \<Rightarrow> None | c # _ \<Rightarrow> Some c) s = Some (h', s') \<and> h' = last (h # hs) \<and>
    ginv s' ((set_LW w f [h'] L)\<lparr>LR := ys\<rparr>) {} \<and> woken (set (butlast (h # hs))) s s'"
  using assms
proof (induction hs arbitrary: h s L fuel)
  case Nil
  have "set_LW w f [h] L = L" using Nil.prems(2) by (cases L) (simp add: fun_eq_iff)
  with Nil.prems(1) have g: "\<exists>ys. ginv s ((set_LW w f [h] L)\<lparr>LR := ys\<rparr>) {}" by (intro exI [of _ "LR L"]) simp
  show ?case by (subst wakeup_all_loop.simps) (use g in \<open>auto simp: woken_def qsame_def\<close>)
next
  case (Cons c hs)
  obtain fuel' where fuel: "fuel = Suc fuel'" "length hs \<le> fuel'" using Cons.prems(4) by (cases fuel) auto
  from wake_one_failed [OF Cons.prems(1-3)] obtain s1 ys where
    one: "(do { r \<leftarrow> wait_retval s h; s \<leftarrow> store_int r (-1) s; push_runnable h s }) = Some s1"
    and inv1: "ginv (set_wait_head w f (Some c) s1) ((set_LW w f (c # hs) L)\<lparr>LR := ys\<rparr>) {}"
    and wk: "woken {h} s (set_wait_head w f (Some c) s1)" by auto
  let ?s1 = "set_wait_head w f (Some c) s1" and ?L1 = "(set_LW w f (c # hs) L)\<lparr>LR := ys\<rparr>"
  have lw: "LW ?L1 w f = c # hs" by simp
  have nx: "wait_next ?s1 c = Some (case hs of [] \<Rightarrow> None | c # _ \<Rightarrow> Some c)" by (rule LW_head(2) [OF inv1 lw])
  have "h \<noteq> active_process s" using LW_head(3) [OF Cons.prems(1,2)] Cons.prems(3) by auto
  then have a1: "st ?s1 (active_process ?s1) = PS_RUNNING" using wk Cons.prems(3) by (simp add: woken_def)
  from Cons.IH [OF inv1 lw a1 fuel(2)] obtain h' s' zs where
    rec: "wakeup_all_loop fuel' w f c (case hs of [] \<Rightarrow> None | c # _ \<Rightarrow> Some c) ?s1 = Some (h', s')" "h' = last (c # hs)"
    and inv2: "ginv s' ((set_LW w f [h'] ?L1)\<lparr>LR := zs\<rparr>) {}" and wk2: "woken (set (butlast (c # hs))) ?s1 s'" by blast
  have r: "wakeup_all_loop fuel w f h (case c # hs of [] \<Rightarrow> None | c # _ \<Rightarrow> Some c) s = Some (h', s')"
    using one nx rec(1) fuel(1) by (subst wakeup_all_loop.simps) (auto simp: bind_eq_Some_conv Let_def)
  have "(set_LW w f [h'] ?L1)\<lparr>LR := zs\<rparr> = (set_LW w f [h'] L)\<lparr>LR := zs\<rparr>" by (simp add: fun_eq_iff)
  with inv2 have g: "\<exists>zs. ginv s' ((set_LW w f [h'] L)\<lparr>LR := zs\<rparr>) {}" by metis
  have l: "h' = last (h # c # hs)" using rec(2) by simp
  have wkk: "woken (set (butlast (h # c # hs))) s s'" using woken_trans [OF wk wk2] by simp
  from r g l wkk show ?case by blast
qed

lemma wakeup_all_ok:
  assumes inv: "ginv s L {}" and a: "st s (active_process s) = PS_RUNNING"
  shows "\<exists>s' ys. wakeup_all_processes w f s = Some s' \<and> ginv s' ((set_LW w f [] L)\<lparr>LR := ys\<rparr>) {} \<and>
    woken (set (LW L w f)) s s' \<and> wait_head w f s' = None"
proof (cases "LW L w f")
  case Nil
  then have "set_LW w f [] L = L" by (cases L) (simp add: fun_eq_iff)
  with inv have g: "ginv s ((set_LW w f [] L)\<lparr>LR := LR L\<rparr>) {}" by simp
  have "npath (wait_next s) (wait_head w f s) (LW L w f)" using ginvD(1) [OF inv] by (simp add: lists_ok_def wtq_ok_def)
  then have "wait_head w f s = None" using Nil by simp
  moreover have "woken (set (LW L w f)) s s" using Nil by (simp add: woken_def qsame_def)
  ultimately show ?thesis using g by (intro exI [of _ s] exI [of _ "LR L"]) (simp add: wakeup_all_processes_def)
next
  case (Cons h hs)
  note hd = LW_head [OF inv Cons]
  have "wtq_ok s w f (LW L w f)" using ginvD(1) [OF inv] by (simp add: lists_ok_def)
  from wtq_ok_length [OF this] Cons have len: "length hs \<le> NBPROC" by simp
  from wakeup_all_loop_ok [OF inv Cons a len] obtain s1 ys where
    lp: "wakeup_all_loop NBPROC w f h (case hs of [] \<Rightarrow> None | c # _ \<Rightarrow> Some c) s = Some (last (h # hs), s1)"
    and inv1: "ginv s1 ((set_LW w f [last (h # hs)] L)\<lparr>LR := ys\<rparr>) {}" and wk: "woken (set (butlast (h # hs))) s s1" by auto
  let ?l = "last (h # hs)" and ?L1 = "(set_LW w f [last (h # hs)] L)\<lparr>LR := ys\<rparr>"
  have nw: "active_process s \<notin> set (LW L w f)" using lists_okD(4) [OF ginvD(1) [OF inv], of "active_process s" w f] a by auto
  have "active_process s \<notin> set (butlast (h # hs))" using nw Cons by (metis in_set_butlastD)
  then have a1: "st s1 (active_process s1) = PS_RUNNING" using wk a by (simp add: woken_def)
  have lw: "LW ?L1 w f = [?l]" by simp
  from wake_one_failed [OF inv1 lw a1] obtain s2 zs where
    one: "(do { r \<leftarrow> wait_retval s1 ?l; s \<leftarrow> store_int r (-1) s1; push_runnable ?l s }) = Some s2"
    and inv2: "ginv (set_wait_head w f None s2) ((set_LW w f [] ?L1)\<lparr>LR := zs\<rparr>) {}"
    and wk2: "woken {?l} s1 (set_wait_head w f None s2)" by auto
  have r: "wakeup_all_processes w f s = Some (set_wait_head w f None s2)"
    using hd lp one by (auto simp: wakeup_all_processes_def bind_eq_Some_conv)
  have "(set_LW w f [] ?L1)\<lparr>LR := zs\<rparr> = (set_LW w f [] L)\<lparr>LR := zs\<rparr>" by (simp add: fun_eq_iff)
  with inv2 have g: "ginv (set_wait_head w f None s2) ((set_LW w f [] L)\<lparr>LR := zs\<rparr>) {}" by metis
  have "set (LW L w f) = set (butlast (h # hs)) \<union> {?l}" using append_butlast_last_id [of "h # hs"] Cons
    by (metis list.distinct(1) list.simps(15) set_append empty_set)
  with woken_trans [OF wk wk2] have w: "woken (set (LW L w f)) s (set_wait_head w f None s2)" by simp
  have "wait_head w f (set_wait_head w f None s2) = None" by simp
  with r g w show ?thesis by blast
qed

section \<open>Changing the messages while processes wait\<close>

text \<open>
  \<^verbatim>\<open>pdelete\<close> and \<^verbatim>\<open>preset\<close> change the messages of the queue first and wake the waiting processes
  then. The two commute: waking looks only at the heads of the lists.
\<close>

definition keeps_heads :: "(queue_t \<Rightarrow> queue_t) \<Rightarrow> bool" where
  "keeps_heads g \<longleftrightarrow> (\<forall>q. empty_process (g q) = empty_process q \<and> full_process (g q) = full_process q \<and>
     (\<forall>h. g (q\<lparr>empty_process := h\<rparr>) = (g q)\<lparr>empty_process := h\<rparr> \<and> g (q\<lparr>full_process := h\<rparr>) = (g q)\<lparr>full_process := h\<rparr>))"

lemma keeps_heads_commute:
  assumes "keeps_heads g"
  shows "wait_head w f (upd_queue f g s) = wait_head w f s"
    "set_wait_head w f h (upd_queue f g s) = upd_queue f g (set_wait_head w f h s)"
    "processes (upd_queue f g s) = processes s"
    "store_int r v (upd_queue f g s) = map_option (upd_queue f g) (store_int r v s)"
proof -
  show "wait_head w f (upd_queue f g s) = wait_head w f s"
    using assms by (cases w) (simp_all add: wait_head_def upd_queue_def keeps_heads_def)
  show "set_wait_head w f h (upd_queue f g s) = upd_queue f g (set_wait_head w f h s)"
    using assms by (cases w) (simp_all add: set_wait_head_def upd_queue_def keeps_heads_def)
  show "processes (upd_queue f g s) = processes s" by (simp add: upd_queue_def)
  show "store_int r v (upd_queue f g s) = map_option (upd_queue f g) (store_int r v s)"
    by (cases s; cases r) (simp_all add: store_int_def upd_queue_def)
qed

lemma wakeup_all_loop_commute:
  assumes "keeps_heads g"
  shows "wakeup_all_loop fuel w f h cur (upd_queue f g s) = map_option (map_prod id (upd_queue f g)) (wakeup_all_loop fuel w f h cur s)"
proof (induction fuel arbitrary: h cur s)
  case 0
  show ?case by (subst (1 2) wakeup_all_loop.simps) (simp split: option.split)
next
  case (Suc fuel)
  note c = keeps_heads_commute [OF assms] push_runnable_upd_queue
  show ?case
    by (subst (1 2) wakeup_all_loop.simps)
      (auto simp: c Suc Let_def id_def map_option_bind bind_map_option comp_def split: option.split intro!: bind_option_cong)
qed

lemma wakeup_all_commute:
  assumes "keeps_heads g"
  shows "wakeup_all_processes w f (upd_queue f g s) = map_option (upd_queue f g) (wakeup_all_processes w f s)"
proof -
  note c = keeps_heads_commute [OF assms] push_runnable_upd_queue wakeup_all_loop_commute [OF assms]
  show ?thesis
    by (auto simp: wakeup_all_processes_def c Let_def map_option_bind bind_map_option comp_def case_prod_unfold
        split: option.split intro!: bind_option_cong)
qed

lemma wake_both_ok:
  assumes inv: "ginv s L {}" and a: "st s (active_process s) = PS_RUNNING" and g: "keeps_heads g"
    and ok: "\<And>s' L'. (\<And>g. qsame (queues s g) (queues s' g)) \<Longrightarrow> (\<And>w. LW L' w f = []) \<Longrightarrow> f < NBQUEUE \<Longrightarrow> queue_ok (upd_queue f g s') L' f"
  shows "\<exists>s1 s2 s3 L3. wakeup_all_processes W_empty f (upd_queue f g s) = Some s1 \<and> wakeup_all_processes W_full f s1 = Some s2 \<and>
    s2 = upd_queue f g s3 \<and> ginv s2 L3 {} \<and> woken (set (LW L W_empty f) \<union> set (LW L W_full f)) s s3 \<and>
    st s2 (active_process s2) = PS_RUNNING"
proof -
  from wakeup_all_ok [OF inv a, of W_empty f] obtain s1 ys where w1: "wakeup_all_processes W_empty f s = Some s1"
    and inv1: "ginv s1 ((set_LW W_empty f [] L)\<lparr>LR := ys\<rparr>) {}" and wk1: "woken (set (LW L W_empty f)) s s1" by blast
  let ?L1 = "(set_LW W_empty f [] L)\<lparr>LR := ys\<rparr>"
  have nw: "active_process s \<notin> set (LW L w f)" for w
    using lists_okD(4) [OF ginvD(1) [OF inv], of "active_process s" w f] a by auto
  have a1: "st s1 (active_process s1) = PS_RUNNING" using wk1 a nw by (simp add: woken_def)
  from wakeup_all_ok [OF inv1 a1, of W_full f] obtain s2 zs where w2: "wakeup_all_processes W_full f s1 = Some s2"
    and inv2: "ginv s2 ((set_LW W_full f [] ?L1)\<lparr>LR := zs\<rparr>) {}" and wk2: "woken (set (LW L W_full f)) s1 s2" by auto
  let ?L2 = "(set_LW W_full f [] ?L1)\<lparr>LR := zs\<rparr>"
  have emp: "LW ?L2 w f = []" for w by (cases w) simp_all
  have wk: "woken (set (LW L W_empty f) \<union> set (LW L W_full f)) s s2" by (rule woken_trans [OF wk1 wk2])
  have qs: "\<And>g. qsame (queues s g) (queues s2 g)" using wk by (simp add: woken_def)
  have a2: "st s2 (active_process s2) = PS_RUNNING" using wk a nw by (auto simp: woken_def)
  have "upd_queue f g s2 = upd_queue f (\<lambda>_. g (queues s2 f)) s2" by (simp add: upd_queue_def)
  moreover have "ginv (upd_queue f (\<lambda>_. g (queues s2 f)) s2) ?L2 {}"
    by (rule ginv_set_queue [OF inv2]) (use g ok [OF qs emp] calculation in \<open>auto simp: keeps_heads_def\<close>)
  ultimately have "ginv (upd_queue f g s2) ?L2 {}" by simp
  moreover have "wakeup_all_processes W_empty f (upd_queue f g s) = Some (upd_queue f g s1)"
    "wakeup_all_processes W_full f (upd_queue f g s1) = Some (upd_queue f g s2)"
    using w1 w2 by (simp_all add: wakeup_all_commute [OF g])
  moreover have "st (upd_queue f g s2) (active_process (upd_queue f g s2)) = PS_RUNNING" using a2 by (simp add: upd_queue_def)
  ultimately show ?thesis using wk by blast
qed

section \<open>The operations\<close>

lemma valid_fid_ring:
  assumes inv: "ginv s L X" and v: "valid_fid s fid"
  shows "nat fid < NBQUEUE" "capacity (queues s (nat fid)) \<noteq> 0" "ring_ok (queues s (nat fid))"
    "capacity (queues s (nat fid)) \<le> 10000" "LW L W_empty (nat fid) \<noteq> [] \<Longrightarrow> qsize (queues s (nat fid)) = 0"
    "LW L W_full (nat fid) \<noteq> [] \<Longrightarrow> qsize (queues s (nat fid)) = capacity (queues s (nat fid))"
proof -
  from v show f: "nat fid < NBQUEUE" and c: "capacity (queues s (nat fid)) \<noteq> 0"
    by (auto simp: valid_fid_def is_queue_free_def)
  show "ring_ok (queues s (nat fid))" "capacity (queues s (nat fid)) \<le> 10000"
    "LW L W_empty (nat fid) \<noteq> [] \<Longrightarrow> qsize (queues s (nat fid)) = 0"
    "LW L W_full (nat fid) \<noteq> [] \<Longrightarrow> qsize (queues s (nat fid)) = capacity (queues s (nat fid))"
    using ginvD(6) [OF inv f] c by (simp_all add: queue_ok_def Let_def)
qed

lemma ret_ok: "sched_ok s L \<Longrightarrow> \<exists>s' L'. Some (push_cont (K_ret v) s) = Some s' \<and> sched_ok s' L'"
  using sched_ok_ret by blast

theorem preset_ok:
  assumes k: "kinv s"
  shows "\<exists>s' L'. preset fid s = Some s' \<and> sched_ok s' L'"
proof -
  from k obtain L where ok: "sched_ok s L" by (rule kinvE)
  note inv = sched_okD(1) [OF ok] and run = sched_okD(2) [OF ok]
  show ?thesis
  proof (cases "valid_fid s fid")
    case False then show ?thesis using ret_ok [OF ok] by (simp add: preset_def)
  next
    case True
    note v = valid_fid_ring [OF inv True]
    let ?g = "\<lambda>q. q\<lparr>front := 0, rear := capacity q - 1, qsize := 0\<rparr>"
    have "queue_ok (upd_queue (nat fid) ?g s') L' (nat fid)"
      if "\<And>g. qsame (queues s g) (queues s' g)" "\<And>w. LW L' w (nat fid) = []" for s' L'
    proof -
      from that(1) [of "nat fid"] v(3) have "capacity (queues s' (nat fid)) = capacity (queues s (nat fid))"
        "messages (queues s' (nat fid)) = messages (queues s (nat fid))" by (simp_all add: qsame_def)
      moreover have "(- 1) mod c = c - 1" if "0 < c" for c :: int using that zmod_minus1 by blast
      ultimately show ?thesis using v that(2) ring_okD [OF v(3)]
        by (auto simp: queue_ok_def Let_def upd_queue_def ring_ok_def)
    qed
    from wake_both_ok [OF inv run, of ?g "nat fid", OF _ this] obtain s1 s2 L3 where
      "wakeup_all_processes W_empty (nat fid) (upd_queue (nat fid) ?g s) = Some s1" "wakeup_all_processes W_full (nat fid) s1 = Some s2"
      and inv2: "ginv s2 L3 {}" "st s2 (active_process s2) = PS_RUNNING" by (auto simp: keeps_heads_def)
    then show ?thesis using True fix_ret_ok [OF inv2, of 0] by (simp add: preset_def Let_def)
  qed
qed

theorem pdelete_ok:
  assumes k: "kinv s"
  shows "\<exists>s' L'. pdelete fid s = Some s' \<and> sched_ok s' L' \<and> (valid_fid s fid \<longrightarrow> \<not> valid_fid s' fid \<and> kheap_used s' = kheap_used s \<and>
    (\<forall>p < NBPROC. waiting_on_queue (st s p) \<and> wait_fid s p = Some fid \<longrightarrow>
       on_cpu (st s' p) \<and> retval_cell s' p = -1 \<and> pend s' p = Some K_retval))"
proof -
  from k obtain L where ok: "sched_ok s L" by (rule kinvE)
  note inv = sched_okD(1) [OF ok] and run = sched_okD(2) [OF ok]
  show ?thesis
  proof (cases "valid_fid s fid")
    case False then show ?thesis using sched_ok_ret [OF ok] by (auto simp: pdelete_def)
  next
    case True
    let ?g = "\<lambda>q. q\<lparr>capacity := 0\<rparr>"
    have "queue_ok (upd_queue (nat fid) ?g s') L' (nat fid)"
      if "\<And>g. qsame (queues s g) (queues s' g)" "\<And>w. LW L' w (nat fid) = []" for s' L'
      using that(2) by (simp add: queue_ok_def upd_queue_def)
    from wake_both_ok [OF inv run, of ?g "nat fid", OF _ this] obtain s1 s2 s3 L3 where
      w: "wakeup_all_processes W_empty (nat fid) (upd_queue (nat fid) ?g s) = Some s1" "wakeup_all_processes W_full (nat fid) s1 = Some s2"
      and inv2: "ginv s2 L3 {}" "st s2 (active_process s2) = PS_RUNNING" and s2: "s2 = upd_queue (nat fid) ?g s3"
      and wk: "woken (set (LW L W_empty (nat fid)) \<union> set (LW L W_full (nat fid))) s s3" by (auto simp: keeps_heads_def)
    from ginv_fix [OF ginv_push_ret [OF inv2(1), of 0]] inv2(2) obtain s' L' where
      fx: "fix_scheduler (push_cont (K_ret 0) s2) = Some s'" "sched_ok s' L'" "sframe (push_cont (K_ret 0) s2) s'" by blast
    have "queues s' = queues s2" using sframe_fields(2) [OF fx(3)] by simp
    then have "\<not> valid_fid s' fid" using s2 by (simp add: valid_fid_def is_queue_free_def upd_queue_def)
    moreover have "mem_free_len (capacity (queues (upd_queue (nat fid) ?g s) (nat fid)) * 4) (upd_queue (nat fid) ?g s) = upd_queue (nat fid) ?g s"
      by (simp add: mem_free_len_def upd_queue_def)
    moreover have "kheap_used s' = kheap_used s"
      using sframe_fields(9) [OF fx(3)] wk s2 by (simp add: woken_def upd_queue_def)
    moreover have "on_cpu (st s' p) \<and> retval_cell s' p = -1 \<and> pend s' p = Some K_retval"
      if p: "p < NBPROC" "waiting_on_queue (st s p)" "wait_fid s p = Some fid" for p
    proof -
      from p(2) obtain w' where w': "st s p = wstate w'" by (metis wstate.simps)
      with ginvD(3) [OF inv p(1)] have wok: "waiting_ok s L w' p" by (simp add: proc_ok_def)
      then obtain f where f: "p \<in> set (LW L w' f)" by (auto simp: waiting_ok_def)
      with lists_okD(4) [OF ginvD(1) [OF inv]] p(3) have "p \<in> set (LW L w' (nat fid))" by force
      then have mem: "p \<in> set (LW L W_empty (nat fid)) \<union> set (LW L W_full (nat fid))" by (cases w') auto
      have "p \<noteq> active_process s" using w' run by auto
      then have "st s2 p = PS_RUNNABLE" "retval_cell s2 p = -1" "pend (push_cont (K_ret 0) s2) p = Some K_retval"
        using wk mem wok s2 by (auto simp: woken_def upd_queue_def waiting_ok_def)
      then show ?thesis using sframe_fields(5,10) [OF fx(3)] sframe_fields(14) [OF fx(3), of p] by simp
    qed
    ultimately show ?thesis using True w fx by (auto simp: pdelete_def Let_def)
  qed
qed

theorem pcreate_ok:
  assumes k: "kinv s" and alloc: "okk"
  shows "kinv (snd (pcreate okk count s))"
proof -
  from k obtain L where ok: "sched_ok s L" and pn: "pend s (active_process s) = None" by (rule kinvE)
  note inv = sched_okD(1) [OF ok] and run = sched_okD(2) [OF ok]
  have free: "f < NBQUEUE \<and> capacity (queues s f) = 0" if "find_free_queue [0..<NBQUEUE] s = Some f" for f
  proof -
    have "find_free_queue fs s = Some f \<Longrightarrow> f \<in> set fs \<and> is_queue_free (queues s f)" for fs
      by (induction fs) (auto split: if_splits)
    from this [OF that] show ?thesis by (auto simp: is_queue_free_def)
  qed
  show ?thesis
  proof (cases "count \<le> 0 \<or> count > 10000 \<or> find_free_queue [0..<NBQUEUE] s = None")
    case True then show ?thesis using k by (auto simp: pcreate_def)
  next
    case False
    then obtain f where ff: "find_free_queue [0..<NBQUEUE] s = Some f" by auto
    note fr = free [OF ff]
    let ?q = "(queues s f)\<lparr>capacity := count, messages := Some (replicate (nat count) 0), rear := count - 1, front := 0, qsize := 0\<rparr>"
    let ?s = "upd_queue f (\<lambda>_. ?q) s"
    have emp: "LW L w f = []" for w using ginvD(6) [OF inv, of f] fr by (auto simp: queue_ok_def Let_def)
    have "(- 1) mod count = count - 1" using zmod_minus1 [of count] False by simp
    then have "queue_ok ?s L f" using False emp by (simp add: queue_ok_def upd_queue_def Let_def ring_ok_def)
    then have "ginv ?s L {}" by (intro ginv_set_queue [OF inv]) simp_all
    then have "sched_ok ?s L" using ok by (simp add: sched_ok_def upd_queue_def)
    then have "kinv (?s\<lparr>kheap_used := kheap_used s + count * 4\<rparr>)"
      using sched_ok_store(5) pn by (auto simp: kinv_def upd_queue_def)
    moreover have "snd (pcreate okk count s) = ?s\<lparr>kheap_used := kheap_used s + count * 4\<rparr>"
      using False ff alloc by (simp add: pcreate_def Let_def upd_queue_def)
    ultimately show ?thesis by simp
  qed
qed

lemma block_on_ok:
  assumes k: "kinv s" and a: "active_process s \<noteq> 0" and f: "f < NBQUEUE"
    and m: "w = W_full \<longrightarrow> m = I_message (active_process s)" "w = W_empty \<longrightarrow> caller_ptr m"
    and cap: "capacity (queues s f) \<noteq> 0" "w = W_empty \<Longrightarrow> qsize (queues s f) = 0"
      "w = W_full \<Longrightarrow> qsize (queues s f) = capacity (queues s f)"
  shows "\<exists>s' L'. block_on w f (active_process s) m s = Some s' \<and> sched_ok s' L' \<and> active_process s' \<noteq> active_process s \<and>
    st s' (active_process s) = wstate w \<and> wait_fid s' (active_process s) = Some (int f) \<and>
    wait_message s' (active_process s) = Some m \<and> (wait_head w f s = None \<longrightarrow> wait_head w f s' = Some (active_process s)) \<and>
    (\<forall>g. qsame (queues s g) (queues s' g)) \<and> retval_cell s' = retval_cell s \<and> message_cell s' = message_cell s"
proof -
  let ?a = "active_process s"
  from k obtain L where ok: "sched_ok s L" and pn: "pend s ?a = None" by (rule kinvE)
  note inv = sched_okD(1) [OF ok] and run = sched_okD(2) [OF ok] and an = sched_okD(4) [OF ok]
  have un: "unlisted L ?a" by (rule running_unlisted [OF ginvD(1) [OF inv] run])
  have unx: "?a \<notin> set (LW L w' g)" for w' g using un by (simp add: unlisted_def)
  let ?s1 = "upd_attr ?a (w_wait_message m) (upd_attr ?a (w_wait_retval (I_retval ?a)) (upd_attr ?a (w_wait_fid (int f)) (set_state ?a (wstate w) s)))"
  have "ginv s L {?a}" by (rule ginv_subset [OF inv]) simp
  then have "ginv (set_state ?a (wstate w) s) L {?a}" by (rule ginv_set_state) (use run un in auto)
  then have inv1: "ginv ?s1 L {?a}" using un by (intro ginv_upd_attr) simp_all
  have s1: "st ?s1 ?a = wstate w" "wait_fid ?s1 ?a = Some (int f)" "wait_retval ?s1 ?a = Some (I_retval ?a)" "wait_message ?s1 ?a = Some m"
    "queues ?s1 = queues s" "pend ?s1 = pend s" "active_process ?s1 = ?a" by (simp_all add: upd_defs)
  have "set (LW L w f) \<inter> {?a} = {}" using unx by auto
  from ginv_push_waiting [OF inv1 _ an f s1(1,2) unx this] cap s1 obtain s2 ys where
    push: "push_waiting_process w f ?a ?s1 = Some s2" and sp: "wtq_spec w f ys ?a (insert ?a (set (LW L w f))) ?s1 s2"
    and inv2: "ginv s2 (set_LW w f ys L) {?a}" and so: "sorted_ok s2 (set_LW w f ys L) ({?a} - {?a})" and ys: "?a \<in> set ys" by auto
  let ?s3 = "push_cont K_retval s2" and ?L = "set_LW w f ys L"
  from sp have pu: "pupd ?a (st ?s1 ?a) (insert ?a (set (LW L w f))) (processes ?s1) (processes s2)" and fr: "wframe w f ?s1 s2"
    and at: "wait_retval s2 ?a = Some (I_retval ?a)" "wait_message s2 ?a = Some m" using s1 by (simp_all add: wtq_spec_def)
  note pf = pupd_fields [OF pu] wframe_fields [OF fr]
  have inv3: "ginv ?s3 ?L {?a}" by (rule ginv_push_cont_X [OF inv2]) (simp add: pf)
  have st3: "st ?s3 q = (if q = ?a then wstate w else st s q)" "parent (processes ?s3 q) = parent (processes s q)" for q
    by (simp_all add: pf)
  have "parent_ok ?s3 {} ?a" by (rule parent_ok_Diff [OF sched_okD(6) [OF ok] st3(1)]) (simp_all add: pf)
  moreover have "waiting_ok ?s3 ?L w ?a" using f ys at m by (auto simp: waiting_ok_def pf)
  ultimately have "proc_ok ?s3 ?L ({?a} - {?a}) ?a" using a st3(1) [of ?a] by (auto simp: proc_ok_def)
  moreover have "sorted_ok ?s3 ?L ({?a} - {?a})" using so by simp
  ultimately have "ginv ?s3 ?L ({?a} - {?a})" using st3(1) [of ?a] by (intro ginv_settle [OF inv3]) auto
  then obtain s' L' where tk: "tick_scheduler ?s3 = Some s'" "sched_ok s' L'" "sframe ?s3 s'" using ginv_tick [of ?s3 ?L] by auto
  have same: "processes s' ?a = processes s2 ?a" using sframe_fields(15) [OF tk(3), of ?a] st3(1) [of ?a] by simp
  then have st': "st s' ?a = wstate w" using st3(1) [of ?a] by simp
  then have "active_process s' \<noteq> ?a" using sched_okD(2) [OF tk(2)] by auto
  moreover have "wait_fid s' ?a = Some (int f)" "wait_message s' ?a = Some m" using same at sp s1(2) by (simp_all add: wtq_spec_def)
  moreover have q': "queues s' = queues s2" using sframe_fields(2) [OF tk(3)] by simp
  moreover have "qsame (queues s g) (queues s' g)" for g using fr s1(5) by (simp add: q' wframe_def)
  moreover have "retval_cell s' = retval_cell s" "message_cell s' = message_cell s"
    using sframe_fields(5,6) [OF tk(3)] pf by simp_all
  moreover have "wait_head w f s' = Some ?a" if "wait_head w f s = None"
  proof -
    have "wait_head w f ?s1 = None" using that by simp
    then have "s2 = set_wait_head w f (Some ?a) (set_wait_next ?a None ?s1)"
      using push s1(1) by (cases w) (simp_all add: push_waiting_process_def Let_def)
    then have "wait_head w f s2 = Some ?a" by simp
    then show ?thesis using q' by (cases w) (simp_all add: wait_head_def)
  qed
  moreover have "block_on w f ?a m s = tick_scheduler ?s3"
    using run push by (cases w) (simp_all add: block_on_def remove_runnable_other Let_def)
  ultimately show ?thesis using tk st' by auto
qed

lemma kinv_cells: "kinv s \<Longrightarrow> kinv (s\<lparr>retval_cell := r\<rparr>)" "kinv s \<Longrightarrow> kinv (s\<lparr>message_cell := r\<rparr>)"
  by (auto simp: kinv_def intro: sched_ok_store)

lemma sched_ok_set_queue:
  assumes ok: "sched_ok s L" and q: "qlinks_same (queues s f) q" "f < NBQUEUE \<Longrightarrow> queue_ok (upd_queue f (\<lambda>_. q) s) L f"
  shows "sched_ok (upd_queue f (\<lambda>_. q) s) L"
proof -
  have "ginv (upd_queue f (\<lambda>_. q) s) L {}"
    by (rule ginv_set_queue [OF sched_okD(1) [OF ok]]) (use q in \<open>simp_all add: qlinks_same_def\<close>)
  then show ?thesis using ok by (simp add: sched_ok_def upd_queue_def)
qed

text \<open>The branches of \<^const>\<open>psend\<close> and \<^const>\<open>preceive\<close> that change the ring buffer keep the invariant
  because of who can wait on the queue: a receiver only on an empty one, a sender only on a full one.\<close>

lemma sched_ok_new_ring:
  assumes ok: "sched_ok s L" and v: "valid_fid s fid" and q: "ring_ok q" "qlinks_same (queues s (nat fid)) q"
    and w: "LW L W_empty (nat fid) \<noteq> [] \<Longrightarrow> qsize q = 0" "LW L W_full (nat fid) \<noteq> [] \<Longrightarrow> qsize q = capacity q"
  shows "sched_ok (upd_queue (nat fid) (\<lambda>_. q) s) L"
proof -
  note vr = valid_fid_ring [OF sched_okD(1) [OF ok] v]
  have "queue_ok (upd_queue (nat fid) (\<lambda>_. q) s) L (nat fid)"
    using q w vr by (auto simp: queue_ok_def Let_def upd_queue_def qlinks_same_def)
  then show ?thesis by (intro sched_ok_set_queue [OF ok q(2)])
qed

lemma psend_room_ok:
  assumes ok: "sched_ok s L" and v: "valid_fid s fid" and room: "\<not> is_queue_full (queues s (nat fid))"
    and h: "\<not> (is_queue_empty (queues s (nat fid)) \<and> empty_process (queues s (nat fid)) \<noteq> None)"
  shows "\<exists>s' L'. psend fid m s = Some s' \<and> sched_ok s' L'"
proof -
  let ?f = "nat fid" and ?q = "queues s (nat fid)"
  note inv = sched_okD(1) [OF ok]
  note vr = valid_fid_ring [OF inv v]
  have "qsize ?q < capacity ?q" using room ring_okD [OF vr(3)] by (simp add: is_queue_full_def)
  from push_message_ok [OF vr(3) this, of m] obtain q' where q': "push_message ?q m = Some q'" "ring_ok q'" "qlinks_same ?q q'" by blast
  have "LW L W_empty ?f = []" using no_waiter [OF inv, of W_empty ?f] vr(5) h by (auto simp: wait_head_def is_queue_empty_def)
  moreover have "LW L W_full ?f = []" using vr(6) room by (auto simp: is_queue_full_def)
  ultimately have "sched_ok (upd_queue ?f (\<lambda>_. q') s) L" by (intro sched_ok_new_ring [OF ok v q'(2,3)]) simp_all
  from ret_ok [OF this, of 0] show ?thesis using v room h q'(1)
    by (auto simp: psend_def Let_def split: option.splits bool.splits)
qed

lemma psend_hand_over_ok:
  assumes ok: "sched_ok s L" and v: "valid_fid s fid" and room: "\<not> is_queue_full (queues s (nat fid))"
    and h: "is_queue_empty (queues s (nat fid))" "empty_process (queues s (nat fid)) = Some h"
  shows "\<exists>s' L'. psend fid m s = Some s' \<and> sched_ok s' L'"
proof -
  let ?f = "nat fid"
  note inv = sched_okD(1) [OF ok]
  from waiter_head [OF inv, of W_empty ?f h] h obtain hs where lw: "LW L W_empty ?f = h # hs" by (auto simp: wait_head_def)
  from waiting_retval(2) [OF inv, of h W_empty ?f] lw obtain mm where mm: "wait_message s h = Some mm" "caller_ptr mm" by auto
  obtain s1 where s1: "(if mm = I_null then Some s else store_int mm m s) = Some s1" "sched_ok s1 L"
    using mm(2) ok sched_ok_store(1) [OF ok] by (auto simp: store_int_def)
  have eq: "psend fid m s = wakeup_first_process W_empty ?f (K_ret 0) s1"
    using v room h mm s1 by (auto simp: psend_def Let_def)
  show ?thesis unfolding eq by (rule wakeup_first_ok [OF sched_okD(1) [OF s1(2)] _ sched_okD(2) [OF s1(2)]]) (simp add: lw)
qed

theorem psend_ok:
  assumes k: "kinv s" and a: "active_process s \<noteq> 0"
  shows "\<exists>s' L'. psend fid m s = Some s' \<and> sched_ok s' L'"
proof -
  from k obtain L where ok: "sched_ok s L" by (rule kinvE)
  note inv = sched_okD(1) [OF ok]
  consider "\<not> valid_fid s fid" | "valid_fid s fid" "is_queue_full (queues s (nat fid))"
    | "valid_fid s fid" "\<not> is_queue_full (queues s (nat fid))" by blast
  then show ?thesis
  proof cases
    case 1 then show ?thesis using ret_ok [OF ok] by (simp add: psend_def)
  next
    case 2
    let ?s = "s\<lparr>retval_cell := (retval_cell s)(active_process s := 0), message_cell := (message_cell s)(active_process s := m)\<rparr>"
    have "kinv ?s" using k by (simp add: kinv_cells)
    from block_on_ok [OF this, of "nat fid" W_full "I_message (active_process s)"] a valid_fid_ring [OF inv 2(1)] 2
    show ?thesis using getproc_active [OF inv] by (auto simp: psend_def is_queue_full_def Let_def)
  next
    case 3 then show ?thesis using psend_room_ok [OF ok 3] psend_hand_over_ok [OF ok 3] by fast
  qed
qed

text \<open>A receiver that takes from a queue with blocked senders puts the message of the first of them in the place it freed.\<close>

lemma preceive_refill:
  assumes ok: "sched_ok s L" and v: "valid_fid s fid" and h: "full_process (queues s (nat fid)) = Some h"
    and q: "ring_ok q" "qsize q = qsize (queues s (nat fid)) - 1" "qlinks_same (queues s (nat fid)) q" and m: "load_int (I_message h) t = Some x"
      "wait_message t h = wait_message s h" "queues t (nat fid) = q"
  shows "\<exists>hs q'. LW L W_full (nat fid) = h # hs \<and> qsize q = capacity q - 1 \<and> wait_message t h = Some (I_message h) \<and>
    push_message q x = Some q' \<and> ring_list q' = ring_list q @ [x] \<and> sched_ok (upd_queue (nat fid) (\<lambda>_. q') s) L"
proof -
  note inv = sched_okD(1) [OF ok]
  note vr = valid_fid_ring [OF inv v]
  from waiter_head [OF inv, of W_full "nat fid" h] h obtain hs where lw: "LW L W_full (nat fid) = h # hs" by (auto simp: wait_head_def)
  have sz: "qsize q = capacity q - 1" using vr(6) lw q by (simp add: qlinks_same_def)
  from push_message_ok [OF q(1), of x] sz obtain q' where q': "push_message q x = Some q'" "ring_ok q'" "ring_list q' = ring_list q @ [x]"
    "qsize q' = capacity q" "qlinks_same q q'" by auto
  moreover have "LW L W_empty (nat fid) = []" using vr(2,5,6) lw by auto
  ultimately have "sched_ok (upd_queue (nat fid) (\<lambda>_. q') s) L"
    using q(3) by (intro sched_ok_new_ring [OF ok v]) (auto simp: qlinks_same_def)
  moreover have "wait_message s h = Some (I_message h)" using waiting_retval(2) [OF inv, of h W_full "nat fid"] lw by auto
  ultimately show ?thesis using lw sz q' m(2) by auto
qed

lemma preceive_take_ok:
  assumes ok: "sched_ok s L" and v: "valid_fid s fid" and ne: "\<not> is_queue_empty (queues s (nat fid))" and m: "caller_ptr m"
  shows "\<exists>s' L'. preceive fid m s = Some s' \<and> sched_ok s' L'"
proof -
  let ?f = "nat fid" and ?q = "queues s (nat fid)"
  note inv = sched_okD(1) [OF ok]
  note vr = valid_fid_ring [OF inv v]
  have pos: "0 < qsize ?q" using ne ring_okD [OF vr(3)] by (simp add: is_queue_empty_def)
  from pop_message_ok [OF vr(3) this] obtain q1 where q1: "pop_message ?q = Some (hd (ring_list ?q), q1)" "ring_ok q1"
    "qsize q1 = qsize ?q - 1" "qlinks_same ?q q1" by blast
  let ?s1 = "upd_queue ?f (\<lambda>_. q1) s"
  obtain mem where st: "(if m = I_null then Some ?s1 else store_int m (hd (ring_list ?q)) ?s1) = Some (?s1\<lparr>umem := mem\<rparr>)"
    using m by (auto simp: store_int_def intro: that [of "umem ?s1"])
  let ?s2 = "?s1\<lparr>umem := mem\<rparr>"
  have s2: "queues ?s2 ?f = q1" by (simp add: upd_queue_def)
  have links: "full_process q1 = full_process ?q" using q1(4) by (simp add: qlinks_same_def)
  show ?thesis
  proof (cases "full_process ?q")
    case None
    have "LW L W_full ?f = []" using no_waiter [OF inv, of W_full ?f] None by (simp add: wait_head_def)
    moreover have "LW L W_empty ?f = []" using vr(5) pos by auto
    ultimately have "sched_ok ?s1 L" by (intro sched_ok_new_ring [OF ok v q1(2,4)]) simp_all
    then have "sched_ok ?s2 L" by (rule sched_ok_store)
    from ret_ok [OF this, of 0] show ?thesis using v ne q1(1) st s2 None links
      by (auto simp: preceive_def Let_def split: option.splits)
  next
    case (Some h)
    have "load_int (I_message h) ?s2 = Some (message_cell s h)" "wait_message ?s2 h = wait_message s h"
      by (simp_all add: upd_queue_def load_int_def)
    from preceive_refill [OF ok v Some q1(2-4) this s2] this(1) obtain hs q2 where
      r: "LW L W_full ?f = h # hs" "qsize q1 = capacity q1 - 1" "wait_message ?s2 h = Some (I_message h)"
        "push_message q1 (message_cell s h) = Some q2" "sched_ok (upd_queue ?f (\<lambda>_. q2) s) L" by blast
    have ok3: "sched_ok ((upd_queue ?f (\<lambda>_. q2) s)\<lparr>umem := mem\<rparr>) L" by (rule sched_ok_store) (rule r(5))
    have "upd_queue ?f (\<lambda>_. q2) ?s2 = (upd_queue ?f (\<lambda>_. q2) s)\<lparr>umem := mem\<rparr>" by (cases s) (simp add: upd_queue_def)
    then have "preceive fid m s = wakeup_first_process W_full ?f (K_ret 0) ((upd_queue ?f (\<lambda>_. q2) s)\<lparr>umem := mem\<rparr>)"
      using v ne q1(1) st s2 Some links r \<open>load_int _ ?s2 = _\<close> by (simp add: preceive_def Let_def)
    then show ?thesis using wakeup_first_ok [OF sched_okD(1) [OF ok3] _ sched_okD(2) [OF ok3], of W_full ?f 0] r(1) by simp
  qed
qed

theorem preceive_ok:
  assumes k: "kinv s" and a: "active_process s \<noteq> 0" and m: "caller_ptr m"
  shows "\<exists>s' L'. preceive fid m s = Some s' \<and> sched_ok s' L'"
proof -
  from k obtain L where ok: "sched_ok s L" by (rule kinvE)
  note inv = sched_okD(1) [OF ok]
  consider "\<not> valid_fid s fid" | "valid_fid s fid" "is_queue_empty (queues s (nat fid))"
    | "valid_fid s fid" "\<not> is_queue_empty (queues s (nat fid))" by blast
  then show ?thesis
  proof cases
    case 1 then show ?thesis using ret_ok [OF ok] by (simp add: preceive_def)
  next
    case 2
    let ?s = "s\<lparr>retval_cell := (retval_cell s)(active_process s := 0)\<rparr>"
    have "kinv ?s" using k by (simp add: kinv_cells)
    from block_on_ok [OF this, of "nat fid" W_empty m] a valid_fid_ring [OF inv 2(1)] m 2
    show ?thesis using getproc_active [OF inv] by (auto simp: preceive_def is_queue_empty_def Let_def)
  next
    case 3 then show ?thesis by (rule preceive_take_ok [OF ok _ _ m])
  qed
qed

end
