(* ===== verification/Kernel_Run.thy ===== *)
theory Kernel_Run
  imports Inv_Queue
begin

text \<open>
  The kernel as a transition system: in every step the active process makes one call, or the clock
  interrupts it; the scheduler may switch; the process that is active then returns from whatever it
  had called. \<open>kreach\<close> is what can be reached from the state that \<^verbatim>\<open>setup_scheduler\<close> leaves.
\<close>

section \<open>The clock interrupt\<close>

text \<open>The part of \<^verbatim>\<open>tic_PIT\<close> that concerns the scheduler: counting, and a switch every fourth tick.\<close>

definition tic_clock :: "kstate \<Rightarrow> kstate option" where
  "tic_clock s =
     (let s = push_cont K_iret (s\<lparr>pit_count := pit_count s + 1\<rparr>) in
      if pit_count s mod (of_int (c_div CLOCKFREQ SCHEDFREQ)) = 0 then tick_scheduler s else Some s)"

section \<open>Calls\<close>

datatype kcall =
  C_start u32 u32 int string u32
| C_start_user "u32 \<Rightarrow> u32 option" u32 u32 int string u32
| C_chprio int int
| C_kill int
| C_exit int
| C_wait_clock u32
| C_waitpid int iptr
| C_psend int int
| C_preceive int iptr
| C_preset int
| C_pdelete int
| C_pcreate bool int
| C_pcount int iptr
| C_tick

fun kexec :: "kcall \<Rightarrow> kstate \<Rightarrow> kstate option" where
  "kexec (C_start fn sz pr nm arg) s = start fn sz pr nm arg s"
| "kexec (C_start_user alloc fn sz pr nm arg) s = start_user alloc fn sz pr nm arg s"
| "kexec (C_chprio p v) s = chprio p v s"
| "kexec (C_kill p) s = kill p s"
| "kexec (C_exit v) s = exit v s"
| "kexec (C_wait_clock c) s = wait_clock c s"
| "kexec (C_waitpid p r) s = waitpid p r s"
| "kexec (C_psend f m) s = psend f m s"
| "kexec (C_preceive f m) s = preceive f m s"
| "kexec (C_preset f) s = preset f s"
| "kexec (C_pdelete f) s = pdelete f s"
| "kexec (C_pcreate ok n) s = (case pcreate ok n s of (v, s) \<Rightarrow> Some (push_cont (K_ret v) s))"
| "kexec (C_pcount f r) s = map_option (\<lambda>(v, s). push_cont (K_ret v) s) (pcount f r s)"
| "kexec C_tick s = tic_clock s"

text \<open>
  What the callers guarantee: the idle process makes no call; pointers are null or the caller's own;
  the allocator of user stacks returns a block that is not in use, that of the kernel succeeds.
\<close>

fun kallowed :: "kcall \<Rightarrow> kstate \<Rightarrow> bool" where
  "kallowed C_tick s \<longleftrightarrow> True"
| "kallowed (C_start_user alloc fn sz pr nm arg) s \<longleftrightarrow> active_process s \<noteq> 0 \<and>
     (\<forall>n a. alloc n = Some a \<longrightarrow> a \<notin> fst ` set (ustack_blocks s))"
| "kallowed (C_waitpid p r) s \<longleftrightarrow> active_process s \<noteq> 0 \<and> caller_ptr r"
| "kallowed (C_preceive f m) s \<longleftrightarrow> active_process s \<noteq> 0 \<and> caller_ptr m"
| "kallowed (C_pcount f m) s \<longleftrightarrow> active_process s \<noteq> 0 \<and> caller_ptr m"
| "kallowed (C_pcreate ok n) s \<longleftrightarrow> active_process s \<noteq> 0 \<and> ok"
| "kallowed c s \<longleftrightarrow> active_process s \<noteq> 0"

inductive kstep :: "kstate \<Rightarrow> kcall \<Rightarrow> int option \<Rightarrow> kstate \<Rightarrow> bool" where
  kstepI: "kallowed c s \<Longrightarrow> kexec c s = Some s1 \<Longrightarrow> resume s1 = Some (v, s2) \<Longrightarrow> kstep s c v s2"

inductive_cases kstepE: "kstep s c v s'"

section \<open>Start-up\<close>

text \<open>The globals are zero before \<^verbatim>\<open>setup_scheduler\<close>.\<close>

definition zeroed :: "kstate \<Rightarrow> bool" where
  "zeroed s \<longleftrightarrow> runnable_process_head s = None \<and> asleep_process_head s = None \<and>
     (\<forall>f. capacity (queues s f) = 0 \<and> empty_process (queues s f) = None \<and> full_process (queues s f) = None) \<and>
     (\<forall>p. user_stack (processes s p) = None) \<and> pend s = (\<lambda>_. None)"

text \<open>
  \<^verbatim>\<open>kernel_start\<close> without the devices: the first user process is created, and the boot code goes on as
  process 0 in \<^verbatim>\<open>idle\<close>. The scheduler is not called, so the new process has to wait for the clock.
\<close>

definition kernel_start :: "(u32 \<Rightarrow> u32 option) \<Rightarrow> u32 \<Rightarrow> kstate \<Rightarrow> kstate option" where
  "kernel_start alloc user_start s = do {
     let s = setup_scheduler s;
     (_, s) \<leftarrow> start_user_background alloc user_start 4000 1 ''user_start'' 0 s;
     Some s }"

definition sched_tick :: "kstate \<Rightarrow> bool" where
  "sched_tick s \<longleftrightarrow> (pit_count s + 1) mod of_int (c_div CLOCKFREQ SCHEDFREQ) = 0"

text \<open>Until the first tick that calls the scheduler, process 0 runs and only the clock interrupts it.\<close>

inductive kboot :: "kstate \<Rightarrow> bool" where
  kboot_start: "zeroed s \<Longrightarrow> kernel_start alloc fn s = Some s' \<Longrightarrow>
    (\<And>n a. alloc n = Some a \<Longrightarrow> a \<notin> fst ` set (ustack_blocks s)) \<Longrightarrow> kboot s'"
| kboot_tick: "kboot s \<Longrightarrow> \<not> sched_tick s \<Longrightarrow> kstep s C_tick v s' \<Longrightarrow> kboot s'"

inductive kreach :: "kstate \<Rightarrow> bool" where
  kreach_first: "kboot s \<Longrightarrow> sched_tick s \<Longrightarrow> kstep s C_tick v s' \<Longrightarrow> kreach s'"
| kreach_step: "kreach s \<Longrightarrow> kstep s c v s' \<Longrightarrow> kreach s'"

section \<open>Every step succeeds and keeps the invariant\<close>

lemma tic_clock_ok:
  assumes k: "kinv s"
  shows "\<exists>s' L'. tic_clock s = Some s' \<and> sched_ok s' L'"
proof -
  from k obtain L where ok: "sched_ok s L" by (rule kinvE)
  let ?s = "push_cont K_iret (s\<lparr>pit_count := pit_count s + 1\<rparr>)"
  have "sched_ok (s\<lparr>pit_count := pit_count s + 1\<rparr>) L" by (rule sched_ok_store [OF ok])
  then have ok': "sched_ok ?s L" unfolding push_cont_def by (rule sched_ok_pend) simp
  then show ?thesis using ginv_tick [OF sched_okD(1) [OF ok']] by (auto simp: tic_clock_def Let_def)
qed

lemma count_processes_ok:
  "npath nx h xs \<Longrightarrow> length xs \<le> fuel \<Longrightarrow> count_processes fuel nx h c = Some (c + int (length xs))"
proof (induction xs arbitrary: fuel h c)
  case Nil then show ?case by (cases fuel) simp_all
next
  case (Cons x xs) then show ?case by (cases fuel) auto
qed

text \<open>The number of messages, or of processes waiting for one.\<close>

lemma queue_count_ok:
  assumes inv: "ginv s L X"
  shows "queue_count f s = Some (if qsize (queues s f) = 0 then - int (length (LW L W_empty f))
    else qsize (queues s f) + int (length (LW L W_full f)))"
proof -
  have w: "wtq_ok s w f (LW L w f)" for w using ginvD(1) [OF inv] by (simp add: lists_ok_def)
  have c: "count_processes NBPROC (wait_next s) (wait_head w f s) 0 = Some (0 + int (length (LW L w f)))" for w
    by (rule count_processes_ok) (use w [of w] wtq_ok_length in \<open>auto simp: wtq_ok_def\<close>)
  from c [of W_empty] c [of W_full] show ?thesis
    by (simp add: queue_count_def Let_def is_queue_empty_def wait_head_def)
qed

lemma pcount_ok:
  assumes k: "kinv s" and m: "caller_ptr m"
  shows "\<exists>v s'. pcount fid m s = Some (v, s') \<and> (\<exists>L. sched_ok s' L)"
proof -
  from k obtain L where ok: "sched_ok s L" by (rule kinvE)
  show ?thesis
  proof (cases "valid_fid s fid \<and> m \<noteq> I_null")
    case False then show ?thesis using ok by (auto simp: pcount_def)
  next
    case True
    then obtain u where u: "m = I_user u" using m by auto
    from queue_count_ok [OF sched_okD(1) [OF ok], of "nat fid"] obtain c where c: "queue_count (nat fid) s = Some c" by blast
    have "sched_ok (s\<lparr>umem := (umem s)(u := CInt c)\<rparr>) L" by (rule sched_ok_store [OF ok])
    then show ?thesis using True u c by (auto simp: pcount_def store_int_def)
  qed
qed

lemma kexec_ok:
  assumes k: "kinv s" and al: "kallowed c s"
  shows "\<exists>s' L'. kexec c s = Some s' \<and> sched_ok s' L'"
proof (cases c)
  case (C_start_user alloc fn sz pr nm arg)
  with start_user_ok [OF k, of alloc] al show ?thesis by auto
next
  case (C_exit v) with exit_ok [OF k, of v] al show ?thesis by auto
next
  case (C_pcreate ok n)
  from C_pcreate pcreate_ok [OF k, of ok n] al obtain L where "sched_ok (snd (pcreate ok n s)) L" by (auto elim: kinvE)
  from sched_ok_ret [OF this] C_pcreate show ?thesis by (auto simp: case_prod_unfold)
next
  case (C_pcount f r)
  from pcount_ok [OF k, of r f] al C_pcount obtain v s' L where "pcount f r s = Some (v, s')" "sched_ok s' L" by auto
  with sched_ok_ret [OF this(2), of v] C_pcount show ?thesis by auto
next
  case (C_waitpid p r) with waitpid_ok [OF k, of r p] al show ?thesis by auto
next
  case (C_preceive f m) with preceive_ok [OF k, of m f] al show ?thesis by auto
next
  case (C_pdelete f) with pdelete_ok [OF k, of f] show ?thesis by auto
next
  case C_start then show ?thesis using start_ok [OF k] by simp
next
  case C_chprio then show ?thesis using chprio_ok [OF k] by simp
next
  case C_kill then show ?thesis using kill_ok [OF k] by simp
next
  case C_wait_clock then show ?thesis using wait_clock_ok [OF k] al by simp
next
  case C_psend then show ?thesis using psend_ok [OF k] al by simp
next
  case C_preset then show ?thesis using preset_ok [OF k] by simp
next
  case C_tick then show ?thesis using tic_clock_ok [OF k] by simp
qed

lemma kstep_exists: "kinv s \<Longrightarrow> kallowed c s \<Longrightarrow> \<exists>v s'. kstep s c v s'"
  using kexec_ok [of s c] resume_ok by (blast intro: kstepI)

lemma kstep_kinv: "kinv s \<Longrightarrow> kstep s c v s' \<Longrightarrow> kinv s'"
  using kexec_ok [of s c] resume_ok by (elim kstepE) force

section \<open>The initial state\<close>

lemma npath_upto:
  "i \<le> n \<Longrightarrow> (\<And>j. j < n \<Longrightarrow> nx j = Some (Some (Suc j))) \<Longrightarrow> nx n = Some None \<Longrightarrow> npath nx (Some i) [i..<Suc n]"
proof (induction "n - i" arbitrary: i)
  case 0
  then have "i = n" by simp
  with 0 show ?case by simp
next
  case (Suc k)
  then have lt: "i < n" by simp
  have "npath nx (Some (Suc i)) [Suc i..<Suc n]" by (rule Suc.hyps(1)) (use Suc lt in auto)
  moreover have "[i..<Suc n] = i # [Suc i..<Suc n]" using lt by (simp add: upt_conv_Cons del: upt_Suc)
  ultimately show ?case using Suc.prems(2) [OF lt] by (simp del: upt_Suc)
qed

lemma setup_fields:
  "active_process (setup_scheduler s) = 0" "runnable_process_head (setup_scheduler s) = runnable_process_head s"
  "asleep_process_head (setup_scheduler s) = asleep_process_head s" "dead_process_head (setup_scheduler s) = Some 1"
  "queues (setup_scheduler s) = queues s" "pend (setup_scheduler s) = pend s" "ustack_blocks (setup_scheduler s) = ustack_blocks s"
  "user_stack (processes (setup_scheduler s) p) = user_stack (processes s p)"
  "p < NBPROC \<Longrightarrow> pid (processes (setup_scheduler s) p) = int p"
  "p < NBPROC \<Longrightarrow> st (setup_scheduler s) p = (if p = 0 then PS_RUNNING else PS_DEAD)"
  "p < NBPROC - 1 \<Longrightarrow> next_dead (setup_scheduler s) p = Some (Some (Suc p))"
  "next_dead (setup_scheduler s) (NBPROC - 1) = Some None" "parent (processes (setup_scheduler s) 0) = NOPID"
  by (auto simp: setup_scheduler_def Let_def upd_defs NBPROC_def)

lemma ginv_setup:
  assumes z: "zeroed s"
  shows "ginv (setup_scheduler s) \<lparr>LR = [], LA = [], LD = [1..<NBPROC], LW = \<lambda>_ _. []\<rparr> {}" (is "ginv ?s ?L {}")
proof -
  note f = setup_fields [where s = s]
  have N: "Suc (NBPROC - 1) = NBPROC" by (simp add: NBPROC_def)
  have "npath (next_dead ?s) (Some 1) [1..<Suc (NBPROC - 1)]"
    by (rule npath_upto) (use f(11,12) in \<open>simp_all add: NBPROC_def\<close>)
  then have "dead_ok ?s [1..<NBPROC]" unfolding N by (auto simp: dead_ok_def f)
  then have "lists_ok ?s ?L" using z
    by (simp add: lists_ok_def run_ok_def slp_ok_def wtq_ok_def f zeroed_def wait_head_def split: wside.split)
  moreover have "sorted_ok ?s ?L {}" by (simp add: sorted_ok_def prio_sorted_def clock_sorted_def)
  moreover have "proc_ok ?s ?L {} p" if "p < NBPROC" for p
    using that z f(10) [OF that] by (auto simp: proc_ok_def f parent_ok_def runnable_pend_def zeroed_def split: if_splits)
  moreover have "queue_ok ?s ?L q" for q using z by (simp add: queue_ok_def f zeroed_def)
  moreover have "ustack_ok ?s {}" using z by (simp add: ustack_ok_def f zeroed_def)
  ultimately show ?thesis by (simp add: ginv_def f)
qed

definition boot_inv :: "kstate \<Rightarrow> bool" where
  "boot_inv s \<longleftrightarrow> (\<exists>L. ginv s L {}) \<and> st s (active_process s) = PS_RUNNING \<and> pend s (active_process s) = None"

lemma kernel_start_ok:
  assumes z: "zeroed s" and fresh: "\<And>n a. alloc n = Some a \<Longrightarrow> a \<notin> fst ` set (ustack_blocks s)"
  shows "\<exists>s'. kernel_start alloc fn s = Some s' \<and> boot_inv s'"
proof -
  have run: "st (setup_scheduler s) (active_process (setup_scheduler s)) = PS_RUNNING" by (simp add: setup_fields)
  have "pend (setup_scheduler s) 0 = None" using z by (simp add: setup_fields zeroed_def)
  then show ?thesis
    using start_user_background_ok [OF ginv_setup [OF z] run, of alloc fn 4000 1 "''user_start''" 0] fresh
    by (auto simp: kernel_start_def boot_inv_def setup_fields)
qed

lemma boot_tick:
  assumes b: "boot_inv s"
  shows "\<exists>s1. tic_clock s = Some s1 \<and> (if sched_tick s then \<exists>L. sched_ok s1 L
    else pend s1 (active_process s1) = Some K_iret \<and> boot_inv (s1\<lparr>pend := (pend s1)(active_process s1 := None)\<rparr>))"
proof -
  from b obtain L where inv: "ginv s L {}" and run: "st s (active_process s) = PS_RUNNING" and pn: "pend s (active_process s) = None"
    by (auto simp: boot_inv_def)
  let ?s = "push_cont K_iret (s\<lparr>pit_count := pit_count s + 1\<rparr>)"
  have inv0: "ginv (s\<lparr>pit_count := pit_count s + 1\<rparr>) L {}" by (rule ginv_store_user [OF inv])
  have inv': "ginv ?s L {}" unfolding push_cont_def by (rule ginv_pend_active [OF inv0]) (use run in simp_all)
  show ?thesis
  proof (cases "sched_tick s")
    case True
    then show ?thesis using ginv_tick [OF inv'] by (auto simp: tic_clock_def sched_tick_def Let_def)
  next
    case False
    have "ginv (?s\<lparr>pend := (pend ?s)(active_process ?s := None)\<rparr>) L {}"
      by (rule ginv_pend_active [OF inv']) (use run in simp_all)
    then have "boot_inv (?s\<lparr>pend := (pend ?s)(active_process ?s := None)\<rparr>)" using run unfolding boot_inv_def by auto
    then show ?thesis using False by (simp add: tic_clock_def sched_tick_def Let_def)
  qed
qed

lemma kboot_inv: "kboot s \<Longrightarrow> boot_inv s"
proof (induction rule: kboot.induct)
  case (kboot_start s alloc fn s')
  then show ?case using kernel_start_ok [OF kboot_start(1), of alloc fn] by auto
next
  case (kboot_tick s v s')
  from boot_tick [OF kboot_tick.IH] kboot_tick(2) obtain s1 where
    s1: "tic_clock s = Some s1" "pend s1 (active_process s1) = Some K_iret" "boot_inv (s1\<lparr>pend := (pend s1)(active_process s1 := None)\<rparr>)" by auto
  then show ?case using kboot_tick(3) by (auto simp: resume_def run_cont_def Let_def elim!: kstepE)
qed

lemma kreach_kinv: "kreach s \<Longrightarrow> kinv s"
proof (induction rule: kreach.induct)
  case (kreach_first s v s')
  from boot_tick [OF kboot_inv [OF kreach_first(1)]] kreach_first(2) obtain s1 L where "tic_clock s = Some s1" "sched_ok s1 L" by auto
  with kreach_first(3) resume_ok [of s1 L] show ?case by (auto elim!: kstepE)
next
  case (kreach_step s c v s')
  then show ?case by (blast intro: kstep_kinv)
qed

end
