(* ===== verification/Kernel_Demo.thy ===== *)
theory Kernel_Demo
  imports Kernel_Run
begin

text \<open>
  A concrete run: the kernel boots from zeroed memory with a stack allocator that returns one
  address, and the clock ticks four times. The state reached is the concrete input of the
  instances of the theorems about reachable states.
\<close>

definition zero_process :: process_t where
  "zero_process = \<lparr>pid = 0, parent = 0, pname = [], prio = 0, state = PS_RUNNABLE, state_attr = SA_next_runnable None,
     registers = (\<lambda>_. CInt 0), kernel_stack = (\<lambda>_. CInt 0), user_stack = None, ssize = 0\<rparr>"

definition zero_queue :: queue_t where
  "zero_queue = \<lparr>front = 0, rear = 0, qsize = 0, capacity = 0, messages = None, empty_process = None, full_process = None\<rparr>"

definition zero_state :: kstate where
  "zero_state = \<lparr>processes = (\<lambda>_. zero_process), active_process = 0, runnable_process_head = None, dead_process_head = None,
     asleep_process_head = None, queues = (\<lambda>_. zero_queue), pit_count = 0, tss_esp0 = CInt 0, child_pid = (\<lambda>_. 0),
     retval_cell = (\<lambda>_. 0), message_cell = (\<lambda>_. 0), umem = (\<lambda>_. CInt 0), ustack_blocks = [], kheap_used = 0, pend = (\<lambda>_. None)\<rparr>"

lemma zeroed_zero_state: "zeroed zero_state"
  by (simp add: zeroed_def zero_state_def zero_process_def zero_queue_def)

definition demo_alloc :: "u32 \<Rightarrow> u32 option" where
  "demo_alloc n = Some 0x1100000"

definition demo_boot :: kstate where
  "demo_boot = the (kernel_start demo_alloc 0x1000000 zero_state)"

fun krun :: "kcall list \<Rightarrow> kstate \<Rightarrow> (int option list \<times> kstate) option" where
  "krun [] s = Some ([], s)"
| "krun (c # cs) s = do { s \<leftarrow> kexec c s; (v, s) \<leftarrow> resume s; (vs, s) \<leftarrow> krun cs s; Some (v # vs, s) }"

definition demo_state :: kstate where
  "demo_state = snd (the (krun [C_tick] (demo_boot\<lparr>pit_count := 3\<rparr>)))"

lemma demo_boot: "kernel_start demo_alloc 0x1000000 zero_state = Some demo_boot" "boot_inv demo_boot"
  using kernel_start_ok [OF zeroed_zero_state, of demo_alloc "0x1000000"]
  by (auto simp: demo_boot_def zero_state_def)

lemma kboot_demo: "kboot demo_boot"
  by (rule kboot_start [OF zeroed_zero_state demo_boot(1)]) (simp add: zero_state_def)

text \<open>A tick that does not call the scheduler only counts.\<close>

lemma quiet_tick:
  assumes "boot_inv s" and "\<not> sched_tick s"
  shows "kstep s C_tick None (s\<lparr>pit_count := pit_count s + 1\<rparr>)"
proof -
  have "(pend s)(active_process s := None) = pend s" using assms(1) by (auto simp: boot_inv_def)
  then show ?thesis using assms(2)
    by (intro kstepI [of C_tick s "push_cont K_iret (s\<lparr>pit_count := pit_count s + 1\<rparr>)"])
      (simp_all add: tic_clock_def sched_tick_def Let_def resume_def run_cont_def push_cont_def)
qed

lemma demo_ticks:
  assumes "pit_count demo_boot = 0"
  shows "kboot (demo_boot\<lparr>pit_count := 3\<rparr>)"
proof -
  have t: "kboot (s\<lparr>pit_count := pit_count s + 1\<rparr>)" if "kboot s" "\<not> sched_tick s" for s
    using kboot_tick [OF that quiet_tick [OF kboot_inv [OF that(1)] that(2)]] .
  have d: "c_div CLOCKFREQ SCHEDFREQ = 4" by (simp add: CLOCKFREQ_def SCHEDFREQ_def)
  have "kboot (demo_boot\<lparr>pit_count := 1\<rparr>)" using t [OF kboot_demo] assms by (simp add: sched_tick_def d)
  from t [OF this] have "kboot (demo_boot\<lparr>pit_count := 2\<rparr>)" by (simp add: sched_tick_def d)
  from t [OF this] show ?thesis by (simp add: sched_tick_def d)
qed

text \<open>The state after one more call.\<close>

definition kafter :: "kcall \<Rightarrow> kstate \<Rightarrow> kstate" where
  "kafter c s = snd (the (krun [c] s))"

lemma kreach_after:
  assumes "kreach s" and "kallowed c s"
  shows "kreach (kafter c s)"
proof -
  from kexec_ok [OF kreach_kinv [OF assms(1)] assms(2)] obtain s1 L where s1: "kexec c s = Some s1" "sched_ok s1 L" by blast
  from resume_ok [OF s1(2)] obtain v s2 where s2: "resume s1 = Some (v, s2)" by blast
  have "kafter c s = s2" using s1 s2 by (simp add: kafter_def)
  then show ?thesis using kreach_step [OF assms(1) kstepI [OF assms(2) s1(1) s2]] by simp
qed

end
