(* ===== verification/Kernel_Funs.thy ===== *)
theory Kernel_Funs
  imports Kernel_Demo
begin

text \<open>
  What single operations do on their branches, beyond keeping the invariant, and the concrete states
  that the instances of the theorems use.
\<close>

section \<open>The concrete state\<close>

lemma demo_pit: "pit_count demo_boot = 0"
  by code_simp

lemma demo_active: "map_option (\<lambda>(vs, s). active_process s) (krun [C_tick] (demo_boot\<lparr>pit_count := 3\<rparr>)) = Some 1"
  by code_simp

lemma demo_step: "kstep (demo_boot\<lparr>pit_count := 3\<rparr>) C_tick (hd (fst (the (krun [C_tick] (demo_boot\<lparr>pit_count := 3\<rparr>))))) demo_state"
  using demo_active unfolding demo_state_def
  by (auto simp: bind_eq_Some_conv intro!: kstepI)

lemma kreach_demo: "kreach demo_state"
  by (rule kreach_first [OF demo_ticks [OF demo_pit] _ demo_step]) (simp add: sched_tick_def CLOCKFREQ_def SCHEDFREQ_def)

lemma active_demo: "active_process demo_state = 1"
  using demo_active unfolding demo_state_def by (auto simp: bind_eq_Some_conv)

lemma demo_idle: "state (processes demo_state 0) = PS_RUNNABLE" "prio (processes demo_state 0) = 0" "prio (processes demo_state 1) = 1"
  by code_simp+

lemma demo_dead: "dead_process_head demo_state = Some 2"
  by code_simp

section \<open>Creating, waiting, ending\<close>

lemma resume_ret: "pend s (active_process s) = None \<Longrightarrow> resume (push_cont (K_ret v) s) = Some (Some v, s)"
  by (simp add: resume_def run_cont_def push_cont_def Let_def fun_upd_idem)

lemma fix_no_switch:
  assumes inv: "ginv s L {}" and "st s (active_process s) = PS_RUNNING"
    and "\<And>p. p \<in> set (LR L) \<Longrightarrow> prio (processes s p) \<le> prio (processes s (active_process s))"
  shows "fix_scheduler s = Some s"
proof (cases "LR L")
  case Nil then show ?thesis using assms(2) by (simp add: fix_scheduler_def head_LR [OF ginvD(1) [OF inv]])
next
  case (Cons h hs)
  then show ?thesis using assms(2) assms(3) [of h] by (simp add: fix_scheduler_def head_LR [OF ginvD(1) [OF inv]])
qed

lemma kinv_dead_head:
  assumes "ginv s L {}" and "dead_process_head s = Some c"
  shows "\<exists>ds. LD L = c # ds"
  using dead_head(1) [OF assms(1)] assms(2) by (cases "LD L") auto

lemma start_step:
  assumes k: "kinv s" and a: "active_process s \<noteq> 0" and d: "dead_process_head s = Some c" and sz: "unat sz div 4 \<le> NBSTACK"
    and pr: "pr \<le> prio (processes s (active_process s))"
  shows "\<exists>s'. kstep s (C_start fn sz pr nm arg) (Some (int c)) s' \<and> active_process s' = active_process s \<and>
    state (processes s' c) = PS_RUNNABLE \<and> prio (processes s' c) = pr \<and> parent (processes s' c) = int (active_process s) \<and>
    c < NBPROC \<and> kinv s' \<and> (\<forall>q. q \<noteq> c \<longrightarrow> state (processes s' q) = state (processes s q) \<and> parent (processes s' q) = parent (processes s q) \<and>
      prio (processes s' q) = prio (processes s q))"
proof -
  from k obtain L where ok: "sched_ok s L" and pn: "pend s (active_process s) = None" by (rule kinvE)
  note inv = sched_okD(1) [OF ok] and run = sched_okD(2) [OF ok]
  from kinv_dead_head [OF inv d] obtain ds where LD: "LD L = c # ds" by blast
  note dh = dead_head(2) [OF inv LD]
  from start_background_ok [OF inv run, of fn sz pr nm arg] LD sz obtain s1 L1 where
    st: "start_background fn sz pr nm arg s = Some (int c, s1)" and inv1: "ginv s1 L1 {}" and
    s1: "active_process s1 = active_process s" "st s1 (active_process s) = PS_RUNNING" "st s1 c = PS_RUNNABLE"
      "parent (processes s1 c) = int (active_process s)" "\<And>q. prio (processes s1 q) = (if q = c then pr else prio (processes s q))"
      "set (LR L1) = insert c (set (LR L))" "pend s1 = (pend s)(c := None)"
      "\<And>q. q \<noteq> c \<Longrightarrow> st s1 q = st s q \<and> parent (processes s1 q) = parent (processes s q)" by auto
  have ca: "c \<noteq> active_process s" using dh run by auto
  have mx: "prio (processes s1 p) \<le> prio (processes s1 (active_process s1))" if "p \<in> set (LR L1)" for p
    using that s1 pr sched_okD(3) [OF ok, of p] ca by auto
  have ok1: "sched_ok s1 L1" using inv1 s1 mx by (simp add: sched_ok_def)
  have pn1: "pend s1 (active_process s1) = None" using s1 pn by simp
  have "fix_scheduler (push_cont (K_ret (int c)) s1) = Some (push_cont (K_ret (int c)) s1)"
    by (rule fix_no_switch [OF sched_okD(1) [OF sched_ok_ret [OF ok1]]]) (use s1 mx in auto)
  then have "start fn sz pr nm arg s = Some (push_cont (K_ret (int c)) s1)" using st by (simp add: start_def)
  then have "kstep s (C_start fn sz pr nm arg) (Some (int c)) s1"
    using a resume_ret [OF pn1] by (intro kstepI) simp_all
  then show ?thesis using s1 dh ok1 pn1 by (auto simp: kinv_def)
qed

lemma waitpid_block_step:
  assumes k: "kinv s" and a: "active_process s \<noteq> 0" and r: "caller_ptr r"
    and c: "c < NBPROC" "parent (processes s c) = int (active_process s)" "state (processes s c) \<noteq> PS_DEAD"
    and nz: "\<forall>p < NBPROC. parent (processes s p) = int (active_process s) \<longrightarrow> state (processes s p) \<noteq> PS_ZOMBIE"
  shows "\<exists>v s'. kstep s (C_waitpid NOPID r) v s' \<and> active_process s' \<noteq> active_process s \<and>
    state (processes s' (active_process s)) = PS_WAIT_CHILD \<and> child_pid s' (active_process s) = NOPID"
proof -
  let ?a = "active_process s"
  from k obtain L where ok: "sched_ok s L" by (rule kinvE)
  note inv = sched_okD(1) [OF ok]
  obtain h z where sc: "scan_children (int ?a) [0..<NBPROC] False s = (h, z)" by force
  have z: "z = None" using scan_children_Some [of "int ?a" "[0..<NBPROC]" False s h] sc nz by (cases z) auto
  then have h: "h" using scan_children_None [OF sc [unfolded z]] c by auto
  let ?s3 = "push_cont (K_waitpid r) (set_attr ?a (SA_child (I_child ?a)) (set_state ?a PS_WAIT_CHILD (s\<lparr>child_pid := (child_pid s)(?a := NOPID)\<rparr>)))"
  have lv: "\<exists>c < NBPROC. parent (processes s c) = int ?a \<and> (NOPID = int c \<or> NOPID < 0) \<and> st s c \<noteq> PS_DEAD \<and> st s c \<noteq> PS_ZOMBIE"
    using c nz by auto
  obtain s1 L1 where t: "tick_scheduler ?s3 = Some s1" "sched_ok s1 L1" "sframe ?s3 s1"
    using waitpid_block_frame [OF k a r, of NOPID] lv by blast
  have eq: "waitpid NOPID r s = Some s1"
    using t(1) getproc_active [OF inv] ginvD(4) [OF inv sched_okD(4) [OF ok]] sc z h sched_okD(2) [OF ok]
    by (simp add: waitpid_def Let_def remove_runnable_other)
  from resume_ok [OF t(2)] obtain v s2 where s2: "resume s1 = Some (v, s2)" by blast
  note rf = resume_frame [OF t(2) s2]
  have st3: "st ?s3 ?a = PS_WAIT_CHILD" by simp
  have "processes s1 ?a = processes ?s3 ?a" by (rule sframe_fields(15) [OF t(3)]) (use st3 in simp)
  then have st1: "st s1 ?a = PS_WAIT_CHILD" using st3 by simp
  have "child_pid s1 ?a = NOPID" using sframe_fields(4) [OF t(3)] by simp
  moreover have "active_process s1 \<noteq> ?a" using sched_okD(2) [OF t(2)] st1 by auto
  moreover have "kstep s (C_waitpid NOPID r) v s2" using a r eq s2 by (intro kstepI) simp_all
  ultimately show ?thesis using rf(1,2) rf(3) [of ?a] st1 by (intro exI [of _ v] exI [of _ s2]) simp
qed

lemma demo_no_zombie: "\<forall>p \<in> set [0..<30]. state (processes demo_state p) \<noteq> PS_ZOMBIE"
  by code_simp

lemma demo_no_sleeper: "asleep_process_head demo_state = None"
  by code_simp

lemma no_sleeper:
  assumes k: "kinv s" and h: "asleep_process_head s = None" and p: "p < NBPROC"
  shows "state (processes s p) \<noteq> PS_ASLEEP"
proof -
  from k obtain L where ok: "sched_ok s L" by (rule kinvE)
  note inv = sched_okD(1) [OF ok]
  have "slp_ok s (LA L)" using ginvD(1) [OF inv] by (simp add: lists_ok_def)
  then have "LA L = []" using h by (simp add: slp_ok_def)
  then show ?thesis using ginvD(3) [OF inv p] by (auto simp: proc_ok_def)
qed

text \<open>A reachable state in which process 1 has a child of its own priority.\<close>

lemma demo_child:
  "\<exists>s'. kreach s' \<and> active_process s' = 1 \<and> state (processes s' 2) = PS_RUNNABLE \<and> parent (processes s' 2) = 1 \<and>
     (\<forall>p < NBPROC. state (processes s' p) \<noteq> PS_ZOMBIE \<and> state (processes s' p) \<noteq> PS_ASLEEP) \<and>
     prio (processes s' 1) = 1 \<and> prio (processes s' 2) = 1"
proof -
  from start_step [OF kreach_kinv [OF kreach_demo] _ demo_dead, of 100 1 "0x2000" "''child''" 0]
  obtain s' where s': "kstep demo_state (C_start 0x2000 100 1 ''child'' 0) (Some 2) s'" "active_process s' = 1"
    "state (processes s' 2) = PS_RUNNABLE" "parent (processes s' 2) = 1" "prio (processes s' 2) = 1"
    "\<forall>q. q \<noteq> 2 \<longrightarrow> state (processes s' q) = state (processes demo_state q) \<and> prio (processes s' q) = prio (processes demo_state q)"
    by (auto simp: active_demo demo_idle [unfolded One_nat_def] NBSTACK_def)
  have "state (processes s' p) \<noteq> PS_ZOMBIE" if "p < NBPROC" for p
    using s'(3,6) demo_no_zombie that by (cases "p = 2") (auto simp: NBPROC_def simp del: upt_rec_numeral)
  moreover have "state (processes s' p) \<noteq> PS_ASLEEP" if "p < NBPROC" for p
    using s'(3,6) no_sleeper [OF kreach_kinv [OF kreach_demo] demo_no_sleeper that] by (cases "p = 2") auto
  moreover have "prio (processes s' 1) = 1" using s'(6) demo_idle by simp
  ultimately show ?thesis using s' kreach_step [OF kreach_demo s'(1)] by blast
qed

lemma exit_step:
  assumes k: "kinv s" and a: "active_process s \<noteq> 0"
  shows "\<exists>s'. exit v s = Some s' \<and> active_process s' \<noteq> active_process s \<and> (\<exists>L. sched_ok s' L) \<and>
    (parent (processes s (active_process s)) \<noteq> NOPID \<longrightarrow>
      state (processes s' (active_process s)) = PS_ZOMBIE \<and> zombie_retval s' (active_process s) = Some v)"
  using exit_ok [OF k a] by blast

lemma waitpid_collect_step:
  assumes k: "kinv s" and a: "active_process s \<noteq> 0" and c: "c < NBPROC" "state (processes s c) = PS_ZOMBIE"
    "parent (processes s c) = int (active_process s)" "zombie_retval s c = Some v"
  shows "\<exists>s'. kstep s (C_waitpid (int c) (I_user u)) (Some (int c)) s' \<and> umem s' u = CInt v \<and>
    state (processes s' c) = PS_DEAD \<and> kinv s'"
proof -
  from k obtain L where ok: "sched_ok s L" and pn: "pend s (active_process s) = None" by (rule kinvE)
  note inv = sched_okD(1) [OF ok]
  from waitpid_collect_ok [OF ok pn _ c(1-3), of "I_user u"] c(4) obtain s' L' where
    s': "waitpid_collect c (I_user u) s = Some (int c, s')" "sched_ok s' L'" "pend s' (active_process s') = None" "st s' c = PS_DEAD" "umem s' u = CInt v"
    by auto
  have "waitpid (int c) (I_user u) s = Some (push_cont (K_ret (int c)) s')"
    using s'(1) getproc_active [OF inv] ginvD(4) [OF inv sched_okD(4) [OF ok]] c by (simp add: waitpid_def is_valid_pid_def)
  then have "kstep s (C_waitpid (int c) (I_user u)) (Some (int c)) s'" using a resume_ret [OF s'(3)] by (intro kstepI) simp_all
  then show ?thesis using s' by (auto simp: kinv_def)
qed

lemma kill_child_step:
  assumes k: "kinv s" and a: "active_process s \<noteq> 0" and p: "0 < p" "alive_pid s p" "p \<noteq> int (active_process s)"
    and par: "parent (processes s (nat p)) = int (active_process s)"
  shows "\<exists>s'. kstep s (C_kill p) (Some 0) s' \<and> active_process s' = active_process s \<and> kinv s' \<and>
    state (processes s' (nat p)) = PS_ZOMBIE \<and> zombie_retval s' (nat p) = Some 0 \<and> parent (processes s' (nat p)) = parent (processes s (nat p))"
proof -
  let ?p = "nat p" and ?a = "active_process s"
  from k obtain L where ok: "sched_ok s L" and pn: "pend s ?a = None" by (rule kinvE)
  note inv = sched_okD(1) [OF ok] and run = sched_okD(2) [OF ok]
  from p have np: "?p < NBPROC" "?p \<noteq> 0" "st s ?p \<noteq> PS_DEAD" "st s ?p \<noteq> PS_ZOMBIE" and ip: "int ?p = p"
    by (auto simp: alive_pid_def)
  have pid: "pid (processes s ?p) = p" using ginvD(4) [OF inv np(1)] ip by simp
  have apn: "?a \<noteq> ?p" using p(3) ip by auto
  from stop_step [OF inv np, of 0] par obtain s1 s2 s3 s4 L4 where
    ch: "unbind_children p [0..<NBPROC] s = Some s1" "leave_wait ?p s1 = Some s2" "remove_runnable ?p s2 = Some s3"
      "(if parent (processes s3 ?p) = NOPID then push_dead ?p s3 else become_zombie ?p p 0 s3) = Some s4"
    and inv4: "ginv s4 L4 {}" and a4: "active_process s4 = ?a"
    and z: "st s4 ?p = PS_ZOMBIE" "zombie_retval s4 ?p = Some 0" "parent (processes s4 ?p) = parent (processes s ?p)"
    and r4: "\<And>q. q \<noteq> ?p \<Longrightarrow> st s q = PS_RUNNING \<Longrightarrow> st s4 q = PS_RUNNING"
    and pr4: "\<And>q. prio (processes s4 q) = prio (processes s q)" and pe4: "pend s4 = pend s"
    and rn4: "\<And>q. q \<noteq> ?p \<Longrightarrow> st s4 q = PS_RUNNABLE \<Longrightarrow> st s q = PS_RUNNABLE \<or> st s q = PS_WAIT_CHILD \<and> parent (processes s ?p) = int q"
    unfolding ip by auto
  have run4: "st s4 (active_process s4) = PS_RUNNING" using r4 [OF apn run] a4 by simp
  have mx: "prio (processes s4 q) \<le> prio (processes s4 ?a)" if "q \<in> set (LR L4)" for q
  proof -
    have q: "q < NBPROC" "st s4 q = PS_RUNNABLE" using lists_okD(1) [OF ginvD(1) [OF inv4] that] by auto
    then have "q \<noteq> ?p" using z(1) by auto
    from rn4 [OF this q(2)] par run have "st s q = PS_RUNNABLE" by auto
    then have "q \<in> set (LR L)" using ginvD(3) [OF inv q(1)] by (simp add: proc_ok_def)
    then show ?thesis using sched_okD(3) [OF ok] by (simp add: pr4)
  qed
  have ok4: "sched_ok s4 L4" using inv4 run4 mx a4 by (simp add: sched_ok_def)
  have "fix_scheduler (push_cont (K_ret 0) s4) = Some (push_cont (K_ret 0) s4)"
    by (rule fix_no_switch [OF sched_okD(1) [OF sched_ok_ret [OF ok4]]]) (use run4 mx a4 in auto)
  then have "kill p s = Some (push_cont (K_ret 0) s4)" using p pid ch by (simp add: kill_def stop_def Let_def)
  moreover have pn4: "pend s4 (active_process s4) = None" using pe4 pn a4 by simp
  ultimately have "kstep s (C_kill p) (Some 0) s4" using a resume_ret [OF pn4] by (intro kstepI) simp_all
  then show ?thesis using z a4 ok4 pn4 by (auto simp: kinv_def)
qed

text \<open>A reachable state in which the active process has a zombie child.\<close>

lemma demo_zombie:
  "\<exists>s. kreach s \<and> active_process s = 1 \<and> state (processes s 2) = PS_ZOMBIE \<and> parent (processes s 2) = 1 \<and> zombie_retval s 2 = Some 0"
proof -
  obtain s where s: "kreach s" "active_process s = 1" "state (processes s 2) = PS_RUNNABLE" "parent (processes s 2) = 1"
    using demo_child by blast
  from kill_child_step [OF kreach_kinv [OF s(1)], of 2] s obtain s' where
    "kstep s (C_kill 2) (Some 0) s'" "active_process s' = 1" "state (processes s' 2) = PS_ZOMBIE" "zombie_retval s' 2 = Some 0"
    "parent (processes s' 2) = 1" by (auto simp: alive_pid_def NBPROC_def)
  with kreach_step [OF s(1)] show ?thesis by blast
qed

section \<open>Sleeping\<close>

lemma clock_sorted_split:
  "clock_sorted s xs \<Longrightarrow> set (dropWhile (\<lambda>p. the (asleep_clock s p) \<le> t) xs) = {p \<in> set xs. t < the (asleep_clock s p)}"
proof (induction xs)
  case (Cons x xs)
  then have "clock_sorted s xs" "\<forall>y \<in> set xs. the (asleep_clock s x) \<le> the (asleep_clock s y)" by (auto simp: clock_sorted_def)
  with Cons.IH show ?case by (auto simp: not_le)
qed simp

lemma tick_wakes:
  assumes inv: "ginv s L {}"
  shows "\<exists>s'. tick_scheduler s = Some s' \<and>
    (\<forall>p < NBPROC. state (processes s' p) = PS_ASLEEP \<longleftrightarrow> state (processes s p) = PS_ASLEEP \<and> pit_count s < the (asleep_clock s p))"
proof -
  from ginv_tick [OF inv] obtain s' L' where t: "tick_scheduler s = Some s'" and ok: "sched_ok s' L'"
    and LA: "LA L' = dropWhile (\<lambda>p. the (asleep_clock s p) \<le> pit_count s) (LA L)" by blast
  note inv' = sched_okD(1) [OF ok]
  have asl: "st s p = PS_ASLEEP \<longleftrightarrow> p \<in> set (LA L)" if "ginv s L {}" "p < NBPROC" for s L p
    using ginvD(3) [OF that(1,2)] lists_okD(2) [OF ginvD(1) [OF that(1)], of p] by (auto simp: proc_ok_def)
  have "set (LA L') = {p \<in> set (LA L). pit_count s < the (asleep_clock s p)}"
    unfolding LA by (rule clock_sorted_split [OF sorted_okD(2) [OF ginvD(2) [OF inv]]])
  then show ?thesis using t asl [OF inv] asl [OF inv'] by auto
qed

section \<open>Queues\<close>

lemma pcreate_step:
  assumes k: "kinv s" and a: "active_process s \<noteq> 0" and n: "0 < n" "n \<le> 10000" and f: "find_free_queue [0..<NBQUEUE] s = Some f"
  shows "\<exists>s'. kstep s (C_pcreate True n) (Some (int f)) s' \<and> kinv s' \<and> valid_fid s' (int f) \<and> capacity (queues s' f) = n \<and>
    ring_list (queues s' f) = [] \<and> processes s' = processes s \<and> active_process s' = active_process s \<and> f < NBQUEUE \<and>
    dead_process_head s' = dead_process_head s"
proof -
  let ?s = "snd (pcreate True n s)"
  have k': "kinv ?s" by (rule pcreate_ok [OF k]) simp
  have fl: "f < NBQUEUE"
  proof -
    have "find_free_queue fs s = Some f \<Longrightarrow> f \<in> set fs" for fs by (induction fs) (auto split: if_splits)
    from this [OF f] show ?thesis by simp
  qed
  have pc: "fst (pcreate True n s) = int f" "processes ?s = processes s" "active_process ?s = active_process s"
    "capacity (queues ?s f) = n" "qsize (queues ?s f) = 0" "dead_process_head ?s = dead_process_head s"
    using n f by (simp_all add: pcreate_def Let_def upd_queue_def)
  have "pend ?s (active_process ?s) = None" using k' by (simp add: kinv_def)
  from resume_ret [OF this, of "int f"] have "kstep s (C_pcreate True n) (Some (int f)) ?s"
    using a pc(1) by (intro kstepI [where ?s1.0 = "push_cont (K_ret (int f)) ?s"]) (auto simp: case_prod_unfold)
  moreover have "ring_list (queues ?s f) = []" using pc(5) by (simp add: ring_list_def)
  moreover have "valid_fid ?s (int f)" using pc n fl by (simp add: valid_fid_def is_queue_free_def)
  ultimately show ?thesis using k' pc fl by blast
qed

lemma preceive_block_step:
  assumes k: "kinv s" and a: "active_process s \<noteq> 0" and v: "valid_fid s fid" "is_queue_empty (queues s (nat fid))" and m: "caller_ptr m"
  shows "\<exists>v s'. kstep s (C_preceive fid m) v s' \<and> kinv s' \<and> active_process s' \<noteq> active_process s \<and>
    state (processes s' (active_process s)) = PS_WAIT_QUEUE_EMPTY \<and> wait_message s' (active_process s) = Some m \<and>
    wait_fid s' (active_process s) = Some fid \<and>
    (\<forall>g. qsame (queues s g) (queues s' g)) \<and>
    (empty_process (queues s (nat fid)) = None \<longrightarrow> empty_process (queues s' (nat fid)) = Some (active_process s))"
proof -
  let ?a = "active_process s" and ?f = "nat fid"
  from k obtain L where ok: "sched_ok s L" by (rule kinvE)
  note inv = sched_okD(1) [OF ok] and vr = valid_fid_ring [OF sched_okD(1) [OF ok] v(1)]
  let ?s = "s\<lparr>retval_cell := (retval_cell s)(?a := 0)\<rparr>"
  have "kinv ?s" using k by (simp add: kinv_cells)
  from block_on_ok [OF this, of ?f W_empty m] a vr m v(2) obtain s1 L1 where
    b: "block_on W_empty ?f ?a m ?s = Some s1" "sched_ok s1 L1" "active_process s1 \<noteq> ?a" "st s1 ?a = PS_WAIT_QUEUE_EMPTY"
      "wait_fid s1 ?a = Some (int ?f)" "wait_message s1 ?a = Some m" "wait_head W_empty ?f s = None \<longrightarrow> wait_head W_empty ?f s1 = Some ?a"
      "\<forall>g. qsame (queues s g) (queues s1 g)" by (auto simp: is_queue_empty_def)
  have eq: "preceive fid m s = Some s1" using v b(1) getproc_active [OF inv] by (simp add: preceive_def Let_def)
  from resume_ok [OF b(2)] obtain r s2 where s2: "resume s1 = Some (r, s2)" "kinv s2" by blast
  note rf = resume_frame [OF b(2) s2(1)]
  have "processes s2 ?a = processes s1 ?a" using rf(3) [of ?a] b(4) by simp
  moreover have "kstep s (C_preceive fid m) r s2" using a m eq s2 by (intro kstepI) simp_all
  moreover have "int ?f = fid" using v(1) by (auto simp: valid_fid_def)
  ultimately show ?thesis using b s2(2) rf(1,4) by (intro exI [of _ r] exI [of _ s2]) (auto simp: wait_head_def)
qed

lemma psend_handoff_step:
  assumes k: "kinv s" and v: "valid_fid s fid" and h: "empty_process (queues s (nat fid)) = Some h" and m: "wait_message s h = Some (I_user u)"
  shows "\<exists>s' L'. psend fid msg s = Some s' \<and> sched_ok s' L' \<and> umem s' u = CInt msg \<and> on_cpu (state (processes s' h)) \<and> h < NBPROC \<and>
    retval_cell s' h = retval_cell s h \<and> pend s' h = Some K_retval \<and> (\<forall>g. qsame (queues s g) (queues s' g))"
proof -
  let ?f = "nat fid" and ?s = "s\<lparr>umem := (umem s)(u := CInt msg)\<rparr>"
  from k obtain L where ok: "sched_ok s L" by (rule kinvE)
  note inv = sched_okD(1) [OF ok] and vr = valid_fid_ring [OF sched_okD(1) [OF ok] v]
  have "wtq_ok s W_empty ?f (LW L W_empty ?f)" using ginvD(1) [OF inv] by (simp add: lists_ok_def)
  then have "npath (wait_next s) (Some h) (LW L W_empty ?f)" using h by (simp add: wtq_ok_def wait_head_def)
  then obtain hs where lw: "LW L W_empty ?f = h # hs" by (cases "LW L W_empty ?f") auto
  have e: "is_queue_empty (queues s ?f)" "\<not> is_queue_full (queues s ?f)"
    using vr lw by (simp_all add: is_queue_empty_def is_queue_full_def)
  have ok': "sched_ok ?s L" by (rule sched_ok_store [OF ok])
  from wakeup_first_frame [OF sched_okD(1) [OF ok'] lw sched_okD(2) [OF ok'], of 0] obtain s' L' where
    w: "wakeup_first_process W_empty ?f (K_ret 0) ?s = Some s'" "sched_ok s' L'" "on_cpu (st s' h)" "umem s' = umem ?s"
      "retval_cell s' = retval_cell s" "\<forall>g. qsame (queues s g) (queues s' g)" "\<forall>p. p \<noteq> active_process s \<longrightarrow> pend s' p = pend s p" by auto
  have hh: "h < NBPROC" "st s h = PS_WAIT_QUEUE_EMPTY" using LW_head(3,4) [OF inv lw] by simp_all
  then have "pend s h = Some K_retval" using ginvD(3) [OF inv hh(1)] by (auto simp: proc_ok_def waiting_ok_def dest: spec [of _ W_empty])
  moreover have "h \<noteq> active_process s" using hh sched_okD(2) [OF ok] by auto
  moreover have "psend fid msg s = Some s'" using v e h m w(1) by (simp add: psend_def Let_def store_int_def)
  ultimately show ?thesis using w hh(1) by auto
qed

lemma demo_free_queue: "find_free_queue [0..<NBQUEUE] demo_state = Some 0"
proof -
  have "is_queue_free (queues demo_state 0)" by code_simp
  moreover have "[0..<NBQUEUE] = 0 # [1..<NBQUEUE]" by (simp add: upt_conv_Cons NBQUEUE_def del: upt_rec_numeral)
  ultimately show ?thesis by simp
qed

lemma demo_queue_heads: "empty_process (queues demo_state 0) = None" "full_process (queues demo_state 0) = None"
  by code_simp+

text \<open>Reachable states with an empty queue.\<close>

lemma demo_queue_of:
  assumes n: "0 < n" "n \<le> 10000"
  shows "\<exists>s. kreach s \<and> active_process s = 1 \<and> valid_fid s 0 \<and> capacity (queues s 0) = n \<and> is_queue_empty (queues s 0) \<and>
     ring_list (queues s 0) = [] \<and> empty_process (queues s 0) = None \<and> full_process (queues s 0) = None"
proof -
  from pcreate_step [OF kreach_kinv [OF kreach_demo] _ _ _ demo_free_queue, of n] n obtain s where
    s: "kstep demo_state (C_pcreate True n) (Some 0) s" "kinv s" "valid_fid s 0" "capacity (queues s 0) = n" "ring_list (queues s 0) = []"
      "active_process s = 1" by (auto simp: active_demo)
  from s(5) have "nat (qsize (queues s 0)) = 0" using length_ring_list [of "queues s 0"] by simp
  moreover obtain L where "sched_ok s L" using s(2) by (rule kinvE)
  then have "ring_ok (queues s 0)" using valid_fid_ring(3) [OF sched_okD(1) s(3)] by simp
  ultimately have e: "is_queue_empty (queues s 0)" using ring_okD(4) [of "queues s 0"] by (simp add: is_queue_empty_def)
  have "empty_process (queues s 0) = None \<and> full_process (queues s 0) = None"
  proof -
    from s(1) obtain s1 where s1: "kexec (C_pcreate True n) demo_state = Some s1" "resume s1 = Some (Some 0, s)" by (auto elim: kstepE)
    from kexec_ok [OF kreach_kinv [OF kreach_demo], of "C_pcreate True n"] s1(1) obtain L where "sched_ok s1 L" by (auto simp: active_demo)
    then have "queues s = queues s1" using resume_frame(4) s1(2) by blast
    then show ?thesis using s1(1) demo_queue_heads demo_free_queue n
      by (auto simp: pcreate_def Let_def upd_queue_def push_cont_def)
  qed
  with s e kreach_step [OF kreach_demo s(1)] show ?thesis by blast
qed

lemma demo_queue:
  "\<exists>s. kreach s \<and> active_process s = 1 \<and> valid_fid s 0 \<and> capacity (queues s 0) = 1 \<and> is_queue_empty (queues s 0) \<and>
     ring_list (queues s 0) = [] \<and> empty_process (queues s 0) = None \<and> full_process (queues s 0) = None"
  by (rule demo_queue_of) simp_all

text \<open>A reachable state in which process 1 waits for a message on queue 0.\<close>

lemma demo_receiver:
  "\<exists>s. kreach s \<and> valid_fid s 0 \<and> empty_process (queues s 0) = Some 1 \<and> wait_message s 1 = Some (I_user 0x1200000) \<and>
     state (processes s 1) = PS_WAIT_QUEUE_EMPTY \<and> wait_fid s 1 = Some 0"
proof -
  obtain s where s: "kreach s" "active_process s = 1" "valid_fid s 0" "is_queue_empty (queues s 0)" "empty_process (queues s 0) = None"
    using demo_queue by blast
  from preceive_block_step [OF kreach_kinv [OF s(1)] _ s(3), of "I_user 0x1200000"] s(2,4,5) obtain v s' where
    s': "kstep s (C_preceive 0 (I_user 0x1200000)) v s'" "state (processes s' 1) = PS_WAIT_QUEUE_EMPTY"
      "wait_message s' 1 = Some (I_user 0x1200000)" "wait_fid s' 1 = Some 0" "empty_process (queues s' 0) = Some 1"
      "\<forall>g. qsame (queues s g) (queues s' g)" by auto
  have "valid_fid s' 0" using s(3) s'(6) by (simp add: valid_fid_def is_queue_free_def qsame_def)
  with s' kreach_step [OF s(1) s'(1)] show ?thesis by blast
qed

section \<open>Turns\<close>

text \<open>The list that a head pointer and the links represent, read off with as many steps as there are processes.\<close>

fun list_from :: "nat \<Rightarrow> (nat \<Rightarrow> ptr option) \<Rightarrow> ptr \<Rightarrow> nat list" where
  "list_from fuel nx None = []"
| "list_from 0 nx (Some p) = []"
| "list_from (Suc fuel) nx (Some p) = p # (case nx p of None \<Rightarrow> [] | Some n \<Rightarrow> list_from fuel nx n)"

lemma list_from_npath: "npath nx h xs \<Longrightarrow> length xs \<le> fuel \<Longrightarrow> list_from fuel nx h = xs"
proof (induction xs arbitrary: h fuel)
  case Nil then show ?case by (cases fuel) simp_all
next
  case (Cons x xs) then show ?case by (cases fuel) auto
qed

definition runnable_list :: "kstate \<Rightarrow> nat list" where
  "runnable_list s = list_from NBPROC (next_runnable s) (runnable_process_head s)"

lemma runnable_list_LR: "ginv s L X \<Longrightarrow> runnable_list s = LR L"
proof -
  assume "ginv s L X"
  then have r: "run_ok s (LR L)" using ginvD(1) by (auto simp: lists_ok_def)
  show ?thesis unfolding runnable_list_def
    by (rule list_from_npath [OF _ run_ok_length [OF r]]) (use r in \<open>simp add: run_ok_def\<close>)
qed

lemma tick_turn:
  assumes k: "kinv s" and h: "runnable_list s = h # hs" and eq: "prio (processes s h) = prio (processes s (active_process s))"
    and late: "\<forall>p < NBPROC. state (processes s p) = PS_ASLEEP \<longrightarrow> pit_count s < the (asleep_clock s p)"
  shows "\<exists>s'. tick_scheduler s = Some s' \<and> active_process s' = h \<and> state (processes s' h) = PS_RUNNING \<and>
    runnable_list s' = ins (\<lambda>p. prio (processes s (active_process s)) \<le> prio (processes s p)) (active_process s) hs"
proof -
  let ?a = "active_process s"
  from k obtain L where ok: "sched_ok s L" by (rule kinvE)
  note inv = sched_okD(1) [OF ok] and run = sched_okD(2) [OF ok]
  have LR: "LR L = h # hs" using runnable_list_LR [OF inv] h by simp
  have "wake_asleep NBPROC s = Some s"
  proof (cases "asleep_process_head s")
    case None then show ?thesis by (subst wake_asleep.simps) simp
  next
    case (Some p)
    have "slp_ok s (LA L)" using ginvD(1) [OF inv] by (simp add: lists_ok_def)
    then have "p \<in> set (LA L)" using Some by (cases "LA L") (auto simp: slp_ok_def)
    from lists_okD(2) [OF ginvD(1) [OF inv] this] late obtain c where "asleep_clock s p = Some c" "\<not> c \<le> pit_count s" by (auto simp: not_le)
    then show ?thesis using Some by (subst wake_asleep.simps) simp
  qed
  moreover have hd: "runnable_process_head s = Some h" using head_LR [OF ginvD(1) [OF inv]] LR by simp
  moreover obtain n where n: "next_runnable s h = Some n"
    using ginv_pop_runnable [OF ginv_subset [OF inv, of "{h}"] LR] by auto
  moreover obtain s1 where s1: "push_runnable ?a (s\<lparr>active_process := h, runnable_process_head := n\<rparr>) = Some s1" "active_process s1 = h"
    and sw: "switch_spec h s L ((set_state h PS_RUNNING s1)\<lparr>tss_esp0 := A_kstack h (NBSTACK - 1)\<rparr>)
      (L\<lparr>LR := ins (\<lambda>x. prio (processes s ?a) \<le> prio (processes s x)) ?a hs\<rparr>)"
    using ginv_switch_running [OF inv LR run n, of "A_kstack h (NBSTACK - 1)"] by blast
  ultimately have "tick_scheduler s = Some ((set_state h PS_RUNNING s1)\<lparr>tss_esp0 := A_kstack h (NBSTACK - 1)\<rparr>)"
    using eq run by (simp add: tick_scheduler_def Let_def)
  moreover have "ginv ((set_state h PS_RUNNING s1)\<lparr>tss_esp0 := A_kstack h (NBSTACK - 1)\<rparr>)
      (L\<lparr>LR := ins (\<lambda>x. prio (processes s ?a) \<le> prio (processes s x)) ?a hs\<rparr>) {}" using sw by (simp add: switch_spec_def)
  ultimately show ?thesis using runnable_list_LR s1(2) by fastforce
qed

text \<open>The head of the runnable list has the priority of the running process when some runnable process has it.\<close>

lemma runnable_head_prio:
  assumes k: "kinv s" and p: "p < NBPROC" "state (processes s p) = PS_RUNNABLE" "prio (processes s p) = prio (processes s (active_process s))"
  shows "\<exists>h hs. runnable_list s = h # hs \<and> prio (processes s h) = prio (processes s (active_process s))"
proof -
  from k obtain L where ok: "sched_ok s L" by (rule kinvE)
  note inv = sched_okD(1) [OF ok]
  have mem: "p \<in> set (LR L)" using ginvD(3) [OF inv p(1)] p(2) by (simp add: proc_ok_def)
  then obtain h hs where LR: "LR L = h # hs" by (cases "LR L") auto
  have "prio_sorted s {} (LR L)" using ginvD(2) [OF inv] by (simp add: sorted_ok_def)
  then have "prio (processes s p) \<le> prio (processes s h)" using mem LR by (auto simp: prio_sorted_def)
  moreover have "prio (processes s h) \<le> prio (processes s (active_process s))" using sched_okD(3) [OF ok, of h] LR by simp
  ultimately show ?thesis using runnable_list_LR [OF inv] LR p(3) by auto
qed

section \<open>Sending and receiving without blocking\<close>

lemma ring_list_qsame: "qsame q q' \<Longrightarrow> ring_list q' = ring_list q"
  by (rule ring_list_cong) (simp_all add: qsame_def)

text \<open>Sending to a queue with room on which nobody waits; the ring buffer needs to be well formed, nothing else.\<close>

lemma psend_room:
  assumes v: "valid_fid s fid" and ok: "ring_ok (queues s (nat fid))" and room: "\<not> is_queue_full (queues s (nat fid))"
    and h: "empty_process (queues s (nat fid)) = None"
  shows "\<exists>q'. psend fid msg s = Some (push_cont (K_ret 0) (upd_queue (nat fid) (\<lambda>_. q') s)) \<and> ring_ok q' \<and>
    ring_list q' = ring_list (queues s (nat fid)) @ [msg] \<and> qsize q' = qsize (queues s (nat fid)) + 1 \<and> qlinks_same (queues s (nat fid)) q'"
proof -
  let ?q = "queues s (nat fid)"
  have "qsize ?q < capacity ?q" using room ring_okD(5) [OF ok] by (simp add: is_queue_full_def)
  from push_message_ok [OF ok this, of msg] obtain q' where q': "push_message ?q msg = Some q'" "ring_ok q'" "ring_list q' = ring_list ?q @ [msg]"
    "qsize q' = qsize ?q + 1" "qlinks_same ?q q'" by blast
  moreover have "psend fid msg s = Some (push_cont (K_ret 0) (upd_queue (nat fid) (\<lambda>_. q') s))" using v room h q'(1)
    by (cases "is_queue_empty ?q") (simp_all add: psend_def Let_def)
  ultimately show ?thesis by blast
qed

lemma psend_room_step:
  assumes k: "kinv s" and a: "active_process s \<noteq> 0" and v: "valid_fid s fid" and room: "\<not> is_queue_full (queues s (nat fid))"
    and h: "empty_process (queues s (nat fid)) = None"
  shows "\<exists>s'. kstep s (C_psend fid msg) (Some 0) s' \<and> ring_list (queues s' (nat fid)) = ring_list (queues s (nat fid)) @ [msg] \<and>
    active_process s' = active_process s \<and> processes s' = processes s \<and> (\<forall>g. g \<noteq> nat fid \<longrightarrow> queues s' g = queues s g) \<and>
    capacity (queues s' (nat fid)) = capacity (queues s (nat fid))"
proof -
  let ?f = "nat fid"
  from k obtain L where ok: "sched_ok s L" and pn: "pend s (active_process s) = None" by (rule kinvE)
  from psend_room [OF v valid_fid_ring(3) [OF sched_okD(1) [OF ok] v] room h, of msg] obtain q' where
    q': "psend fid msg s = Some (push_cont (K_ret 0) (upd_queue ?f (\<lambda>_. q') s))" "ring_list q' = ring_list (queues s ?f) @ [msg]"
    "qlinks_same (queues s ?f) q'" by blast
  let ?s = "upd_queue ?f (\<lambda>_. q') s"
  have "pend ?s (active_process ?s) = None" using pn by (simp add: upd_queue_def)
  with q'(1) have "kstep s (C_psend fid msg) (Some 0) ?s" using a resume_ret by (intro kstepI) simp_all
  then show ?thesis using q' by (intro exI [of _ ?s]) (simp add: upd_queue_def qlinks_same_def)
qed

text \<open>A process that has a blocked queue operation to return from is not asleep.\<close>

lemma not_asleep:
  assumes ok: "sched_ok s L" and p: "p < NBPROC" "pend s p = Some K_retval" and c: "on_cpu (state (processes s p))"
  shows "state (processes s p) = PS_RUNNABLE \<or> state (processes s p) = PS_RUNNING"
  using ginvD(3) [OF sched_okD(1) [OF ok] p(1)] p(2) c by (auto simp: proc_ok_def)

lemma sender_woken:
  assumes ok: "sched_ok s L" and lw: "LW L W_full f = h # hs" and ok3: "sched_ok t L"
    and t: "active_process t = active_process s" "pend t = pend s"
  shows "\<exists>s' L'. wakeup_first_process W_full f (K_ret 0) t = Some s' \<and> sched_ok s' L' \<and> umem s' = umem t \<and>
    qsame (queues t f) (queues s' f) \<and> (state (processes s' h) = PS_RUNNABLE \<or> state (processes s' h) = PS_RUNNING)"
proof -
  note inv = sched_okD(1) [OF ok]
  from wakeup_first_frame [OF sched_okD(1) [OF ok3] lw sched_okD(2) [OF ok3], of 0] obtain s' L' where
    w: "wakeup_first_process W_full f (K_ret 0) t = Some s'" "sched_ok s' L'" "on_cpu (st s' h)" "umem s' = umem t"
      "qsame (queues t f) (queues s' f)" "\<forall>p. p \<noteq> active_process t \<longrightarrow> pend s' p = pend t p" by blast
  have hh: "h < NBPROC" "st s h = PS_WAIT_QUEUE_FULL" using LW_head(3,4) [OF inv lw] by simp_all
  then have "pend s h = Some K_retval" using ginvD(3) [OF inv hh(1)] by (auto simp: proc_ok_def waiting_ok_def dest: spec [of _ W_full])
  moreover have "h \<noteq> active_process s" using hh sched_okD(2) [OF ok] by auto
  ultimately have "pend s' h = Some K_retval" using w(6) t by simp
  from not_asleep [OF w(2) hh(1) this w(3)] show ?thesis using w by blast
qed

lemma preceive_take_step:
  assumes k: "kinv s" and v: "valid_fid s fid" and ne: "ring_list (queues s (nat fid)) = x # xs"
  shows "\<exists>s' L'. preceive fid (I_user u) s = Some s' \<and> sched_ok s' L' \<and> umem s' u = CInt x \<and>
    (case full_process (queues s (nat fid)) of
       None \<Rightarrow> ring_list (queues s' (nat fid)) = xs
     | Some h \<Rightarrow> ring_list (queues s' (nat fid)) = xs @ [message_cell s h] \<and>
         (state (processes s' h) = PS_RUNNABLE \<or> state (processes s' h) = PS_RUNNING))"
proof -
  let ?f = "nat fid" and ?q = "queues s (nat fid)"
  from k obtain L where ok: "sched_ok s L" by (rule kinvE)
  note inv = sched_okD(1) [OF ok] and vr = valid_fid_ring [OF sched_okD(1) [OF ok] v]
  have pos: "0 < qsize ?q" using ne length_ring_list [of ?q] by (cases "0 < qsize ?q") auto
  from pop_message_ok [OF vr(3) pos] ne obtain q1 where q1: "pop_message ?q = Some (x, q1)" "ring_ok q1" "ring_list q1 = xs"
    "qsize q1 = qsize ?q - 1" "qlinks_same ?q q1" by auto
  let ?s2 = "(upd_queue ?f (\<lambda>_. q1) s)\<lparr>umem := (umem s)(u := CInt x)\<rparr>"
  have nonempty: "\<not> is_queue_empty ?q" using pos by (simp add: is_queue_empty_def)
  have st: "store_int (I_user u) x (upd_queue ?f (\<lambda>_. q1) s) = Some ?s2" by (simp add: store_int_def upd_queue_def)
  have s2q: "queues ?s2 ?f = q1" by (simp add: upd_queue_def)
  show ?thesis
  proof (cases "full_process ?q")
    case None
    have "LW L W_full ?f = []" using no_waiter [OF inv, of W_full ?f] None by (simp add: wait_head_def)
    moreover have "LW L W_empty ?f = []" using vr(5) pos by auto
    ultimately have "sched_ok (upd_queue ?f (\<lambda>_. q1) s) L" by (intro sched_ok_new_ring [OF ok v q1(2,5)]) simp_all
    then have "sched_ok (push_cont (K_ret 0) ?s2) L" by (intro sched_ok_ret sched_ok_store)
    moreover have "preceive fid (I_user u) s = Some (push_cont (K_ret 0) ?s2)"
      using v nonempty q1(1,5) st s2q None by (simp add: preceive_def Let_def qlinks_same_def)
    ultimately show ?thesis using None q1(3) s2q by auto
  next
    case (Some h)
    have ld: "load_int (I_message h) ?s2 = Some (message_cell s h)" "wait_message ?s2 h = wait_message s h"
      by (simp_all add: upd_queue_def load_int_def)
    from preceive_refill [OF ok v Some q1(2,4,5) ld s2q] q1(3) obtain hs q2 where
      r: "LW L W_full ?f = h # hs" "qsize q1 = capacity q1 - 1" "wait_message ?s2 h = Some (I_message h)"
        "push_message q1 (message_cell s h) = Some q2" "ring_list q2 = xs @ [message_cell s h]"
        "sched_ok (upd_queue ?f (\<lambda>_. q2) s) L" by blast
    let ?s3 = "(upd_queue ?f (\<lambda>_. q2) s)\<lparr>umem := (umem s)(u := CInt x)\<rparr>"
    have ok3: "sched_ok ?s3 L" by (rule sched_ok_store) (rule r(6))
    from sender_woken [OF ok r(1) ok3] obtain s' L' where
      w: "wakeup_first_process W_full ?f (K_ret 0) ?s3 = Some s'" "sched_ok s' L'" "umem s' = umem ?s3"
        "qsame (queues ?s3 ?f) (queues s' ?f)" "state (processes s' h) = PS_RUNNABLE \<or> state (processes s' h) = PS_RUNNING"
      by (auto simp: upd_queue_def)
    have "upd_queue ?f (\<lambda>_. q2) ?s2 = ?s3" by (cases s) (simp add: upd_queue_def)
    moreover have "full_process q1 = Some h" using Some q1(5) by (simp add: qlinks_same_def)
    ultimately have "preceive fid (I_user u) s = Some s'"
      using v nonempty q1(1) st s2q ld r w(1) by (simp add: preceive_def Let_def)
    then show ?thesis using Some w ring_list_qsame [OF w(4)] r(5) by (auto simp: upd_queue_def)
  qed
qed

text \<open>A reachable state in which queue 0 holds the message 7.\<close>

lemma demo_message:
  "\<exists>s. kreach s \<and> valid_fid s 0 \<and> ring_list (queues s 0) = [7] \<and> active_process s = 1"
proof -
  obtain s where s: "kreach s" "active_process s = 1" "valid_fid s 0" "capacity (queues s 0) = 1" "is_queue_empty (queues s 0)"
    "ring_list (queues s 0) = []" "empty_process (queues s 0) = None" using demo_queue by blast
  have "\<not> is_queue_full (queues s (nat 0))" using s(4,5) by (simp add: is_queue_empty_def is_queue_full_def)
  from psend_room_step [OF kreach_kinv [OF s(1)] _ s(3) this, of 7] s obtain s' where
    s': "kstep s (C_psend 0 7) (Some 0) s'" "ring_list (queues s' 0) = [7]" "active_process s' = 1" "capacity (queues s' 0) = 1" by auto
  have "valid_fid s' 0" using s'(4) by (simp add: valid_fid_def is_queue_free_def NBQUEUE_def)
  with s' kreach_step [OF s(1) s'(1)] show ?thesis by blast
qed

end
