(* ===== verification/Kernel_Props.thy ===== *)
theory Kernel_Props
  imports Kernel_Funs
begin

text \<open>
  The theorems about the scheduler and the message queues that make the kernel correct, for every state
  that can be reached after start-up, and what single operations do on their branches.
\<close>

section \<open>Reachable states\<close>





text \<open>
  C4: No runnable process has a higher priority than the one that runs.
\<close>

theorem active_has_max_priority:
  assumes "kreach s" and "p < NBPROC" and "state (processes s p) = PS_RUNNABLE"
  shows "prio (processes s p) \<le> prio (processes s (active_process s))"
proof -
  from kreach_kinv [OF assms(1)] obtain L where ok: "sched_ok s L" by (rule kinvE)
  have "p \<in> set (LR L)" using ginvD(3) [OF sched_okD(1) [OF ok] assms(2)] assms(3) by (simp add: proc_ok_def)
  then show ?thesis by (rule sched_okD(3) [OF ok])
qed

theorem active_has_max_priority_witness:
  "prio (processes demo_state 0) \<le> prio (processes demo_state (active_process demo_state)) \<and>
   prio (processes demo_state 0) = 0 \<and> prio (processes demo_state (active_process demo_state)) = 1"
  using active_has_max_priority [OF kreach_demo _ demo_idle(1)] by (simp add: active_demo demo_idle [unfolded One_nat_def])

text \<open>
  C7: A process is in state \<^verbatim>\<open>PS_RUNNING\<close> exactly when it is the active process.
\<close>

theorem running_iff_active:
  assumes "kreach s" and "p < NBPROC"
  shows "state (processes s p) = PS_RUNNING \<longleftrightarrow> p = active_process s"
proof -
  from kreach_kinv [OF assms(1)] obtain L where ok: "sched_ok s L" by (rule kinvE)
  show ?thesis
    using ginvD(3) [OF sched_okD(1) [OF ok] assms(2)] sched_okD(2) [OF ok] by (auto simp: proc_ok_def)
qed

theorem running_iff_active_witness: "state (processes demo_state 1) = PS_RUNNING"
  using running_iff_active [OF kreach_demo, of 1] by (simp add: active_demo NBPROC_def)



text \<open>
  C9: No process waits on a message queue that could serve it: a process blocked in \<^verbatim>\<open>preceive\<close> waits on an
  existing queue that is empty, one blocked in \<^verbatim>\<open>psend\<close> on an existing queue that is full.
\<close>

theorem queue_waiters_justified:
  assumes "kreach s" and "p < NBPROC"
  shows "(state (processes s p) = PS_WAIT_QUEUE_EMPTY \<longrightarrow> (\<exists>f. wait_fid s p = Some f \<and> valid_fid s f \<and> is_queue_empty (queues s (nat f)))) \<and>
    (state (processes s p) = PS_WAIT_QUEUE_FULL \<longrightarrow> (\<exists>f. wait_fid s p = Some f \<and> valid_fid s f \<and> is_queue_full (queues s (nat f))))"
proof -
  from kreach_kinv [OF assms(1)] obtain L where ok: "sched_ok s L" by (rule kinvE)
  note inv = sched_okD(1) [OF ok]
  have "\<exists>f < NBQUEUE. wait_fid s p = Some (int f) \<and> capacity (queues s f) \<noteq> 0 \<and>
      (w = W_empty \<longrightarrow> qsize (queues s f) = 0) \<and> (w = W_full \<longrightarrow> qsize (queues s f) = capacity (queues s f))"
    if "st s p = wstate w" for w
  proof -
    from ginvD(3) [OF inv assms(2)] that have "waiting_ok s L w p" by (simp add: proc_ok_def)
    then obtain f where f: "f < NBQUEUE" "p \<in> set (LW L w f)" by (auto simp: waiting_ok_def)
    then have "LW L w f \<noteq> []" by auto
    with ginvD(6) [OF inv f(1)] have "capacity (queues s f) \<noteq> 0 \<and> (w = W_empty \<longrightarrow> qsize (queues s f) = 0) \<and>
        (w = W_full \<longrightarrow> qsize (queues s f) = capacity (queues s f))" by (auto simp: queue_ok_def Let_def split: if_splits)
    with f lists_okD(4) [OF ginvD(1) [OF inv] f(2)] show ?thesis by blast
  qed
  from this [of W_empty] this [of W_full] show ?thesis
    by (auto simp: valid_fid_def is_queue_empty_def is_queue_full_def is_queue_free_def)
qed

theorem queue_waiters_justified_witness:
  "\<exists>s. kreach s \<and> state (processes s 1) = PS_WAIT_QUEUE_EMPTY \<and> valid_fid s 0 \<and> is_queue_empty (queues s 0)"
proof -
  obtain s where s: "kreach s" "state (processes s 1) = PS_WAIT_QUEUE_EMPTY" "wait_fid s 1 = Some 0" using demo_receiver by blast
  from queue_waiters_justified [OF s(1), of 1] s show ?thesis by (auto simp: NBPROC_def)
qed

section \<open>Processes\<close>

text \<open>
  Creating a kernel process whose priority is not above the caller's: the call returns the number of the
  slot on top of the dead stack, the new process is runnable with the given priority and the caller as
  its parent, no other process changes state, and the caller keeps the processor.
\<close>

theorem start_without_preemption:
  assumes "kinv s" and "active_process s \<noteq> 0" and "dead_process_head s = Some c" and "unat sz div 4 \<le> NBSTACK"
    and "pr \<le> prio (processes s (active_process s))"
  shows "\<exists>s'. kstep s (C_start fn sz pr nm arg) (Some (int c)) s' \<and> active_process s' = active_process s \<and>
    state (processes s' c) = PS_RUNNABLE \<and> prio (processes s' c) = pr \<and> parent (processes s' c) = int (active_process s) \<and>
    c < NBPROC \<and> kinv s' \<and> (\<forall>q. q \<noteq> c \<longrightarrow> state (processes s' q) = state (processes s q) \<and> parent (processes s' q) = parent (processes s q) \<and>
      prio (processes s' q) = prio (processes s q))"
  by (rule start_step [OF assms])

theorem start_without_preemption_witness:
  "\<exists>s'. kstep demo_state (C_start 0x2000 100 1 ''child'' 0) (Some 2) s' \<and> state (processes s' 2) = PS_RUNNABLE \<and> parent (processes s' 2) = 1"
  using start_without_preemption [OF kreach_kinv [OF kreach_demo] _ demo_dead, of 100 1 "0x2000" "''child''" 0]
  by (auto simp: active_demo demo_idle [unfolded One_nat_def] NBSTACK_def)






text \<open>
  \<^verbatim>\<open>waitpid(-1, r)\<close> of a process that has children, none of them a zombie: the caller blocks in state
  \<^verbatim>\<open>PS_WAIT_CHILD\<close>, and another process runs.
\<close>

theorem waitpid_blocks:
  assumes "kinv s" and "active_process s \<noteq> 0" and "r = I_null \<or> (\<exists>u. r = I_user u)"
    and "c < NBPROC" and "parent (processes s c) = int (active_process s)" and "state (processes s c) \<noteq> PS_DEAD"
    and "\<forall>p < NBPROC. parent (processes s p) = int (active_process s) \<longrightarrow> state (processes s p) \<noteq> PS_ZOMBIE"
  shows "\<exists>v s'. kstep s (C_waitpid NOPID r) v s' \<and> active_process s' \<noteq> active_process s \<and>
    state (processes s' (active_process s)) = PS_WAIT_CHILD \<and> child_pid s' (active_process s) = NOPID"
  by (rule waitpid_block_step [OF assms])

theorem waitpid_blocks_witness:
  "\<exists>s v s'. active_process s = 1 \<and> kreach s \<and> kstep s (C_waitpid NOPID I_null) v s' \<and> state (processes s' 1) = PS_WAIT_CHILD"
proof -
  obtain s where s: "kreach s" "active_process s = 1" "state (processes s 2) = PS_RUNNABLE" "parent (processes s 2) = 1"
    "\<forall>p < NBPROC. state (processes s p) \<noteq> PS_ZOMBIE" using demo_child by auto
  from waitpid_blocks [OF kreach_kinv [OF s(1)], of I_null 2] s show ?thesis
    by (auto simp: NBPROC_def)
qed

text \<open>
  Killing a child: \<^verbatim>\<open>kill\<close> returns 0, the child is a zombie with return value 0 for its parent to collect, and the
  caller keeps the processor.
\<close>

theorem kill_child:
  assumes "kinv s" and "active_process s \<noteq> 0" and "0 < p" and "alive_pid s p" and "p \<noteq> int (active_process s)"
    and "parent (processes s (nat p)) = int (active_process s)"
  shows "\<exists>s'. kstep s (C_kill p) (Some 0) s' \<and> active_process s' = active_process s \<and> kinv s' \<and>
    state (processes s' (nat p)) = PS_ZOMBIE \<and> zombie_retval s' (nat p) = Some 0 \<and> parent (processes s' (nat p)) = parent (processes s (nat p))"
  by (rule kill_child_step [OF assms])

theorem kill_child_witness:
  "\<exists>s s'. kreach s \<and> kstep s (C_kill 2) (Some 0) s' \<and> state (processes s' 2) = PS_ZOMBIE"
proof -
  obtain s where s: "kreach s" "active_process s = 1" "state (processes s 2) = PS_RUNNABLE" "parent (processes s 2) = 1"
    using demo_child by blast
  from kill_child [OF kreach_kinv [OF s(1)], of 2] s show ?thesis by (auto simp: alive_pid_def NBPROC_def)
qed

section \<open>Time\<close>



text \<open>
  Round robin: when the first runnable process has the priority of the running one and no sleeper is due, a
  tick gives it the processor and puts the process that ran behind all processes of its priority.
\<close>

theorem tick_round_robin:
  assumes "kinv s" and "runnable_list s = h # hs" and "prio (processes s h) = prio (processes s (active_process s))"
    and "\<forall>p < NBPROC. state (processes s p) = PS_ASLEEP \<longrightarrow> pit_count s < the (asleep_clock s p)"
  shows "\<exists>s'. tick_scheduler s = Some s' \<and> active_process s' = h \<and> state (processes s' h) = PS_RUNNING \<and>
    runnable_list s' = takeWhile (\<lambda>p. prio (processes s (active_process s)) \<le> prio (processes s p)) hs @ active_process s #
      dropWhile (\<lambda>p. prio (processes s (active_process s)) \<le> prio (processes s p)) hs"
  using tick_turn [OF assms] by (simp add: ins_conv_takeWhile)

theorem tick_round_robin_witness:
  "\<exists>s h hs s'. kreach s \<and> active_process s = 1 \<and> runnable_list s = h # hs \<and> tick_scheduler s = Some s' \<and> active_process s' = h \<and> 1 \<in> set (runnable_list s')"
proof -
  obtain s where s: "kreach s" "active_process s = 1" "state (processes s 2) = PS_RUNNABLE"
    "\<forall>p < NBPROC. state (processes s p) \<noteq> PS_ASLEEP" "prio (processes s 1) = 1" "prio (processes s 2) = 1"
    using demo_child by auto
  obtain h hs where h: "runnable_list s = h # hs" "prio (processes s h) = prio (processes s (active_process s))"
    using runnable_head_prio [OF kreach_kinv [OF s(1)], of 2] s by (auto simp: NBPROC_def)
  obtain s' where s': "tick_scheduler s = Some s'" "active_process s' = h"
    "runnable_list s' = takeWhile (\<lambda>p. prio (processes s (active_process s)) \<le> prio (processes s p)) hs @ active_process s #
      dropWhile (\<lambda>p. prio (processes s (active_process s)) \<le> prio (processes s p)) hs"
    using tick_round_robin [OF kreach_kinv [OF s(1)] h] s(4) by auto
  have "1 \<in> set (runnable_list s')" using s'(3) s(2) by simp
  with s s' h show ?thesis by blast
qed

section \<open>Message queues\<close>

text \<open>
  C20: \<^verbatim>\<open>push_message\<close> and \<^verbatim>\<open>pop_message\<close> implement a first-in first-out queue: messages pushed within the capacity come
  out in the order they went in, after those that were there.
\<close>

theorem ring_fifo:
  assumes "ring_ok q" and "length (ring_list q) + length vs \<le> nat (capacity q)"
  shows "\<exists>q1 q2. bounded_fifo.pushes push_message vs q = Some q1 \<and>
    bounded_fifo.pops pop_message (length (ring_list q) + length vs) q1 = Some (ring_list q @ vs, q2) \<and> ring_ok q2 \<and> ring_list q2 = []"
  by (rule ring.fifo [OF assms])

theorem ring_fifo_witness:
  "\<exists>q1 q2. bounded_fifo.pushes push_message [7, 8] \<lparr>front = 1, rear = 1, qsize = 1, capacity = 3, messages = Some [4, 5, 6], empty_process = None, full_process = None\<rparr> = Some q1 \<and>
    bounded_fifo.pops pop_message 3 q1 = Some ([5, 7, 8], q2)"
proof -
  let ?q = "\<lparr>front = 1, rear = 1, qsize = 1, capacity = 3, messages = Some [4, 5, 6], empty_process = None, full_process = None\<rparr>"
  have "ring_ok ?q" "ring_list ?q = [5]" by (simp_all add: ring_ok_def ring_list_def)
  with ring_fifo [of ?q "[7, 8]"] show ?thesis by (auto simp: numeral_3_eq_3)
qed

text \<open>
  \<^verbatim>\<open>psend\<close> to a queue that is not full and on which nobody waits: the message goes behind those that are there,
  the call returns 0 and no process changes.
\<close>

theorem psend_appends:
  assumes "kinv s" and "active_process s \<noteq> 0" and "valid_fid s fid" and "\<not> is_queue_full (queues s (nat fid))"
    and "empty_process (queues s (nat fid)) = None"
  shows "\<exists>s'. kstep s (C_psend fid msg) (Some 0) s' \<and> ring_list (queues s' (nat fid)) = ring_list (queues s (nat fid)) @ [msg] \<and>
    processes s' = processes s \<and> (\<forall>g. g \<noteq> nat fid \<longrightarrow> queues s' g = queues s g)"
  using psend_room_step [OF assms] by blast

theorem psend_appends_witness: "\<exists>s s'. kreach s \<and> kstep s (C_psend 0 7) (Some 0) s' \<and> ring_list (queues s' 0) = [7]"
proof -
  obtain s where s: "kreach s" "active_process s = 1" "valid_fid s 0" "capacity (queues s 0) = 1" "is_queue_empty (queues s 0)"
    "ring_list (queues s 0) = []" "empty_process (queues s 0) = None" using demo_queue by blast
  have "\<not> is_queue_full (queues s (nat 0))" using s(4,5) by (simp add: is_queue_empty_def is_queue_full_def)
  from psend_appends [OF kreach_kinv [OF s(1)] _ s(3) this, of 7] s show ?thesis by auto
qed

text \<open>
  \<^verbatim>\<open>psend\<close> to a queue with a waiting receiver gives the message to the first of them directly: it is stored at the
  receiver's address, the receiver becomes ready with its call about to return, and the queue stays as it is.
\<close>

theorem psend_hands_over:
  assumes "kinv s" and "valid_fid s fid" and "empty_process (queues s (nat fid)) = Some h" and "wait_message s h = Some (I_user u)"
  shows "\<exists>s' L'. psend fid msg s = Some s' \<and> sched_ok s' L' \<and> umem s' u = CInt msg \<and>
    (state (processes s' h) = PS_RUNNABLE \<or> state (processes s' h) = PS_RUNNING) \<and> pend s' h = Some K_retval \<and>
    retval_cell s' h = retval_cell s h \<and> ring_list (queues s' (nat fid)) = ring_list (queues s (nat fid))"
proof -
  from psend_handoff_step [OF assms, of msg] obtain s' L' where s': "psend fid msg s = Some s'" "sched_ok s' L'" "umem s' u = CInt msg"
    "on_cpu (state (processes s' h))" "retval_cell s' h = retval_cell s h" "pend s' h = Some K_retval"
    "qsame (queues s (nat fid)) (queues s' (nat fid))" "h < NBPROC" by blast
  with ring_list_qsame [OF s'(7)] not_asleep [OF s'(2) s'(8) s'(6) s'(4)] show ?thesis by blast
qed

theorem psend_hands_over_witness:
  "\<exists>s s'. kreach s \<and> psend 0 42 s = Some s' \<and> umem s' 0x1200000 = CInt 42 \<and>
     (state (processes s' 1) = PS_RUNNABLE \<or> state (processes s' 1) = PS_RUNNING)"
proof -
  obtain s where s: "kreach s" "valid_fid s 0" "empty_process (queues s 0) = Some 1" "wait_message s 1 = Some (I_user 0x1200000)"
    using demo_receiver by blast
  from psend_hands_over [OF kreach_kinv [OF s(1)] s(2) _ s(4), of 42] s show ?thesis by auto
qed

text \<open>
  \<^verbatim>\<open>preceive\<close> from a queue that holds messages stores the oldest one and removes it; if a sender was waiting because
  the queue was full, its message takes the free place at the end and that sender becomes ready.
\<close>

theorem preceive_takes_oldest:
  assumes "kinv s" and "valid_fid s fid" and "ring_list (queues s (nat fid)) = x # xs"
  shows "\<exists>s' L'. preceive fid (I_user u) s = Some s' \<and> sched_ok s' L' \<and> umem s' u = CInt x \<and>
    (case full_process (queues s (nat fid)) of
       None \<Rightarrow> ring_list (queues s' (nat fid)) = xs
     | Some h \<Rightarrow> ring_list (queues s' (nat fid)) = xs @ [message_cell s h] \<and>
         (state (processes s' h) = PS_RUNNABLE \<or> state (processes s' h) = PS_RUNNING))"
  by (rule preceive_take_step [OF assms])

theorem preceive_takes_oldest_witness:
  "\<exists>s s'. kreach s \<and> preceive 0 (I_user 0x1200000) s = Some s' \<and> umem s' 0x1200000 = CInt 7"
proof -
  obtain s where s: "kreach s" "valid_fid s 0" "ring_list (queues s 0) = [7]" using demo_message by blast
  from preceive_takes_oldest [OF kreach_kinv [OF s(1)] s(2), of 7 "[]" "0x1200000"] s show ?thesis by auto
qed

text \<open>
  \<^verbatim>\<open>pdelete\<close> on an existing queue: afterwards the queue does not exist, and every process that waited on it, to send or to
  receive, is ready with \<open>-1\<close> as the result of its call. The buffer is not given back to the allocator.
\<close>

theorem pdelete_wakes_all:
  assumes "kinv s" and "valid_fid s fid"
  shows "\<exists>s' L'. pdelete fid s = Some s' \<and> sched_ok s' L' \<and> \<not> valid_fid s' fid \<and> kheap_used s' = kheap_used s \<and>
    (\<forall>p < NBPROC. (state (processes s p) = PS_WAIT_QUEUE_EMPTY \<or> state (processes s p) = PS_WAIT_QUEUE_FULL) \<and> wait_fid s p = Some fid \<longrightarrow>
       (state (processes s' p) = PS_RUNNABLE \<or> state (processes s' p) = PS_RUNNING) \<and> retval_cell s' p = -1 \<and> pend s' p = Some K_retval)"
proof -
  from pdelete_ok [OF assms(1), of fid] assms(2) obtain s' L' where s': "pdelete fid s = Some s'" "sched_ok s' L'" "\<not> valid_fid s' fid"
    "kheap_used s' = kheap_used s" "\<forall>p < NBPROC. waiting_on_queue (state (processes s p)) \<and> wait_fid s p = Some fid \<longrightarrow>
       on_cpu (state (processes s' p)) \<and> retval_cell s' p = -1 \<and> pend s' p = Some K_retval" by blast
  with not_asleep [OF s'(2)] show ?thesis by blast
qed

theorem pdelete_wakes_all_witness:
  "\<exists>s s'. kreach s \<and> state (processes s 1) = PS_WAIT_QUEUE_EMPTY \<and> pdelete 0 s = Some s' \<and>
     (state (processes s' 1) = PS_RUNNABLE \<or> state (processes s' 1) = PS_RUNNING) \<and> retval_cell s' 1 = -1"
proof -
  obtain s where s: "kreach s" "valid_fid s 0" "state (processes s 1) = PS_WAIT_QUEUE_EMPTY" "wait_fid s 1 = Some 0"
    using demo_receiver by blast
  from pdelete_wakes_all [OF kreach_kinv [OF s(1)] s(2)] s show ?thesis by (auto simp: NBPROC_def)
qed

end
