(* ===== verification/Memory.thy ===== *)
theory Memory
  imports Prelude
begin

text \<open>
  Byte-addressed memory of the 32-bit machine, as the C code of \<^verbatim>\<open>shared/\<close> sees it: an address is a
  32-bit word and arithmetic on addresses wraps. \<open>rd\<close> reads a block as a list of bytes, \<open>wr\<close> writes
  one; \<open>cstr\<close> says that a string ended by a zero byte starts at an address. Multi-byte integers are
  little endian.
\<close>

unbundle bit_operations_syntax

type_synonym mem = "u32 \<Rightarrow> u8"

section \<open>Blocks\<close>

primrec rd :: "mem \<Rightarrow> u32 \<Rightarrow> nat \<Rightarrow> u8 list" where
  "rd m a 0 = []"
| "rd m a (Suc n) = m a # rd m (a + 1) n"

primrec wr :: "mem \<Rightarrow> u32 \<Rightarrow> u8 list \<Rightarrow> mem" where
  "wr m a [] = m"
| "wr m a (x # xs) = wr (m(a := x)) (a + 1) xs"

text \<open>The addresses of a block.\<close>

definition block :: "u32 \<Rightarrow> nat \<Rightarrow> u32 set" where
  "block a n = {x. unat (x - a) < n}"

lemma in_block: "x \<in> block a n \<longleftrightarrow> unat (x - a) < n"
  by (simp add: block_def)

lemma unat_lt: "unat (x :: u32) < 4294967296"
  using unsigned_less [of x, where ?'a = nat] by simp

lemma unat_minus_one: "(x :: u32) \<noteq> 0 \<Longrightarrow> unat (x - 1) = unat x - 1"
  by (simp add: unat_minus_one)

lemma unat_plus_one: "unat x + 1 < 4294967296 \<Longrightarrow> unat (x + 1 :: u32) = unat x + 1"
  by (simp add: unat_word_ariths)

lemma block_Suc: "n < 4294967296 \<Longrightarrow> block a (Suc n) = insert a (block (a + 1) n)"
proof (intro set_eqI)
  fix x :: u32 assume n: "n < 4294967296"
  have "unat (x - a) < Suc n \<longleftrightarrow> x = a \<or> unat (x - (a + 1)) < n"
  proof (cases "x = a")
    case False
    then have nz: "x - a \<noteq> 0" by simp
    then have "unat (x - a) \<noteq> 0" by (simp add: unat_eq_0)
    moreover have "x - (a + 1) = x - a - 1" by (simp add: algebra_simps)
    ultimately have "unat (x - (a + 1)) = unat (x - a) - 1" "0 < unat (x - a)" using unat_minus_one [OF nz] by (simp_all only:)
    with False show ?thesis by arith
  qed simp
  then show "x \<in> block a (Suc n) \<longleftrightarrow> x \<in> insert a (block (a + 1) n)" by (simp add: in_block)
qed

lemma head_notin_block: "n < 4294967296 \<Longrightarrow> a \<notin> block (a + 1) n"
proof -
  assume "n < 4294967296"
  moreover have "a - (a + 1) = (- 1 :: u32)" by simp
  then have "unat (a - (a + 1)) = 4294967295" by (simp only:) (simp add: unsigned_minus_1_eq_mask mask_eq_exp_minus_1)
  ultimately show ?thesis by (simp add: in_block)
qed

lemma block_0 [simp]: "block a 0 = {}"
  by (simp add: block_def)

lemma block_mono: "n \<le> k \<Longrightarrow> block a n \<subseteq> block a k"
  by (auto simp: in_block)

lemma length_rd [simp]: "length (rd m a n) = n"
  by (induction n arbitrary: a) auto

lemma rd_cong: "(\<And>x. x \<in> block a n \<Longrightarrow> m x = m' x) \<Longrightarrow> n \<le> 4294967296 \<Longrightarrow> rd m a n = rd m' a n"
proof (induction n arbitrary: a)
  case (Suc n)
  then have b: "block a (Suc n) = insert a (block (a + 1) n)" by (intro block_Suc) simp
  have "rd m (a + 1) n = rd m' (a + 1) n" by (rule Suc.IH) (use Suc.prems b in auto)
  then show ?case using Suc.prems(1) [of a] b by simp
qed simp

lemma wr_other: "x \<notin> block a (length xs) \<Longrightarrow> length xs \<le> 4294967296 \<Longrightarrow> wr m a xs x = m x"
proof (induction xs arbitrary: a m)
  case (Cons y ys)
  then have b: "block a (Suc (length ys)) = insert a (block (a + 1) (length ys))" by (intro block_Suc) simp
  have "wr (m(a := y)) (a + 1) ys x = (m(a := y)) x" by (rule Cons.IH) (use Cons.prems b in auto)
  then show ?case using Cons.prems b by simp
qed simp

lemma rd_wr: "length xs \<le> 4294967296 \<Longrightarrow> rd (wr m a xs) a (length xs) = xs"
proof (induction xs arbitrary: a m)
  case (Cons y ys)
  then have l: "length ys < 4294967296" by simp
  have "wr (m(a := y)) (a + 1) ys a = y" using wr_other [OF head_notin_block [OF l], of "m(a := y)"] l by simp
  then show ?case using Cons by simp
qed simp

lemma rd_wr_disjoint:
  "block a n \<inter> block b (length xs) = {} \<Longrightarrow> n \<le> 4294967296 \<Longrightarrow> length xs \<le> 4294967296 \<Longrightarrow> rd (wr m b xs) a n = rd m a n"
  by (rule rd_cong) (use wr_other in blast)+

lemma rd_append: "rd m a (n + k) = rd m a n @ rd m (a + of_nat n) k"
  by (induction n arbitrary: a) (auto simp: algebra_simps)

lemma wr_append: "wr m a (xs @ ys) = wr (wr m a xs) (a + of_nat (length xs)) ys"
  by (induction xs arbitrary: a m) (auto simp: algebra_simps)

lemma nth_rd: "i < n \<Longrightarrow> rd m a n ! i = m (a + of_nat i)"
proof (induction n arbitrary: a i)
  case (Suc n)
  then show ?case by (cases i) (auto simp: algebra_simps)
qed simp

section \<open>Words in memory\<close>

definition load16 :: "mem \<Rightarrow> u32 \<Rightarrow> u16" where
  "load16 m a = ucast (m a) OR push_bit 8 (ucast (m (a + 1)))"

definition load32 :: "mem \<Rightarrow> u32 \<Rightarrow> u32" where
  "load32 m a = ucast (m a) OR push_bit 8 (ucast (m (a + 1))) OR push_bit 16 (ucast (m (a + 2))) OR push_bit 24 (ucast (m (a + 3)))"

definition bytes32 :: "u32 \<Rightarrow> u8 list" where
  "bytes32 v = [ucast v, ucast (drop_bit 8 v), ucast (drop_bit 16 v), ucast (drop_bit 24 v)]"

definition store32 :: "mem \<Rightarrow> u32 \<Rightarrow> u32 \<Rightarrow> mem" where
  "store32 m a v = wr m a (bytes32 v)"

lemma length_bytes32 [simp]: "length (bytes32 v) = 4"
  by (simp add: bytes32_def)

lemma load_store32: "load32 (store32 m a v) a = v"
proof -
  have d: "a \<noteq> a + 1" "a \<noteq> a + 2" "a \<noteq> a + 3" "a + 1 \<noteq> a + 2" "a + 1 \<noteq> a + 3" "a + 2 \<noteq> a + 3" for a :: u32
    by (simp_all add: word_eq_iff_unsigned)
  have e: "a + 1 + 1 = a + 2" "a + 2 + 1 = a + 3" for a :: u32 by simp_all
  have "(ucast (ucast v :: u8) OR push_bit 8 (ucast (ucast (drop_bit 8 v) :: u8)) OR push_bit 16 (ucast (ucast (drop_bit 16 v) :: u8)) OR
      push_bit 24 (ucast (ucast (drop_bit 24 v) :: u8)) :: u32) = v" (is "?w = v")
  proof (rule bit_word_eqI)
    fix n :: nat assume "n < LENGTH(32)"
    then consider "n < 8" | "8 \<le> n" "n < 16" | "16 \<le> n" "n < 24" | "24 \<le> n" "n < 32" by fastforce
    then show "bit ?w n = bit v n" by cases (auto simp: bit_simps)
  qed
  then show ?thesis unfolding load32_def store32_def bytes32_def by (simp add: e d [symmetric] d)
qed

section \<open>Strings\<close>

primrec cstr :: "mem \<Rightarrow> u32 \<Rightarrow> u8 list \<Rightarrow> bool" where
  "cstr m a [] \<longleftrightarrow> m a = 0"
| "cstr m a (x # xs) \<longleftrightarrow> x \<noteq> 0 \<and> m a = x \<and> cstr m (a + 1) xs"

lemma cstr_unique: "cstr m a xs \<Longrightarrow> cstr m a ys \<Longrightarrow> xs = ys"
proof (induction xs arbitrary: a ys)
  case Nil then show ?case by (cases ys) auto
next
  case (Cons x xs) then show ?case by (cases ys) auto
qed

lemma cstr_rd: "cstr m a xs \<longleftrightarrow> rd m a (length xs) = xs \<and> m (a + of_nat (length xs)) = 0 \<and> 0 \<notin> set xs"
  by (induction xs arbitrary: a) (auto simp: algebra_simps)

text \<open>Literals of the C code are lists of characters; a byte of memory is the character's code.\<close>

definition byte :: "char \<Rightarrow> u8" where
  "byte c = of_char c"

definition bytes :: "string \<Rightarrow> u8 list" where
  "bytes s = map byte s"

lemma block_shift: "unat a + n \<le> k \<Longrightarrow> block (b + a) n \<subseteq> block b k"
proof
  fix x assume n: "unat a + n \<le> k" and x: "x \<in> block (b + a) n"
  have "x - b = (x - (b + a)) + a" by simp
  then have "unat (x - b) \<le> unat (x - (b + a)) + unat a" by (metis unat_word_ariths(1) mod_less_eq_dividend)
  then show "x \<in> block b k" using n x by (simp add: in_block)
qed

lemma unat_of_nat_less: "a < 4294967296 \<Longrightarrow> unat (of_nat a :: u32) = a"
  by (simp add: unsigned_of_nat take_bit_nat_eq_self)

lemma block_split_disjoint: "n + k \<le> 4294967296 \<Longrightarrow> block a n \<inter> block (a + of_nat n) k = {}"
proof (rule ccontr)
  assume nk: "n + k \<le> 4294967296" and "block a n \<inter> block (a + of_nat n) k \<noteq> {}"
  then obtain x where x: "unat (x - a) < n" "unat (x - (a + of_nat n)) < k" by (auto simp: in_block)
  let ?i = "unat (x - (a + of_nat n))"
  have "x - a = of_nat (?i + n)" by simp
  moreover have "unat (of_nat (?i + n) :: u32) = ?i + n" by (rule unat_of_nat_less) (use x(2) nk in linarith)
  ultimately have "unat (x - a) = ?i + n" by (simp only:)
  then show False using x(1) by simp
qed

lemma load32_same: "(\<And>x. x \<in> block a 4 \<Longrightarrow> m x = m' x) \<Longrightarrow> load32 m a = load32 m' a"
proof -
  assume same: "\<And>x. x \<in> block a 4 \<Longrightarrow> m x = m' x"
  have "a \<in> block a 4" "a + 1 \<in> block a 4" "a + 2 \<in> block a 4" "a + 3 \<in> block a 4" by (simp_all add: in_block)
  then show ?thesis by (simp add: load32_def same)
qed

lemma store32_other: "x \<notin> block a 4 \<Longrightarrow> store32 m a v x = m x"
proof -
  assume "x \<notin> block a 4"
  moreover have "length (bytes32 v) = 4" by (simp add: bytes32_def)
  ultimately show ?thesis by (simp add: store32_def wr_other)
qed

lemma load_store32_other: "block a 4 \<inter> block b 4 = {} \<Longrightarrow> load32 (store32 m b v) a = load32 m a"
  by (rule load32_same, rule store32_other) blast

end
