(* ===== verification/String_Lib.thy ===== *)
theory String_Lib
  imports Memory
begin

text \<open>
  \<^verbatim>\<open>shared/string.c\<close>, the string library of the kernel and of user programs, function by function over
  byte memory. A pointer result \<open>0\<close> is \<^verbatim>\<open>NULL\<close>. Loops that count down a length are recursive on it;
  loops that run until a byte is found are partial functions, whose value \<open>None\<close> is a loop that
  never ends (there is no such byte in memory).
\<close>

section \<open>Counted blocks\<close>

primrec memccpy_loop :: "nat \<Rightarrow> u32 \<Rightarrow> u32 \<Rightarrow> u8 \<Rightarrow> mem \<Rightarrow> u32 \<times> mem" where
  "memccpy_loop 0 q p c m = (0, m)"
| "memccpy_loop (Suc n) q p c m =
     (let ch = m p; m = m(q := ch) in
      if ch = c then (q + 1, m) else memccpy_loop n (q + 1) (p + 1) c m)"

definition memccpy :: "u32 \<Rightarrow> u32 \<Rightarrow> u32 \<Rightarrow> u32 \<Rightarrow> mem \<Rightarrow> u32 \<times> mem" where
  "memccpy dst src c n m = memccpy_loop (unat n) dst src (ucast c) m"

primrec memchr_loop :: "nat \<Rightarrow> u32 \<Rightarrow> u8 \<Rightarrow> mem \<Rightarrow> u32" where
  "memchr_loop 0 sp c m = 0"
| "memchr_loop (Suc n) sp c m = (if m sp = c then sp else memchr_loop n (sp + 1) c m)"

definition memchr :: "u32 \<Rightarrow> u32 \<Rightarrow> u32 \<Rightarrow> mem \<Rightarrow> u32" where
  "memchr s c n m = memchr_loop (unat n) s (ucast c) m"

primrec memrchr_loop :: "nat \<Rightarrow> u32 \<Rightarrow> u8 \<Rightarrow> mem \<Rightarrow> u32" where
  "memrchr_loop 0 sp c m = 0"
| "memrchr_loop (Suc n) sp c m = (if m sp = c then sp else memrchr_loop n (sp - 1) c m)"

definition memrchr :: "u32 \<Rightarrow> u32 \<Rightarrow> u32 \<Rightarrow> mem \<Rightarrow> u32" where
  "memrchr s c n m = memrchr_loop (unat n) (s + n - 1) (ucast c) m"

primrec memcmp_loop :: "nat \<Rightarrow> u32 \<Rightarrow> u32 \<Rightarrow> int \<Rightarrow> mem \<Rightarrow> int" where
  "memcmp_loop 0 c1 c2 d m = d"
| "memcmp_loop (Suc n) c1 c2 d m =
     (let d = uint (m c1) - uint (m c2) in
      if d \<noteq> 0 then d else memcmp_loop n (c1 + 1) (c2 + 1) d m)"

definition memcmp :: "u32 \<Rightarrow> u32 \<Rightarrow> u32 \<Rightarrow> mem \<Rightarrow> int" where
  "memcmp s1 s2 n m = memcmp_loop (unat n) s1 s2 0 m"

text \<open>The string instructions of the processor, with the count, source and destination registers.\<close>

primrec rep_movsb :: "nat \<Rightarrow> u32 \<Rightarrow> u32 \<Rightarrow> mem \<Rightarrow> u32 \<times> u32 \<times> mem" where
  "rep_movsb 0 si di m = (si, di, m)"
| "rep_movsb (Suc n) si di m = rep_movsb n (si + 1) (di + 1) (m(di := m si))"

primrec rep_movsb_down :: "nat \<Rightarrow> u32 \<Rightarrow> u32 \<Rightarrow> mem \<Rightarrow> u32 \<times> u32 \<times> mem" where
  "rep_movsb_down 0 si di m = (si, di, m)"
| "rep_movsb_down (Suc n) si di m = rep_movsb_down n (si - 1) (di - 1) (m(di := m si))"

primrec rep_movsl :: "nat \<Rightarrow> u32 \<Rightarrow> u32 \<Rightarrow> mem \<Rightarrow> u32 \<times> u32 \<times> mem" where
  "rep_movsl 0 si di m = (si, di, m)"
| "rep_movsl (Suc n) si di m = rep_movsl n (si + 4) (di + 4) (store32 m di (load32 m si))"

primrec rep_stosb :: "nat \<Rightarrow> u32 \<Rightarrow> u8 \<Rightarrow> mem \<Rightarrow> u32 \<times> mem" where
  "rep_stosb 0 di al m = (di, m)"
| "rep_stosb (Suc n) di al m = rep_stosb n (di + 1) al (m(di := al))"

primrec rep_stosl :: "nat \<Rightarrow> u32 \<Rightarrow> u32 \<Rightarrow> mem \<Rightarrow> u32 \<times> mem" where
  "rep_stosl 0 di eax m = (di, m)"
| "rep_stosl (Suc n) di eax m = rep_stosl n (di + 4) eax (store32 m di eax)"

definition memcpy :: "u32 \<Rightarrow> u32 \<Rightarrow> u32 \<Rightarrow> mem \<Rightarrow> u32 \<times> mem" where
  "memcpy dst src n m =
     (let nl = drop_bit 2 n;
          (p, q, m) = rep_movsl (unat nl) src dst m;
          (p, q, m) = rep_movsb (unat (n AND 3)) p q m
      in (dst, m))"

text \<open>The second component is the direction flag that the instructions leave behind.\<close>

definition memmove :: "u32 \<Rightarrow> u32 \<Rightarrow> u32 \<Rightarrow> mem \<Rightarrow> u32 \<times> bool \<times> mem" where
  "memmove dst src n m =
     (if dst < src then
        let (p, q, m) = rep_movsb (unat n) src dst m in (dst, False, m)
      else
        let p = src + (n - 1); q = dst + (n - 1);
            (p, q, m) = rep_movsb_down (unat n) p q m in (dst, True, m))"

definition memset :: "u32 \<Rightarrow> u32 \<Rightarrow> u32 \<Rightarrow> mem \<Rightarrow> u32 \<times> mem" where
  "memset dst c n m =
     (let nl = drop_bit 2 n; eax = ucast (ucast c :: u8) * 0x01010101;
          (q, m) = rep_stosl (unat nl) dst eax m;
          (q, m) = rep_stosb (unat (n AND 3)) q (ucast eax) m
      in (dst, m))"

primrec memswap_loop :: "nat \<Rightarrow> u32 \<Rightarrow> u32 \<Rightarrow> mem \<Rightarrow> mem" where
  "memswap_loop 0 p q m = m"
| "memswap_loop (Suc n) p q m =
     (let tmp = m p; m = m(p := m q); m = m(q := tmp) in memswap_loop n (p + 1) (q + 1) m)"

definition memswap :: "u32 \<Rightarrow> u32 \<Rightarrow> u32 \<Rightarrow> mem \<Rightarrow> mem" where
  "memswap m1 m2 n m = memswap_loop (unat n) m1 m2 m"

text \<open>\<^verbatim>\<open>memmem\<close>: the loop for needles of two bytes and more, the one for a single byte, and the function.\<close>

partial_function (option) memmem_loop :: "u32 \<Rightarrow> u32 \<Rightarrow> u32 \<Rightarrow> u32 \<Rightarrow> u32 \<Rightarrow> u32 \<Rightarrow> u32 \<Rightarrow> mem \<Rightarrow> u32 option" where
  "memmem_loop y n x k l len j m =
     (if j \<le> n - len then
        (if m (x + 1) \<noteq> m (y + (j + 1)) then memmem_loop y n x k l len (j + k) m
         else if memcmp (x + 2) (y + j + 2) (len - 2) m = 0 \<and> m x = m (y + j) then Some (y + j)
         else memmem_loop y n x k l len (j + l) m)
      else Some 0)"

primrec memmem_one :: "nat \<Rightarrow> u32 \<Rightarrow> u32 \<Rightarrow> mem \<Rightarrow> u32" where
  "memmem_one 0 y x m = 0"
| "memmem_one (Suc n) y x m = (if m y = m x then y else memmem_one n (y + 1) x m)"

definition memmem :: "u32 \<Rightarrow> u32 \<Rightarrow> u32 \<Rightarrow> u32 \<Rightarrow> mem \<Rightarrow> u32 option" where
  "memmem haystack n needle len m =
     (if len > n \<or> len = 0 \<or> n = 0 then Some 0
      else if 1 \<noteq> len then
        (let (k, l) = (if m needle = m (needle + 1) then (2, 1) else (1, 2)) in
         memmem_loop haystack n needle k l len 0 m)
      else Some (memmem_one (unat n) haystack needle m))"

section \<open>Strings\<close>

partial_function (option) strlen_loop :: "mem \<Rightarrow> u32 \<Rightarrow> u32 option" where
  "strlen_loop m ss = (if m ss \<noteq> 0 then strlen_loop m (ss + 1) else Some ss)"

definition strlen :: "mem \<Rightarrow> u32 \<Rightarrow> u32 option" where
  "strlen m s = do { ss \<leftarrow> strlen_loop m s; Some (ss - s) }"

primrec strnlen_loop :: "nat \<Rightarrow> mem \<Rightarrow> u32 \<Rightarrow> u32" where
  "strnlen_loop 0 m ss = ss"
| "strnlen_loop (Suc n) m ss = (if m ss \<noteq> 0 then strnlen_loop n m (ss + 1) else ss)"

definition strnlen :: "mem \<Rightarrow> u32 \<Rightarrow> u32 \<Rightarrow> u32" where
  "strnlen m s maxlen = strnlen_loop (unat maxlen) m s - s"

partial_function (option) strchr :: "mem \<Rightarrow> u32 \<Rightarrow> u32 \<Rightarrow> u32 option" where
  "strchr m s c = (if m s \<noteq> ucast c then (if m s = 0 then Some 0 else strchr m (s + 1) c) else Some s)"

partial_function (option) strrchr_loop :: "mem \<Rightarrow> u32 \<Rightarrow> u8 \<Rightarrow> u32 \<Rightarrow> u32 option" where
  "strrchr_loop m s c found =
     (if m s \<noteq> 0 then strrchr_loop m (s + 1) c (if m s = c then s else found) else Some found)"

definition strrchr :: "mem \<Rightarrow> u32 \<Rightarrow> u32 \<Rightarrow> u32 option" where
  "strrchr m s c = strrchr_loop m s (ucast c) 0"

partial_function (option) strcmp :: "mem \<Rightarrow> u32 \<Rightarrow> u32 \<Rightarrow> int option" where
  "strcmp m c1 c2 =
     (let ch = m c1; d = uint ch - uint (m c2) in
      if d \<noteq> 0 \<or> ch = 0 then Some d else strcmp m (c1 + 1) (c2 + 1))"

primrec strncmp_loop :: "nat \<Rightarrow> mem \<Rightarrow> u32 \<Rightarrow> u32 \<Rightarrow> int \<Rightarrow> int" where
  "strncmp_loop 0 m c1 c2 d = d"
| "strncmp_loop (Suc n) m c1 c2 d =
     (let ch = m c1; d = uint ch - uint (m c2) in
      if d \<noteq> 0 \<or> ch = 0 then d else strncmp_loop n m (c1 + 1) (c2 + 1) d)"

definition strncmp :: "mem \<Rightarrow> u32 \<Rightarrow> u32 \<Rightarrow> u32 \<Rightarrow> int" where
  "strncmp m s1 s2 n = strncmp_loop (unat n) m s1 s2 0"

partial_function (option) strcpy_loop :: "u32 \<Rightarrow> u32 \<Rightarrow> mem \<Rightarrow> mem option" where
  "strcpy_loop q p m = (let ch = m p; m = m(q := ch) in if ch \<noteq> 0 then strcpy_loop (q + 1) (p + 1) m else Some m)"

definition strcpy :: "u32 \<Rightarrow> u32 \<Rightarrow> mem \<Rightarrow> (u32 \<times> mem) option" where
  "strcpy dst src m = do { m \<leftarrow> strcpy_loop dst src m; Some (dst, m) }"

definition strcat :: "u32 \<Rightarrow> u32 \<Rightarrow> mem \<Rightarrow> (u32 \<times> mem) option" where
  "strcat dst src m = do { e \<leftarrow> strchr m dst 0; (_, m) \<leftarrow> strcpy e src m; Some (dst, m) }"

primrec strncat_loop :: "nat \<Rightarrow> u32 \<Rightarrow> u32 \<Rightarrow> mem \<Rightarrow> mem" where
  "strncat_loop 0 q p m = m(q := 0)"
| "strncat_loop (Suc n) q p m =
     (let ch = m p; m = m(q := ch) in if ch = 0 then m else strncat_loop n (q + 1) (p + 1) m)"

definition strncat :: "u32 \<Rightarrow> u32 \<Rightarrow> u32 \<Rightarrow> mem \<Rightarrow> (u32 \<times> mem) option" where
  "strncat dst src n m = do { q \<leftarrow> strchr m dst 0; Some (dst, strncat_loop (unat n) q src m) }"

text \<open>The two loops of \<^verbatim>\<open>strlcat\<close>: to the end of the destination, and over the source.\<close>

primrec strlcat_skip :: "nat \<Rightarrow> mem \<Rightarrow> u32 \<Rightarrow> u32 \<Rightarrow> u32 \<times> u32" where
  "strlcat_skip 0 m q n = (q, n)"
| "strlcat_skip (Suc k) m q n = (if m q \<noteq> 0 then strlcat_skip k m (q + 1) (n + 1) else (q, n))"

partial_function (option) strlcat_copy :: "u32 \<Rightarrow> u32 \<Rightarrow> u32 \<Rightarrow> u32 \<Rightarrow> mem \<Rightarrow> (u32 \<times> u32 \<times> mem) option" where
  "strlcat_copy sz q p n m =
     (let ch = m p in
      if ch \<noteq> 0 then
        (if n + 1 < sz then strlcat_copy sz (q + 1) (p + 1) (n + 1) (m(q := ch))
         else strlcat_copy sz q (p + 1) (n + 1) m)
      else Some (q, n, m))"

definition strlcat :: "u32 \<Rightarrow> u32 \<Rightarrow> u32 \<Rightarrow> mem \<Rightarrow> (u32 \<times> mem) option" where
  "strlcat dst src sz m =
     (let (q, n) = strlcat_skip (unat sz) m dst 0 in
      if n = sz then do { l \<leftarrow> strlen m src; Some (n + l, m) }
      else do {
        (q, n, m) \<leftarrow> strlcat_copy sz q src n m;
        Some (n, m(q := 0)) })"

text \<open>The first loop of \<^verbatim>\<open>strncpy\<close> returns the rest of the length and the end of what it wrote.\<close>

primrec strncpy_loop :: "nat \<Rightarrow> u32 \<Rightarrow> u32 \<Rightarrow> mem \<Rightarrow> nat \<times> u32 \<times> mem" where
  "strncpy_loop 0 q p m = (0, q, m)"
| "strncpy_loop (Suc n) q p m =
     (let ch = m p; m = m(q := ch) in if ch = 0 then (n, q + 1, m) else strncpy_loop n (q + 1) (p + 1) m)"

definition strncpy :: "u32 \<Rightarrow> u32 \<Rightarrow> u32 \<Rightarrow> mem \<Rightarrow> u32 \<times> mem" where
  "strncpy dst src n m =
     (let (r, q, m) = strncpy_loop (unat n) dst src m; (_, m) = memset q 0 (of_nat r) m in (dst, m))"

section \<open>Sets of characters\<close>

text \<open>\<^verbatim>\<open>matchmap\<close> is an array of 256 bytes indexed by a character.\<close>

partial_function (option) build_map :: "mem \<Rightarrow> u32 \<Rightarrow> (u8 \<Rightarrow> u8) \<Rightarrow> (u8 \<Rightarrow> u8) option" where
  "build_map m p mm = (if m p \<noteq> 0 then build_map m (p + 1) (mm(m p := 1)) else Some mm)"

partial_function (option) span_loop :: "mem \<Rightarrow> (u8 \<Rightarrow> u8) \<Rightarrow> u8 \<Rightarrow> u32 \<Rightarrow> u32 \<Rightarrow> u32 option" where
  "span_loop m mm parity s n = (if mm (m s) XOR parity \<noteq> 0 then span_loop m mm parity (s + 1) (n + 1) else Some n)"

definition strxspn :: "mem \<Rightarrow> u32 \<Rightarrow> u32 \<Rightarrow> u8 \<Rightarrow> u32 option" where
  "strxspn m s cset parity = do {
     mm \<leftarrow> build_map m cset (\<lambda>_. 0);
     let mm = mm(0 := parity);
     span_loop m mm parity s 0 }"

definition strspn :: "mem \<Rightarrow> u32 \<Rightarrow> u32 \<Rightarrow> u32 option" where
  "strspn m s accept = strxspn m s accept 0"

definition strcspn :: "mem \<Rightarrow> u32 \<Rightarrow> u32 \<Rightarrow> u32 option" where
  "strcspn m s reject = strxspn m s reject 1"

definition strpbrk :: "mem \<Rightarrow> u32 \<Rightarrow> u32 \<Rightarrow> u32 option" where
  "strpbrk m s accept = do {
     n \<leftarrow> strxspn m s accept 1;
     let ss = s + n;
     Some (if m ss \<noteq> 0 then ss else 0) }"

text \<open>\<^verbatim>\<open>strsep\<close>: \<^verbatim>\<open>*stringp\<close> is passed and returned. The static variable of \<^verbatim>\<open>strtok\<close> is its \<open>holder\<close>.\<close>

definition strsep :: "u32 \<Rightarrow> u32 \<Rightarrow> mem \<Rightarrow> (u32 \<times> u32 \<times> mem) option" where
  "strsep stringp delim m =
     (let s = stringp in
      if s = 0 then Some (0, stringp, m)
      else do {
        e \<leftarrow> strpbrk m s delim;
        Some (if e \<noteq> 0 then (s, e + 1, m(e := 0)) else (s, e, m)) })"

definition strtok :: "u32 \<Rightarrow> u32 \<Rightarrow> u32 \<Rightarrow> mem \<Rightarrow> (u32 \<times> u32 \<times> mem) option" where
  "strtok s delim holder m = strsep (if s \<noteq> 0 then s else holder) delim m"

definition strstr :: "mem \<Rightarrow> u32 \<Rightarrow> u32 \<Rightarrow> u32 option" where
  "strstr m haystack needle = do {
     n \<leftarrow> strlen m haystack;
     l \<leftarrow> strlen m needle;
     memmem haystack n needle l m }"

end
