(* ===== verification/String_Props.thy ===== *)
theory String_Props
  imports String_Lib "HOL-Library.List_Lexorder"
begin

text \<open>
  What the functions of \<^verbatim>\<open>shared/string.c\<close> compute: block copies as writes of the list of bytes read,
  searches as the first occurrence, string functions in terms of the strings stored in memory.
\<close>

section \<open>Copying\<close>

text \<open>Blocks that do not wrap around the end of memory.\<close>

definition fits :: "u32 \<Rightarrow> nat \<Rightarrow> bool" where
  "fits a n \<longleftrightarrow> unat a + n \<le> 4294967296"

lemma fits_Suc: "fits a (Suc n) \<Longrightarrow> n > 0 \<Longrightarrow> fits (a + 1) n \<and> unat (a + 1) = unat a + 1"
  by (auto simp: fits_def unat_plus_one)

lemma fits_block: "fits a n \<Longrightarrow> x \<in> block a n \<longleftrightarrow> unat a \<le> unat x \<and> unat x < unat a + n"
proof -
  assume f: "fits a n"
  have "unat (x - a) = (if a \<le> x then unat x - unat a else unat x + 4294967296 - unat a)"
    using unat_sub_if_size [of x a] by (simp add: word_le_nat_alt word_size)
  then show ?thesis using f unat_lt [of x] unat_lt [of a] by (auto simp: in_block fits_def word_le_nat_alt)
qed

lemma fits_le: "fits a n \<Longrightarrow> n \<le> 4294967296"
  by (simp add: fits_def)

lemma rep_movsb_ok:
  assumes "\<And>i j. i < n \<Longrightarrow> j < n \<Longrightarrow> i < j \<Longrightarrow> di + of_nat i \<noteq> si + of_nat j"
  shows "rep_movsb n si di m = (si + of_nat n, di + of_nat n, wr m di (rd m si n))"
  using assms
proof (induction n arbitrary: si di m)
  case (Suc n)
  have "rd (m(di := m si)) (si + 1) n = rd m (si + 1) n"
  proof (intro nth_equalityI)
    fix i assume i: "i < length (rd (m(di := m si)) (si + 1) n)"
    have "di \<noteq> si + of_nat (Suc i)" using Suc.prems [of 0 "Suc i"] i by simp
    then have "di \<noteq> si + 1 + of_nat i" by (simp add: algebra_simps)
    then show "rd (m(di := m si)) (si + 1) n ! i = rd m (si + 1) n ! i" using i by (auto simp: nth_rd)
  qed simp
  moreover have "rep_movsb n (si + 1) (di + 1) (m(di := m si)) =
      (si + 1 + of_nat n, di + 1 + of_nat n, wr (m(di := m si)) (di + 1) (rd (m(di := m si)) (si + 1) n))"
  proof (rule Suc.IH)
    fix i j assume "i < n" "j < n" "i < j"
    then show "di + 1 + of_nat i \<noteq> si + 1 + of_nat j" using Suc.prems [of "Suc i" "Suc j"] by (simp add: algebra_simps)
  qed
  ultimately show ?case by (simp add: algebra_simps)
qed simp

lemma unat_of_nat_u32: "i < 4294967296 \<Longrightarrow> unat (of_nat i :: u32) = i"
  by (simp add: unsigned_of_nat take_bit_nat_eq_self)

lemma of_nat_u32_eq: "i < 4294967296 \<Longrightarrow> j < 4294967296 \<Longrightarrow> (of_nat i :: u32) = of_nat j \<longleftrightarrow> i = j"
  by (metis unat_of_nat_u32)

lemma unat_add_fits: "unat a + i < 4294967296 \<Longrightarrow> unat (a + of_nat i :: u32) = unat a + i"
  by (simp add: unat_word_ariths unat_of_nat_u32)

lemma wr_snoc: "wr m a (xs @ [x]) = (wr m a xs)(a + of_nat (length xs) := x)"
  by (simp add: wr_append)

lemma wr_upd_other:
  "b \<notin> block a (length xs) \<Longrightarrow> length xs \<le> 4294967296 \<Longrightarrow> wr (m(b := v)) a xs = (wr m a xs)(b := v)"
proof (induction xs arbitrary: a m)
  case (Cons x xs)
  have b: "block a (Suc (length xs)) = insert a (block (a + 1) (length xs))" by (rule block_Suc) (use Cons.prems in simp)
  then have "m(b := v, a := x) = m(a := x, b := v)" using Cons.prems by (simp add: fun_upd_twist)
  moreover have "wr (m(a := x, b := v)) (a + 1) xs = (wr (m(a := x)) (a + 1) xs)(b := v)"
    by (rule Cons.IH) (use Cons.prems b in auto)
  ultimately show ?case by (simp del: fun_upd_apply)
qed simp

lemma rd_snoc: "rd m a (Suc n) = rd m a n @ [m (a + of_nat n)]"
  using rd_append [of m a n 1] by simp

lemma rep_movsb_down_ok:
  assumes "\<And>i j. i < n \<Longrightarrow> j < n \<Longrightarrow> i < j \<Longrightarrow> di + of_nat j \<noteq> si + of_nat i" and n: "n \<le> 4294967296"
  shows "snd (snd (rep_movsb_down n (si + of_nat n - 1) (di + of_nat n - 1) m)) = wr m di (rd m si n)"
  using assms
proof (induction n arbitrary: m)
  case (Suc n)
  let ?m = "m(di + of_nat n := m (si + of_nat n))"
  have "rd ?m si n = rd m si n"
  proof (intro nth_equalityI)
    fix i assume i: "i < length (rd ?m si n)"
    then have "di + of_nat n \<noteq> si + of_nat i" using Suc.prems(1) [of i n] by simp
    then show "rd ?m si n ! i = rd m si n ! i" using i by (auto simp: nth_rd)
  qed simp
  moreover have "di + of_nat n \<notin> block di n" using Suc.prems(2) by (simp add: in_block unat_of_nat_u32)
  then have "wr ?m di (rd m si n) = (wr m di (rd m si n))(di + of_nat n := m (si + of_nat n))"
    by (rule wr_upd_other [of _ _ "rd m si n", simplified]) (use Suc.prems(2) in simp)
  moreover have "snd (snd (rep_movsb_down n (si + of_nat n - 1) (di + of_nat n - 1) ?m)) = wr ?m di (rd ?m si n)"
    by (rule Suc.IH) (use Suc.prems in auto)
  ultimately show ?case by (simp add: algebra_simps rd_snoc wr_snoc del: rd.simps(2))
qed simp

lemma memmove_step:
  assumes d: "fits dst (unat n)" and s: "fits src (unat n)"
  shows "snd (snd (memmove dst src n m)) = wr m dst (rd m src (unat n))"
proof (cases "dst < src")
  case True
  have "dst + of_nat i \<noteq> src + of_nat j" if "i < unat n" "j < unat n" "i < j" for i j
  proof
    assume "dst + of_nat i = src + of_nat j"
    then have "unat (dst + of_nat i) = unat (src + of_nat j)" by simp
    then have "unat dst + i = unat src + j" using that d s by (simp add: unat_add_fits fits_def)
    then show False using True that by (simp add: word_less_nat_alt)
  qed
  from rep_movsb_ok [OF this, of "unat n" m] True show ?thesis by (simp add: memmove_def Let_def)
next
  case False
  have "dst + of_nat j \<noteq> src + of_nat i" if "i < unat n" "j < unat n" "i < j" for i j
  proof
    assume "dst + of_nat j = src + of_nat i"
    then have "unat (dst + of_nat j) = unat (src + of_nat i)" by simp
    then have "unat dst + j = unat src + i" using that d s by (simp add: unat_add_fits fits_def)
    then show False using False that by (simp add: word_less_nat_alt)
  qed
  from rep_movsb_down_ok [OF this, of "unat n" m] False fits_le [OF d] show ?thesis
    by (simp add: memmove_def Let_def case_prod_unfold algebra_simps)
qed

lemma block_append: "n + k \<le> 4294967296 \<Longrightarrow> block a (n + k) = block a n \<union> block (a + of_nat n) k"
proof (induction n arbitrary: a)
  case (Suc n)
  have "block a (Suc n + k) = insert a (block (a + 1) (n + k))" using Suc.prems block_Suc [of "n + k" a] by simp
  also have "block (a + 1) (n + k) = block (a + 1) n \<union> block (a + 1 + of_nat n) k" using Suc by simp
  finally show ?case using Suc.prems block_Suc [of n a] by (simp add: algebra_simps)
qed simp

lemma bytes32_load32: "bytes32 (load32 m a) = rd m a 4"
proof -
  have e: "a + 1 + 1 = a + 2" "a + 2 + 1 = a + 3" for a :: u32 by simp_all
  have b: "(ucast (ucast x OR push_bit 8 (ucast y) OR push_bit 16 (ucast z) OR push_bit 24 (ucast w) :: u32) :: u8) = x"
    "(ucast (drop_bit 8 (ucast x OR push_bit 8 (ucast y) OR push_bit 16 (ucast z) OR push_bit 24 (ucast w) :: u32)) :: u8) = y"
    "(ucast (drop_bit 16 (ucast x OR push_bit 8 (ucast y) OR push_bit 16 (ucast z) OR push_bit 24 (ucast w) :: u32)) :: u8) = z"
    "(ucast (drop_bit 24 (ucast x OR push_bit 8 (ucast y) OR push_bit 16 (ucast z) OR push_bit 24 (ucast w) :: u32)) :: u8) = w" for x y z w :: u8
    by (rule bit_word_eqI; auto simp: bit_simps dest: bit_imp_le_length)+
  have r: "rd m a 4 = [m a, m (a + 1), m (a + 2), m (a + 3)]" by (simp add: numeral_eq_Suc(1) e eval_nat_numeral)
  show ?thesis unfolding r bytes32_def load32_def by (simp only: b)
qed

lemma rep_movsl_ok:
  assumes "block si (4 * n) \<inter> block di (4 * n) = {}" and "4 * n \<le> 4294967296"
  shows "rep_movsl n si di m = (si + of_nat (4 * n), di + of_nat (4 * n), wr m di (rd m si (4 * n)))"
  using assms
proof (induction n arbitrary: si di m)
  case (Suc n)
  have bs: "block x (4 * Suc n) = block x 4 \<union> block (x + 4) (4 * n)" for x using block_append [of 4 "4 * n" x] Suc.prems(2) by simp
  let ?m = "store32 m di (load32 m si)"
  have m: "?m = wr m di (rd m si 4)" by (simp add: store32_def bytes32_load32)
  have "rd ?m (si + 4) (4 * n) = rd m (si + 4) (4 * n)"
    unfolding m by (rule rd_wr_disjoint) (use Suc.prems bs in auto)
  moreover have "rep_movsl n (si + 4) (di + 4) ?m =
      (si + 4 + of_nat (4 * n), di + 4 + of_nat (4 * n), wr ?m (di + 4) (rd ?m (si + 4) (4 * n)))"
    by (rule Suc.IH) (use Suc.prems bs in auto)
  moreover have "rd m si (4 * Suc n) = rd m si 4 @ rd m (si + 4) (4 * n)" using rd_append [of m si 4 "4 * n"] by simp
  ultimately show ?case by (simp add: m wr_append algebra_simps)
qed simp

lemma block_notin_of_nat: "block si n \<inter> block di n = {} \<Longrightarrow> n \<le> 4294967296 \<Longrightarrow> i < n \<Longrightarrow> j < n \<Longrightarrow> di + of_nat i \<noteq> si + of_nat j"
proof
  assume d: "block si n \<inter> block di n = {}" "n \<le> 4294967296" "i < n" "j < n" and e: "di + of_nat i = si + of_nat j"
  have "di + of_nat i \<in> block di n" "si + of_nat j \<in> block si n" using d(2-4) by (simp_all add: in_block unat_of_nat_u32)
  with d(1) e show False by auto
qed

lemma unat_div4: "unat (drop_bit 2 n :: u32) = unat n div 4" "unat (n AND 3 :: u32) = unat n mod 4"
proof -
  show "unat (drop_bit 2 n) = unat n div 4" by (simp add: drop_bit_eq_div unat_div)
  have "n AND 3 = take_bit 2 n" by (simp add: take_bit_eq_mask mask_eq_exp_minus_1)
  then show "unat (n AND 3) = unat n mod 4" by (simp add: take_bit_eq_mod unat_mod)
qed

lemma memcpy_step:
  assumes d: "block src (unat n) \<inter> block dst (unat n) = {}"
  shows "memcpy dst src n m = (dst, wr m dst (rd m src (unat n)))"
proof -
  let ?k = "4 * (unat n div 4)" and ?r = "unat n mod 4"
  have nk: "?k + ?r = unat n" by simp
  have le: "unat n \<le> 4294967296" using unat_lt [of n] by simp
  have bs: "block x (unat n) = block x ?k \<union> block (x + of_nat ?k) ?r" for x using block_append [of ?k ?r x] le by simp
  let ?m = "wr m dst (rd m src ?k)"
  have l: "rep_movsl (unat n div 4) src dst m = (src + of_nat ?k, dst + of_nat ?k, ?m)"
    by (rule rep_movsl_ok) (use d bs le in auto)
  have b: "rep_movsb ?r (src + of_nat ?k) (dst + of_nat ?k) ?m =
      (src + of_nat ?k + of_nat ?r, dst + of_nat ?k + of_nat ?r, wr ?m (dst + of_nat ?k) (rd ?m (src + of_nat ?k) ?r))"
    by (rule rep_movsb_ok) (rule block_notin_of_nat [of _ ?r], use d bs le in auto)
  have "rd ?m (src + of_nat ?k) ?r = rd m (src + of_nat ?k) ?r"
    by (rule rd_wr_disjoint) (use d bs le in auto)
  moreover have "rd m src (unat n) = rd m src ?k @ rd m (src + of_nat ?k) ?r" using rd_append [of m src ?k ?r] by simp
  ultimately show ?thesis by (simp add: memcpy_def Let_def unat_div4 l b wr_append del: of_nat_mult)
qed

lemma rep_stosb_ok: "rep_stosb n di al m = (di + of_nat n, wr m di (replicate n al))"
  by (induction n arbitrary: di m) (auto simp: algebra_simps)

lemma bytes32_repeat: "bytes32 (ucast (c :: u8) * 0x01010101) = [c, c, c, c]" "(ucast (ucast c * 0x01010101 :: u32) :: u8) = c"
proof -
  have e: "(ucast c * 0x01010101 :: u32) = ucast c OR push_bit 8 (ucast c) OR push_bit 16 (ucast c) OR push_bit 24 (ucast c)"
  proof -
    let ?b = "\<lambda>n. push_bit n (ucast c) :: u32"
    have "?b 16 OR ?b 24 = ?b 16 + ?b 24"
      by (rule disjunctive_add [symmetric]) (auto simp: bit_simps dest: bit_imp_le_length)
    moreover have "?b 8 OR (?b 16 OR ?b 24) = ?b 8 + (?b 16 OR ?b 24)"
      by (rule disjunctive_add [symmetric]) (auto simp: bit_simps dest: bit_imp_le_length)
    moreover have "?b 0 OR (?b 8 OR (?b 16 OR ?b 24)) = ?b 0 + (?b 8 OR (?b 16 OR ?b 24))"
      by (rule disjunctive_add [symmetric]) (auto simp: bit_simps dest: bit_imp_le_length)
    ultimately have "ucast c OR ?b 8 OR ?b 16 OR ?b 24 = ucast c + (?b 8 + (?b 16 + ?b 24))" by simp
    then show ?thesis by (simp add: push_bit_eq_mult algebra_simps)
  qed
  let ?m = "\<lambda>_. c"
  have "load32 ?m 0 = ucast c * 0x01010101" by (simp add: load32_def e)
  with bytes32_load32 [of ?m 0] show "bytes32 (ucast c * 0x01010101) = [c, c, c, c]" by (simp add: numeral_eq_Suc)
  then show "(ucast (ucast c * 0x01010101 :: u32) :: u8) = c" by (simp add: bytes32_def)
qed

lemma rep_stosl_ok: "rep_stosl n di (ucast (c :: u8) * 0x01010101) m = (di + of_nat (4 * n), wr m di (replicate (4 * n) c))"
proof (induction n arbitrary: di m)
  case (Suc n)
  have "replicate (4 * Suc n) c = [c, c, c, c] @ replicate (4 * n) c" by (simp add: numeral_eq_Suc)
  then have "wr m di (replicate (4 * Suc n) c) = wr (wr m di [c, c, c, c]) (di + 4) (replicate (4 * n) c)"
    by (simp only: wr_append) simp
  then show ?case using Suc
    by (simp add: store32_def bytes32_repeat algebra_simps del: fun_upd_apply wr.simps(2))
qed simp

lemma memset_step: "memset dst c n m = (dst, wr m dst (replicate (unat n) (ucast c)))"
proof -
  have "replicate (unat n) x = replicate (4 * (unat n div 4)) x @ replicate (unat n mod 4) x" for x :: u8
    by (simp flip: replicate_add)
  then show ?thesis
    by (simp add: memset_def Let_def unat_div4 rep_stosl_ok rep_stosb_ok bytes32_repeat wr_append del: of_nat_mult)
qed

section \<open>Searching\<close>

lemma uint_eq: "uint x = uint y \<longleftrightarrow> x = y"
  by (metis word_of_int_uint)

lemma memcmp_loop_zero: "memcmp_loop n a b 0 m = 0 \<longleftrightarrow> rd m a n = rd m b n"
  by (induction n arbitrary: a b) (auto simp: Let_def uint_eq)

lemma memcmp_zero: "memcmp a b n m = 0 \<longleftrightarrow> rd m a (unat n) = rd m b (unat n)"
  by (simp add: memcmp_def memcmp_loop_zero)

text \<open>The needle occurs at offset \<open>j\<close> of the haystack; the first such offset.\<close>

definition occurs :: "mem \<Rightarrow> u32 \<Rightarrow> u32 \<Rightarrow> nat \<Rightarrow> nat \<Rightarrow> bool" where
  "occurs m y x len j \<longleftrightarrow> rd m (y + of_nat j) len = rd m x len"

definition first_occurrence :: "mem \<Rightarrow> u32 \<Rightarrow> u32 \<Rightarrow> nat \<Rightarrow> nat \<Rightarrow> nat \<Rightarrow> u32" where
  "first_occurrence m y x len j k =
     (case find (occurs m y x len) [j..<k] of None \<Rightarrow> 0 | Some i \<Rightarrow> y + of_nat i)"

lemma first_occurrence_step:
  "first_occurrence m y x len j k = (if j < k then if occurs m y x len j then y + of_nat j else first_occurrence m y x len (Suc j) k else 0)"
  by (simp add: first_occurrence_def upt_conv_Cons)

lemma first_occurrence_skip: "\<not> occurs m y x len j \<Longrightarrow> first_occurrence m y x len j k = first_occurrence m y x len (Suc j) k"
  using first_occurrence_step [of m y x len j k] first_occurrence_step [of m y x len "Suc j" k] by simp

lemma occurs_two:
  "occurs m y x (Suc (Suc n)) j \<longleftrightarrow>
     m (y + of_nat j) = m x \<and> m (y + of_nat (Suc j)) = m (x + 1) \<and> rd m (y + of_nat j + 2) n = rd m (x + 2) n"
  by (simp add: occurs_def algebra_simps)

lemma memmem_loop_ok:
  assumes len: "2 \<le> unat len" "unat len \<le> unat n"
    and kl: "k = 2 \<and> l = 1 \<and> m x = m (x + 1) \<or> k = 1 \<and> l = 2 \<and> m x \<noteq> m (x + 1)"
  shows "memmem_loop y n x k l len j m = Some (first_occurrence m y x (unat len) (unat j) (unat n - unat len + 1))"
proof (induction "unat n - unat len + 1 - unat j" arbitrary: j rule: less_induct)
  case less
  let ?f = "\<lambda>i. first_occurrence m y x (unat len) i (unat n - unat len + 1)"
  obtain r where r: "unat len = Suc (Suc r)" using len(1) by (metis add_2_eq_Suc le_Suc_ex)
  have "unat (n - len) = unat n - unat len" using len(2) by (simp add: unat_sub word_le_nat_alt)
  then have j: "j \<le> n - len \<longleftrightarrow> unat j < unat n - unat len + 1" by (auto simp: word_le_nat_alt)
  show ?case
  proof (cases "j \<le> n - len")
    case False
    then show ?thesis using first_occurrence_step [of m y x "unat len" "unat j"] j by (subst memmem_loop.simps) simp
  next
    case True
    have up: "unat (j + 1) = Suc (unat j)" "unat (j + 2) = Suc (Suc (unat j))"
      using True j len unat_lt [of n] unat_add_fits [of j 1] unat_add_fits [of j 2] by simp_all
    have step: "memmem_loop y n x k l len (j + 1) m = Some (?f (Suc (unat j)))"
      "memmem_loop y n x k l len (j + 2) m = Some (?f (Suc (Suc (unat j))))"
      using less(1) [of "j + 1"] less(1) [of "j + 2"] True j up by simp_all
    have oc: "occurs m y x (unat len) (unat j) \<longleftrightarrow> m (y + j) = m x \<and> m (y + j + 1) = m (x + 1) \<and> rd m (y + j + 2) r = rd m (x + 2) r"
      unfolding r occurs_two by (simp add: algebra_simps)
    have oc1: "m (y + j + 1) = m x" if "occurs m y x (unat len) (Suc (unat j))"
      using that unfolding r occurs_two by (simp add: algebra_simps)
    have "unat (len - 2) = r" using r len(1) by (simp add: unat_sub word_le_nat_alt)
    then have mc: "memcmp (x + 2) (y + j + 2) (len - 2) m = 0 \<longleftrightarrow> rd m (y + j + 2) r = rd m (x + 2) r" by (auto simp: memcmp_zero)
    have yj: "y + (j + 1) = y + j + 1" by simp
    note sk = first_occurrence_skip [of m y x "unat len" "unat j"] first_occurrence_skip [of m y x "unat len" "Suc (unat j)"]
    show ?thesis
    proof (cases "m (x + 1) = m (y + j + 1)")
      case False
      then have "\<not> occurs m y x (unat len) (unat j)" using oc by auto
      moreover have "m x = m (x + 1) \<Longrightarrow> \<not> occurs m y x (unat len) (Suc (unat j))" using oc1 False by auto
      ultimately show ?thesis using True False step sk kl by (subst memmem_loop.simps) (auto simp: yj)
    next
      case match: True
      show ?thesis
      proof (cases "occurs m y x (unat len) (unat j)")
        case occ: True
        then have "?f (unat j) = y + j" using True j first_occurrence_step [of m y x "unat len" "unat j"] by simp
        then show ?thesis using True match mc oc occ by (subst memmem_loop.simps) (simp add: yj)
      next
        case False
        then have n1: "\<not> (memcmp (x + 2) (y + j + 2) (len - 2) m = 0 \<and> m x = m (y + j))" using mc oc match by auto
        have "m x \<noteq> m (x + 1) \<Longrightarrow> \<not> occurs m y x (unat len) (Suc (unat j))" using oc1 match by auto
        then show ?thesis using True match n1 step sk kl False by (subst memmem_loop.simps) (auto simp: yj)
      qed
    qed
  qed
qed

lemma memmem_one_ok: "memmem_one k (y + of_nat j) x m = first_occurrence m y x 1 j (j + k)"
proof (induction k arbitrary: j)
  case 0 show ?case by (simp add: first_occurrence_def)
next
  case (Suc k)
  have "occurs m y x 1 j \<longleftrightarrow> m (y + of_nat j) = m x" by (simp add: occurs_def)
  moreover have "y + of_nat j + 1 = y + of_nat (Suc j)" by simp
  ultimately show ?case using Suc [of "Suc j"] first_occurrence_step [of m y x 1 j "j + Suc k"]
    by (simp only: memmem_one.simps) simp
qed

lemma memmem_step:
  "memmem y n x len m = Some (if len = 0 \<or> len > n then 0 else first_occurrence m y x (unat len) 0 (unat n - unat len + 1))"
proof (cases "len = 0 \<or> len > n")
  case True then show ?thesis by (auto simp: memmem_def)
next
  case False
  then have le: "unat len \<le> unat n" "unat len \<noteq> 0" by (auto simp: word_less_nat_alt not_less unat_eq_zero)
  then have n0: "n \<noteq> 0" by auto
  show ?thesis
  proof (cases "len = 1")
    case True
    then show ?thesis using False n0 memmem_one_ok [of "unat n" y 0 x m] le by (simp add: memmem_def)
  next
    case ne: False
    then have "unat len \<noteq> 1" by (metis unsigned_1 word_eq_iff_unsigned unat_1)
    then have "2 \<le> unat len" using le by simp
    from memmem_loop_ok [OF this le(1), of _ _ m x y 0] show ?thesis using False ne n0
      by (auto simp: memmem_def Let_def)
  qed
qed

section \<open>Strings\<close>

lemma strlen_loop_ok: "cstr m a xs \<Longrightarrow> strlen_loop m a = Some (a + of_nat (length xs))"
proof (induction xs arbitrary: a)
  case Nil then show ?case by (subst strlen_loop.simps) simp
next
  case (Cons x xs) then show ?case by (subst strlen_loop.simps) (simp add: algebra_simps)
qed

lemma strlen_ok: "cstr m a xs \<Longrightarrow> strlen m a = Some (of_nat (length xs))"
  by (simp add: strlen_def strlen_loop_ok)

lemma strchr_end: "cstr m a xs \<Longrightarrow> strchr m a 0 = Some (a + of_nat (length xs))"
proof (induction xs arbitrary: a)
  case Nil then show ?case by (subst strchr.simps) simp
next
  case (Cons x xs) then show ?case by (subst strchr.simps) (simp add: algebra_simps)
qed

lemma uint_diff_neg: "uint (x :: u8) - uint y < 0 \<longleftrightarrow> x < y"
  by (simp add: word_less_def)

lemma strcmp_step:
  "cstr m a xs \<Longrightarrow> cstr m b ys \<Longrightarrow> \<exists>d. strcmp m a b = Some d \<and> (d = 0 \<longleftrightarrow> xs = ys) \<and> (d < 0 \<longleftrightarrow> xs < ys)"
proof (induction xs arbitrary: a b ys)
  case Nil
  then have "m a = 0" by simp
  then have s: "strcmp m a b = Some (- uint (m b))" by (subst strcmp.simps) simp
  show ?case
  proof (cases ys)
    case Nil then show ?thesis using s \<open>cstr m b ys\<close> by simp
  next
    case (Cons y ys')
    then have "m b \<noteq> 0" using \<open>cstr m b ys\<close> by simp
    then have "0 < uint (m b)" by (metis uint_0_iff unsigned_greater_eq le_less)
    then show ?thesis using s Cons by simp
  qed
next
  case (Cons x xs)
  then have x: "m a = x" "x \<noteq> 0" "cstr m (a + 1) xs" by simp_all
  show ?case
  proof (cases ys)
    case Nil
    then have "m b = 0" using Cons.prems by simp
    then have "strcmp m a b = Some (uint x)" using x uint_0_iff [of x] by (subst strcmp.simps) simp
    then show ?thesis using Nil x(2) by (simp add: uint_0_iff)
  next
    case (Cons y ys')
    then have y: "m b = y" "cstr m (b + 1) ys'" using Cons.prems by simp_all
    show ?thesis
    proof (cases "x = y")
      case True
      from Cons.IH [OF x(3) y(2)] obtain d where "strcmp m (a + 1) (b + 1) = Some d" "d = 0 \<longleftrightarrow> xs = ys'" "d < 0 \<longleftrightarrow> xs < ys'" by blast
      moreover have "strcmp m a b = strcmp m (a + 1) (b + 1)" using True x y by (subst strcmp.simps) simp
      ultimately show ?thesis using True Cons by simp
    next
      case False
      then have "uint x - uint y \<noteq> 0" by (simp add: uint_eq)
      then have "strcmp m a b = Some (uint x - uint y)" using x y by (subst strcmp.simps) (simp add: Let_def)
      then show ?thesis using False Cons uint_diff_neg [of x y] by (simp add: uint_eq)
    qed
  qed
qed

lemma cstr_set_nz: "cstr m a xs \<Longrightarrow> 0 \<notin> set xs"
  by (simp add: cstr_rd)

lemma cstr_cong: "(\<And>x. x \<in> block a (Suc (length xs)) \<Longrightarrow> m x = m' x) \<Longrightarrow> Suc (length xs) \<le> 4294967296 \<Longrightarrow> cstr m a xs = cstr m' a xs"
proof -
  assume e: "\<And>x. x \<in> block a (Suc (length xs)) \<Longrightarrow> m x = m' x" and l: "Suc (length xs) \<le> 4294967296"
  have "rd m a (Suc (length xs)) = rd m' a (Suc (length xs))" by (rule rd_cong) (use e l in auto)
  then show ?thesis unfolding cstr_rd by (auto simp: rd_snoc simp del: rd.simps(2))
qed

lemma strlcat_copy_ok:
  assumes "cstr m p ys" and "unat n + length ys < 4294967296"
    and "block p (Suc (length ys)) \<inter> block q (unat sz - 1 - unat n) = {}"
  shows "strlcat_copy sz q p n m = Some (q + of_nat (length (take (unat sz - 1 - unat n) ys)), n + of_nat (length ys),
    wr m q (take (unat sz - 1 - unat n) ys))"
  using assms
proof (induction ys arbitrary: p q n m)
  case Nil then show ?case by (subst strlcat_copy.simps) simp
next
  case (Cons y ys)
  then have y: "m p = y" "y \<noteq> 0" "cstr m (p + 1) ys" and n: "unat (n + 1) = Suc (unat n)"
    using unat_add_fits [of n 1] by simp_all
  have bp: "block p (Suc (Suc (length ys))) = insert p (block (p + 1) (Suc (length ys)))" using Cons.prems(2) by (intro block_Suc) simp
  show ?case
  proof (cases "n + 1 < sz")
    case True
    then have r: "unat sz - 1 - unat n = Suc (unat sz - 1 - unat (n + 1))" using n by (simp add: word_less_nat_alt)
    let ?k = "unat sz - 1 - unat (n + 1)"
    have bq: "block q (Suc ?k) = insert q (block (q + 1) ?k)" using unat_lt [of sz] by (intro block_Suc) simp
    have "cstr (m(q := y)) (p + 1) ys = cstr m (p + 1) ys"
      by (rule cstr_cong) (use Cons.prems(2,3) r bp bq in auto)
    moreover have "strlcat_copy sz (q + 1) (p + 1) (n + 1) (m(q := y)) =
        Some (q + 1 + of_nat (length (take ?k ys)), n + 1 + of_nat (length ys), wr (m(q := y)) (q + 1) (take ?k ys))"
    proof (intro Cons.IH)
      show "cstr (m(q := y)) (p + 1) ys" using calculation y(3) by simp
      show "unat (n + 1) + length ys < 4294967296" using n Cons.prems(2) by simp
      show "block (p + 1) (Suc (length ys)) \<inter> block (q + 1) ?k = {}" using Cons.prems(3) r bp bq by auto
    qed
    moreover have "strlcat_copy sz q p n m = strlcat_copy sz (q + 1) (p + 1) (n + 1) (m(q := y))"
      using y True by (subst strlcat_copy.simps) simp
    ultimately show ?thesis using r by (simp add: algebra_simps)
  next
    case False
    then have r: "unat sz - 1 - unat n = 0" "unat sz - 1 - unat (n + 1) = 0" using n by (simp_all add: word_less_nat_alt)
    have "strlcat_copy sz q (p + 1) (n + 1) m = Some (q, n + 1 + of_nat (length ys), m)"
      using Cons.IH [OF y(3), of "n + 1" q] Cons.prems(2) n r by simp
    moreover have "strlcat_copy sz q p n m = strlcat_copy sz q (p + 1) (n + 1) m"
      using y False by (subst strlcat_copy.simps) simp
    ultimately show ?thesis using r by (simp add: algebra_simps)
  qed
qed

lemma strlcat_skip_ok:
  "cstr m q xs \<Longrightarrow> length xs < k \<Longrightarrow> strlcat_skip k m q n = (q + of_nat (length xs), n + of_nat (length xs))"
proof (induction xs arbitrary: k q n)
  case Nil then show ?case by (cases k) auto
next
  case (Cons x xs) then show ?case by (cases k) (auto simp: algebra_simps)
qed

lemma cstr_extend:
  assumes "cstr m a xs" and "0 \<notin> set zs" and "length xs + Suc (length zs) \<le> 4294967296"
  shows "cstr (wr m (a + of_nat (length xs)) (zs @ [0])) a (xs @ zs)"
proof -
  let ?e = "a + of_nat (length xs)" let ?m = "wr m ?e (zs @ [0])"
  have "block a (length xs) \<inter> block ?e (Suc (length zs)) = {}"
  proof (intro set_eqI iffI)
    fix x assume "x \<in> block a (length xs) \<inter> block ?e (Suc (length zs))"
    then obtain "unat (x - a) < length xs" "unat (x - ?e) < Suc (length zs)" by (auto simp: in_block)
    moreover have "x - a = x - ?e + of_nat (length xs)" by simp
    then have "unat (x - a) = unat (x - ?e) + length xs"
      using unat_add_fits [of "x - ?e" "length xs"] calculation assms(3) by simp
    ultimately show "x \<in> {}" by simp
  qed simp
  then have "rd ?m a (length xs) = rd m a (length xs)" using assms(3) by (intro rd_wr_disjoint) auto
  moreover have "rd ?m ?e (length (zs @ [0])) = zs @ [0]" by (rule rd_wr) (use assms(3) in simp)
  then have "rd ?m ?e (length zs) = zs" "?m (?e + of_nat (length zs)) = 0" by (simp_all add: rd_snoc del: rd.simps(2))
  ultimately show ?thesis using assms(1,2) by (auto simp: cstr_rd rd_append algebra_simps)
qed

lemma strlcat_step:
  assumes x: "cstr m dst xs" and y: "cstr m src ys" and room: "length xs < unat sz" and total: "length xs + length ys < 4294967296"
    and apart: "block src (Suc (length ys)) \<inter> block dst (unat sz) = {}"
  shows "\<exists>m'. strlcat dst src sz m = Some (of_nat (length xs + length ys), m') \<and>
    cstr m' dst (take (unat sz - 1) (xs @ ys)) \<and> (\<forall>a. a \<notin> block dst (unat sz) \<longrightarrow> m' a = m a)"
proof -
  let ?e = "dst + of_nat (length xs)" and ?zs = "take (unat sz - 1 - length xs) ys"
  have lx: "length xs < 4294967296" using total by simp
  have ux: "unat (of_nat (length xs) :: u32) = length xs" using lx by (rule unat_of_nat_u32)
  then have ne: "of_nat (length xs) \<noteq> sz" using room by auto
  have sub: "block ?e (unat sz - length xs) \<subseteq> block dst (unat sz)"
    using block_append [of "length xs" "unat sz - length xs" dst] room unat_lt [of sz] by simp
  have "block ?e (unat sz - 1 - length xs) \<subseteq> block ?e (unat sz - length xs)" by (rule block_mono) simp
  with sub apart have "block src (Suc (length ys)) \<inter> block ?e (unat sz - 1 - length xs) = {}" by blast
  then have cp: "strlcat_copy sz ?e src (of_nat (length xs)) m =
      Some (?e + of_nat (length ?zs), of_nat (length xs) + of_nat (length ys), wr m ?e ?zs)"
    using strlcat_copy_ok [OF y, of "of_nat (length xs)" ?e sz] total by (simp only: ux)
  let ?m = "wr m ?e (?zs @ [0])"
  have "strlcat dst src sz m = Some (of_nat (length xs + length ys), ?m)"
    using strlcat_skip_ok [OF x room, of 0] ne cp by (simp add: strlcat_def wr_snoc del: fun_upd_apply)
  moreover have "cstr ?m dst (xs @ ?zs)"
    by (rule cstr_extend [OF x]) (use cstr_set_nz [OF y] room unat_lt [of sz] in \<open>auto dest: in_set_takeD\<close>)
  moreover have "?m a = m a" if "a \<notin> block dst (unat sz)" for a
  proof (rule wr_other)
    have "block ?e (length (?zs @ [0])) \<subseteq> block ?e (unat sz - length xs)" by (rule block_mono) (use room in simp)
    then show "a \<notin> block ?e (length (?zs @ [0]))" using sub that by blast
  qed (use unat_lt [of sz] in simp)
  ultimately show ?thesis using room by (intro exI [of _ ?m]) (simp add: take_append)
qed

section \<open>Sets of characters\<close>

lemma build_map_ok: "cstr m p cs \<Longrightarrow> build_map m p mm = Some (\<lambda>c. if c \<in> set cs then 1 else mm c)"
proof (induction cs arbitrary: p mm)
  case Nil then show ?case by (subst build_map.simps) simp
next
  case (Cons c cs)
  then have "build_map m (p + 1) (mm(c := 1)) = Some (\<lambda>d. if d \<in> set cs then 1 else (mm(c := 1)) d)" by (intro Cons.IH) simp
  then show ?case using Cons.prems by (subst build_map.simps) (auto simp: fun_eq_iff)
qed

lemma span_loop_ok:
  assumes "cstr m s xs" and "\<And>x. mm x XOR parity \<noteq> 0 \<longleftrightarrow> x \<noteq> 0 \<and> P x"
  shows "span_loop m mm parity s n = Some (n + of_nat (length (takeWhile P xs)))"
  using assms(1)
proof (induction xs arbitrary: s n)
  case Nil then show ?case using assms(2) [of 0] by (subst span_loop.simps) simp
next
  case (Cons x xs)
  then show ?case using assms(2) [of x] by (subst span_loop.simps) (auto simp: algebra_simps)
qed

lemma xor_one_nz: "(x :: u8) XOR 1 \<noteq> 0 \<longleftrightarrow> x \<noteq> 1"
  by (metis xor_self_eq bit.xor_left_self xor.right_neutral)

lemma strspn_ok:
  assumes "cstr m s xs" and "cstr m p cs"
  shows "strspn m s p = Some (of_nat (length (takeWhile (\<lambda>x. x \<in> set cs) xs)))"
  unfolding strspn_def strxspn_def build_map_ok [OF assms(2)]
  by (simp del: fun_upd_apply, rule span_loop_ok [OF assms(1), where n = 0, simplified]) (use cstr_set_nz [OF assms(2)] in auto)

lemma strcspn_ok:
  assumes "cstr m s xs" and "cstr m p cs"
  shows "strxspn m s p 1 = Some (of_nat (length (takeWhile (\<lambda>x. x \<notin> set cs) xs)))"
  unfolding strxspn_def build_map_ok [OF assms(2)]
  by (simp del: fun_upd_apply, rule span_loop_ok [OF assms(1), where n = 0, simplified]) (use xor_one_nz in auto)

lemma cstr_nth: "cstr m a xs \<Longrightarrow> k \<le> length xs \<Longrightarrow> m (a + of_nat k) = (if k < length xs then xs ! k else 0)"
  by (auto simp: cstr_rd) (metis nth_rd length_rd)

lemma cstr_drop: "cstr m a xs \<Longrightarrow> k \<le> length xs \<Longrightarrow> cstr m (a + of_nat k) (drop k xs)"
proof (induction k arbitrary: a xs)
  case (Suc k)
  then obtain x xs' where xs: "xs = x # xs'" by (cases xs) auto
  then have "cstr m (a + 1 + of_nat k) (drop k xs')" by (intro Suc.IH) (use Suc.prems in auto)
  then show ?case using xs by (simp add: algebra_simps)
qed simp

lemma rd_take: "k \<le> n \<Longrightarrow> rd m a k = take k (rd m a n)"
  using rd_append [of m a k "n - k"] by simp

lemma cstr_cut: "cstr m a xs \<Longrightarrow> k \<le> length xs \<Longrightarrow> length xs < 4294967296 \<Longrightarrow> cstr (m(a + of_nat k := 0)) a (take k xs)"
proof -
  assume a: "cstr m a xs" "k \<le> length xs" "length xs < 4294967296"
  have "rd (m(a + of_nat k := 0)) a k = rd m a k"
    by (rule rd_cong) (use a in \<open>auto simp: in_block unat_of_nat_u32\<close>)
  moreover have "rd m a k = take k xs" using a(1) rd_take [OF a(2)] by (simp add: cstr_rd)
  ultimately show ?thesis using a by (auto simp: cstr_rd min_def dest: in_set_takeD)
qed

text \<open>\<^verbatim>\<open>strsep\<close> cuts the string at the first delimiter.\<close>

lemma strsep_step:
  assumes x: "cstr m s xs" and c: "cstr m d cs" and s: "s \<noteq> 0" and fit: "unat s + length xs < 4294967296"
  defines "tok \<equiv> takeWhile (\<lambda>x. x \<notin> set cs) xs"
  shows "\<exists>r m'. strsep s d m = Some (s, r, m') \<and> cstr m' s tok \<and>
    (if tok = xs then r = 0 \<and> m' = m else cstr m' r (drop (Suc (length tok)) xs) \<and> r = s + of_nat (Suc (length tok)))"
proof -
  let ?k = "length tok" let ?e = "s + of_nat ?k"
  have k: "?k \<le> length xs" by (simp add: tok_def length_takeWhile_le)
  have tk: "tok = take ?k xs" unfolding tok_def by (rule takeWhile_eq_take)
  have "unat ?e = unat s + ?k" by (rule unat_add_fits) (use fit k in simp)
  then have e0: "?e \<noteq> 0" using s by (metis add_is_0 unat_eq_zero)
  have me: "m ?e = (if ?k < length xs then xs ! ?k else 0)" by (rule cstr_nth [OF x k])
  have pb: "strpbrk m s d = Some (if ?k < length xs then ?e else 0)"
  proof -
    have "m ?e \<noteq> 0 \<longleftrightarrow> ?k < length xs" using me cstr_set_nz [OF x] by (auto simp: in_set_conv_nth)
    then show ?thesis using strcspn_ok [OF x c] by (simp add: strpbrk_def tok_def Let_def)
  qed
  have full: "tok = xs \<longleftrightarrow> \<not> ?k < length xs" using tk k by (auto dest: arg_cong [of tok xs length])
  show ?thesis
  proof (cases "?k < length xs")
    case False
    then show ?thesis using pb full s x by (simp add: strsep_def Let_def)
  next
    case True
    let ?m = "m(?e := 0)"
    have "strsep s d m = Some (s, ?e + 1, ?m)" using pb s e0 True by (simp add: strsep_def Let_def)
    moreover have "cstr ?m s tok" using cstr_cut [OF x k] fit tk by simp
    moreover have "cstr ?m (s + of_nat (Suc ?k)) (drop (Suc ?k) xs)"
    proof -
      have "cstr m (s + of_nat (Suc ?k)) (drop (Suc ?k) xs)" by (rule cstr_drop [OF x]) (use True in simp)
      moreover have "?e \<notin> block (s + of_nat (Suc ?k)) (Suc (length (drop (Suc ?k) xs)))"
      proof -
        have "?e - (s + of_nat (Suc ?k)) = - 1" by simp
        then have "unat (?e - (s + of_nat (Suc ?k))) = 4294967295" by (simp only:) (simp add: unsigned_minus_1_eq_mask mask_eq_exp_minus_1)
        then show ?thesis using fit True by (simp add: in_block)
      qed
      then have "cstr ?m (s + of_nat (Suc ?k)) (drop (Suc ?k) xs) = cstr m (s + of_nat (Suc ?k)) (drop (Suc ?k) xs)"
        by (intro cstr_cong) (use fit in auto)
      ultimately show ?thesis by simp
    qed
    ultimately show ?thesis using full True by (intro exI [of _ "?e + 1"] exI [of _ ?m]) (simp add: algebra_simps)
  qed
qed

section \<open>Properties\<close>

text \<open>
  C35: \<^verbatim>\<open>memmove\<close> copies a block correctly whatever the overlap of source and destination, and changes nothing else: the
  memory afterwards is the memory before with the bytes of the source block written to the destination.
\<close>

theorem memmove_copies:
  assumes "unat dst + unat n \<le> 2 ^ 32" and "unat src + unat n \<le> 2 ^ 32"
  shows "snd (snd (memmove dst src n m)) = wr m dst (rd m src (unat n))"
  by (rule memmove_step) (use assms in \<open>simp_all add: fits_def\<close>)

theorem memmove_copies_witness:
  "snd (snd (memmove 101 100 3 (wr (\<lambda>_. 0) 100 [1, 2, 3]))) = wr (wr (\<lambda>_. 0) 100 [1, 2, 3]) 101 [1, 2, 3]"
proof -
  let ?m = "wr (\<lambda>_. 0) 100 [1, 2, 3]"
  have "unat (3 :: u32) = 3" "rd ?m 100 3 = [1, 2, 3]" by (simp, simp add: numeral_3_eq_3)
  with memmove_copies [of 101 3 100 ?m] show ?thesis by (simp del: wr.simps fun_upd_apply)
qed

text \<open>
  C6: \<^verbatim>\<open>memmem\<close>, with its skips of one or two positions, ends and returns the address of the first occurrence of the
  needle in the haystack, or \<^verbatim>\<open>NULL\<close> when there is none (or a length is zero).
\<close>

theorem memmem_first_occurrence:
  "memmem y n x len m = Some (if len = 0 \<or> len > n then 0
     else case find (\<lambda>j. rd m (y + of_nat j) (unat len) = rd m x (unat len)) [0..<unat n - unat len + 1] of
       None \<Rightarrow> 0 | Some j \<Rightarrow> y + of_nat j)"
  using memmem_step [of y n x len m] by (simp add: first_occurrence_def occurs_def [abs_def])

text \<open>
  \<^verbatim>\<open>strcmp\<close> on two strings returns 0 exactly when they are equal, and a negative number exactly when the first is
  before the second in the lexicographic order of unsigned characters.
\<close>

theorem strcmp_lexicographic:
  assumes "cstr m a xs" and "cstr m b ys"
  shows "\<exists>d. strcmp m a b = Some d \<and> (d = 0 \<longleftrightarrow> xs = ys) \<and> (d < 0 \<longleftrightarrow> xs < ys)"
  by (rule strcmp_step [OF assms])

theorem strcmp_lexicographic_witness:
  "\<exists>d. strcmp (wr (\<lambda>_. 0) 100 [97, 0, 97, 200]) 100 102 = Some d \<and> d < 0"
proof -
  let ?m = "wr (\<lambda>_. 0) 100 [97, 0, 97, 200]"
  have "cstr ?m 100 [97]" "cstr ?m 102 [97, 200]" "[97] < [97, 200 :: u8]" by simp_all
  with strcmp_lexicographic [of ?m 100 "[97]" 102 "[97, 200]"] show ?thesis by blast
qed

text \<open>
  \<^verbatim>\<open>strlcat\<close> never writes outside the destination buffer of \<^verbatim>\<open>size\<close> bytes, leaves there the concatenation cut to
  \<^verbatim>\<open>size - 1\<close> characters, and returns the length the concatenation would have had.
\<close>

theorem strlcat_bounded:
  assumes "cstr m dst xs" and "cstr m src ys" and "length xs < unat sz" and "length xs + length ys < 2 ^ 32"
    and "block src (Suc (length ys)) \<inter> block dst (unat sz) = {}"
  shows "\<exists>m'. strlcat dst src sz m = Some (of_nat (length xs + length ys), m') \<and>
    cstr m' dst (take (unat sz - 1) (xs @ ys)) \<and> (\<forall>a. a \<notin> block dst (unat sz) \<longrightarrow> m' a = m a)"
  by (rule strlcat_step) (use assms in simp_all)

theorem strlcat_bounded_witness:
  "\<exists>m'. strlcat 100 200 4 (wr (wr (\<lambda>_. 0) 100 [97, 98]) 200 [99, 100, 101]) = Some (5, m') \<and> cstr m' 100 [97, 98, 99]"
proof -
  let ?m = "wr (wr (\<lambda>_. 0) 100 [97, 98]) 200 [99, 100, 101]"
  have "block 200 (Suc (Suc (Suc (Suc 0)))) \<inter> block 100 4 = {}" by (auto simp: fits_block fits_def)
  moreover have "cstr ?m 100 [97, 98]" "cstr ?m 200 [99, 100, 101]" by simp_all
  ultimately obtain m' where "strlcat 100 200 4 ?m = Some (of_nat (length [97, 98 :: u8] + length [99, 100, 101 :: u8]), m')"
    "cstr m' 100 (take (unat (4 :: u32) - 1) ([97, 98] @ [99, 100, 101]))"
    using strlcat_bounded [of ?m 100 "[97, 98]" 200 "[99, 100, 101]" 4] by (auto simp del: wr.simps cstr.simps)
  then show ?thesis by (intro exI [of _ m']) (simp del: wr.simps cstr.simps)
qed

text \<open>
  \<^verbatim>\<open>strsep\<close> (and so \<^verbatim>\<open>strtok\<close>) returns the token up to the first delimiter as a string of its own and leaves in
  \<^verbatim>\<open>*stringp\<close> the address of the rest behind the delimiter, or \<^verbatim>\<open>NULL\<close> when the string has no delimiter.
\<close>

theorem strsep_splits:
  assumes "cstr m s xs" and "cstr m d cs" and "s \<noteq> 0" and "unat s + length xs < 2 ^ 32"
    and "tok = takeWhile (\<lambda>x. x \<notin> set cs) xs"
  shows "\<exists>r m'. strsep s d m = Some (s, r, m') \<and> cstr m' s tok \<and>
    (if tok = xs then r = 0 \<and> m' = m else cstr m' r (drop (Suc (length tok)) xs) \<and> r = s + of_nat (Suc (length tok)))"
  unfolding assms(5) by (rule strsep_step) (use assms in simp_all)

theorem strsep_splits_witness:
  "\<exists>m'. strsep 100 200 (wr (wr (\<lambda>_. 0) 100 [97, 32, 98]) 200 [32]) = Some (100, 102, m') \<and> cstr m' 100 [97] \<and> cstr m' 102 [98]"
proof -
  let ?m = "wr (wr (\<lambda>_. 0) 100 [97, 32, 98]) 200 [32]"
  have "cstr ?m 100 [97, 32, 98]" "cstr ?m 200 [32]" by simp_all
  from strsep_splits [OF this, of "[97]"] obtain r m' where
    "strsep 100 200 ?m = Some (100, r, m')" "cstr m' 100 [97]" "cstr m' r [98]" "r = 102" by (auto simp del: wr.simps cstr.simps)
  then show ?thesis by blast
qed

end
