(* ===== verification/Convert.thy ===== *)
theory Convert
  imports String_Props
begin

text \<open>
  \<^verbatim>\<open>shared/strtol.c\<close>, \<^verbatim>\<open>shared/strtoul.c\<close> and \<^verbatim>\<open>shared/ctype.h\<close>: reading integers from strings. A \<^verbatim>\<open>char\<close> is signed on
  this machine, so bytes are compared through \<open>sint\<close>; the value wraps at 32 bits.
\<close>

definition isspace :: "int \<Rightarrow> bool" where
  "isspace c \<longleftrightarrow> c = 32 \<or> c = 12 \<or> c = 10 \<or> c = 13 \<or> c = 9 \<or> c = 11"

partial_function (option) skip_space :: "mem \<Rightarrow> u32 \<Rightarrow> u32 option" where
  "skip_space m p = (if isspace (sint (m p)) then skip_space m (p + 1) else Some p)"

text \<open>The value of a digit in a base: the three branches of the loops.\<close>

definition digit_value :: "int \<Rightarrow> int \<Rightarrow> int option" where
  "digit_value base c =
     (if c \<ge> 48 \<and> c \<le> 57 \<and> c - 48 < base then Some (c - 48)
      else if c \<ge> 97 \<and> c \<le> 122 \<and> c - 97 + 10 < base then Some (c - 97 + 10)
      else if c \<ge> 65 \<and> c \<le> 90 \<and> c - 65 + 10 < base then Some (c - 65 + 10)
      else None)"

partial_function (option) digits_loop :: "mem \<Rightarrow> int \<Rightarrow> u32 \<Rightarrow> u32 \<Rightarrow> (u32 \<times> u32) option" where
  "digits_loop m base p v =
     (case digit_value base (sint (m p)) of
        Some d \<Rightarrow> digits_loop m base (p + 1) (v * of_int base + of_int d)
      | None \<Rightarrow> Some (v, p))"

text \<open>The prefix \<^verbatim>\<open>0x\<close> and the choice of the base when it is 0.\<close>

definition choose_base :: "mem \<Rightarrow> u32 \<Rightarrow> int \<Rightarrow> u32 \<times> int" where
  "choose_base m p base =
     (let (p, base) = (if (base = 16 \<or> base = 0) \<and> m p = 48 \<and> (m (p + 1) = 120 \<or> m (p + 1) = 88) then (p + 2, 16) else (p, base));
          base = (if base = 0 then (if m p = 48 then 8 else 10) else base)
      in (p, base))"

text \<open>\<^verbatim>\<open>*out_p\<close> is written, as a pointer of four bytes, when \<^verbatim>\<open>out_p\<close> is not null.\<close>

definition strtoul :: "u32 \<Rightarrow> u32 \<Rightarrow> int \<Rightarrow> mem \<Rightarrow> (u32 \<times> mem) option" where
  "strtoul p out_p base m = do {
     p \<leftarrow> skip_space m p;
     let (p, base) = choose_base m p base;
     (v, p) \<leftarrow> digits_loop m base p 0;
     Some (v, if out_p \<noteq> 0 then store32 m out_p p else m) }"

definition strtol :: "u32 \<Rightarrow> u32 \<Rightarrow> int \<Rightarrow> mem \<Rightarrow> (u32 \<times> mem) option" where
  "strtol p out_p base m = do {
     p \<leftarrow> skip_space m p;
     let (is_neg, p) = (if m p = 45 then (True, p + 1) else (False, p));
     let (p, base) = choose_base m p base;
     (v, p) \<leftarrow> digits_loop m base p 0;
     let v = (if is_neg then - v else v);
     Some (v, if out_p \<noteq> 0 then store32 m out_p p else m) }"

section \<open>Reading digits\<close>

text \<open>The number that a list of digit values denotes.\<close>

definition from_digits :: "int \<Rightarrow> u32 \<Rightarrow> int list \<Rightarrow> u32" where
  "from_digits base v ds = fold (\<lambda>d v. v * of_int base + of_int d) ds v"

lemma digits_loop_ok:
  assumes "rd m p (length ds) = map f ds" and "\<And>d. d \<in> set ds \<Longrightarrow> digit_value base (sint (f d)) = Some d"
    and "digit_value base (sint (m (p + of_nat (length ds)))) = None"
  shows "digits_loop m base p v = Some (from_digits base v ds, p + of_nat (length ds))"
  using assms
proof (induction ds arbitrary: p v)
  case Nil then show ?case by (subst digits_loop.simps) (simp add: from_digits_def)
next
  case (Cons d ds)
  then have "digits_loop m base (p + 1) (v * of_int base + of_int d) = Some (from_digits base (v * of_int base + of_int d) ds, p + 1 + of_nat (length ds))"
    by (intro Cons.IH) (auto simp: algebra_simps)
  moreover have "digit_value base (sint (m p)) = Some d" using Cons.prems by simp
  ultimately show ?case by (subst digits_loop.simps) (simp add: from_digits_def algebra_simps)
qed

lemma skip_space_none: "\<not> isspace (sint (m p)) \<Longrightarrow> skip_space m p = Some p"
  by (subst skip_space.simps) simp

end
