(* ===== verification/Doprnt.thy ===== *)
theory Doprnt
  imports Convert
begin

text \<open>
  \<^verbatim>\<open>shared/doprnt.c\<close>, the formatted output behind \<^verbatim>\<open>printf\<close>, and \<^verbatim>\<open>shared/sprintf.c\<close>.

  The output function \<^verbatim>\<open>putc\<close> with its argument is a state transformer \<open>putc\<close> on a state \<open>'s\<close> that
  contains memory (read by \<open>rdm\<close>), because the output of \<^verbatim>\<open>sprintf\<close> goes to the memory from
  which formats and arguments are read. A \<^verbatim>\<open>va_list\<close> is the address of the next argument on the
  stack. \<open>None\<close> stands for a string that never ends, a division by zero, a digit outside the table
  or a shift by an amount that C leaves undefined. The floating-point formats are compiled out
  (\<^verbatim>\<open>DOPRNT_FLOATS\<close> is not defined).
\<close>

section \<open>Numbers\<close>

text \<open>The array \<^verbatim>\<open>digs\<close> with its terminator.\<close>

definition digs :: "u8 list" where
  "digs = [48, 49, 50, 51, 52, 53, 54, 55, 56, 57, 97, 98, 99, 100, 101, 102, 0]"

text \<open>The loop that fills the buffer from its end; the buffer of 32 bytes is enough for every base from 2.\<close>

function num_digits :: "u32 \<Rightarrow> u32 \<Rightarrow> u8 list \<Rightarrow> u8 list option" where
  "num_digits u b acc =
     (if b = 0 \<or> unat (u mod b) \<ge> length digs then None
      else let acc = digs ! unat (u mod b) # acc; u' = u div b in
        if u' = 0 then Some acc else if b = 1 then None else num_digits u' b acc)"
  by pat_completeness auto

lemma div_less_u32: "u div b \<noteq> 0 \<Longrightarrow> b \<noteq> 1 \<Longrightarrow> b \<noteq> 0 \<Longrightarrow> unat (u div b :: u32) < unat u"
proof -
  assume a: "u div b \<noteq> 0" "b \<noteq> 1" "b \<noteq> 0"
  have "1 < unat b" using a(2,3) by (metis One_nat_def nat_neq_iff less_one unat_1 unat_eq_zero word_eq_iff_unsigned)
  moreover have "0 < unat u" using a(1) by (cases "u = 0") (auto simp: unat_gt_0)
  ultimately show ?thesis by (simp add: unat_div)
qed

termination num_digits
  by (relation "measure (\<lambda>(u, _, _). unat u)") (auto simp: div_less_u32)

declare num_digits.simps [simp del]

definition put_list :: "(u8 \<Rightarrow> 's \<Rightarrow> 's) \<Rightarrow> u8 list \<Rightarrow> 's \<Rightarrow> 's" where
  "put_list putc xs s = fold putc xs s"

definition printnum :: "(u8 \<Rightarrow> 's \<Rightarrow> 's) \<Rightarrow> u32 \<Rightarrow> u32 \<Rightarrow> 's \<Rightarrow> 's option" where
  "printnum putc u base s = do { ds \<leftarrow> num_digits u base []; Some (put_list putc ds s) }"

section \<open>The conversion specification\<close>

record fspec =
  flength :: int
  prec :: int
  ladjust :: bool
  padc :: u8
  plus_sign :: u8
  altfmt :: bool

definition fspec0 :: fspec where
  "fspec0 = \<lparr>flength = 0, prec = -1, ladjust = False, padc = 32, plus_sign = 0, altfmt = False\<rparr>"

partial_function (option) parse_flags :: "mem \<Rightarrow> u32 \<Rightarrow> fspec \<Rightarrow> (u32 \<times> fspec) option" where
  "parse_flags m fmt f =
     (if m fmt = 35 then parse_flags m (fmt + 1) (f\<lparr>altfmt := True\<rparr>)
      else if m fmt = 45 then parse_flags m (fmt + 1) (f\<lparr>ladjust := True\<rparr>)
      else if m fmt = 43 then parse_flags m (fmt + 1) (f\<lparr>plus_sign := 43\<rparr>)
      else if m fmt = 32 then parse_flags m (fmt + 1) (if plus_sign f = 0 then f\<lparr>plus_sign := 32\<rparr> else f)
      else Some (fmt, f))"

definition isdigit :: "u8 \<Rightarrow> bool" where
  "isdigit c \<longleftrightarrow> 48 \<le> sint c \<and> sint c \<le> 57"

partial_function (option) parse_int :: "mem \<Rightarrow> u32 \<Rightarrow> int \<Rightarrow> (u32 \<times> int) option" where
  "parse_int m fmt n = (if isdigit (m fmt) then parse_int m (fmt + 1) (10 * n + (sint (m fmt) - 48)) else Some (fmt, n))"

text \<open>Everything between the percent sign and the conversion character.\<close>

definition parse_spec :: "mem \<Rightarrow> u32 \<Rightarrow> u32 \<Rightarrow> (u32 \<times> u32 \<times> fspec) option" where
  "parse_spec m fmt args = do {
     (fmt, f) \<leftarrow> parse_flags m fmt fspec0;
     let (fmt, f) = (if m fmt = 48 then (fmt + 1, f\<lparr>padc := 48\<rparr>) else (fmt, f));
     (fmt, args, f) \<leftarrow>
       (if isdigit (m fmt) then do { (fmt, n) \<leftarrow> parse_int m fmt 0; Some (fmt, args, f\<lparr>flength := n\<rparr>) }
        else if m fmt = 42 then
          (let n = sint (load32 m args) in
           Some (fmt + 1, args + 4, if n < 0 then f\<lparr>ladjust := \<not> ladjust f, flength := - n\<rparr> else f\<lparr>flength := n\<rparr>))
        else Some (fmt, args, f));
     (fmt, args, f) \<leftarrow>
       (if m fmt = 46 then
          (let fmt = fmt + 1 in
           if isdigit (m fmt) then do { (fmt, n) \<leftarrow> parse_int m fmt 0; Some (fmt, args, f\<lparr>prec := n\<rparr>) }
           else if m fmt = 42 then Some (fmt + 1, args + 4, f\<lparr>prec := sint (load32 m args)\<rparr>)
           else Some (fmt, args, f))
        else Some (fmt, args, f));
     let fmt = (if m fmt = 108 then fmt + 1 else fmt);
     Some (fmt, args, f) }"

section \<open>Conversions\<close>

text \<open>\<^verbatim>\<open>while (--length >= 0) putc(c)\<close>: the final value of \<^verbatim>\<open>length\<close>, and the state.\<close>

definition pad_loop :: "(u8 \<Rightarrow> 's \<Rightarrow> 's) \<Rightarrow> u8 \<Rightarrow> int \<Rightarrow> 's \<Rightarrow> int \<times> 's" where
  "pad_loop putc c len s = (if len > 0 then -1 else len - 1, (putc c ^^ nat len) s)"

text \<open>The label \<^verbatim>\<open>print_num\<close>.\<close>

definition print_num :: "(u8 \<Rightarrow> 's \<Rightarrow> 's) \<Rightarrow> fspec \<Rightarrow> u8 \<Rightarrow> u32 \<Rightarrow> u32 \<Rightarrow> 's \<Rightarrow> 's option" where
  "print_num putc f sign_char u base s = do {
     let prefix = (if u \<noteq> 0 \<and> altfmt f then if base = 8 then [48] else if base = 16 then [48, 120] else [] else []);
     ds \<leftarrow> num_digits u base [];
     let pr = prec f - int (length ds);
     let len = flength f - int (length ds);
     let len = (if sign_char \<noteq> 0 then len - 1 else len);
     let len = len - int (length prefix);
     let len = (if pr > 0 then len - pr else len);
     let (len, s) = (if padc f = 32 \<and> \<not> ladjust f then pad_loop putc 32 len s else (len, s));
     let s = (if sign_char \<noteq> 0 then putc sign_char s else s);
     let s = put_list putc prefix s;
     let (_, s) = pad_loop putc 48 pr s;
     let (len, s) = (if padc f = 48 then pad_loop putc 48 len s else (len, s));
     let s = put_list putc ds s;
     let (len, s) = (if ladjust f then pad_loop putc 32 len s else (len, s));
     Some s }"

text \<open>The labels \<^verbatim>\<open>print_signed\<close> and \<^verbatim>\<open>print_unsigned\<close>.\<close>

definition print_signed :: "(u8 \<Rightarrow> 's \<Rightarrow> 's) \<Rightarrow> ('s \<Rightarrow> mem) \<Rightarrow> fspec \<Rightarrow> u32 \<Rightarrow> u32 \<Rightarrow> 's \<Rightarrow> (u32 \<times> 's) option" where
  "print_signed putc rdm f base args s = do {
     let n = load32 (rdm s) args;
     s \<leftarrow> (if sint n \<ge> 0 then print_num putc f (plus_sign f) n base s else print_num putc f 45 (- n) base s);
     Some (args + 4, s) }"

definition print_unsigned :: "(u8 \<Rightarrow> 's \<Rightarrow> 's) \<Rightarrow> ('s \<Rightarrow> mem) \<Rightarrow> fspec \<Rightarrow> u32 \<Rightarrow> u32 \<Rightarrow> 's \<Rightarrow> (u32 \<times> 's) option" where
  "print_unsigned putc rdm f base args s = do {
     s \<leftarrow> print_num putc f 0 (load32 (rdm s) args) base s;
     Some (args + 4, s) }"

text \<open>
  The conversion \<^verbatim>\<open>%s\<close>: a null pointer is replaced by the empty string. The loops count the
  characters to print, and print them; the second leaves \<^verbatim>\<open>n\<close> one too large when it stops at
  the precision.
\<close>

partial_function (option) count_chars :: "mem \<Rightarrow> u32 \<Rightarrow> int \<Rightarrow> int \<Rightarrow> int option" where
  "count_chars m p pr n = (if m p \<noteq> 0 \<and> n < pr then count_chars m (p + 1) pr (n + 1) else Some n)"

partial_function (option) put_chars :: "(u8 \<Rightarrow> 's \<Rightarrow> 's) \<Rightarrow> ('s \<Rightarrow> mem) \<Rightarrow> u32 \<Rightarrow> int \<Rightarrow> int \<Rightarrow> 's \<Rightarrow> (int \<times> 's) option" where
  "put_chars putc rdm p pr n s =
     (if rdm s p \<noteq> 0 then
        (if n + 1 > pr then Some (n + 1, s)
         else put_chars putc rdm (p + 1) pr (n + 1) (putc (rdm s p) s))
      else Some (n, s))"

definition print_string :: "(u8 \<Rightarrow> 's \<Rightarrow> 's) \<Rightarrow> ('s \<Rightarrow> mem) \<Rightarrow> fspec \<Rightarrow> u32 \<Rightarrow> 's \<Rightarrow> (u32 \<times> 's) option" where
  "print_string putc rdm f args s = do {
     let pr = (if prec f = -1 then 0x7fffffff else prec f);
     let p = load32 (rdm s) args;
     s \<leftarrow> (if flength f > 0 \<and> \<not> ladjust f then do {
             n \<leftarrow> (if p = 0 then Some 0 else count_chars (rdm s) p pr 0);
             Some ((putc 32 ^^ nat (flength f - n)) s) }
           else Some s);
     (n, s) \<leftarrow> (if p = 0 then Some (0, s) else put_chars putc rdm p pr 0 s);
     let s = (if n < flength f \<and> ladjust f then (putc 32 ^^ nat (flength f - n)) s else s);
     Some (args + 4, s) }"

text \<open>The conversion \<^verbatim>\<open>%b\<close>: the names of the fields of a device register.\<close>

partial_function (option) put_name :: "(u8 \<Rightarrow> 's \<Rightarrow> 's) \<Rightarrow> ('s \<Rightarrow> mem) \<Rightarrow> u32 \<Rightarrow> 's \<Rightarrow> (u32 \<times> 's) option" where
  "put_name putc rdm p s =
     (if sint (rdm s p) > 32 then put_name putc rdm (p + 1) (putc (rdm s p) s) else Some (p, s))"

partial_function (option) skip_name :: "mem \<Rightarrow> u32 \<Rightarrow> u32 option" where
  "skip_name m p = (if sint (m p) > 32 then skip_name m (p + 1) else Some p)"

definition c_shift :: "int \<Rightarrow> nat option" where
  "c_shift n = (if 0 \<le> n \<and> n < 32 then Some (nat n) else None)"

partial_function (option) bits_loop :: "(u8 \<Rightarrow> 's \<Rightarrow> 's) \<Rightarrow> ('s \<Rightarrow> mem) \<Rightarrow> u32 \<Rightarrow> u32 \<Rightarrow> u32 \<Rightarrow> bool \<Rightarrow> 's \<Rightarrow> (bool \<times> 's) option" where
  "bits_loop putc rdm u base p any s =
     (let i = sint (rdm s p) in
      if i = 0 then Some (any, s)
      else let p = p + 1 in
        if sint (rdm s p) \<le> 32 then do {
          let s = putc (if any then 44 else 60) s;
          let j = sint (rdm s p);
          (p, s) \<leftarrow> put_name putc rdm (p + 1) s;
          a \<leftarrow> c_shift (j - 1);
          b \<leftarrow> c_shift (i - j);
          s \<leftarrow> printnum putc (drop_bit a u AND (push_bit b 2 - 1)) base s;
          bits_loop putc rdm u base p True s }
        else do {
          a \<leftarrow> c_shift (i - 1);
          if u AND push_bit a 1 \<noteq> 0 then do {
            let s = putc (if any then 44 else 60) s;
            (p, s) \<leftarrow> put_name putc rdm p s;
            bits_loop putc rdm u base p True s }
          else do {
            p \<leftarrow> skip_name (rdm s) p;
            bits_loop putc rdm u base p any s } })"

definition print_bits :: "(u8 \<Rightarrow> 's \<Rightarrow> 's) \<Rightarrow> ('s \<Rightarrow> mem) \<Rightarrow> u32 \<Rightarrow> 's \<Rightarrow> (u32 \<times> 's) option" where
  "print_bits putc rdm args s = do {
     let u = load32 (rdm s) args;
     let p = load32 (rdm s) (args + 4);
     let base = scast (rdm s p);
     s \<leftarrow> printnum putc u base s;
     s \<leftarrow> (if u = 0 then Some s else do {
             (any, s) \<leftarrow> bits_loop putc rdm u base (p + 1) False s;
             Some (if any then putc 62 s else s) });
     Some (args + 8, s) }"

text \<open>The switch on the conversion character; the format pointer moves back on the terminator.\<close>

definition convert :: "(u8 \<Rightarrow> 's \<Rightarrow> 's) \<Rightarrow> ('s \<Rightarrow> mem) \<Rightarrow> u32 \<Rightarrow> fspec \<Rightarrow> u32 \<Rightarrow> u32 \<Rightarrow> 's \<Rightarrow> (u32 \<times> u32 \<times> 's) option" where
  "convert putc rdm radix f fmt args s =
     (let c = rdm s fmt; keep = map_option (\<lambda>(args, s). (fmt, args, s)) in
      if c = 98 \<or> c = 66 then keep (print_bits putc rdm args s)
      else if c = 99 then Some (fmt, args + 4, putc (ucast (load32 (rdm s) args)) s)
      else if c = 115 then keep (print_string putc rdm f args s)
      else if c = 111 \<or> c = 79 then keep (print_unsigned putc rdm f 8 args s)
      else if c = 100 \<or> c = 105 \<or> c = 68 then keep (print_signed putc rdm f 10 args s)
      else if c = 117 \<or> c = 85 then keep (print_unsigned putc rdm f 10 args s)
      else if c = 112 then keep (print_unsigned putc rdm (f\<lparr>padc := 48, flength := 8\<rparr>) 16 args (putc 120 (putc 48 s)))
      else if c = 120 \<or> c = 88 then keep (print_unsigned putc rdm f 16 args s)
      else if c = 122 \<or> c = 90 then keep (print_signed putc rdm f 16 args s)
      else if c = 114 \<or> c = 82 then keep (print_signed putc rdm f radix args s)
      else if c = 110 \<or> c = 78 then keep (print_unsigned putc rdm f radix args s)
      else if c = 0 then Some (fmt - 1, args, s)
      else Some (fmt, args, putc c s))"

partial_function (option) doprnt :: "(u8 \<Rightarrow> 's \<Rightarrow> 's) \<Rightarrow> ('s \<Rightarrow> mem) \<Rightarrow> u32 \<Rightarrow> u32 \<Rightarrow> u32 \<Rightarrow> 's \<Rightarrow> 's option" where
  "doprnt putc rdm radix fmt args s =
     (if rdm s fmt = 0 then Some s
      else if rdm s fmt \<noteq> 37 then doprnt putc rdm radix (fmt + 1) args (putc (rdm s fmt) s)
      else do {
        (fmt, args, f) \<leftarrow> parse_spec (rdm s) (fmt + 1) args;
        (fmt, args, s) \<leftarrow> convert putc rdm radix f fmt args s;
        doprnt putc rdm radix (fmt + 1) args s })"

section \<open>Printing to a string\<close>

definition SPRINTF_UNLIMITED :: u32 where "SPRINTF_UNLIMITED = 0xFFFFFFF"

text \<open>\<^verbatim>\<open>struct sprintf_state\<close>, with the memory the buffer is in.\<close>

record sprintf_state =
  sbuf :: u32
  slen :: u32
  smax :: u32
  smem :: mem

definition savechar :: "u8 \<Rightarrow> sprintf_state \<Rightarrow> sprintf_state" where
  "savechar c st =
     (if smax st \<noteq> SPRINTF_UNLIMITED \<and> slen st = smax st then st
      else st\<lparr>slen := slen st + 1, smem := (smem st)(sbuf st := c), sbuf := sbuf st + 1\<rparr>)"

definition vsprintf :: "u32 \<Rightarrow> u32 \<Rightarrow> u32 \<Rightarrow> mem \<Rightarrow> (u32 \<times> mem) option" where
  "vsprintf s fmt args m = do {
     st \<leftarrow> doprnt savechar smem 0 fmt args \<lparr>sbuf = s, slen = 0, smax = SPRINTF_UNLIMITED, smem = m\<rparr>;
     Some (slen st, (smem st)(sbuf st := 0)) }"

definition vsnprintf :: "u32 \<Rightarrow> u32 \<Rightarrow> u32 \<Rightarrow> u32 \<Rightarrow> mem \<Rightarrow> (u32 \<times> mem) option" where
  "vsnprintf s sz fmt args m = do {
     st \<leftarrow> doprnt savechar smem 0 fmt args \<lparr>sbuf = s, slen = 0, smax = sz, smem = m\<rparr>;
     Some (slen st, (smem st)(sbuf st := 0)) }"

text \<open>\<^verbatim>\<open>sprintf\<close> and \<^verbatim>\<open>snprintf\<close>: \<^verbatim>\<open>va_start\<close> gives the address of the arguments behind the format.\<close>

definition sprintf :: "u32 \<Rightarrow> u32 \<Rightarrow> u32 \<Rightarrow> mem \<Rightarrow> (u32 \<times> mem) option" where
  "sprintf s fmt args m = vsprintf s fmt args m"

definition snprintf :: "u32 \<Rightarrow> u32 \<Rightarrow> u32 \<Rightarrow> u32 \<Rightarrow> mem \<Rightarrow> (u32 \<times> mem) option" where
  "snprintf s sz fmt args m = vsnprintf s sz fmt args m"

end
