(* ===== verification/Doprnt_Props.thy ===== *)
theory Doprnt_Props
  imports Doprnt
begin

text \<open>
  What the formatted output computes: the digits of a number, plain text, and the number conversions,
  for every output function that leaves the format alone; then printing into memory, and reading
  back what was printed.
\<close>

section \<open>Digits\<close>

lemma num_digits_step:
  assumes "b \<noteq> 0" and "unat (u mod b) < 17" and "b \<noteq> 1"
  shows "num_digits u b acc = (if u div b = 0 then Some (digs ! unat (u mod b) # acc) else num_digits (u div b) b (digs ! unat (u mod b) # acc))"
  using assms by (subst num_digits.simps) (simp add: digs_def Let_def)

lemma from_digits_snoc: "from_digits b v (ds @ [d]) = from_digits b v ds * of_int b + of_int d"
  by (simp add: from_digits_def)

lemma num_digits_ok:
  assumes b: "2 \<le> unat b" "unat b \<le> 16" and n: "unat u < 2 ^ n" "0 < n"
  shows "\<exists>dl. num_digits u b acc = Some (map (\<lambda>d. digs ! nat d) dl @ acc) \<and> dl \<noteq> [] \<and> length dl \<le> n \<and>
    (\<forall>d \<in> set dl. 0 \<le> d \<and> d < uint b) \<and> from_digits (uint b) 0 dl = u"
  using n
proof (induction n arbitrary: u acc)
  case (Suc n)
  have b0: "b \<noteq> 0" "b \<noteq> 1" using b(1) by auto
  have md: "unat (u mod b) < unat b" using b(1) by (simp add: unat_mod)
  have lt: "0 \<le> uint (u mod b)" "uint (u mod b) < uint b" using md by (simp_all add: word_less_nat_alt flip: word_less_def)
  note st = num_digits_step [OF b0(1) _ b0(2), of u acc]
  have eq: "u div b * b + u mod b = u" by (simp add: div_mult_mod_eq)
  show ?case
  proof (cases "u div b = 0")
    case True
    then have "u mod b = u" using eq by simp
    then show ?thesis using st md b True lt by (intro exI [of _ "[uint (u mod b)]"]) (simp add: from_digits_def)
  next
    case False
    have "unat u div unat b \<le> unat u div 2" using b(1) by (intro div_le_mono2) auto
    also have "\<dots> < 2 ^ n" using Suc.prems(1) by simp
    finally have u': "unat (u div b) < 2 ^ n" by (simp add: unat_div)
    then have n0: "0 < n" using False by (cases n) (auto simp: unat_eq_zero)
    from Suc.IH [OF u' n0, of "digs ! unat (u mod b) # acc"] obtain dl where
      dl: "num_digits (u div b) b (digs ! unat (u mod b) # acc) = Some (map (\<lambda>d. digs ! nat d) dl @ digs ! unat (u mod b) # acc)"
      "length dl \<le> n" "\<forall>d \<in> set dl. 0 \<le> d \<and> d < uint b" "from_digits (uint b) 0 dl = u div b" by blast
    have nd: "num_digits u b acc = num_digits (u div b) b (digs ! unat (u mod b) # acc)" using st md b False by simp
    have fd: "from_digits (uint b) 0 (dl @ [uint (u mod b)]) = u" unfolding from_digits_snoc dl(4) using eq by simp
    show ?thesis
      by (rule exI [of _ "dl @ [uint (u mod b)]"], intro conjI) (use dl nd fd lt in \<open>auto simp: nat_uint_eq\<close>)
  qed
qed simp

lemma digit_value_digs:
  assumes "0 \<le> d" and "d < b" and "b \<le> 16"
  shows "digit_value b (sint (digs ! nat d)) = Some d"
proof -
  have "\<forall>d \<in> {0..15 :: int}. sint (digs ! nat d) = (if d < 10 then 48 + d else 87 + d)" by code_simp
  then show ?thesis using assms by (auto simp: digit_value_def)
qed

section \<open>Output devices\<close>

text \<open>
  The contract between the formatting code and its output function: as long as there is room, putting a
  character leaves alone the region \<open>R\<close> of memory where the format and the arguments are.
\<close>

locale output_device =
  fixes putc :: "u8 \<Rightarrow> 's \<Rightarrow> 's" and rdm :: "'s \<Rightarrow> mem" and room :: "nat \<Rightarrow> 's \<Rightarrow> bool" and R :: "u32 set"
  assumes put_keeps: "room (Suc n) s \<Longrightarrow> a \<in> R \<Longrightarrow> rdm (putc c s) a = rdm s a"
    and put_room: "room (Suc n) s \<Longrightarrow> room n (putc c s)"
begin

lemma put_list_keeps:
  "room (length xs + n) s \<Longrightarrow> (\<forall>a \<in> R. rdm (put_list putc xs s) a = rdm s a) \<and> room n (put_list putc xs s)"
proof (induction xs arbitrary: s)
  case (Cons x xs)
  then have "room (length xs + n) (putc x s)" by (intro put_room) simp
  with Cons show ?case using put_keeps [of "length xs + n" s] by (simp add: put_list_def)
qed (simp add: put_list_def)

text \<open>Text up to the next percent sign, or the end, is put as it is.\<close>

lemma doprnt_text:
  assumes "rd (rdm s) fmt (length xs) = xs" and "0 \<notin> set xs" "37 \<notin> set xs" and "block fmt (length xs) \<subseteq> R"
    and "room (length xs + n) s" and "length xs < 4294967296"
  shows "doprnt putc rdm radix fmt args s = doprnt putc rdm radix (fmt + of_nat (length xs)) args (put_list putc xs s)"
  using assms
proof (induction xs arbitrary: fmt s)
  case (Cons x xs)
  have b: "block fmt (Suc (length xs)) = insert fmt (block (fmt + 1) (length xs))" by (rule block_Suc) (use Cons.prems(6) in simp)
  have m: "rdm s fmt = x" "rd (rdm s) (fmt + 1) (length xs) = xs" using Cons.prems(1) by simp_all
  have k: "rdm (putc x s) a = rdm s a" if "a \<in> R" for a
    using put_keeps [of "length xs + n" s a x] Cons.prems(5) that by simp
  have "rd (rdm (putc x s)) (fmt + 1) (length xs) = rd (rdm s) (fmt + 1) (length xs)"
    by (rule rd_cong) (use k b Cons.prems(4,6) in auto)
  then have "doprnt putc rdm radix (fmt + 1) args (putc x s) =
      doprnt putc rdm radix (fmt + 1 + of_nat (length xs)) args (put_list putc xs (putc x s))"
    using Cons.prems m b put_room [of "length xs + n" s x] by (intro Cons.IH) auto
  then show ?case using m(1) Cons.prems(2,3)
    by (subst doprnt.simps) (auto simp: put_list_def algebra_simps)
qed (simp add: put_list_def)

lemma doprnt_end: "rdm s fmt = 0 \<Longrightarrow> doprnt putc rdm radix fmt args s = Some s"
  by (subst doprnt.simps) simp

lemma doprnt_plain:
  assumes "cstr (rdm s) fmt xs" and "37 \<notin> set xs" and R: "block fmt (Suc (length xs)) \<subseteq> R"
    and "room (length xs) s" and l: "length xs < 4294967296"
  shows "doprnt putc rdm radix fmt args s = Some (put_list putc xs s)"
proof -
  have "fmt + of_nat (length xs) \<in> block fmt (Suc (length xs))" using l by (simp add: in_block unat_of_nat_u32)
  then have "rdm (put_list putc xs s) (fmt + of_nat (length xs)) = rdm s (fmt + of_nat (length xs))"
    using put_list_keeps [of xs 0 s] assms(4) R by auto
  then have e: "rdm (put_list putc xs s) (fmt + of_nat (length xs)) = 0" using assms(1) by (simp add: cstr_rd)
  have "block fmt (length xs) \<subseteq> R" using R block_mono [of "length xs" "Suc (length xs)" fmt] by auto
  with doprnt_text [of s fmt xs 0 radix args] assms e doprnt_end show ?thesis by (simp add: cstr_rd)
qed

lemma pad_zero: "pr \<le> 0 \<Longrightarrow> pad_loop putc c pr s = (pr - 1, s)"
  by (simp add: pad_loop_def)

lemma print_num_plain:
  assumes "num_digits u base [] = Some ds" and "ds \<noteq> []"
  shows "print_num putc fspec0 sg u base s = Some (put_list putc ds (if sg \<noteq> 0 then putc sg s else s))"
  using assms by (cases ds) (auto simp: print_num_def fspec0_def Let_def pad_loop_def put_list_def)

lemma parse_none:
  assumes "c \<notin> {35, 45, 43, 32, 48, 42, 46, 108}" and "\<not> isdigit c" and "m fmt = c"
  shows "parse_spec m fmt args = Some (fmt, args, fspec0)"
proof -
  have "parse_flags m fmt fspec0 = Some (fmt, fspec0)" using assms by (subst parse_flags.simps) simp
  then show ?thesis using assms by (simp add: parse_spec_def)
qed

lemma doprnt_number:
  assumes f: "rdm s fmt = 37" "rdm s (fmt + 1) = c" "rdm s (fmt + 2) = 0" and R: "fmt + 2 \<in> R"
    and c: "c = 117 \<and> b = 10 \<or> c = 120 \<and> b = 16 \<or> c = 111 \<and> b = 8"
    and ds: "num_digits (load32 (rdm s) args) b [] = Some ds" "ds \<noteq> []" and room: "room (length ds) s"
  shows "doprnt putc rdm radix fmt args s = Some (put_list putc ds s)"
proof -
  have nd: "\<not> isdigit c" using c by (auto simp: isdigit_def)
  have ps: "parse_spec (rdm s) (fmt + 1) args = Some (fmt + 1, args, fspec0)"
    by (rule parse_none [where c = c]) (use c nd f(2) in auto)
  have "convert putc rdm radix fspec0 (fmt + 1) args s = Some (fmt + 1, args + 4, put_list putc ds s)"
    using c f(2) print_num_plain [OF ds, of 0 s] by (auto simp: convert_def Let_def print_unsigned_def)
  moreover have "rdm (put_list putc ds s) (fmt + 2) = 0" using put_list_keeps [of ds 0 s] room R f(3) by simp
  then have "doprnt putc rdm radix (2 + fmt) (args + 4) (put_list putc ds s) = Some (put_list putc ds s)"
    by (intro doprnt_end) (simp add: add.commute)
  ultimately show ?thesis using f(1) ps by (subst doprnt.simps) simp
qed

end

section \<open>Printing into memory\<close>

text \<open>The characters go to memory from the buffer on: there is room until the buffer reaches the region.\<close>

definition sroom :: "u32 set \<Rightarrow> nat \<Rightarrow> sprintf_state \<Rightarrow> bool" where
  "sroom R n st \<longleftrightarrow> block (sbuf st) n \<inter> R = {} \<and> n < 4294967296"

interpretation sdev: output_device savechar smem "sroom R" R for R
proof
  fix n st a c assume r: "sroom R (Suc n) st"
  have b: "block (sbuf st) (Suc n) = insert (sbuf st) (block (sbuf st + 1) n)" by (rule block_Suc) (use r in \<open>simp add: sroom_def\<close>)
  show "smem (savechar c st) a = smem st a" if "a \<in> R" using r b that by (auto simp: savechar_def sroom_def)
  have "block (sbuf st) n \<subseteq> block (sbuf st) (Suc n)" by (rule block_mono) simp
  then show "sroom R n (savechar c st)" using r b by (auto simp: savechar_def sroom_def)
qed

lemma put_list_savechar:
  assumes "smax st = SPRINTF_UNLIMITED \<or> unat (slen st) + length xs \<le> unat (smax st)"
  shows "put_list savechar xs st = st\<lparr>slen := slen st + of_nat (length xs), smem := wr (smem st) (sbuf st) xs, sbuf := sbuf st + of_nat (length xs)\<rparr>"
  using assms
proof (induction xs arbitrary: st)
  case (Cons x xs)
  have s: "savechar x st = st\<lparr>slen := slen st + 1, smem := (smem st)(sbuf st := x), sbuf := sbuf st + 1\<rparr>"
    using Cons.prems by (auto simp: savechar_def)
  have "smax st = SPRINTF_UNLIMITED \<or> unat (slen st + 1) + length xs \<le> unat (smax st)"
    using Cons.prems unat_plus_one [of "slen st"] unat_lt [of "smax st"] by auto
  from Cons.IH [of "savechar x st"] this show ?case
    by (simp add: put_list_def s algebra_simps del: fun_upd_apply)
qed (simp add: put_list_def)

lemma vsprintf_number:
  fixes b :: u32
  assumes f: "m fmt = 37" "m (fmt + 1) = c" "m (fmt + 2) = 0"
    and c: "c = 117 \<and> b = 10 \<or> c = 120 \<and> b = 16 \<or> c = 111 \<and> b = 8"
    and buf: "fmt + 2 \<notin> block s 33"
  shows "\<exists>dl m'. vsprintf s fmt args m = Some (of_nat (length dl), m') \<and> m' = wr m s (map (\<lambda>d. digs ! nat d) dl @ [0]) \<and>
    dl \<noteq> [] \<and> length dl \<le> 32 \<and> (\<forall>d \<in> set dl. 0 \<le> d \<and> d < uint b) \<and> from_digits (uint b) 0 dl = load32 m args"
proof -
  let ?st = "\<lparr>sbuf = s, slen = 0, smax = SPRINTF_UNLIMITED, smem = m\<rparr>" and ?u = "load32 m args"
  have "unat ?u < 2 ^ 32" using unat_lt [of ?u] by simp
  from num_digits_ok [OF _ _ this, of b "[]"] c obtain dl where dl: "num_digits ?u b [] = Some (map (\<lambda>d. digs ! nat d) dl)" "dl \<noteq> []"
    "length dl \<le> 32" "\<forall>d \<in> set dl. 0 \<le> d \<and> d < uint b" "from_digits (uint b) 0 dl = ?u" by auto
  let ?ds = "map (\<lambda>d. digs ! nat d) dl"
  have "block s (length ?ds) \<subseteq> block s 33" using dl(3) by (intro block_mono) simp
  then have room: "sroom {fmt + 2} (length ?ds) ?st" using buf dl(3) by (auto simp: sroom_def)
  have "doprnt savechar smem 0 fmt args ?st = Some (put_list savechar ?ds ?st)"
    by (rule sdev.doprnt_number [where R = "{fmt + 2}" and c = c and b = b]) (use f c dl room in auto)
  then have "vsprintf s fmt args m = Some (of_nat (length dl), wr m s (?ds @ [0]))"
    by (simp add: vsprintf_def put_list_savechar wr_snoc del: fun_upd_apply)
  with dl show ?thesis by blast
qed

text \<open>Reading back printed digits: none of them is a space, a sign or the letter of a prefix.\<close>

lemma digs_facts:
  "0 \<le> d \<Longrightarrow> d < 16 \<Longrightarrow> \<not> isspace (sint (digs ! nat d)) \<and> digs ! nat d \<noteq> 0 \<and> digs ! nat d \<noteq> 120 \<and> digs ! nat d \<noteq> 88 \<and> digs ! nat d \<noteq> 45"
proof -
  have "\<forall>d \<in> {0..15 :: int}. \<not> isspace (sint (digs ! nat d)) \<and> digs ! nat d \<noteq> 0 \<and> digs ! nat d \<noteq> 120 \<and> digs ! nat d \<noteq> 88 \<and> digs ! nat d \<noteq> 45"
    by code_simp
  then show "0 \<le> d \<Longrightarrow> d < 16 \<Longrightarrow> ?thesis" by simp
qed

lemma strtoul_digits:
  assumes m: "cstr m s (map (\<lambda>d. digs ! nat d) dl)" and ne: "dl \<noteq> []" and b: "2 \<le> b" "b \<le> 16" and d: "\<forall>d \<in> set dl. 0 \<le> d \<and> d < b"
  shows "strtoul s 0 b m = Some (from_digits b 0 dl, m)"
proof -
  let ?f = "\<lambda>d. digs ! nat d"
  note rds = m [unfolded cstr_rd]
  have df: "\<not> isspace (sint (?f x)) \<and> ?f x \<noteq> 0 \<and> ?f x \<noteq> 120 \<and> ?f x \<noteq> 88 \<and> ?f x \<noteq> 45" if "x \<in> set dl" for x
    using digs_facts [of x] d that b by auto
  have at: "m (s + of_nat k) = ?f (dl ! k)" if "k < length dl" for k using cstr_nth [OF m, of k] that by simp
  have m0: "m s = ?f (dl ! 0)" "dl ! 0 \<in> set dl" using at [of 0] ne by simp_all
  have m1: "m (s + 1) \<noteq> 120" "m (s + 1) \<noteq> 88"
    using at [of 1] cstr_nth [OF m, of 1] df [of "dl ! 1"] ne by (cases "1 < length dl"; cases dl; auto)+
  have "choose_base m s b = (s, b)" using b m1 by (simp add: choose_base_def)
  moreover have "skip_space m s = Some s" by (rule skip_space_none) (use m0 df in simp)
  moreover have "digits_loop m b s 0 = Some (from_digits b 0 dl, s + of_nat (length dl))"
    by (rule digits_loop_ok [where f = ?f]) (use rds digit_value_digs d b in \<open>auto simp: digit_value_def\<close>)
  ultimately show ?thesis by (simp add: strtoul_def)
qed

text \<open>
  C12: What \<^verbatim>\<open>sprintf\<close> prints with \<^verbatim>\<open>%u\<close>, \<^verbatim>\<open>%x\<close> or \<^verbatim>\<open>%o\<close>, \<^verbatim>\<open>strtoul\<close> reads back in the same base as the same 32-bit number; the digits
  fit the conversion buffer of 32 bytes.
\<close>

theorem sprintf_strtoul:
  assumes "m fmt = 37" and "m (fmt + 1) = c" and "m (fmt + 2) = 0"
    and "c = 117 \<and> b = 10 \<or> c = 120 \<and> b = 16 \<or> c = 111 \<and> b = 8" and "fmt + 2 \<notin> block s 33"
  shows "\<exists>len m'. sprintf s fmt args m = Some (len, m') \<and> unat len \<le> 32 \<and> (\<forall>a. a \<notin> block s 33 \<longrightarrow> m' a = m a) \<and>
    strtoul s 0 b m' = Some (load32 m args, m')"
proof -
  have b: "uint (of_int b :: u32) = b" "2 \<le> b" "b \<le> 16" "of_int b = (10 :: u32) \<longleftrightarrow> b = 10" using assms(4) by auto
  have c: "c = 117 \<and> of_int b = (10 :: u32) \<or> c = 120 \<and> of_int b = (16 :: u32) \<or> c = 111 \<and> of_int b = (8 :: u32)" using assms(4) by auto
  from vsprintf_number [OF assms(1-3) c assms(5), of args] obtain dl m' where
    p: "vsprintf s fmt args m = Some (of_nat (length dl), m')" "m' = wr m s (map (\<lambda>d. digs ! nat d) dl @ [0])"
      "dl \<noteq> []" "length dl \<le> 32" "\<forall>d \<in> set dl. 0 \<le> d \<and> d < b" "from_digits b 0 dl = load32 m args" unfolding b by blast
  have "rd m' s (length (map (\<lambda>d. digs ! nat d) dl @ [0])) = map (\<lambda>d. digs ! nat d) dl @ [0]"
    unfolding p(2) by (rule rd_wr) (use p(4) in simp)
  moreover have "0 \<notin> set (map (\<lambda>d. digs ! nat d) dl)" using p(5) b digs_facts by fastforce
  ultimately have "cstr m' s (map (\<lambda>d. digs ! nat d) dl)" by (auto simp: cstr_rd rd_snoc simp del: rd.simps(2))
  from strtoul_digits [OF this p(3) b(2,3) p(5)] have "strtoul s 0 b m' = Some (load32 m args, m')" using p(6) by simp
  moreover have "m' a = m a" if "a \<notin> block s 33" for a unfolding p(2)
    by (rule wr_other) (use that p(4) block_mono [of "Suc (length dl)" 33 s] in auto)
  ultimately show ?thesis using p(1,4) by (auto simp: sprintf_def unat_of_nat_u32)
qed

theorem sprintf_strtoul_witness:
  "\<exists>len m'. sprintf 1000 100 200 (store32 (wr (\<lambda>_. 0) 100 [37, 117, 0]) 200 4294967295) = Some (len, m') \<and>
     strtoul 1000 0 10 m' = Some (4294967295, m')"
proof -
  let ?m = "store32 (wr (\<lambda>_. 0) 100 [37, 117, 0]) 200 4294967295"
  have "?m 100 = 37" "?m (100 + 1) = 117" "?m (100 + 2) = 0" by (simp_all add: store32_def bytes32_def)
  moreover have "102 \<notin> block 1000 33" by (simp add: fits_block fits_def)
  moreover have "load32 ?m 200 = 4294967295" by (rule load_store32)
  ultimately show ?thesis using sprintf_strtoul [of ?m 100 117 10 1000 200] by auto
qed

section \<open>The limit of \<open>vsnprintf\<close>\<close>

lemma put_list_append: "put_list putc (xs @ ys) s = put_list putc ys (put_list putc xs s)"
  by (simp add: put_list_def)

lemma put_list_full: "smax st \<noteq> SPRINTF_UNLIMITED \<Longrightarrow> slen st = smax st \<Longrightarrow> put_list savechar xs st = st"
  by (induction xs) (simp_all add: put_list_def savechar_def)

lemma put_list_limited:
  fixes xs :: "u8 list"
  assumes "smax st \<noteq> SPRINTF_UNLIMITED" and "slen st = 0"
  defines "k \<equiv> min (unat (smax st)) (length xs)"
  shows "put_list savechar xs st = st\<lparr>slen := of_nat k, smem := wr (smem st) (sbuf st) (take k xs), sbuf := sbuf st + of_nat k\<rparr>"
proof -
  let ?st = "st\<lparr>slen := of_nat k, smem := wr (smem st) (sbuf st) (take k xs), sbuf := sbuf st + of_nat k\<rparr>"
  have l: "length (take k xs) = k" by (simp add: k_def)
  have "put_list savechar (take k xs) st = ?st"
    using put_list_savechar [of st "take k xs"] assms(2) l by (simp add: k_def)
  moreover have "put_list savechar (drop k xs) ?st = ?st"
  proof (cases "unat (smax st) < length xs")
    case True
    then have "slen ?st = smax ?st" by (simp add: k_def min_def)
    then show ?thesis using assms(1) by (intro put_list_full) simp_all
  next
    case False then show ?thesis by (simp add: k_def put_list_def)
  qed
  ultimately show ?thesis using put_list_append [of savechar "take k xs" "drop k xs" st] by simp
qed

text \<open>
  C38: \<^verbatim>\<open>vsnprintf\<close> with a limit \<^verbatim>\<open>size\<close> on plain text of at least that length: \<^verbatim>\<open>size\<close> characters are stored and the terminator
  goes to the byte behind them, outside a buffer of \<^verbatim>\<open>size\<close> bytes.
\<close>

theorem vsnprintf_terminator_outside:
  assumes "cstr m fmt xs" and "37 \<notin> set xs" and "unat sz \<le> length xs" and "sz \<noteq> SPRINTF_UNLIMITED" and "length xs < 2 ^ 32 - 1"
    and "block s (Suc (length xs)) \<inter> block fmt (Suc (length xs)) = {}"
  shows "\<exists>m'. vsnprintf s sz fmt args m = Some (sz, m') \<and> m' = wr m s (take (unat sz) xs @ [0]) \<and>
    m' (s + sz) = 0 \<and> s + sz \<notin> block s (unat sz)"
proof -
  let ?st = "\<lparr>sbuf = s, slen = 0, smax = sz, smem = m\<rparr>" and ?R = "block fmt (Suc (length xs))"
  have "block s (length xs) \<subseteq> block s (Suc (length xs))" by (rule block_mono) simp
  then have room: "sroom ?R (length xs) ?st" using assms(5,6) by (auto simp: sroom_def)
  have "doprnt savechar smem 0 fmt args ?st = Some (put_list savechar xs ?st)"
    by (rule sdev.doprnt_plain [where R = ?R]) (use assms room in auto)
  then have "vsnprintf s sz fmt args m = Some (sz, wr m s (take (unat sz) xs @ [0]))"
    using put_list_limited [of ?st xs] assms(3,4) by (simp add: vsnprintf_def wr_snoc min_def del: fun_upd_apply)
  moreover have "wr m s (take (unat sz) xs @ [0]) (s + sz) = 0" using assms(3) by (simp add: wr_snoc)
  moreover have "s + sz \<notin> block s (unat sz)" by (simp add: in_block)
  ultimately show ?thesis by blast
qed

theorem vsnprintf_terminator_outside_witness:
  "\<exists>m'. vsnprintf 1000 2 100 200 (wr (\<lambda>_. 0) 100 [97, 98, 99]) = Some (2, m') \<and> m' 1002 = 0"
proof -
  let ?m = "wr (\<lambda>_. 0) 100 [97, 98, 99]"
  have "cstr ?m 100 [97, 98, 99]" by simp
  moreover have "block 1000 (Suc (Suc (Suc (Suc 0)))) \<inter> block 100 (Suc (Suc (Suc (Suc 0)))) = {}" by (auto simp: fits_block fits_def)
  ultimately obtain m' where "vsnprintf 1000 2 100 200 ?m = Some (2, m')" "m' (1000 + 2) = 0"
    using vsnprintf_terminator_outside [of ?m 100 "[97, 98, 99]" 2 1000 200] by (auto simp: SPRINTF_UNLIMITED_def simp del: wr.simps cstr.simps)
  then show ?thesis by auto
qed

end
