(* ===== verification/Devices.thy ===== *)
theory Devices
  imports Doprnt_Props
begin

text \<open>
  The state that the drivers of \<^verbatim>\<open>kernel/driver\<close> and \<^verbatim>\<open>kernel/console.c\<close> keep, the port instructions of
  \<^verbatim>\<open>kernel/cpu.h\<close>, the buzzer (\<^verbatim>\<open>driver/beep.c\<close>) and the registers that \<^verbatim>\<open>interrupt.c\<close> programs.

  The hardware is a log of the bytes written to ports, newest first, and an arbitrary function that
  says what the \<open>n\<close>-th byte read is, given the port; since it is arbitrary, theorems hold for every
  behaviour of the devices.
\<close>

record ps2_mouse_t =
  mx :: int
  my :: int
  left_button_pressed :: bool
  right_button_pressed :: bool
  middle_button_pressed :: bool

record dstate =
  outs :: "(u16 \<times> u8) list"
  ins :: "nat \<Rightarrow> u16 \<Rightarrow> u8"
  nread :: nat
  pmem :: mem
  col :: u8
  lig :: u8
  ct :: u8
  cf :: u8
  beeping_end :: u32
  all_controllers :: "bool list"
  mdevice :: int
  current_byte :: int
  bytes_per_packet :: int
  packet :: "u8 list"
  mouse_state :: ps2_mouse_t
  mouse_previous :: ps2_mouse_t
  callback :: bool
  rebooted :: bool

section \<open>Ports\<close>

definition outb :: "u8 \<Rightarrow> u16 \<Rightarrow> dstate \<Rightarrow> dstate" where
  "outb v port d = d\<lparr>outs := (port, v) # outs d\<rparr>"

definition inb :: "u16 \<Rightarrow> dstate \<Rightarrow> u8 \<times> dstate" where
  "inb port d = (ins d (nread d) port, d\<lparr>nread := Suc (nread d)\<rparr>)"

definition store16 :: "mem \<Rightarrow> u32 \<Rightarrow> u16 \<Rightarrow> mem" where
  "store16 m a v = wr m a [ucast v, ucast (drop_bit 8 v)]"

lemma load_store16: "load16 (store16 m a v) a = v"
proof -
  have d: "a \<noteq> a + 1" by simp
  have "(ucast (ucast v :: u8) OR push_bit 8 (ucast (ucast (drop_bit 8 v) :: u8)) :: u16) = v" (is "?w = v")
  proof (rule bit_word_eqI)
    fix n :: nat assume "n < LENGTH(16)"
    then consider "n < 8" | "8 \<le> n" "n < 16" by fastforce
    then show "bit ?w n = bit v n" by cases (auto simp: bit_simps)
  qed
  then show ?thesis using d by (simp add: load16_def store16_def)
qed

section \<open>Buzzer\<close>

text \<open>
  \<open>scale\<close> stands for the multiplication by the floating-point delay: the number of ticks of a second
  multiplied by the delay and converted to an integer. The frequency is not zero.
\<close>

definition start_beep :: "int \<Rightarrow> dstate \<Rightarrow> dstate option" where
  "start_beep freq d =
     (if freq = 0 then None
      else let dv = of_int (c_div 1193180 freq) :: u16;
               d = outb 0xb6 0x43 d;
               d = outb (ucast dv) 0x42 d;
               d = outb (ucast (drop_bit 8 dv)) 0x42 d;
               (tmp, d) = inb 0x61 d
           in Some (if tmp \<noteq> tmp OR 3 then outb (tmp OR 3) 0x61 d else d))"

definition stop_beep :: "dstate \<Rightarrow> dstate" where
  "stop_beep d = (let (v, d) = inb 0x61 d; tmp = v AND 0xFC in outb tmp 0x61 d)"

definition end_tick :: "(u32 \<Rightarrow> u32) \<Rightarrow> u32 \<Rightarrow> u32" where
  "end_tick scale clock = clock + scale (of_int (c_div QUARTZ (c_div QUARTZ CLOCKFREQ)))"

definition async_beep :: "int \<Rightarrow> (u32 \<Rightarrow> u32) \<Rightarrow> u32 \<Rightarrow> dstate \<Rightarrow> dstate option" where
  "async_beep freq scale clock d = do {
     d \<leftarrow> start_beep freq d;
     Some (d\<lparr>beeping_end := end_tick scale clock\<rparr>) }"

definition check_buzzer :: "u32 \<Rightarrow> dstate \<Rightarrow> dstate" where
  "check_buzzer clock d =
     (if beeping_end d \<noteq> 0 \<and> clock \<ge> beeping_end d then (stop_beep d)\<lparr>beeping_end := 0\<rparr> else d)"

text \<open>The delay \<^verbatim>\<open>.1f\<close> that the drivers use: a tenth of the 200 ticks of a second.\<close>

definition tenth :: "u32 \<Rightarrow> u32" where
  "tenth n = n div 10"

section \<open>Interrupt controller and timer\<close>

definition KERNEL_CS :: u16 where "KERNEL_CS = 0x10"

text \<open>\<^verbatim>\<open>set_handler\<close>: the four 16-bit halves of a gate of the interrupt descriptor table at \<^verbatim>\<open>0x1000\<close>.\<close>

definition set_handler :: "u32 \<Rightarrow> u32 \<Rightarrow> u8 \<Rightarrow> dstate \<Rightarrow> dstate" where
  "set_handler nidt handler ring_level d =
     (let cell = 0x1000 + nidt * 8;
          m = store16 (pmem d) cell (ucast handler);
          m = store16 m (cell + 2) KERNEL_CS;
          m = store16 m (cell + 4) (0x8E00 OR push_bit 13 (ucast ring_level));
          m = store16 m (cell + 6) (ucast (drop_bit 16 handler))
      in d\<lparr>pmem := m\<rparr>)"

definition set_mask :: "u8 \<Rightarrow> bool \<Rightarrow> dstate \<Rightarrow> dstate" where
  "set_mask irq masked d =
     (let (dataport, irq) = (if irq \<ge> 8 then (0xA1, irq - 8) else (0x21, irq));
          (masks, d) = inb dataport d;
          masks = (masks AND NOT (push_bit (unat irq) 1)) OR push_bit (unat irq) (if masked then 1 else 0)
      in outb masks dataport d)"

definition set_pit :: "dstate \<Rightarrow> dstate" where
  "set_pit d =
     (let interval = c_div QUARTZ CLOCKFREQ;
          d = outb 0x34 0x43 d;
          d = outb (of_int (c_rem interval 256)) 0x40 d
      in outb (of_int (c_div interval 256)) 0x40 d)"

text \<open>\<^verbatim>\<open>clock_settings\<close> writes through the pointers that are not null; \<^verbatim>\<open>current_clock\<close> is \<^verbatim>\<open>pit_count\<close>.\<close>

definition clock_settings :: "u32 \<Rightarrow> u32 \<Rightarrow> mem \<Rightarrow> mem" where
  "clock_settings quartz ticks m =
     (let m = (if quartz \<noteq> 0 then store32 m quartz (of_int QUARTZ) else m)
      in if ticks \<noteq> 0 then store32 m ticks (of_int (c_div QUARTZ CLOCKFREQ)) else m)"

end
