(* ===== verification/Console.thy ===== *)
theory Console
  imports Devices
begin

text \<open>
  \<^verbatim>\<open>kernel/console.c\<close>: the text screen of 80 columns and 25 lines, in video memory at \<^verbatim>\<open>0xB8000\<close>, and
  \<^verbatim>\<open>shared/printf.c\<close>, which prints to it.

  The character 7 calls \<^verbatim>\<open>beep\<close>, which makes the calling process sleep for a tenth of a second:
  \<open>handle_char\<close> then returns the tick to sleep until, and \<open>console_putbytes\<close> what is left to
  print after that.
\<close>

section \<open>Cells\<close>

definition CONSOLE_COL :: nat where "CONSOLE_COL = 80"
definition CONSOLE_LIG :: nat where "CONSOLE_LIG = 25"
definition CONSOLE_BLACK :: u8 where "CONSOLE_BLACK = 0"
definition CONSOLE_BLUE :: u8 where "CONSOLE_BLUE = 1"
definition CONSOLE_GREEN :: u8 where "CONSOLE_GREEN = 2"
definition CONSOLE_RED :: u8 where "CONSOLE_RED = 4"
definition CONSOLE_WHITE :: u8 where "CONSOLE_WHITE = 15"

definition DISPLAY_START :: u32 where "DISPLAY_START = 0xB8000"

definition cell_addr :: "nat \<Rightarrow> u32" where
  "cell_addr i = DISPLAY_START + 2 * of_nat i"

definition char_addr :: "u8 \<Rightarrow> u8 \<Rightarrow> u32" where
  "char_addr c l = cell_addr (unat l * CONSOLE_COL + unat c)"

definition pack_char :: "u8 \<Rightarrow> u8 \<Rightarrow> u8 \<Rightarrow> u16" where
  "pack_char txt fg bg = push_bit 8 (push_bit 4 (ucast bg) OR ucast fg) OR ucast txt"

definition put_cursor :: "u8 \<Rightarrow> u8 \<Rightarrow> dstate \<Rightarrow> dstate" where
  "put_cursor c l d =
     (let at = ucast c + ucast l * of_nat CONSOLE_COL :: u16;
          d = outb 0x0F 0x3D4 d;
          d = outb (ucast at) 0x3D5 d;
          d = outb 0x0E 0x3D4 d
      in outb (ucast (drop_bit 8 at)) 0x3D5 d)"

primrec flush_loop :: "nat \<Rightarrow> nat \<Rightarrow> mem \<Rightarrow> mem" where
  "flush_loop 0 i m = m"
| "flush_loop (Suc n) i m = flush_loop n (Suc i) (store16 m (cell_addr i) (pack_char 32 CONSOLE_WHITE CONSOLE_BLACK))"

definition screen_flush :: "nat \<Rightarrow> nat \<Rightarrow> dstate \<Rightarrow> dstate" where
  "screen_flush from to d = d\<lparr>pmem := flush_loop (to - from) from (pmem d)\<rparr>"

definition screen_clean :: "dstate \<Rightarrow> dstate" where
  "screen_clean d = screen_flush 0 (CONSOLE_LIG * CONSOLE_COL) d"

definition screen_scroll :: "dstate \<Rightarrow> dstate" where
  "screen_scroll d =
     (let bottom = (CONSOLE_LIG - 1) * CONSOLE_COL;
          (_, _, m) = memmove DISPLAY_START (cell_addr CONSOLE_COL) (of_nat (2 * bottom)) (pmem d)
      in screen_flush bottom (CONSOLE_LIG * CONSOLE_COL) (d\<lparr>pmem := m\<rparr>))"

section \<open>Characters\<close>

definition wrap_cursor :: "dstate \<Rightarrow> dstate" where
  "wrap_cursor d =
     (let d = (if unat (col d) \<ge> CONSOLE_COL then d\<lparr>col := 0, lig := lig d + 1\<rparr> else d)
      in if unat (lig d) \<ge> CONSOLE_LIG then (screen_scroll d)\<lparr>lig := of_nat (CONSOLE_LIG - 1)\<rparr> else d)"

text \<open>The first component is the tick until which the process sleeps before it stops the buzzer.\<close>

definition handle_char :: "u32 \<Rightarrow> u8 \<Rightarrow> dstate \<Rightarrow> u32 option \<times> dstate" where
  "handle_char clock c d =
     (if c = 7 then (case start_beep 1000 d of Some d \<Rightarrow> (Some (end_tick tenth clock), d) | None \<Rightarrow> (None, d))
      else if c = 8 then (None, if col d > 0 then d\<lparr>col := col d - 1\<rparr> else d)
      else if c = 9 then
        (let d = d\<lparr>col := (col d div 8 + 1) * 8\<rparr>
         in (None, if unat (col d) \<ge> CONSOLE_COL then d\<lparr>col := of_nat (CONSOLE_COL - 1)\<rparr> else d))
      else if c = 10 then (None, wrap_cursor (d\<lparr>col := 0, lig := lig d + 1\<rparr>))
      else if c = 12 then (None, screen_clean (d\<lparr>col := 0, lig := 0, ct := CONSOLE_WHITE, cf := CONSOLE_BLACK\<rparr>))
      else if c = 13 then (None, d\<lparr>col := 0\<rparr>)
      else (None, wrap_cursor (d\<lparr>pmem := store16 (pmem d) (char_addr (col d) (lig d))
                     (pack_char (if sint c \<ge> 32 \<and> sint c \<le> 126 then c else 32) (ct d) (cf d)),
                   col := col d + 1\<rparr>)))"

text \<open>
  \<^verbatim>\<open>console_putbytes\<close> up to the end or to the first character that makes the process sleep; the
  result then is the tick and the rest of the bytes. On waking up the process stops the buzzer and
  goes on with the rest.
\<close>

primrec console_putbytes :: "u32 \<Rightarrow> u8 list \<Rightarrow> dstate \<Rightarrow> (u32 \<times> u8 list) option \<times> dstate" where
  "console_putbytes clock [] d = (None, put_cursor (col d) (lig d) d)"
| "console_putbytes clock (c # cs) d =
     (case handle_char clock c d of
        (None, d) \<Rightarrow> console_putbytes clock cs d
      | (Some t, d) \<Rightarrow> (Some (t, cs), d))"

definition console_resume :: "u32 \<Rightarrow> u8 list \<Rightarrow> dstate \<Rightarrow> (u32 \<times> u8 list) option \<times> dstate" where
  "console_resume clock cs d = console_putbytes clock cs (stop_beep d)"

text \<open>
  \<^verbatim>\<open>state = save\<close> restores the cursor and the colours. The two functions below are called from the timer
  interrupt with digits, colons and a letter, which never sleep.
\<close>

definition restore_state :: "dstate \<Rightarrow> dstate \<Rightarrow> dstate" where
  "restore_state old d = d\<lparr>col := col old, lig := lig old, ct := ct old, cf := cf old\<rparr>"

definition console_putbytes_at :: "u32 \<Rightarrow> u8 list \<Rightarrow> u8 \<Rightarrow> u8 \<Rightarrow> dstate \<Rightarrow> dstate" where
  "console_putbytes_at clock cs c l d =
     (let old = d;
          d = d\<lparr>col := c, lig := l, ct := CONSOLE_WHITE, cf := CONSOLE_BLACK\<rparr>;
          (_, d) = console_putbytes clock cs d;
          d = restore_state old d
      in put_cursor (col d) (lig d) d)"

definition console_draw_red_cross :: "u32 \<Rightarrow> dstate \<Rightarrow> dstate" where
  "console_draw_red_cross clock d =
     (let old = d;
          d = d\<lparr>col := of_nat (CONSOLE_COL - 1), lig := 0, ct := CONSOLE_WHITE, cf := CONSOLE_RED\<rparr>;
          (_, d) = console_putbytes clock [88] d;
          d = restore_state old d
      in put_cursor (col d) (lig d) d)"

definition console_set_background_at :: "u8 \<Rightarrow> u8 \<Rightarrow> u8 \<Rightarrow> dstate \<Rightarrow> dstate" where
  "console_set_background_at c l clr d =
     (let cell = char_addr c l;
          v = load16 (pmem d) cell AND 0x8FFF;
          v = v OR push_bit 12 (ucast clr)
      in d\<lparr>pmem := store16 (pmem d) cell v\<rparr>)"

definition console_set_foreground :: "u8 \<Rightarrow> dstate \<Rightarrow> dstate" where
  "console_set_foreground c d = d\<lparr>ct := c\<rparr>"

definition console_set_background :: "u8 \<Rightarrow> dstate \<Rightarrow> dstate" where
  "console_set_background c d = d\<lparr>cf := c\<rparr>"

section \<open>Printing\<close>

text \<open>
  \<^verbatim>\<open>shared/printf.c\<close>: characters are collected in a buffer of 128 bytes that goes to the console when it
  is full, at a line break and at the end. The sequence of blocks handed to
  \<^verbatim>\<open>console_putbytes\<close> is what matters of the output; memory is not written by it.
\<close>

definition PRINTF_BUFMAX :: nat where "PRINTF_BUFMAX = 128"

record printf_state =
  pbuf :: "u8 list"
  pout :: "u8 list list"
  prm :: mem

definition printf_flush :: "printf_state \<Rightarrow> printf_state" where
  "printf_flush st = st\<lparr>pout := pout st @ [pbuf st], pbuf := []\<rparr>"

definition printf_char :: "u8 \<Rightarrow> printf_state \<Rightarrow> printf_state" where
  "printf_char c st =
     (if c = 0 \<or> c = 10 \<or> length (pbuf st) \<ge> PRINTF_BUFMAX
      then (let st = printf_flush st in st\<lparr>pout := pout st @ [[c]]\<rparr>)
      else st\<lparr>pbuf := pbuf st @ [c]\<rparr>)"

definition vprintf :: "u32 \<Rightarrow> u32 \<Rightarrow> mem \<Rightarrow> u8 list list option" where
  "vprintf fmt args m = do {
     st \<leftarrow> doprnt printf_char prm 0 fmt args \<lparr>pbuf = [], pout = [], prm = m\<rparr>;
     Some (pout (if pbuf st \<noteq> [] then printf_flush st else st)) }"

text \<open>\<^verbatim>\<open>puts\<close> prints the characters one by one, then a line break.\<close>

partial_function (option) puts :: "mem \<Rightarrow> u32 \<Rightarrow> u8 list list \<Rightarrow> u8 list list option" where
  "puts m s out = (if m s \<noteq> 0 then puts m (s + 1) (out @ [[m s]]) else Some (out @ [[10]]))"

end
