(* ===== verification/Console_Props.thy ===== *)
theory Console_Props
  imports Console
begin

text \<open>
  The console keeps its cursor on the screen and writes nothing but video memory; scrolling moves
  the lines up by one; what is printed appears on the screen.
\<close>

section \<open>Video memory\<close>

definition cell :: "mem \<Rightarrow> nat \<Rightarrow> u16" where
  "cell m i = load16 m (cell_addr i)"

definition video :: "u32 set" where
  "video = block DISPLAY_START 4000"

definition clean :: u16 where
  "clean = pack_char 32 CONSOLE_WHITE CONSOLE_BLACK"

lemma unat_cell: "i < 2000 \<Longrightarrow> unat (cell_addr i) = 0xB8000 + 2 * i" "i < 2000 \<Longrightarrow> unat (cell_addr i + 1) = 0xB8000 + 2 * i + 1"
proof -
  assume i: "i < 2000"
  have "cell_addr i = 0xB8000 + of_nat (2 * i)" by (simp add: cell_addr_def DISPLAY_START_def)
  then show u: "unat (cell_addr i) = 0xB8000 + 2 * i" using unat_add_fits [of "0xB8000" "2 * i"] i by simp
  show "unat (cell_addr i + 1) = 0xB8000 + 2 * i + 1" using unat_plus_one [of "cell_addr i"] u i by simp
qed

lemma in_video: "a \<in> video \<longleftrightarrow> 0xB8000 \<le> unat a \<and> unat a < 0xB8000 + 4000"
  using fits_block [of DISPLAY_START 4000 a] by (simp add: video_def fits_def DISPLAY_START_def)

lemma store16_at: "store16 m a v a = ucast v" "store16 m a v (a + 1) = ucast (drop_bit 8 v)"
  "x \<noteq> a \<Longrightarrow> x \<noteq> a + 1 \<Longrightarrow> store16 m a v x = m x"
  by (simp_all add: store16_def)

lemma store_cell:
  assumes "i < 2000"
  shows "j < 2000 \<Longrightarrow> cell (store16 m (cell_addr i) v) j = (if j = i then v else cell m j)"
    and "a \<notin> video \<Longrightarrow> store16 m (cell_addr i) v a = m a"
proof -
  show "cell (store16 m (cell_addr i) v) j = (if j = i then v else cell m j)" if j: "j < 2000"
  proof (cases "j = i")
    case True then show ?thesis by (simp add: cell_def load_store16)
  next
    case False
    have "cell_addr j \<noteq> cell_addr i" "cell_addr j \<noteq> cell_addr i + 1" "cell_addr j + 1 \<noteq> cell_addr i" "cell_addr j + 1 \<noteq> cell_addr i + 1"
      using unat_cell [OF assms] unat_cell [OF j] False by (auto dest: arg_cong [of _ _ unat])
    then show ?thesis using False by (simp add: cell_def load16_def store16_at(3))
  qed
  show "store16 m (cell_addr i) v a = m a" if "a \<notin> video"
  proof (rule store16_at(3))
    show "a \<noteq> cell_addr i" "a \<noteq> cell_addr i + 1" using that assms unat_cell [OF assms] by (auto simp: in_video)
  qed
qed

lemma flush_loop_ok:
  "i + n \<le> 2000 \<Longrightarrow> (\<forall>j < 2000. cell (flush_loop n i m) j = (if i \<le> j \<and> j < i + n then clean else cell m j)) \<and>
     (\<forall>a. a \<notin> video \<longrightarrow> flush_loop n i m a = m a)"
proof (induction n arbitrary: i m)
  case (Suc n)
  then have i: "i < 2000" by simp
  from Suc.IH [of "Suc i" "store16 m (cell_addr i) clean"] Suc.prems store_cell [OF i, of _ m clean]
  show ?case by (auto simp: clean_def)
qed auto

lemma wr_at: "k < length xs \<Longrightarrow> length xs \<le> 4294967296 \<Longrightarrow> wr m a xs (a + of_nat k) = xs ! k"
  using rd_wr [of xs m a] nth_rd [of k "length xs" "wr m a xs" a] by simp

lemma scroll_ok:
  "(\<forall>j < 2000. cell (pmem (screen_scroll d)) j = (if j < 1920 then cell (pmem d) (j + 80) else clean)) \<and>
   (\<forall>a. a \<notin> video \<longrightarrow> pmem (screen_scroll d) a = pmem d a)"
proof -
  let ?m = "pmem d" and ?s = "cell_addr 80"
  let ?m1 = "wr ?m DISPLAY_START (rd ?m ?s 3840)"
  have u: "unat ?s = 0xB80A0" "unat DISPLAY_START = 0xB8000" using unat_cell(1) [of 80] by (simp_all add: DISPLAY_START_def)
  have "unat (of_nat 3840 :: u32) = 3840" by (rule unat_of_nat_u32) simp
  then have mv: "snd (snd (memmove DISPLAY_START ?s (of_nat 3840) ?m)) = ?m1"
    using memmove_step [of DISPLAY_START "of_nat 3840" ?s ?m] u by (simp add: fits_def)
  then have sc: "pmem (screen_scroll d) = flush_loop 80 1920 ?m1"
    by (simp add: screen_scroll_def screen_flush_def CONSOLE_LIG_def CONSOLE_COL_def Let_def case_prod_unfold)
  have out: "?m1 a = ?m a" if "a \<notin> video" for a
    by (rule wr_other) (use that block_mono [of 3840 4000 DISPLAY_START] in \<open>auto simp: video_def\<close>)
  have cl: "cell ?m1 j = cell ?m (j + 80)" if j: "j < 1920" for j
  proof -
    have a: "cell_addr j = DISPLAY_START + of_nat (2 * j)" "cell_addr j + 1 = DISPLAY_START + of_nat (2 * j + 1)"
      "?s + of_nat (2 * j) = cell_addr (j + 80)" "?s + of_nat (2 * j + 1) = cell_addr (j + 80) + 1"
      by (simp_all add: cell_addr_def algebra_simps)
    have at: "?m1 (DISPLAY_START + of_nat k) = ?m (?s + of_nat k)" if "k < 3840" for k
      using wr_at [of k "rd ?m ?s 3840" ?m DISPLAY_START] that by (simp add: nth_rd)
    have "?m1 (cell_addr j) = ?m (cell_addr (j + 80))" unfolding a(1) a(3) [symmetric] by (rule at) (use j in simp)
    moreover have "?m1 (cell_addr j + 1) = ?m (cell_addr (j + 80) + 1)" unfolding a(2) a(4) [symmetric] by (rule at) (use j in simp)
    ultimately show ?thesis by (simp add: cell_def load16_def)
  qed
  from flush_loop_ok [of 1920 80 ?m1] show ?thesis unfolding sc using cl out by auto
qed

section \<open>The cursor\<close>

definition on_screen :: "dstate \<Rightarrow> bool" where
  "on_screen d \<longleftrightarrow> unat (col d) < CONSOLE_COL \<and> unat (lig d) < CONSOLE_LIG"

lemma on_screen_simps: "on_screen d \<longleftrightarrow> unat (col d) < 80 \<and> unat (lig d) < 25"
  by (simp add: on_screen_def CONSOLE_COL_def CONSOLE_LIG_def)

definition only_video :: "dstate \<Rightarrow> dstate \<Rightarrow> bool" where
  "only_video d d' \<longleftrightarrow> (\<forall>a. a \<notin> video \<longrightarrow> pmem d' a = pmem d a)"

lemma screen_scroll_cursor [simp]: "col (screen_scroll d) = col d" "lig (screen_scroll d) = lig d"
  by (simp_all add: screen_scroll_def screen_flush_def Let_def case_prod_unfold)

lemma unat_u8_plus_one: "unat (x :: u8) < 255 \<Longrightarrow> unat (x + 1) = unat x + 1"
  by (simp add: unat_word_ariths)

lemma unat_minus_one_u8: "(x :: u8) \<noteq> 0 \<Longrightarrow> unat (x - 1) = unat x - 1"
  by (rule Word.unat_minus_one)

lemma wrap_cursor_ok:
  assumes "unat (col d) \<le> 80" and "unat (lig d) \<le> 25" and "unat (col d) < 80 \<or> unat (lig d) < 25"
  shows "on_screen (wrap_cursor d) \<and> only_video d (wrap_cursor d)"
proof -
  note c = CONSOLE_COL_def CONSOLE_LIG_def
  have "only_video d (screen_scroll e)" if "pmem e = pmem d" for e using scroll_ok [of e] that by (simp add: only_video_def)
  moreover have "only_video d d" by (simp add: only_video_def)
  ultimately show ?thesis using assms unat_u8_plus_one [of "lig d"]
    by (auto simp: wrap_cursor_def on_screen_simps only_video_def c Let_def)
qed

lemma char_addr_cell: "char_addr c l = cell_addr (unat l * 80 + unat c)"
  by (simp add: char_addr_def CONSOLE_COL_def)

lemma cell_index: "on_screen d \<Longrightarrow> unat (lig d) * 80 + unat (col d) < 2000"
  by (simp add: on_screen_simps)

lemma handle_char_ok:
  assumes o: "on_screen d"
  shows "on_screen (snd (handle_char clock c d)) \<and> only_video d (snd (handle_char clock c d))"
proof -
  note s = o [unfolded on_screen_simps]
  have tab: "unat ((col d div 8 + 1) * 8) < 256" using unsigned_less [of "(col d div 8 + 1) * 8", where ?'a = nat] by simp
  have lf: "on_screen (wrap_cursor (d\<lparr>col := 0, lig := lig d + 1\<rparr>)) \<and> only_video d (wrap_cursor (d\<lparr>col := 0, lig := lig d + 1\<rparr>))"
    using wrap_cursor_ok [of "d\<lparr>col := 0, lig := lig d + 1\<rparr>"] s unat_u8_plus_one [of "lig d"] by (auto simp: only_video_def)
  have ff: "on_screen (screen_clean e) \<and> only_video e (screen_clean e)" if "col e = 0" "lig e = 0" for e
    using flush_loop_ok [of 0 2000 "pmem e"] that
    by (simp add: screen_clean_def screen_flush_def on_screen_simps only_video_def CONSOLE_COL_def CONSOLE_LIG_def)
  let ?e = "\<lambda>v. d\<lparr>pmem := store16 (pmem d) (char_addr (col d) (lig d)) v, col := col d + 1\<rparr>"
  have pr: "on_screen (wrap_cursor (?e v)) \<and> only_video d (wrap_cursor (?e v))" for v
  proof -
    have "only_video d (?e v)" using store_cell(2) [OF cell_index [OF o]] by (simp add: only_video_def char_addr_cell)
    moreover have "on_screen (wrap_cursor (?e v)) \<and> only_video (?e v) (wrap_cursor (?e v))"
      by (rule wrap_cursor_ok) (use s unat_u8_plus_one [of "col d"] in auto)
    ultimately show ?thesis by (auto simp: only_video_def)
  qed
  have bp: "on_screen e \<and> only_video d e" if "start_beep 1000 d = Some e" for e
    using that o by (auto simp: start_beep_def on_screen_simps only_video_def outb_def inb_def Let_def split: if_splits)
  have bk: "unat (col d - 1) < 80" if "0 < col d" using that s unat_minus_one_u8 [of "col d"] by (simp add: word_gt_0) linarith
  show ?thesis
    using lf ff [of "d\<lparr>col := 0, lig := 0, ct := CONSOLE_WHITE, cf := CONSOLE_BLACK\<rparr>"] pr bp s bk o tab
    by (auto simp: handle_char_def on_screen_simps only_video_def CONSOLE_COL_def Let_def split: option.splits)
qed

lemma put_cursor_frame [simp]:
  "col (put_cursor x y d) = col d" "lig (put_cursor x y d) = lig d" "pmem (put_cursor x y d) = pmem d"
  "ct (put_cursor x y d) = ct d" "cf (put_cursor x y d) = cf d"
  by (simp_all add: put_cursor_def outb_def Let_def)

lemma console_putbytes_ok:
  assumes "on_screen d"
  shows "on_screen (snd (console_putbytes clock cs d)) \<and> only_video d (snd (console_putbytes clock cs d))"
  using assms
proof (induction cs arbitrary: d)
  case Nil then show ?case by (simp add: on_screen_simps only_video_def)
next
  case (Cons c cs)
  obtain t e where h: "handle_char clock c d = (t, e)" by force
  then have "on_screen e \<and> only_video d e" using handle_char_ok [OF Cons.prems, of clock c] by simp
  then show ?case using h Cons.IH [of e] by (auto simp: only_video_def split: option.splits)
qed

section \<open>The console as an output device\<close>

text \<open>\<^verbatim>\<open>printf_char\<close> writes to its own buffer only, so that there is always room.\<close>

interpretation pdev: output_device printf_char prm "\<lambda>_ _. True" R for R
  by unfold_locales (simp_all add: printf_char_def printf_flush_def Let_def)

section \<open>Printing text\<close>

definition printable :: "u8 \<Rightarrow> bool" where
  "printable c \<longleftrightarrow> 32 \<le> sint c \<and> sint c \<le> 126"

lemma printable_char: "printable c \<Longrightarrow> c \<notin> {7, 8, 9, 10, 12, 13}"
  by (auto simp: printable_def)

lemma handle_printable:
  assumes "printable c" and o: "on_screen d" and "unat (col d) < 79"
  shows "handle_char clock c d = (None, d\<lparr>pmem := store16 (pmem d) (char_addr (col d) (lig d)) (pack_char c (ct d) (cf d)), col := col d + 1\<rparr>)"
proof -
  have "unat (col d + 1) < 80" using assms(3) unat_u8_plus_one [of "col d"] by simp
  then show ?thesis using printable_char [OF assms(1)] assms(1) o
    by (auto simp: handle_char_def printable_def wrap_cursor_def on_screen_simps CONSOLE_COL_def CONSOLE_LIG_def Let_def)
qed

lemma console_text_ok:
  assumes "on_screen d" and "\<forall>c \<in> set cs. printable c" and "unat (col d) + length cs < 80"
  shows "\<exists>d'. console_putbytes clock cs d = (None, d') \<and> unat (col d') = unat (col d) + length cs \<and> lig d' = lig d \<and>
    (\<forall>j < 2000. cell (pmem d') j =
       (let k = unat (lig d) * 80 + unat (col d) in if k \<le> j \<and> j < k + length cs then pack_char (cs ! (j - k)) (ct d) (cf d) else cell (pmem d) j))"
  using assms
proof (induction cs arbitrary: d)
  case (Cons c cs)
  let ?e = "d\<lparr>pmem := store16 (pmem d) (char_addr (col d) (lig d)) (pack_char c (ct d) (cf d)), col := col d + 1\<rparr>"
  let ?k = "unat (lig d) * 80 + unat (col d)"
  have h: "handle_char clock c d = (None, ?e)" by (rule handle_printable) (use Cons.prems in auto)
  have ce: "unat (col ?e) = unat (col d) + 1" using Cons.prems(3) unat_u8_plus_one [of "col d"] by simp
  have "on_screen ?e" using Cons.prems ce by (simp add: on_screen_simps)
  from Cons.IH [OF this] Cons.prems ce obtain d' where d': "console_putbytes clock cs ?e = (None, d')"
    "unat (col d') = unat (col ?e) + length cs" "lig d' = lig d"
    "\<forall>j < 2000. cell (pmem d') j = (let k = ?k + 1 in if k \<le> j \<and> j < k + length cs then pack_char (cs ! (j - k)) (ct d) (cf d) else cell (pmem ?e) j)"
    by (auto simp: Let_def)
  have st: "cell (pmem ?e) j = (if j = ?k then pack_char c (ct d) (cf d) else cell (pmem d) j)" if "j < 2000" for j
    using store_cell(1) [OF cell_index [OF Cons.prems(1)] that] by (simp add: char_addr_cell)
  have "cell (pmem d') j = (if ?k \<le> j \<and> j < ?k + length (c # cs) then pack_char ((c # cs) ! (j - ?k)) (ct d) (cf d) else cell (pmem d) j)"
    if "j < 2000" for j
  proof (cases "j = ?k")
    case True then show ?thesis using d'(4) st [OF that] that by (simp add: Let_def)
  next
    case False
    have "(c # cs) ! (j - ?k) = cs ! (j - (?k + 1))" if "?k + 1 \<le> j" using that by (simp add: nth_Cons')
    then show ?thesis using d'(4) st [OF that] that False by (auto simp: Let_def)
  qed
  then show ?case using h d'(1-3) ce by (auto simp: Let_def)
qed (auto simp: Let_def)

section \<open>Properties\<close>

definition zero_dstate :: dstate where
  "zero_dstate = \<lparr>outs = [], ins = (\<lambda>_ _. 0), nread = 0, pmem = (\<lambda>_. 0), col = 0, lig = 0, ct = CONSOLE_WHITE, cf = CONSOLE_BLACK,
     beeping_end = 0, all_controllers = [True, True], mdevice = 0, current_byte = 0, bytes_per_packet = 3, packet = [0, 0, 0, 0],
     mouse_state = \<lparr>mx = 0, my = 0, left_button_pressed = False, right_button_pressed = False, middle_button_pressed = False\<rparr>,
     mouse_previous = \<lparr>mx = 0, my = 0, left_button_pressed = False, right_button_pressed = False, middle_button_pressed = False\<rparr>,
     callback = False, rebooted = False\<rparr>"

text \<open>
  C19: Whatever bytes are printed, the cursor stays on the screen of 80 columns and 25 lines, and no memory but the 4000 bytes of
  video memory is changed.
\<close>

theorem console_stays_on_screen:
  assumes "unat (col d) < CONSOLE_COL" and "unat (lig d) < CONSOLE_LIG" and "console_putbytes clock cs d = (r, d')"
  shows "unat (col d') < CONSOLE_COL \<and> unat (lig d') < CONSOLE_LIG \<and> (\<forall>a. a \<notin> block DISPLAY_START 4000 \<longrightarrow> pmem d' a = pmem d a)"
  using console_putbytes_ok [of d clock cs] assms by (simp add: on_screen_def only_video_def video_def)

theorem console_stays_on_screen_witness:
  "unat (col (snd (console_putbytes 0 [10, 65, 9, 8, 12, 66] zero_dstate))) < CONSOLE_COL"
  using console_stays_on_screen [of zero_dstate 0 "[10, 65, 9, 8, 12, 66]", OF _ _ prod.collapse [symmetric]]
  by (simp add: zero_dstate_def CONSOLE_COL_def CONSOLE_LIG_def)

text \<open>
  Scrolling moves every line of the screen up by one and blanks the last one, and changes nothing outside video memory.
\<close>

theorem screen_scroll_moves_up:
  "(\<forall>j < 2000. load16 (pmem (screen_scroll d)) (cell_addr j) =
      (if j < 1920 then load16 (pmem d) (cell_addr (j + 80)) else pack_char 32 CONSOLE_WHITE CONSOLE_BLACK)) \<and>
   (\<forall>a. a \<notin> block DISPLAY_START 4000 \<longrightarrow> pmem (screen_scroll d) a = pmem d a)"
  using scroll_ok [of d] by (simp add: cell_def clean_def video_def)

theorem screen_scroll_moves_up_witness:
  "load16 (pmem (screen_scroll (zero_dstate\<lparr>pmem := store16 (\<lambda>_. 0) (cell_addr 80) 0x1234\<rparr>))) (cell_addr 0) = 0x1234"
  using screen_scroll_moves_up [of "zero_dstate\<lparr>pmem := store16 (\<lambda>_. 0) (cell_addr 80) 0x1234\<rparr>"]
  by (auto simp: load_store16 dest: spec [of _ 0])

text \<open>
  Printable text that fits on the rest of the line appears there in the current colours, the cursor moves behind it, and every
  other cell of the screen stays as it is.
\<close>

theorem console_shows_text:
  assumes "unat (col d) + length cs < CONSOLE_COL" and "unat (lig d) < CONSOLE_LIG" and "\<forall>c \<in> set cs. 32 \<le> sint c \<and> sint c \<le> 126"
    and "k = unat (lig d) * CONSOLE_COL + unat (col d)"
  shows "\<exists>d'. console_putbytes clock cs d = (None, d') \<and> unat (col d') = unat (col d) + length cs \<and> lig d' = lig d \<and>
    (\<forall>j < 2000. load16 (pmem d') (cell_addr j) =
       (if k \<le> j \<and> j < k + length cs then pack_char (cs ! (j - k)) (ct d) (cf d) else load16 (pmem d) (cell_addr j)))"
proof -
  have k: "k = unat (lig d) * 80 + unat (col d)" using assms(4) by (simp add: CONSOLE_COL_def)
  show ?thesis unfolding k using console_text_ok [of d cs clock, unfolded Let_def cell_def] assms(1-3)
    by (simp only: on_screen_simps printable_def CONSOLE_COL_def CONSOLE_LIG_def) simp
qed

theorem console_shows_text_witness:
  "\<exists>d'. console_putbytes 0 [72, 105] zero_dstate = (None, d') \<and> load16 (pmem d') (cell_addr 1) = pack_char 105 15 0"
proof -
  from console_shows_text [of zero_dstate "[72, 105]" 0 0] obtain d' where
    "console_putbytes 0 [72, 105] zero_dstate = (None, d')"
    "\<forall>j < 2000. load16 (pmem d') (cell_addr j) = (if 0 \<le> j \<and> j < 0 + length [72, 105 :: u8] then pack_char ([72, 105] ! (j - 0)) 15 0 else load16 (\<lambda>_. 0) (cell_addr j))"
    by (auto simp: zero_dstate_def CONSOLE_COL_def CONSOLE_LIG_def CONSOLE_WHITE_def CONSOLE_BLACK_def)
  then show ?thesis by (auto dest!: spec [of _ 1])
qed

end
