(* ===== verification/Ps2_Mouse.thy ===== *)
theory Ps2_Mouse
  imports Console_Props
begin

text \<open>
  \<^verbatim>\<open>driver/ps2.c\<close> and \<^verbatim>\<open>driver/mouse.c\<close>: the PS/2 controller and the mouse on its second channel, and the handlers of
  \<^verbatim>\<open>interrupt.c\<close> that use them. Delays (\<^verbatim>\<open>ps2_wait_ms\<close>) have no effect on the state.
\<close>

section \<open>The controller\<close>

definition PS2_CMD_PORT :: u16 where "PS2_CMD_PORT = 0x64"
definition PS2_DATA_PORT :: u16 where "PS2_DATA_PORT = 0x60"
definition PS2_TIMEOUT :: int where "PS2_TIMEOUT = 500"

text \<open>
  The two waiting loops. The counter is decremented when it is compared, so that it ends below zero
  when the time is over.
\<close>

function wait_write_loop :: "int \<Rightarrow> dstate \<Rightarrow> int \<times> dstate" where
  "wait_write_loop timer d =
     (let (v, d) = inb PS2_CMD_PORT d in
      if v AND 2 = 0 then (if timer > 0 then wait_write_loop (timer - 1) d else (timer - 1, d)) else (timer, d))"
  by pat_completeness auto
termination by (relation "measure (\<lambda>(t, _). nat t)") auto

function wait_read_loop :: "int \<Rightarrow> dstate \<Rightarrow> int \<times> dstate" where
  "wait_read_loop timer d =
     (let (v, d) = inb PS2_CMD_PORT d in
      if v AND 1 = 0 then (if timer \<ge> 0 then wait_read_loop (timer - 1) d else (timer - 1, d)) else (timer, d))"
  by pat_completeness auto
termination by (relation "measure (\<lambda>(t, _). nat (t + 1))") auto

declare wait_write_loop.simps [simp del] wait_read_loop.simps [simp del]

definition ps2_wait_and_write :: "dstate \<Rightarrow> bool \<times> dstate" where
  "ps2_wait_and_write d = (let (timer, d) = wait_write_loop PS2_TIMEOUT d in (timer \<noteq> 0, d))"

definition ps2_wait_and_read :: "dstate \<Rightarrow> bool \<times> dstate" where
  "ps2_wait_and_read d = (let (timer, d) = wait_read_loop PS2_TIMEOUT d in (timer \<noteq> 0, d))"

definition ps2_read :: "u16 \<Rightarrow> dstate \<Rightarrow> u8 \<times> dstate" where
  "ps2_read port d = (let (ok, d) = ps2_wait_and_read d in if ok then inb port d else (- 1, d))"

definition ps2_write :: "u8 \<Rightarrow> u16 \<Rightarrow> dstate \<Rightarrow> bool \<times> dstate" where
  "ps2_write v port d = (let (ok, d) = ps2_wait_and_write d in if ok then (True, outb v port d) else (False, d))"

definition ps2_cmd :: "u8 \<Rightarrow> dstate \<Rightarrow> dstate" where
  "ps2_cmd v d = snd (ps2_write v PS2_CMD_PORT d)"

definition ps2_expect_ack :: "dstate \<Rightarrow> bool \<times> dstate" where
  "ps2_expect_ack d = (let (ret, d) = ps2_read PS2_DATA_PORT d in (ret = 0xFA, d))"

definition ps2_enable_port :: "int \<Rightarrow> bool \<Rightarrow> dstate \<Rightarrow> dstate" where
  "ps2_enable_port i enable d =
     (if \<not> all_controllers d ! nat i then d
      else let d = ps2_cmd (if \<not> enable then (if i = 0 then 0xAD else 0xA7) else (if i = 0 then 0xAE else 0xA8)) d
           in snd (ps2_read PS2_DATA_PORT d))"

definition ps2_write_device :: "int \<Rightarrow> u8 \<Rightarrow> dstate \<Rightarrow> bool \<times> dstate" where
  "ps2_write_device dev v d =
     (if dev \<noteq> 0 then
        (let (ok, d) = ps2_write 0xD4 PS2_CMD_PORT d in
         if \<not> ok then (False, d) else ps2_write v PS2_DATA_PORT d)
      else ps2_write v PS2_DATA_PORT d)"

text \<open>A command to the device, then its acknowledgement; both results are ignored by the callers.\<close>

definition device_cmd :: "int \<Rightarrow> u8 \<Rightarrow> dstate \<Rightarrow> dstate" where
  "device_cmd dev v d = snd (ps2_expect_ack (snd (ps2_write_device dev v d)))"

datatype ps2_type = PS2_MOUSE | PS2_MOUSE_SCROLL_WHEEL | PS2_MOUSE_FIVE_BUTTONS | PS2_KEYBOARD | PS2_KEYBOARD_TRANSLATED | PS2_DEVICE_UNKNOWN

definition ps2_identity_bytes_to_type :: "u8 \<Rightarrow> u8 \<Rightarrow> ps2_type" where
  "ps2_identity_bytes_to_type fst_b snd_b =
     (if fst_b = 0x00 then PS2_MOUSE else if fst_b = 0x03 then PS2_MOUSE_SCROLL_WHEEL
      else if fst_b = 0x04 then PS2_MOUSE_FIVE_BUTTONS
      else if fst_b = 0xAB then
        (if snd_b = 0x41 \<or> snd_b = 0xC1 then PS2_KEYBOARD_TRANSLATED
         else if snd_b = 0x83 then PS2_KEYBOARD else PS2_DEVICE_UNKNOWN)
      else PS2_DEVICE_UNKNOWN)"

definition ps2_identity_device :: "int \<Rightarrow> dstate \<Rightarrow> ps2_type \<times> dstate" where
  "ps2_identity_device i d =
     (let d = device_cmd i 0xF5 d;
          d = device_cmd i 0xF2 d;
          (b1, d) = ps2_read PS2_DATA_PORT d;
          (b2, d) = ps2_read PS2_DATA_PORT d
      in (ps2_identity_bytes_to_type b1 b2, d))"

section \<open>The mouse\<close>

definition mouse_set_sample_rate :: "u8 \<Rightarrow> dstate \<Rightarrow> dstate" where
  "mouse_set_sample_rate rate d = device_cmd (mdevice d) rate (device_cmd (mdevice d) 0xF3 d)"

text \<open>Both commands have the same code in \<^verbatim>\<open>mouse.h\<close>.\<close>

definition mouse_set_scaling :: "bool \<Rightarrow> dstate \<Rightarrow> dstate" where
  "mouse_set_scaling enabled d = device_cmd (mdevice d) (if enabled then 0xE7 else 0xE7) d"

definition mouse_set_resolution :: "u8 \<Rightarrow> dstate \<Rightarrow> dstate" where
  "mouse_set_resolution level d = device_cmd (mdevice d) level (device_cmd (mdevice d) 0xE8 d)"

definition mouse_enable_scroll_wheel :: "dstate \<Rightarrow> dstate" where
  "mouse_enable_scroll_wheel d =
     (let d = mouse_set_sample_rate 80 (mouse_set_sample_rate 100 (mouse_set_sample_rate 200 d));
          (type, d) = ps2_identity_device (mdevice d) d
      in if type = PS2_MOUSE_SCROLL_WHEEL then d\<lparr>bytes_per_packet := 4\<rparr> else d)"

definition mouse_enable_five_buttons :: "dstate \<Rightarrow> dstate" where
  "mouse_enable_five_buttons d =
     (if bytes_per_packet d \<noteq> 4 then d
      else let d = mouse_set_sample_rate 80 (mouse_set_sample_rate 200 (mouse_set_sample_rate 200 d))
           in snd (ps2_identity_device (mdevice d) d))"

definition init_mouse :: "int \<Rightarrow> dstate \<Rightarrow> dstate" where
  "init_mouse dev d =
     (let d = d\<lparr>mdevice := dev\<rparr>;
          d = mouse_enable_scroll_wheel d;
          d = mouse_enable_five_buttons d;
          d = mouse_set_sample_rate 100 d;
          d = mouse_set_resolution 0x03 d;
          d = mouse_set_scaling False d
      in device_cmd (mdevice d) 0xF4 d)"

text \<open>\<^verbatim>\<open>reboot\<close> does not return.\<close>

definition mouse_callback :: "ps2_mouse_t \<Rightarrow> dstate \<Rightarrow> dstate" where
  "mouse_callback s d =
     (let d = console_set_background_at (of_int (mx (mouse_previous d))) (of_int (my (mouse_previous d))) CONSOLE_BLACK d;
          d = console_set_background_at (of_int (mx s)) (of_int (my s)) CONSOLE_GREEN d
      in if left_button_pressed s \<and> mx s = 79 \<and> my s = 0 then d\<lparr>rebooted := True\<rparr>
         else if left_button_pressed s then console_set_background_at (of_int (mx s)) (of_int (my s)) CONSOLE_BLUE d
         else if right_button_pressed s then console_set_background_at (of_int (mx s)) (of_int (my s)) CONSOLE_RED d
         else if middle_button_pressed s then console_set_background_at (of_int (mx s)) (of_int (my s)) CONSOLE_GREEN d
         else d\<lparr>mouse_previous := s\<rparr>)"

definition mouse_set_callback :: "dstate \<Rightarrow> dstate" where
  "mouse_set_callback d = d\<lparr>callback := True\<rparr>"

definition mouse_state_equal :: "ps2_mouse_t \<Rightarrow> ps2_mouse_t \<Rightarrow> bool" where
  "mouse_state_equal a b \<longleftrightarrow> mx a = mx b \<and> my a = my b \<and> left_button_pressed a = left_button_pressed b \<and>
     right_button_pressed a = right_button_pressed b \<and> middle_button_pressed a = middle_button_pressed b"

text \<open>\<^verbatim>\<open>delta |= 0xFFFFFF00\<close> on an \<^verbatim>\<open>int\<close>.\<close>

definition mouse_delta :: "bool \<Rightarrow> u8 \<Rightarrow> int" where
  "mouse_delta neg b = (if neg then sint (ucast b OR 0xFFFFFF00 :: u32) else uint b)"

definition clamp :: "int \<Rightarrow> int \<Rightarrow> int" where
  "clamp hi v = (let v = (if v \<ge> hi then hi else v) in if v \<le> 0 then 0 else v)"

definition mouse_handle_packet :: "dstate \<Rightarrow> dstate" where
  "mouse_handle_packet d =
     (let old_state = mouse_state d;
          flags = packet d ! 0; extra = packet d ! 3
      in if bytes_per_packet d = 4 \<and> (extra AND 0x80 \<noteq> 0 \<or> extra AND 0x40 \<noteq> 0) then d
         else if flags AND 0x40 \<noteq> 0 \<or> flags AND 0x80 \<noteq> 0 then d
         else
           let delta_x = mouse_delta (flags AND 0x10 \<noteq> 0) (packet d ! 1);
               delta_y = mouse_delta (flags AND 0x20 \<noteq> 0) (packet d ! 2);
               s = \<lparr>mx = clamp (int CONSOLE_COL - 1) (mx old_state + c_div delta_x 10),
                    my = clamp (int CONSOLE_LIG - 1) (my old_state - c_div delta_y 8),
                    left_button_pressed = flags AND 1 \<noteq> 0, right_button_pressed = flags AND 2 \<noteq> 0,
                    middle_button_pressed = flags AND 4 \<noteq> 0\<rparr>;
               d = d\<lparr>mouse_state := s\<rparr>
           in if \<not> mouse_state_equal old_state s \<and> callback d then mouse_callback s d else d)"

definition mouse_IT :: "dstate \<Rightarrow> dstate" where
  "mouse_IT d =
     (let d = outb 0x20 0x20 d;
          d = outb 0x20 0xA0 d;
          (b, d) = ps2_read PS2_DATA_PORT d
      in if current_byte d = 0 \<and> b AND 8 = 0 then d
         else let d = d\<lparr>packet := (packet d)[nat (current_byte d) := b],
                        current_byte := c_rem (current_byte d + 1) (bytes_per_packet d)\<rparr>
              in if current_byte d = 0 then mouse_handle_packet d else d)"

section \<open>Start-up of the controller\<close>

text \<open>The loop that resets the second device, and the one that identifies it.\<close>

definition ps2_reset_device :: "dstate \<Rightarrow> dstate" where
  "ps2_reset_device d =
     (if \<not> all_controllers d ! 1 then d
      else let d = ps2_enable_port 1 True d;
               (_, d) = ps2_write_device 1 0xFF d;
               (_, d) = ps2_expect_ack d;
               (ret, d) = ps2_read PS2_DATA_PORT d;
               (ret2, d) = ps2_read PS2_DATA_PORT d
           in if (ret = 0xAA \<and> (ret2 = 0xFA \<or> ret2 = 0)) \<or> ((ret = 0xFA \<or> ret = 0) \<and> ret2 = 0xAA) then d
              else let d = ps2_enable_port 1 False d in d\<lparr>all_controllers := (all_controllers d)[1 := False]\<rparr>)"

definition ps2_start_driver :: "u8 \<Rightarrow> dstate \<Rightarrow> u8 \<times> dstate" where
  "ps2_start_driver config d =
     (if \<not> all_controllers d ! 1 then (config, d)
      else let (type, d) = ps2_identity_device 1 d;
               (called, d) =
                 (if type = PS2_KEYBOARD \<or> type = PS2_KEYBOARD_TRANSLATED then (True, d)
                  else if type = PS2_MOUSE \<or> type = PS2_MOUSE_SCROLL_WHEEL \<or> type = PS2_MOUSE_FIVE_BUTTONS then (True, init_mouse 1 d)
                  else (False, d))
           in (if called then (config OR 2) AND NOT 0x20 else config, d))"

definition init_ps2 :: "dstate \<Rightarrow> dstate" where
  "init_ps2 d =
     (let d = ps2_cmd 0xA7 d;
          (_, d) = inb PS2_DATA_PORT d;
          d = ps2_cmd 0x20 d;
          (ps2_config, d) = ps2_read PS2_DATA_PORT d;
          ps2_config = ps2_config OR 2;
          d = ps2_cmd 0x60 d;
          (_, d) = ps2_write ps2_config PS2_DATA_PORT d;
          d = ps2_cmd 0xAA d;
          (r, d) = ps2_read PS2_DATA_PORT d
      in if r \<noteq> 0x55 then d\<lparr>all_controllers := (all_controllers d)[1 := False]\<rparr>
         else
           let d = ps2_cmd 0x60 d;
               (_, d) = ps2_write ps2_config PS2_DATA_PORT d;
               d = ps2_cmd 0xA8 d;
               d = ps2_cmd 0x20 d;
               (ps2_config, d) = ps2_read PS2_DATA_PORT d;
               (dual_channel, d) =
                 (if ps2_config AND 0x20 \<noteq> 0 then (False, d\<lparr>all_controllers := (all_controllers d)[1 := False]\<rparr>)
                  else (True, ps2_cmd 0xA7 d));
               d = (if dual_channel then
                      let d = ps2_cmd 0xA9 d; (t, d) = ps2_read PS2_DATA_PORT d
                      in if t \<noteq> 0 then d\<lparr>all_controllers := (all_controllers d)[1 := False]\<rparr> else d
                    else d);
               d = ps2_reset_device d;
               (ps2_config, d) = ps2_start_driver ps2_config d;
               d = ps2_cmd 0x60 d
           in snd (ps2_write ps2_config PS2_DATA_PORT d))"

section \<open>The handlers\<close>

text \<open>
  \<^verbatim>\<open>setup_interrupt_handlers\<close>, given the addresses of the assembly handlers; the creation of the keyboard queue at its end belongs to
  the kernel state.
\<close>

definition setup_interrupt_handlers :: "u32 \<Rightarrow> u32 \<Rightarrow> u32 \<Rightarrow> u32 \<Rightarrow> u32 \<Rightarrow> dstate \<Rightarrow> dstate option" where
  "setup_interrupt_handlers h_pit h_kbd h_flp h_mouse h_usr d =
     (if \<not> (CLOCKFREQ > SCHEDFREQ \<and> c_rem CLOCKFREQ SCHEDFREQ = 0) then None
      else let d = set_handler 32 h_pit 0 d;
               d = set_handler 33 h_kbd 0 d;
               d = set_handler 38 h_flp 0 d;
               d = init_ps2 d;
               d = set_handler 44 h_mouse 0 d;
               d = set_pit d;
               d = set_mask 0 False d;
               d = set_mask 1 False d;
               d = set_mask 6 False d;
               d = set_mask 2 False d;
               d = set_mask 12 False d;
               d = set_handler 49 h_usr 3 d
           in Some (mouse_set_callback d))"

end
