(* ===== verification/Mouse_Props.thy ===== *)
theory Mouse_Props
  imports Ps2_Mouse
begin

text \<open>
  The mouse driver: its indices stay in their arrays and the pointer on the screen, whatever the
  devices send; three bytes make a movement; and what a time-out of the PS/2 controller does.
\<close>

section \<open>Exchanges with the controller\<close>

text \<open>\<open>io d d'\<close>: only bytes were written to and read from ports.\<close>

definition io :: "dstate \<Rightarrow> dstate \<Rightarrow> bool" where
  "io d d' \<longleftrightarrow> (\<exists>n w. d' = d\<lparr>nread := n, outs := w\<rparr>)"

lemma io_refl [simp, intro]: "io d d"
proof -
  have "d = d\<lparr>nread := nread d, outs := outs d\<rparr>" by simp
  then show ?thesis unfolding io_def by blast
qed

lemma io_trans [trans]: "io d d' \<Longrightarrow> io d' d'' \<Longrightarrow> io d d''"
  unfolding io_def by fastforce

lemma io_outb [simp]: "io c d \<Longrightarrow> io c (outb v p d)"
proof -
  have "outb v p d = d\<lparr>nread := nread d, outs := (p, v) # outs d\<rparr>" by (simp add: outb_def)
  then have "io d (outb v p d)" unfolding io_def by blast
  then show "io c d \<Longrightarrow> io c (outb v p d)" by (rule io_trans [rotated])
qed

lemma io_inb [simp]: "io c d \<Longrightarrow> io c (snd (inb p d))"
proof -
  have "snd (inb p d) = d\<lparr>nread := Suc (nread d), outs := outs d\<rparr>" by (simp add: inb_def)
  then have "io d (snd (inb p d))" unfolding io_def by blast
  then show "io c d \<Longrightarrow> io c (snd (inb p d))" by (rule io_trans [rotated])
qed

lemma io_wait_write_loop [simp]: "io c d \<Longrightarrow> io c (snd (wait_write_loop t d))"
proof (induction t d rule: wait_write_loop.induct)
  case (1 timer d)
  obtain v e where i: "inb PS2_CMD_PORT d = (v, e)" by fastforce
  have "io c e" using io_inb [OF "1.prems", of PS2_CMD_PORT] i by simp
  then show ?case using "1.IH" [OF i [symmetric]] i by (subst wait_write_loop.simps) simp
qed

lemma io_wait_read_loop [simp]: "io c d \<Longrightarrow> io c (snd (wait_read_loop t d))"
proof (induction t d rule: wait_read_loop.induct)
  case (1 timer d)
  obtain v e where i: "inb PS2_CMD_PORT d = (v, e)" by fastforce
  have "io c e" using io_inb [OF "1.prems", of PS2_CMD_PORT] i by simp
  then show ?case using "1.IH" [OF i [symmetric]] i by (subst wait_read_loop.simps) simp
qed

lemma io_ps2 [simp]:
  "io c d \<Longrightarrow> io c (snd (ps2_read p d))" "io c d \<Longrightarrow> io c (snd (ps2_write v p d))"
  by (simp_all add: ps2_read_def ps2_write_def ps2_wait_and_read_def ps2_wait_and_write_def Let_def case_prod_unfold)

lemma io_ps2_device [simp]:
  "io c d \<Longrightarrow> io c (snd (ps2_write_device dev v d))" "io c d \<Longrightarrow> io c (snd (ps2_expect_ack d))"
  by (simp_all add: ps2_write_device_def ps2_expect_ack_def Let_def case_prod_unfold)

lemma io_cmds [simp]:
  "io c d \<Longrightarrow> io c (device_cmd dev v d)" "io c d \<Longrightarrow> io c (mouse_set_sample_rate r d)"
  "io c d \<Longrightarrow> io c (mouse_set_resolution l d)" "io c d \<Longrightarrow> io c (mouse_set_scaling b d)"
  "io c d \<Longrightarrow> io c (snd (ps2_identity_device i d))"
  by (simp_all add: device_cmd_def mouse_set_sample_rate_def mouse_set_resolution_def mouse_set_scaling_def
      ps2_identity_device_def Let_def case_prod_unfold)

section \<open>The state of the driver\<close>

definition mouse_ok :: "dstate \<Rightarrow> bool" where
  "mouse_ok d \<longleftrightarrow> length (packet d) = 4 \<and> (bytes_per_packet d = 3 \<or> bytes_per_packet d = 4) \<and>
     0 \<le> current_byte d \<and> current_byte d < bytes_per_packet d \<and>
     0 \<le> mx (mouse_state d) \<and> mx (mouse_state d) < int CONSOLE_COL \<and>
     0 \<le> my (mouse_state d) \<and> my (mouse_state d) < int CONSOLE_LIG"

lemma mouse_ok_io: "io d d' \<Longrightarrow> mouse_ok d' = mouse_ok d"
  by (auto simp: io_def mouse_ok_def)

lemma mouse_callback_frame [simp]:
  "packet (mouse_callback s d) = packet d" "bytes_per_packet (mouse_callback s d) = bytes_per_packet d"
  "current_byte (mouse_callback s d) = current_byte d" "mouse_state (mouse_callback s d) = mouse_state d"
  by (simp_all add: mouse_callback_def console_set_background_at_def Let_def)

lemma clamp_bounds: "0 \<le> hi \<Longrightarrow> 0 \<le> clamp hi v" "0 \<le> hi \<Longrightarrow> hi < k \<Longrightarrow> clamp hi v < k"
  by (auto simp: clamp_def Let_def)

lemma clamp_min_max: "0 \<le> hi \<Longrightarrow> clamp hi v = max 0 (min hi v)"
  by (simp add: clamp_def min_def max_def)

lemma mouse_handle_packet_ok: "mouse_ok d \<Longrightarrow> mouse_ok (mouse_handle_packet d)"
  by (simp add: mouse_handle_packet_def mouse_ok_def Let_def CONSOLE_COL_def CONSOLE_LIG_def clamp_bounds)

lemma on_if: "P x \<Longrightarrow> P y \<Longrightarrow> P (if b then x else y)"
  by simp

lemma mouse_IT_ok:
  assumes "mouse_ok d"
  shows "mouse_ok (mouse_IT d)"
proof -
  define e where "e = outb 0x20 0xA0 (outb 0x20 0x20 d)"
  obtain b f where r: "ps2_read PS2_DATA_PORT e = (b, f)" by fastforce
  have "io d e" by (simp add: e_def)
  then have "io d f" using io_ps2(1) [of d e PS2_DATA_PORT] r by simp
  then have f: "mouse_ok f" using assms mouse_ok_io by blast
  let ?c = "c_rem (current_byte f + 1) (bytes_per_packet f)"
  let ?g = "f\<lparr>packet := (packet f)[nat (current_byte f) := b], current_byte := ?c\<rparr>"
  have "?c = (current_byte f + 1) mod bytes_per_packet f" using f by (simp add: mouse_ok_def)
  then have g: "mouse_ok ?g" using f by (auto simp: mouse_ok_def)
  have it: "mouse_IT d = (if current_byte f = 0 \<and> b AND 8 = 0 then f else if current_byte ?g = 0 then mouse_handle_packet ?g else ?g)"
    by (simp only: mouse_IT_def Let_def e_def [symmetric] r prod.case)
  show ?thesis unfolding it by (intro on_if [of mouse_ok] f g mouse_handle_packet_ok [OF g])
qed

lemma mouse_ok_cmds [simp]:
  "mouse_ok (mouse_set_sample_rate r d) = mouse_ok d" "mouse_ok (mouse_set_resolution l d) = mouse_ok d"
  "mouse_ok (mouse_set_scaling b d) = mouse_ok d" "mouse_ok (device_cmd i v d) = mouse_ok d"
  "mouse_ok (snd (ps2_identity_device i d)) = mouse_ok d"
  by (rule mouse_ok_io, simp)+

lemma init_mouse_ok:
  assumes "mouse_ok d"
  shows "mouse_ok (init_mouse dev d)"
proof -
  have four: "mouse_ok (e\<lparr>bytes_per_packet := 4\<rparr>)" if "mouse_ok e" for e using that by (auto simp: mouse_ok_def)
  have w: "mouse_ok (mouse_enable_scroll_wheel e)" if "mouse_ok e" for e
    using that by (auto simp: mouse_enable_scroll_wheel_def Let_def case_prod_unfold intro!: four)
  have v: "mouse_ok (mouse_enable_five_buttons e)" if "mouse_ok e" for e
    using that by (simp add: mouse_enable_five_buttons_def Let_def)
  have "mouse_ok (d\<lparr>mdevice := dev\<rparr>)" using assms by (simp add: mouse_ok_def)
  then show ?thesis using w v by (simp add: init_mouse_def Let_def)
qed

section \<open>A packet\<close>

text \<open>A controller that always has a byte.\<close>

lemma ps2_read_ready:
  assumes "ins d (nread d) PS2_CMD_PORT AND 1 \<noteq> 0"
  shows "ps2_read p d = (ins d (Suc (nread d)) p, d\<lparr>nread := nread d + 2\<rparr>)"
  using assms by (simp add: ps2_read_def ps2_wait_and_read_def wait_read_loop.simps [of PS2_TIMEOUT] inb_def) (simp add: PS2_TIMEOUT_def)

lemma mouse_IT_ready:
  assumes "ins d (nread d) PS2_CMD_PORT AND 1 \<noteq> 0" and "b = ins d (Suc (nread d)) PS2_DATA_PORT"
    and "current_byte d \<noteq> 0 \<or> b AND 8 \<noteq> 0"
  shows "mouse_IT d =
    (let e = d\<lparr>outs := (0xA0, 0x20) # (0x20, 0x20) # outs d, nread := nread d + 2, packet := (packet d)[nat (current_byte d) := b],
               current_byte := c_rem (current_byte d + 1) (bytes_per_packet d)\<rparr>
     in if current_byte e = 0 then mouse_handle_packet e else e)"
proof -
  let ?e = "outb 0x20 0xA0 (outb 0x20 0x20 d)"
  have "ps2_read PS2_DATA_PORT ?e = (b, ?e\<lparr>nread := nread d + 2\<rparr>)"
    using ps2_read_ready [of ?e] assms(1,2) by (simp add: outb_def)
  moreover have "\<not> (current_byte (?e\<lparr>nread := nread d + 2\<rparr>) = 0 \<and> b AND 8 = 0)" using assms(3) by (auto simp: outb_def)
  ultimately have "mouse_IT d = (let e = (?e\<lparr>nread := nread d + 2\<rparr>)\<lparr>packet := (packet d)[nat (current_byte d) := b],
               current_byte := c_rem (current_byte d + 1) (bytes_per_packet d)\<rparr>
     in if current_byte e = 0 then mouse_handle_packet e else e)"
    unfolding mouse_IT_def Let_def by (simp only: prod.case if_False) (simp add: outb_def)
  then show ?thesis by (simp only: outb_def) simp
qed

lemma mouse_delta_nine_bits: "mouse_delta s b = uint b - (if s then 256 else 0)"
proof (cases s)
  case True
  have lo: "(ucast b :: u32) AND push_bit 8 w = 0" for w :: u32
    by (rule bit_word_eqI) (auto simp: bit_simps dest: bit_imp_le_length)
  have z: "ucast b AND (0xFFFFFF00 :: u32) = 0" using lo [of "0xFFFFFF"] by simp
  have "ucast b OR (0xFFFFFF00 :: u32) = ucast b + 0xFFFFFF00"
    using word_plus_and_or [of "ucast b" "0xFFFFFF00 :: u32"] unfolding z by simp
  also have "\<dots> = of_int (uint b - 256)" by simp
  finally have "sint (ucast b OR (0xFFFFFF00 :: u32)) = signed_take_bit 31 (uint b - 256)" by (simp only: signed_of_int) simp
  also have "\<dots> = uint b - 256" using uint_lt2p [of b] by (intro signed_take_bit_int_eq_self) auto
  finally show ?thesis using True by (simp add: mouse_delta_def)
qed (simp add: mouse_delta_def)


lemma mouse_callback_state [simp]: "mouse_state (if b then mouse_callback s d else d) = mouse_state d"
  by simp

lemma mouse_handle_packet_state:
  assumes "packet d = f # x # y # r" and "bytes_per_packet d = 3" and "f AND 0x40 = 0" and "f AND 0x80 = 0"
  shows "mouse_state (mouse_handle_packet d) =
    \<lparr>mx = max 0 (min 79 (mx (mouse_state d) + c_div (uint x - (if f AND 0x10 \<noteq> 0 then 256 else 0)) 10)),
     my = max 0 (min 24 (my (mouse_state d) - c_div (uint y - (if f AND 0x20 \<noteq> 0 then 256 else 0)) 8)),
     left_button_pressed = f AND 1 \<noteq> 0, right_button_pressed = f AND 2 \<noteq> 0, middle_button_pressed = f AND 4 \<noteq> 0\<rparr>"
  using assms
  by (simp add: mouse_handle_packet_def Let_def CONSOLE_COL_def CONSOLE_LIG_def clamp_min_max mouse_delta_nine_bits del: min_def max_def)

section \<open>Time-outs\<close>

lemma wait_read_loop_silent:
  assumes "\<And>n. ins d n PS2_CMD_PORT AND 1 = 0" and "t \<ge> -1"
  shows "wait_read_loop t d = (-2, d\<lparr>nread := nread d + nat (t + 2)\<rparr>)"
  using assms
proof (induction "nat (t + 1)" arbitrary: t d)
  case 0
  then show ?case by (subst wait_read_loop.simps) (simp add: inb_def)
next
  case (Suc k)
  let ?d = "d\<lparr>nread := Suc (nread d)\<rparr>"
  have "wait_read_loop (t - 1) ?d = (-2, ?d\<lparr>nread := nread ?d + nat (t - 1 + 2)\<rparr>)"
    by (rule Suc.hyps(1)) (use Suc.hyps(2) Suc.prems in auto)
  then show ?case using Suc.hyps(2) Suc.prems by (subst wait_read_loop.simps) (simp add: inb_def nat_add_distrib)
qed

text \<open>
  C18: However the devices behave, initialising the mouse and handling any number of its interrupts keeps the packet index inside the
  packet buffer and the mouse position on the screen.
\<close>

theorem mouse_stays_on_screen:
  assumes "length (packet d) = 4" and "bytes_per_packet d = 3" and "current_byte d = 0"
    and "0 \<le> mx (mouse_state d)" and "mx (mouse_state d) < 80" and "0 \<le> my (mouse_state d)" and "my (mouse_state d) < 25"
    and "d' = (mouse_IT ^^ n) (init_mouse dev d)"
  shows "0 \<le> mx (mouse_state d') \<and> mx (mouse_state d') < int CONSOLE_COL \<and> 0 \<le> my (mouse_state d') \<and> my (mouse_state d') < int CONSOLE_LIG \<and>
    0 \<le> current_byte d' \<and> current_byte d' < int (length (packet d'))"
proof -
  have "mouse_ok d" using assms by (simp add: mouse_ok_def CONSOLE_COL_def CONSOLE_LIG_def)
  then have "mouse_ok ((mouse_IT ^^ n) (init_mouse dev d))" by (induction n) (simp_all add: mouse_IT_ok init_mouse_ok)
  then show ?thesis using assms(8) by (auto simp: mouse_ok_def)
qed

theorem mouse_stays_on_screen_witness:
  "mx (mouse_state ((mouse_IT ^^ 5) (init_mouse 1 (zero_dstate\<lparr>ins := \<lambda>_ _. 0x1F\<rparr>)))) < int CONSOLE_COL"
  using mouse_stays_on_screen [of "zero_dstate\<lparr>ins := \<lambda>_ _. 0x1F\<rparr>" _ 5 1, OF _ _ _ _ _ _ _ refl] by (simp add: zero_dstate_def)

text \<open>
  Three bytes sent by the mouse make one movement: nine-bit two's complement distances with their signs in the first byte, scaled down
  by 10 and 8, with the vertical axis upwards, clamped to the screen, and the state of the three buttons.
\<close>

theorem mouse_three_bytes_move:
  assumes "\<And>n. ins d n PS2_CMD_PORT AND 1 \<noteq> 0" and "current_byte d = 0" and "bytes_per_packet d = 3" and "length (packet d) = 4"
    and "f = ins d (nread d + 1) PS2_DATA_PORT" and "x = ins d (nread d + 3) PS2_DATA_PORT" and "y = ins d (nread d + 5) PS2_DATA_PORT"
    and "f AND 8 \<noteq> 0" and "f AND 0x40 = 0" and "f AND 0x80 = 0"
  shows "mouse_state (mouse_IT (mouse_IT (mouse_IT d))) =
    \<lparr>mx = max 0 (min 79 (mx (mouse_state d) + c_div (uint x - (if f AND 0x10 \<noteq> 0 then 256 else 0)) 10)),
     my = max 0 (min 24 (my (mouse_state d) - c_div (uint y - (if f AND 0x20 \<noteq> 0 then 256 else 0)) 8)),
     left_button_pressed = f AND 1 \<noteq> 0, right_button_pressed = f AND 2 \<noteq> 0, middle_button_pressed = f AND 4 \<noteq> 0\<rparr>"
proof -
  obtain p0 p1 p2 p3 where p: "packet d = [p0, p1, p2, p3]" using assms(4) by (auto simp: numeral_eq_Suc length_Suc_conv)
  let ?w = "\<lambda>k. rec_nat (outs d) (\<lambda>_ r. (0xA0, 0x20) # (0x20, 0x20) # r) k"
  let ?d1 = "d\<lparr>outs := ?w 1, nread := nread d + 2, packet := [f, p1, p2, p3], current_byte := 1\<rparr>"
  let ?d2 = "d\<lparr>outs := ?w 2, nread := nread d + 4, packet := [f, x, p2, p3], current_byte := 2\<rparr>"
  let ?d3 = "d\<lparr>outs := ?w 3, nread := nread d + 6, packet := [f, x, y, p3], current_byte := 0\<rparr>"
  have 1: "mouse_IT d = ?d1" using mouse_IT_ready [of d f] assms p by (simp add: Let_def)
  have 2: "mouse_IT ?d1 = ?d2" using mouse_IT_ready [of ?d1 x] assms p by (simp add: Let_def numeral_eq_Suc)
  have 3: "mouse_IT ?d2 = mouse_handle_packet ?d3" using mouse_IT_ready [of ?d2 y] assms p by (simp add: Let_def numeral_eq_Suc)
  show ?thesis unfolding 1 2 3 using mouse_handle_packet_state [of ?d3 f x y "[p3]"] assms(3,9,10) by simp
qed

theorem mouse_three_bytes_move_witness:
  "mx (mouse_state (mouse_IT (mouse_IT (mouse_IT (zero_dstate\<lparr>ins := \<lambda>_ _. 0x29\<rparr>))))) = 4"
  using mouse_three_bytes_move [of "zero_dstate\<lparr>ins := \<lambda>_ _. 0x29\<rparr>", OF _ _ _ _ refl refl refl] by (simp add: zero_dstate_def)

text \<open>
  C39: When the controller never has a byte to read, the wait ends after 502 polls, but reports success: \<^verbatim>\<open>ps2_read\<close>
  reads the data port all the same and its error value -1 is never returned.
\<close>

theorem ps2_read_timeout_unnoticed:
  assumes "\<And>n. ins d n PS2_CMD_PORT AND 1 = 0"
  shows "ps2_wait_and_read d = (True, d\<lparr>nread := nread d + 502\<rparr>) \<and>
    ps2_read port d = (ins d (nread d + 502) port, d\<lparr>nread := nread d + 503\<rparr>)"
  using wait_read_loop_silent [of d PS2_TIMEOUT] assms
  by (simp add: ps2_read_def ps2_wait_and_read_def inb_def PS2_TIMEOUT_def)

theorem ps2_read_timeout_unnoticed_witness:
  "fst (ps2_read 0x60 (zero_dstate\<lparr>ins := \<lambda>_ p. if p = 0x64 then 0 else 0x42\<rparr>)) = 0x42"
  using ps2_read_timeout_unnoticed [of "zero_dstate\<lparr>ins := \<lambda>_ p. if p = 0x64 then 0 else 0x42\<rparr>" "0x60"]
  by (simp add: PS2_CMD_PORT_def)

end
