(* ===== verification/Disk.thy ===== *)
theory Disk
  imports Console_Props
begin

text \<open>
  \<^verbatim>\<open>driver/disk.c\<close>: the interface that a file system uses to reach a disk, as a record of functions, and the
  disk in memory. \<open>fstate\<close> is the state of the devices with the variables of the floppy driver, which is the other disk.

  The locale \<open>disk_image\<close> is the contract of that interface: a disk holds an image of \<open>cap\<close> bytes;
  reading copies a part of it to memory, writing changes it, and a view is a pointer to memory that shows a part of it.
  A disk may use memory of its own, \<open>priv\<close>, for buffers.
\<close>

record fstate =
  dv :: dstate
  interrupted :: bool
  motor_ticks :: int
  motor_state :: int
  floppy_dmacyl :: u32
  sleep_timer_pid :: int

definition fm :: "fstate \<Rightarrow> mem" where
  "fm s = pmem (dv s)"

definition set_fm :: "mem \<Rightarrow> fstate \<Rightarrow> fstate" where
  "set_fm m s = s\<lparr>dv := (dv s)\<lparr>pmem := m\<rparr>\<rparr>"

lemma fm_set_fm [simp]: "fm (set_fm m s) = m"
  by (simp add: fm_def set_fm_def)

lemma set_fm_fm [simp]: "set_fm (fm s) s = s" "set_fm m (set_fm m' s) = set_fm m s"
  by (simp_all add: fm_def set_fm_def)

section \<open>The interface\<close>

text \<open>A view is a pointer and the number of bytes that can be read there.\<close>

record disk_t =
  disk_write_op :: "u32 \<Rightarrow> u32 \<Rightarrow> u32 \<Rightarrow> u32 \<Rightarrow> fstate \<Rightarrow> fstate option"
  disk_read_op :: "u32 \<Rightarrow> u32 \<Rightarrow> u32 \<Rightarrow> u32 \<Rightarrow> fstate \<Rightarrow> fstate option"
  disk_view_op :: "u32 \<Rightarrow> u32 \<Rightarrow> fstate \<Rightarrow> (u32 \<times> u32 \<times> fstate) option"
  disk_arg :: u32

definition disk_write :: "disk_t \<Rightarrow> u32 \<Rightarrow> u32 \<Rightarrow> u32 \<Rightarrow> fstate \<Rightarrow> fstate option" where
  "disk_write d addr src n s = disk_write_op d (disk_arg d) addr src n s"

definition disk_read :: "disk_t \<Rightarrow> u32 \<Rightarrow> u32 \<Rightarrow> u32 \<Rightarrow> fstate \<Rightarrow> fstate option" where
  "disk_read d dst addr n s = disk_read_op d (disk_arg d) dst addr n s"

definition disk_view :: "disk_t \<Rightarrow> u32 \<Rightarrow> fstate \<Rightarrow> (u32 \<times> u32 \<times> fstate) option" where
  "disk_view d addr s = disk_view_op d (disk_arg d) addr s"

section \<open>The disk in memory\<close>

definition mem_disk_write :: "u32 \<Rightarrow> u32 \<Rightarrow> u32 \<Rightarrow> u32 \<Rightarrow> fstate \<Rightarrow> fstate option" where
  "mem_disk_write arg addr src n s = Some (set_fm (snd (memcpy (arg + addr) src n (fm s))) s)"

definition mem_disk_read :: "u32 \<Rightarrow> u32 \<Rightarrow> u32 \<Rightarrow> u32 \<Rightarrow> fstate \<Rightarrow> fstate option" where
  "mem_disk_read arg dst addr n s = Some (set_fm (snd (memcpy dst (arg + addr) n (fm s))) s)"

definition mem_disk_view :: "u32 \<Rightarrow> u32 \<Rightarrow> fstate \<Rightarrow> (u32 \<times> u32 \<times> fstate) option" where
  "mem_disk_view arg addr s = Some (arg + addr, 0xFFFFFFFF, s)"

text \<open>\<open>alloc\<close> is the block that the allocator returns.\<close>

definition new_mem_disk :: "u32 \<Rightarrow> u32 \<Rightarrow> u32 \<Rightarrow> fstate \<Rightarrow> disk_t \<times> fstate" where
  "new_mem_disk alloc len erase s =
     (\<lparr>disk_write_op = mem_disk_write, disk_read_op = mem_disk_read, disk_view_op = mem_disk_view, disk_arg = alloc\<rparr>,
      set_fm (snd (memset alloc erase len (fm s))) s)"

section \<open>The contract\<close>

definition apart :: "u32 \<Rightarrow> nat \<Rightarrow> u32 set \<Rightarrow> bool" where
  "apart a n P \<longleftrightarrow> block a n \<inter> P = {}"

text \<open>Outside its own memory, a disk leaves memory as \<open>m\<close>.\<close>

definition mem_is :: "u32 set \<Rightarrow> mem \<Rightarrow> fstate \<Rightarrow> bool" where
  "mem_is P m s \<longleftrightarrow> (\<forall>a. a \<notin> P \<longrightarrow> fm s a = m a)"

locale disk_image =
  fixes d :: disk_t
    and img :: "fstate \<Rightarrow> u32 \<Rightarrow> u8"
    and good :: "fstate \<Rightarrow> bool"
    and priv :: "u32 set"
    and cap :: nat
  assumes cap_fits: "cap \<le> 4294967295"
    and memory_law: "\<And>s m. good s \<Longrightarrow> (\<And>a. a \<in> priv \<Longrightarrow> m a = fm s a) \<Longrightarrow> good (set_fm m s) \<and> img (set_fm m s) = img s"
    and read_law: "\<And>s dst addr n. good s \<Longrightarrow> unat addr + unat n \<le> cap \<Longrightarrow> apart dst (unat n) priv \<Longrightarrow>
      \<exists>s'. disk_read d dst addr n s = Some s' \<and> good s' \<and> img s' = img s \<and>
        mem_is priv (wr (fm s) dst (rd (img s) addr (unat n))) s'"
    and write_law: "\<And>s src addr n. good s \<Longrightarrow> unat addr + unat n \<le> cap \<Longrightarrow> apart src (unat n) priv \<Longrightarrow>
      \<exists>s'. disk_write d addr src n s = Some s' \<and> good s' \<and> img s' = wr (img s) addr (rd (fm s) src (unat n)) \<and>
        mem_is priv (fm s) s'"
    and view_law: "\<And>s addr. good s \<Longrightarrow> unat addr < cap \<Longrightarrow>
      \<exists>p len s'. disk_view d addr s = Some (p, len, s') \<and> good s' \<and> img s' = img s \<and> mem_is priv (fm s) s' \<and> p \<noteq> 0 \<and>
        min (512 - unat addr mod 512) (cap - unat addr) \<le> unat len \<and>
        (\<forall>k. k \<le> unat len \<longrightarrow> unat addr + k \<le> cap \<longrightarrow> rd (fm s') p k = rd (img s) addr k)"


lemma rd_shift: "rd m (b + a) n = rd (\<lambda>x. m (b + x)) a n"
  by (induction n arbitrary: a) (auto simp: add.assoc)

lemma wr_shift: "(\<lambda>x. wr m (b + a) xs (b + x)) = wr (\<lambda>x. m (b + x)) a xs"
proof (induction xs arbitrary: m a)
  case (Cons y ys)
  have "(\<lambda>x. (m(b + a := y)) (b + x)) = (\<lambda>x. m (b + x))(a := y)" by auto
  then show ?case using Cons.IH [of "m(b + a := y)" "a + 1"] by (simp add: add.assoc del: fun_upd_apply)
qed simp

lemma apart_block: "apart a n P \<Longrightarrow> block b k \<subseteq> P \<Longrightarrow> block b k \<inter> block a n = {}" "apart a n P \<Longrightarrow> block b k \<subseteq> P \<Longrightarrow> block a n \<inter> block b k = {}"
  by (auto simp: apart_def)

definition mem_disk :: "u32 \<Rightarrow> disk_t" where
  "mem_disk base = \<lparr>disk_write_op = mem_disk_write, disk_read_op = mem_disk_read, disk_view_op = mem_disk_view, disk_arg = base\<rparr>"

lemma mem_disk_rules:
  "disk_write (mem_disk base) addr src n s = Some (set_fm (snd (memcpy (base + addr) src n (fm s))) s)"
  "disk_read (mem_disk base) dst addr n s = Some (set_fm (snd (memcpy dst (base + addr) n (fm s))) s)"
  "disk_view (mem_disk base) addr s = Some (base + addr, 0xFFFFFFFF, s)"
  by (simp_all add: mem_disk_def disk_write_def disk_read_def disk_view_def mem_disk_write_def mem_disk_read_def mem_disk_view_def)

text \<open>A disk in memory at \<open>base\<close>; its capacity is limited so that it lies below the end of memory.\<close>

definition mem_cap :: "u32 \<Rightarrow> nat \<Rightarrow> nat" where
  "mem_cap base cap = (if base = 0 then 0 else min cap (4294967296 - unat base))"

lemma mem_cap_addr: "unat addr < mem_cap base cap \<Longrightarrow> base + addr \<noteq> 0"
proof -
  assume "unat addr < mem_cap base cap"
  then have b: "base \<noteq> 0" "unat base + unat addr < 4294967296" by (auto simp: mem_cap_def split: if_splits)
  then have "unat (base + addr) = unat base + unat addr" by (simp add: unat_word_ariths)
  then show "base + addr \<noteq> 0" using b(1) by (metis add_is_0 unat_eq_zero)
qed

text \<open>An image is zero behind its end.\<close>

definition clip :: "nat \<Rightarrow> (u32 \<Rightarrow> u8) \<Rightarrow> u32 \<Rightarrow> u8" where
  "clip cap f a = (if unat a < cap then f a else 0)"

lemma in_range: "x \<in> block a n \<Longrightarrow> unat a + n \<le> cap \<Longrightarrow> cap \<le> 4294967296 \<Longrightarrow> unat x < cap"
proof -
  assume x: "x \<in> block a n" and n: "unat a + n \<le> cap" and c: "cap \<le> 4294967296"
  have "x = (x - a) + a" by simp
  then have "unat x \<le> unat (x - a) + unat a" by (metis unat_word_ariths(1) mod_less_eq_dividend)
  then show "unat x < cap" using x n by (simp add: in_block)
qed

lemma rd_clip: "unat a + n \<le> cap \<Longrightarrow> cap \<le> 4294967296 \<Longrightarrow> rd (clip cap f) a n = rd f a n"
  by (rule rd_cong) (auto simp: clip_def dest: in_range)

lemma wr_clip: "unat a + length xs \<le> cap \<Longrightarrow> cap \<le> 4294967296 \<Longrightarrow> clip cap (wr f a xs) = wr (clip cap f) a xs"
proof (induction xs arbitrary: a f)
  case (Cons y ys)
  then have "unat a < cap" by simp
  then have 1: "clip cap (f(a := y)) = (clip cap f)(a := y)" by (auto simp: clip_def)
  show ?case
  proof (cases "ys = []")
    case False
    then have "unat (a + 1) = unat a + 1" using Cons.prems by (intro unat_plus_one) (cases ys; simp)
    then show ?thesis using Cons.IH [of "a + 1" "f(a := y)"] Cons.prems 1 by (simp del: fun_upd_apply)
  qed (use 1 in \<open>simp del: fun_upd_apply\<close>)
qed simp

definition mem_img :: "u32 \<Rightarrow> nat \<Rightarrow> fstate \<Rightarrow> u32 \<Rightarrow> u8" where
  "mem_img base cap s = clip cap (\<lambda>a. fm s (base + a))"

lemma mem_cap_le: "mem_cap base cap \<le> 4294967295"
proof (cases "base = 0")
  case False
  then have "0 < unat base" by (simp add: unat_gt_0)
  then have "4294967296 - unat base \<le> 4294967295" by arith
  then show ?thesis by (simp add: mem_cap_def min_le_iff_disj)
qed (simp add: mem_cap_def)

lemma in_mem_block: "unat a < cap \<Longrightarrow> base + a \<in> block base cap"
  by (simp add: in_block)

interpretation mdisk: disk_image "mem_disk base" "mem_img base (mem_cap base cap)" "\<lambda>_. True" "block base (mem_cap base cap)" "mem_cap base cap"
  for base cap
proof (unfold_locales, goal_cases)
  case 1 show ?case by (rule mem_cap_le)
next
  case (2 s m)
  then have "m (base + a) = fm s (base + a)" if "unat a < mem_cap base cap" for a using in_mem_block [OF that] by blast
  then show ?case by (auto simp: mem_img_def clip_def)
next
  case (3 s dst addr n)
  let ?c = "mem_cap base cap" and ?xs = "rd (fm s) (base + addr) (unat n)"
  have m: "memcpy dst (base + addr) n (fm s) = (dst, wr (fm s) dst ?xs)"
    by (rule memcpy_step) (rule apart_block(1) [OF 3(3) block_shift [OF 3(2)]])
  have "wr (fm s) dst ?xs (base + a) = fm s (base + a)" if "unat a < ?c" for a
    by (rule wr_other) (use 3(3) in_mem_block [OF that, of base] unat_lt [of n] in \<open>auto simp: apart_def\<close>)
  then have "mem_img base ?c (set_fm (wr (fm s) dst ?xs) s) = mem_img base ?c s" by (auto simp: mem_img_def clip_def)
  moreover have "?xs = rd (mem_img base ?c s) addr (unat n)"
    using 3(2) mem_cap_le [of base cap] by (simp add: mem_img_def rd_clip rd_shift)
  ultimately show ?case by (simp add: mem_disk_rules m mem_is_def)
next
  case (4 s src addr n)
  let ?c = "mem_cap base cap" and ?xs = "rd (fm s) src (unat n)"
  have m: "memcpy (base + addr) src n (fm s) = (base + addr, wr (fm s) (base + addr) ?xs)"
    by (rule memcpy_step) (rule apart_block(2) [OF 4(3) block_shift [OF 4(2)]])
  have "wr (fm s) (base + addr) ?xs a = fm s a" if "a \<notin> block base ?c" for a
    by (rule wr_other) (use that block_shift [OF 4(2)] unat_lt [of n] in auto)
  moreover have "mem_img base ?c (set_fm (wr (fm s) (base + addr) ?xs) s) = wr (mem_img base ?c s) addr ?xs"
    using 4(2) mem_cap_le [of base cap] by (simp add: mem_img_def wr_shift wr_clip)
  ultimately show ?case by (simp add: mem_disk_rules m mem_is_def)
next
  case (5 s addr)
  have "rd (fm s) (base + addr) k = rd (mem_img base (mem_cap base cap) s) addr k" if "unat addr + k \<le> mem_cap base cap" for k
    using that mem_cap_le [of base cap] by (simp add: mem_img_def rd_clip rd_shift)
  then show ?case using mem_cap_addr [OF 5(2)] by (simp add: mem_disk_rules mem_is_def)
qed

end
