(* ===== verification/Fat16.thy ===== *)
theory Fat16
  imports Disk
begin

text \<open>
  \<^verbatim>\<open>filesystem/fat16.c\<close> and \<^verbatim>\<open>filesystem.c\<close>. Every operation takes the disk and the state, and returns the new state; a failed
  assertion, a division by zero and a loop that does not end are \<open>None\<close>. A local variable that is passed to the
  disk by its address lives in memory at \<open>lv\<close>.
\<close>

type_synonym 'a fat = "fstate \<Rightarrow> ('a \<times> fstate) option"

section \<open>The boot sector\<close>

text \<open>Offsets of the fields of \<^verbatim>\<open>struct bios_block_t\<close>, as it is packed; \<^verbatim>\<open>WITH_BPB\<close> is \<open>with_bpb\<close>.\<close>

definition with_bpb :: "disk_t \<Rightarrow> fstate \<Rightarrow> (u32 \<times> fstate) option" where
  "with_bpb d s = do { (p, len, s) \<leftarrow> disk_view d 0 s; if p \<noteq> 0 \<and> len \<ge> 62 then Some (p, s) else None }"

definition bytesPerSector :: "mem \<Rightarrow> u32 \<Rightarrow> u32" where "bytesPerSector m p = ucast (load16 m (p + 11))"
definition sectorsPerCluster :: "mem \<Rightarrow> u32 \<Rightarrow> u32" where "sectorsPerCluster m p = ucast (m (p + 13))"
definition reservedSectorCount :: "mem \<Rightarrow> u32 \<Rightarrow> u32" where "reservedSectorCount m p = ucast (load16 m (p + 14))"
definition fatCount :: "mem \<Rightarrow> u32 \<Rightarrow> u32" where "fatCount m p = ucast (m (p + 16))"
definition rootEntryCount :: "mem \<Rightarrow> u32 \<Rightarrow> u32" where "rootEntryCount m p = ucast (load16 m (p + 17))"
definition sectorCount :: "mem \<Rightarrow> u32 \<Rightarrow> u32" where "sectorCount m p = ucast (load16 m (p + 19))"
definition mediaType :: "mem \<Rightarrow> u32 \<Rightarrow> u8" where "mediaType m p = m (p + 21)"
definition sectorsPerFat :: "mem \<Rightarrow> u32 \<Rightarrow> u32" where "sectorsPerFat m p = ucast (load16 m (p + 22))"
definition largeSectorCount :: "mem \<Rightarrow> u32 \<Rightarrow> u32" where "largeSectorCount m p = load32 m (p + 32)"

definition fat_get_total_sector_count :: "disk_t \<Rightarrow> u32 fat" where
  "fat_get_total_sector_count d s = do {
     (p, s) \<leftarrow> with_bpb d s;
     Some (if sectorCount (fm s) p \<noteq> 0 then sectorCount (fm s) p else largeSectorCount (fm s) p, s) }"

definition fat_get_meta_sector_count :: "disk_t \<Rightarrow> u32 fat" where
  "fat_get_meta_sector_count d s = do {
     (p, s) \<leftarrow> with_bpb d s;
     if bytesPerSector (fm s) p = 0 then None
     else Some (reservedSectorCount (fm s) p + fatCount (fm s) p * sectorsPerFat (fm s) p +
                (rootEntryCount (fm s) p * 32) div bytesPerSector (fm s) p, s) }"

definition fat_get_cluster_count :: "disk_t \<Rightarrow> u32 fat" where
  "fat_get_cluster_count d s = do {
     (totalSectorCount, s) \<leftarrow> fat_get_total_sector_count d s;
     (metaSectorCount, s) \<leftarrow> fat_get_meta_sector_count d s;
     let dataSectorCount = totalSectorCount - metaSectorCount;
     (p, s) \<leftarrow> with_bpb d s;
     if sectorsPerCluster (fm s) p = 0 then None
     else Some (dataSectorCount div sectorsPerCluster (fm s) p, s) }"

definition fat_get_root_table_addr :: "disk_t \<Rightarrow> u32 fat" where
  "fat_get_root_table_addr d s = do {
     (p, s) \<leftarrow> with_bpb d s;
     Some ((reservedSectorCount (fm s) p + 0 * sectorsPerFat (fm s) p) * bytesPerSector (fm s) p, s) }"

definition fat_get_cluster_addr :: "disk_t \<Rightarrow> u32 \<Rightarrow> u32 fat" where
  "fat_get_cluster_addr d clusterIndex s = do {
     (p, s) \<leftarrow> with_bpb d s;
     let m = fm s;
     let fatOffset = (reservedSectorCount m p + fatCount m p * sectorsPerFat m p) * bytesPerSector m p;
     Some (if clusterIndex < 2 then fatOffset
           else fatOffset + rootEntryCount m p * 32 + (clusterIndex - 2) * (sectorsPerCluster m p * bytesPerSector m p), s) }"

section \<open>The allocation table\<close>

definition fat_get_cluster_value :: "disk_t \<Rightarrow> u32 \<Rightarrow> u32 \<Rightarrow> u16 fat" where
  "fat_get_cluster_value d lv clusterIndex s = do {
     (fatOffset, s) \<leftarrow> fat_get_root_table_addr d s;
     (clusterCount, s) \<leftarrow> fat_get_cluster_count d s;
     if \<not> clusterIndex < clusterCount then None
     else do {
       s \<leftarrow> disk_read d lv (fatOffset + clusterIndex * 2) 2 s;
       Some (load16 (fm s) lv, s) } }"

definition fat_set_cluster_value :: "disk_t \<Rightarrow> u32 \<Rightarrow> u32 \<Rightarrow> u16 \<Rightarrow> fstate \<Rightarrow> fstate option" where
  "fat_set_cluster_value d lv clusterIndex v s = do {
     let s = set_fm (store16 (fm s) lv v) s;
     (fatOffset, s) \<leftarrow> fat_get_root_table_addr d s;
     (clusterCount, s) \<leftarrow> fat_get_cluster_count d s;
     if \<not> clusterIndex < clusterCount then None
     else disk_write d (fatOffset + clusterIndex * 2) lv 2 s }"

primrec find_free_cluster_loop :: "nat \<Rightarrow> disk_t \<Rightarrow> u32 \<Rightarrow> u32 \<Rightarrow> u32 \<Rightarrow> u16 fat" where
  "find_free_cluster_loop 0 d lv fatOffset clusterIndex s = Some (0, s)"
| "find_free_cluster_loop (Suc n) d lv fatOffset clusterIndex s = do {
     s \<leftarrow> disk_read d lv (fatOffset + clusterIndex * 2) 2 s;
     if load16 (fm s) lv = 0 then Some (ucast clusterIndex, s)
     else find_free_cluster_loop n d lv fatOffset (clusterIndex + 1) s }"

definition fat_find_free_cluster :: "disk_t \<Rightarrow> u32 \<Rightarrow> u16 fat" where
  "fat_find_free_cluster d lv s = do {
     (clusterCount, s) \<leftarrow> fat_get_cluster_count d s;
     (fatOffset, s) \<leftarrow> fat_get_root_table_addr d s;
     find_free_cluster_loop (unat clusterCount - 2) d lv fatOffset 2 s }"

primrec update_cluster_loop :: "nat \<Rightarrow> disk_t \<Rightarrow> u32 \<Rightarrow> u32 \<Rightarrow> u16 \<Rightarrow> fstate \<Rightarrow> fstate option" where
  "update_cluster_loop 0 d lv clusterIndex v s = Some s"
| "update_cluster_loop (Suc n) d lv clusterIndex v s = do {
     s \<leftarrow> fat_set_cluster_value d lv clusterIndex v s;
     update_cluster_loop n d lv clusterIndex v s }"

definition fat_update_cluster :: "disk_t \<Rightarrow> u32 \<Rightarrow> u32 \<Rightarrow> u16 \<Rightarrow> fstate \<Rightarrow> fstate option" where
  "fat_update_cluster d lv clusterIndex v s = do {
     (p, s) \<leftarrow> with_bpb d s;
     update_cluster_loop (unat (fatCount (fm s) p)) d lv clusterIndex v s }"

primrec format_loop :: "nat \<Rightarrow> disk_t \<Rightarrow> u32 \<Rightarrow> u32 \<Rightarrow> fstate \<Rightarrow> fstate option" where
  "format_loop 0 d lv clusterIndex s = Some s"
| "format_loop (Suc n) d lv clusterIndex s = do {
     s \<leftarrow> fat_update_cluster d lv clusterIndex 0x0000 s;
     format_loop n d lv (clusterIndex + 1) s }"

definition fat_format :: "disk_t \<Rightarrow> u32 \<Rightarrow> u32 \<Rightarrow> bool fat" where
  "fat_format d lv bpb s =
     (if fm s (bpb + 0x1fe) \<noteq> 0x55 \<or> fm s (bpb + 0x1ff) \<noteq> 0xaa then Some (False, s)
      else do {
        s \<leftarrow> disk_write d 0 bpb (bytesPerSector (fm s) bpb) s;
        (clusterCount, s) \<leftarrow> fat_get_cluster_count d s;
        if \<not> clusterCount \<ge> 2 then None
        else do {
          s \<leftarrow> fat_update_cluster d lv 0 (0xff00 OR ucast (mediaType (fm s) bpb)) s;
          s \<leftarrow> fat_update_cluster d lv 1 0xffff s;
          s \<leftarrow> format_loop (unat clusterCount - 2) d lv 2 s;
          Some (True, s) } })"

section \<open>Directory entries\<close>

definition ENTRY_AVAILABLE :: u8 where "ENTRY_AVAILABLE = 0x00"
definition ENTRY_ERASED :: u8 where "ENTRY_ERASED = 0xe5"

text \<open>The result is the address of the entry and its index, or nothing (the code returns 0).\<close>

primrec find_entry_loop :: "nat \<Rightarrow> disk_t \<Rightarrow> u32 \<Rightarrow> bool \<Rightarrow> int \<Rightarrow> (u32 \<times> int) option fat" where
  "find_entry_loop 0 d start free offset s = Some (None, s)"
| "find_entry_loop (Suc n) d start free offset s = do {
     (entry, _, s) \<leftarrow> disk_view d (start + of_int offset * 32) s;
     if free \<noteq> (fm s entry \<noteq> ENTRY_AVAILABLE \<and> fm s entry \<noteq> ENTRY_ERASED)
     then Some (Some (start + of_int offset * 32, offset), s)
     else find_entry_loop n d start free (offset + 1) s }"

definition fat_find_entry :: "disk_t \<Rightarrow> u32 \<Rightarrow> bool \<Rightarrow> int \<Rightarrow> (u32 \<times> int) option fat" where
  "fat_find_entry d clusterIndex free skip s = do {
     (p, s) \<leftarrow> with_bpb d s;
     let entries = uint (rootEntryCount (fm s) p);
     (start, s) \<leftarrow> fat_get_cluster_addr d clusterIndex s;
     find_entry_loop (nat (entries - skip)) d start free skip s }"

definition fat_find_free_entry :: "disk_t \<Rightarrow> u32 \<Rightarrow> (u32 \<times> int) option fat" where
  "fat_find_free_entry d clusterIndex s = fat_find_entry d clusterIndex True 0 s"

definition toupper :: "u8 \<Rightarrow> u8" where
  "toupper c = (if c > 96 \<and> c < 123 then c - 32 else c)"

primrec toupper_loop :: "nat \<Rightarrow> u32 \<Rightarrow> mem \<Rightarrow> mem" where
  "toupper_loop 0 dst m = m"
| "toupper_loop (Suc n) dst m = toupper_loop n (dst + 1) (m(dst := toupper (m dst)))"

definition set_padded_string :: "u32 \<Rightarrow> u32 \<Rightarrow> u32 \<Rightarrow> u32 \<Rightarrow> mem \<Rightarrow> mem" where
  "set_padded_string dst dstLen src srcLen m =
     (if src \<noteq> 0 then
        let m = (if srcLen > dstLen then snd (memcpy dst src dstLen m)
                 else snd (memset (dst + srcLen) 32 (dstLen - srcLen) (snd (memcpy dst src srcLen m))))
        in toupper_loop (unat dstLen) dst m
      else snd (memset dst 32 dstLen m))"

definition fat_split_path :: "u32 \<Rightarrow> u32 \<Rightarrow> u32 \<Rightarrow> mem \<Rightarrow> mem option" where
  "fat_split_path dstName dstExt path m = do {
     r \<leftarrow> strrchr m path 47;
     let name = (if r \<noteq> 0 then r + 1 else path);
     nameLen \<leftarrow> strlen m name;
     p \<leftarrow> strchr m name 46;
     (nameLen, ext, extLen) \<leftarrow> (if p \<noteq> 0 then do { l \<leftarrow> strlen m (p + 1); Some (p - name, p + 1, l) } else Some (nameLen, 0, 0));
     let m = set_padded_string dstName 8 name nameLen m;
     Some (set_padded_string dstExt 3 ext extLen m) }"

text \<open>The entry is changed through the view of the disk.\<close>

definition fat_update_dir_entry :: "disk_t \<Rightarrow> u32 \<Rightarrow> u16 \<Rightarrow> u32 \<Rightarrow> u32 \<Rightarrow> u32 \<Rightarrow> fstate \<Rightarrow> fstate option" where
  "fat_update_dir_entry d addr clusterIndex name ext fileSize s = do {
     (entry, _, s) \<leftarrow> disk_view d addr s;
     let m = store16 (fm s) (entry + 26) clusterIndex;
     let m = snd (memcpy entry name 8 m);
     let m = snd (memcpy (entry + 8) ext 3 m);
     Some (set_fm (store32 m (entry + 28) fileSize) s) }"

definition fat_remove_dir_entry :: "disk_t \<Rightarrow> u32 \<Rightarrow> u32 \<Rightarrow> fstate \<Rightarrow> fstate option" where
  "fat_remove_dir_entry d lv addr s = disk_write d addr lv 1 (set_fm ((fm s)(lv := ENTRY_AVAILABLE)) s)"

section \<open>Data\<close>

partial_function (option) remove_data_loop :: "disk_t \<Rightarrow> u32 \<Rightarrow> u32 \<Rightarrow> u16 \<Rightarrow> u32 \<Rightarrow> fstate \<Rightarrow> fstate option" where
  "remove_data_loop d lv fatIndex endOfChainValue clusterIndex s =
     (if clusterIndex \<noteq> ucast endOfChainValue then do {
        (nextClusterIndex, s) \<leftarrow> fat_get_cluster_value d lv clusterIndex s;
        s \<leftarrow> fat_update_cluster d lv clusterIndex (ucast fatIndex) s;
        remove_data_loop d lv fatIndex endOfChainValue (ucast nextClusterIndex) s }
      else Some s)"

definition fat_remove_data :: "disk_t \<Rightarrow> u32 \<Rightarrow> u32 \<Rightarrow> u32 \<Rightarrow> fstate \<Rightarrow> fstate option" where
  "fat_remove_data d lv fatIndex clusterIndex s =
     (if clusterIndex = 0 then None
      else do {
        (endOfChainValue, s) \<leftarrow> fat_get_cluster_value d lv 1 s;
        remove_data_loop d lv fatIndex endOfChainValue clusterIndex s })"

partial_function (option) add_data_loop :: "disk_t \<Rightarrow> u32 \<Rightarrow> u32 \<Rightarrow> u32 \<Rightarrow> u16 \<Rightarrow> u32 \<Rightarrow> u32 \<Rightarrow> u16 \<Rightarrow> u16 \<Rightarrow> fstate \<Rightarrow> (u16 \<times> fstate) option" where
  "add_data_loop d lv fatIndex bytesPerCluster endOfChainValue p pend prevClusterIndex rootClusterIndex s =
     (if p < pend then do {
        (clusterIndex, s) \<leftarrow> fat_find_free_cluster d lv s;
        if clusterIndex = 0 then
          (if rootClusterIndex \<noteq> 0 then do { s \<leftarrow> fat_remove_data d lv fatIndex (ucast rootClusterIndex) s; Some (0, s) } else Some (0, s))
        else do {
          let count = (if pend - p > bytesPerCluster then bytesPerCluster else pend - p);
          (offset, s) \<leftarrow> fat_get_cluster_addr d (ucast clusterIndex) s;
          s \<leftarrow> disk_write d offset p count s;
          let p = p + count;
          s \<leftarrow> fat_update_cluster d lv (ucast clusterIndex) endOfChainValue s;
          (rootClusterIndex, s) \<leftarrow>
            (if prevClusterIndex \<noteq> 0 then do { s \<leftarrow> fat_update_cluster d lv (ucast prevClusterIndex) clusterIndex s; Some (rootClusterIndex, s) }
             else Some (clusterIndex, s));
          add_data_loop d lv fatIndex bytesPerCluster endOfChainValue p pend clusterIndex rootClusterIndex s } }
      else Some (rootClusterIndex, s))"

definition fat_add_data :: "disk_t \<Rightarrow> u32 \<Rightarrow> u32 \<Rightarrow> u32 \<Rightarrow> u32 \<Rightarrow> u16 fat" where
  "fat_add_data d lv fatIndex data len s = do {
     (p, s) \<leftarrow> with_bpb d s;
     let bytesPerCluster = sectorsPerCluster (fm s) p * bytesPerSector (fm s) p;
     if len = 0 then Some (0, s)
     else do {
       (endOfChainValue, s) \<leftarrow> fat_get_cluster_value d lv 1 s;
       add_data_loop d lv fatIndex bytesPerCluster endOfChainValue data (data + len) 0 0 s } }"

text \<open>Reading and writing follow the chain in the same way; \<open>p\<close> is the number of bytes transferred so far.\<close>

partial_function (option) read_data_loop :: "disk_t \<Rightarrow> u32 \<Rightarrow> u32 \<Rightarrow> u16 \<Rightarrow> u32 \<Rightarrow> u32 \<Rightarrow> u32 \<Rightarrow> u32 \<Rightarrow> u32 \<Rightarrow> u32 \<Rightarrow> fstate \<Rightarrow> (u32 \<times> fstate) option" where
  "read_data_loop d lv bytesPerCluster endOfChainValue data len skip clusterIndex read_size p s =
     (if clusterIndex \<noteq> ucast endOfChainValue \<and> len > p then do {
        (p, s) \<leftarrow>
          (if read_size + bytesPerCluster > skip then do {
             let start = (if read_size > skip then 0 else skip - read_size);
             let count = (if len - p > bytesPerCluster then bytesPerCluster else len - p);
             (offset, s) \<leftarrow> fat_get_cluster_addr d clusterIndex s;
             s \<leftarrow> disk_read d (data + p) (offset + start) count s;
             Some (p + count, s) }
           else Some (p, s));
        (v, s) \<leftarrow> fat_get_cluster_value d lv clusterIndex s;
        read_data_loop d lv bytesPerCluster endOfChainValue data len skip (ucast v) (read_size + bytesPerCluster) p s }
      else Some (p, s))"

definition fat_read_data :: "disk_t \<Rightarrow> u32 \<Rightarrow> u32 \<Rightarrow> u32 \<Rightarrow> u32 \<Rightarrow> u32 \<Rightarrow> u32 fat" where
  "fat_read_data d lv clusterIndex data len skip s =
     (if clusterIndex = 0 then None
      else do {
        (p, s) \<leftarrow> with_bpb d s;
        let bytesPerCluster = sectorsPerCluster (fm s) p * bytesPerSector (fm s) p;
        if len = 0 then Some (0, s)
        else do {
          (endOfChainValue, s) \<leftarrow> fat_get_cluster_value d lv 1 s;
          read_data_loop d lv bytesPerCluster endOfChainValue data len skip clusterIndex 0 0 s } })"

partial_function (option) write_data_loop :: "disk_t \<Rightarrow> u32 \<Rightarrow> u32 \<Rightarrow> u16 \<Rightarrow> u32 \<Rightarrow> u32 \<Rightarrow> u32 \<Rightarrow> u32 \<Rightarrow> u32 \<Rightarrow> u32 \<Rightarrow> fstate \<Rightarrow> (u32 \<times> fstate) option" where
  "write_data_loop d lv bytesPerCluster endOfChainValue data len skip clusterIndex read_size p s =
     (if clusterIndex \<noteq> ucast endOfChainValue \<and> len > p then do {
        (p, s) \<leftarrow>
          (if read_size + bytesPerCluster > skip then do {
             let start = (if read_size > skip then 0 else skip - read_size);
             let count = (if len - p > bytesPerCluster then bytesPerCluster else len - p);
             (offset, s) \<leftarrow> fat_get_cluster_addr d clusterIndex s;
             s \<leftarrow> disk_write d (offset + start) (data + p) count s;
             Some (p + count, s) }
           else Some (p, s));
        (v, s) \<leftarrow> fat_get_cluster_value d lv clusterIndex s;
        write_data_loop d lv bytesPerCluster endOfChainValue data len skip (ucast v) (read_size + bytesPerCluster) p s }
      else Some (p, s))"

definition fat_write_data :: "disk_t \<Rightarrow> u32 \<Rightarrow> u32 \<Rightarrow> u32 \<Rightarrow> u32 \<Rightarrow> u32 \<Rightarrow> u32 fat" where
  "fat_write_data d lv clusterIndex data len skip s =
     (if clusterIndex = 0 then None
      else do {
        (p, s) \<leftarrow> with_bpb d s;
        let bytesPerCluster = sectorsPerCluster (fm s) p * bytesPerSector (fm s) p;
        if len = 0 then Some (0, s)
        else do {
          (endOfChainValue, s) \<leftarrow> fat_get_cluster_value d lv 1 s;
          write_data_loop d lv bytesPerCluster endOfChainValue data len skip clusterIndex 0 0 s } })"

section \<open>Files\<close>

text \<open>\<open>name\<close> and \<open>ext\<close> are the addresses of the local arrays. The result 0 means that there is no room.\<close>

definition fat_add_file :: "disk_t \<Rightarrow> u32 \<Rightarrow> u32 \<Rightarrow> u32 \<Rightarrow> u32 \<Rightarrow> u32 \<Rightarrow> u32 \<Rightarrow> u32 \<Rightarrow> u32 \<Rightarrow> u32 fat" where
  "fat_add_file d lv name ext clusterIndex fatIndex path data len s = do {
     (e, s) \<leftarrow> fat_find_free_entry d clusterIndex s;
     let entry = (case e of Some (a, _) \<Rightarrow> a | None \<Rightarrow> 0);
     if entry = 0 then Some (0, s)
     else do {
       (rootClusterIndex, s) \<leftarrow> fat_add_data d lv fatIndex data len s;
       if rootClusterIndex = 0 then Some (0, s)
       else do {
         m \<leftarrow> fat_split_path name ext path (fm s);
         s \<leftarrow> fat_update_dir_entry d entry rootClusterIndex name ext len (set_fm m s);
         Some (entry, s) } } }"

definition fat_remove_file :: "disk_t \<Rightarrow> u32 \<Rightarrow> u32 \<Rightarrow> fstate \<Rightarrow> fstate option" where
  "fat_remove_file d lv addr s = do {
     s \<leftarrow> disk_read d lv (addr + 26) 2 s;
     let clusterIndex = load16 (fm s) lv;
     s \<leftarrow> fat_remove_data d lv 0 (ucast clusterIndex) s;
     fat_remove_dir_entry d lv addr s }"

definition fat_fs_root :: u32 where
  "fat_fs_root = 0"

primrec trim_len :: "nat \<Rightarrow> mem \<Rightarrow> u32 \<Rightarrow> nat" where
  "trim_len 0 m a = 0"
| "trim_len (Suc n) m a = (if m (a + of_nat n) = 32 then trim_len n m a else Suc n)"

definition lfn_chars :: "u32 list" where
  "lfn_chars = [1, 3, 5, 7, 9, 14, 16, 18, 20, 22, 24, 28, 30]"

fun lfn_copy :: "u32 list \<Rightarrow> u32 \<Rightarrow> u32 \<Rightarrow> u32 \<Rightarrow> u32 \<Rightarrow> mem \<Rightarrow> u32 \<times> mem" where
  "lfn_copy [] entry name len cur m = (cur, m)"
| "lfn_copy (c # cs) entry name len cur m =
     (if cur < len then lfn_copy cs entry name len (cur + 1) (m(name + cur := m (entry + c))) else (cur, m))"

partial_function (option) lfn_loop :: "disk_t \<Rightarrow> u32 \<Rightarrow> u32 \<Rightarrow> u32 \<Rightarrow> u32 \<Rightarrow> fstate \<Rightarrow> (u32 \<times> fstate) option" where
  "lfn_loop d lfnAddr name len cur s =
     (if cur < len then do {
        let lfnAddr = lfnAddr - 32;
        (entry, _, s) \<leftarrow> disk_view d lfnAddr s;
        if fm s (entry + 11) \<noteq> 0x0F then Some (cur, s)
        else (let (cur, m) = lfn_copy lfn_chars entry name len cur (fm s) in lfn_loop d lfnAddr name len cur (set_fm m s)) }
      else Some (cur, s))"

text \<open>\<open>f\<close> is the address of a \<^verbatim>\<open>FILE\<close>: its name has 32 bytes, then come size (32), attribs (36), createdAt (40), accessAt (44), modifiedAt (46), parentCluster (52), clusterIndex (56) and entryAddr (60).\<close>

definition fat_fs_file_name :: "disk_t \<Rightarrow> u32 \<Rightarrow> u32 \<Rightarrow> u32 \<Rightarrow> fstate \<Rightarrow> fstate option" where
  "fat_fs_file_name d f name len s =
     (if f = 0 \<or> name = 0 then Some s
      else do {
        let entryAddr = load32 (fm s) (f + 60);
        (entry, _, s) \<leftarrow> disk_view d entryAddr s;
        let name_len = (of_nat (trim_len 8 (fm s) entry) :: u32);
        let name_len = (if name_len > len then len else name_len);
        let m = snd (memcpy name entry name_len (fm s));
        let ext_len = (of_nat (trim_len 3 m (entry + 8)) :: u32);
        let (cur, m) =
          (if ext_len \<noteq> 0 \<and> len > name_len then
             let m = m(name + name_len := 46);
                 ext_start = name_len + 1;
                 ext_len = (if ext_start + ext_len > len then len - ext_start else ext_len)
             in (name_len + 1 + ext_len, snd (memcpy (name + ext_start) (entry + 8) ext_len m))
           else (name_len, m));
        let m = m(name + cur := 0);
        (cur, s) \<leftarrow> lfn_loop d entryAddr name len 0 (set_fm m s);
        Some (if cur \<noteq> 0 then set_fm ((fm s)(name + cur := 0)) s else s) })"

definition fill_file :: "u32 \<Rightarrow> u32 \<Rightarrow> u32 \<Rightarrow> u32 \<Rightarrow> mem \<Rightarrow> mem" where
  "fill_file f entry parent addr m =
     (let attribs = m (entry + 11);
          m = store32 m (f + 32) (load32 m (entry + 28));
          m = store32 m (f + 36) ((if attribs AND 0x01 \<noteq> 0 then 0x01 else 0) OR (if attribs AND 0x02 \<noteq> 0 then 0x02 else 0) OR
                                  (if attribs AND 0x10 \<noteq> 0 then 0x10 else 0));
          m = wr m (f + 40) (rd m (entry + 14) 4);
          m = wr m (f + 44) (rd m (entry + 18) 2);
          m = wr m (f + 46) (rd m (entry + 22) 4);
          m = store32 m (f + 52) parent;
          m = store32 m (f + 56) (ucast (load16 m (entry + 26)))
      in store32 m (f + 60) addr)"

text \<open>\<open>i\<close> files are listed so far; hidden system entries and labels are skipped.\<close>

partial_function (option) fs_list_loop :: "disk_t \<Rightarrow> u32 \<Rightarrow> u32 \<Rightarrow> u32 \<Rightarrow> u32 \<Rightarrow> int \<Rightarrow> fstate \<Rightarrow> (u32 \<times> fstate) option" where
  "fs_list_loop d dir files nfiles i current s =
     (if i < nfiles then do {
        (e, s) \<leftarrow> fat_find_entry d dir False current s;
        case e of None \<Rightarrow> Some (i, s)
        | Some (addr, index) \<Rightarrow>
            if addr = 0 then Some (i, s)
            else do {
              (entry, _, s) \<leftarrow> disk_view d addr s;
              if fm s (entry + 11) AND 0x0C \<noteq> 0 then fs_list_loop d dir files nfiles i (index + 1) s
              else do {
                let f = files + i * 64;
                s \<leftarrow> fat_fs_file_name d f f 31 (set_fm (fill_file f entry dir addr (fm s)) s);
                fs_list_loop d dir files nfiles (i + 1) (index + 1) s } } }
      else Some (nfiles, s))"

definition fat_fs_list :: "disk_t \<Rightarrow> u32 \<Rightarrow> u32 \<Rightarrow> u32 \<Rightarrow> u32 \<Rightarrow> u32 fat" where
  "fat_fs_list d dir files nfiles offset s = fs_list_loop d dir files nfiles 0 (sint offset) s"

definition fat_fs_read :: "disk_t \<Rightarrow> u32 \<Rightarrow> u32 \<Rightarrow> u32 \<Rightarrow> u32 \<Rightarrow> u32 \<Rightarrow> u32 fat" where
  "fat_fs_read d lv dst f offset len s =
     (let sz = load32 (fm s) (f + 32);
          len = (if len > sz - offset then sz - offset else len)
      in fat_read_data d lv (load32 (fm s) (f + 56)) dst len offset s)"

definition fat_fs_write :: "disk_t \<Rightarrow> u32 \<Rightarrow> u32 \<Rightarrow> u32 \<Rightarrow> u32 \<Rightarrow> u32 \<Rightarrow> u32 fat" where
  "fat_fs_write d lv f offset src len s =
     (let sz = load32 (fm s) (f + 32);
          len = (if len > sz - offset then sz - offset else len)
      in fat_write_data d lv (load32 (fm s) (f + 56)) src len offset s)"

section \<open>A new file system\<close>

definition bytes16 :: "u16 \<Rightarrow> u8 list" where
  "bytes16 v = [ucast v, ucast (drop_bit 8 v)]"

definition new_bpb :: "u16 \<Rightarrow> u8 list" where
  "new_bpb sectors =
     [0xeb, 0x3c, 0x90] @ bytes ''FAT TEST'' @ bytes16 512 @ [1] @ bytes16 4 @ [2] @ bytes16 512 @ bytes16 sectors @ [0xf8] @
     bytes16 20 @ bytes16 63 @ bytes16 255 @ bytes32 0 @ bytes32 0 @ [0x80, 0x00, 0x29] @ bytes32 0xa0a1a2a3 @
     bytes ''Volume Name'' @ bytes ''FAT16   ''"

text \<open>\<open>alloc\<close> is what the allocator returns, \<open>bootSector\<close> the address of the local array.\<close>

definition new_fat16 :: "u32 \<Rightarrow> u32 \<Rightarrow> u32 \<Rightarrow> u32 \<Rightarrow> fstate \<Rightarrow> (disk_t \<times> bool \<times> fstate) option" where
  "new_fat16 alloc lv bootSector sectors s = do {
     let imageSize = ucast (ucast sectors :: u16) * 512;
     let (d, s) = new_mem_disk alloc imageSize (ucast ENTRY_ERASED) s;
     let m = snd (memset bootSector 0 0x200 (fm s));
     let m = wr m bootSector (new_bpb (ucast sectors));
     let m = m(bootSector + 0x1fe := 0x55);
     let m = m(bootSector + 0x1ff := 0xaa);
     (b, s) \<leftarrow> fat_format d lv bootSector (set_fm m s);
     Some (d, b, s) }"

end
