(* ===== verification/Fat16_Props.thy ===== *)
theory Fat16_Props
  imports Fat16
begin

text \<open>
  What the FAT16 code does to the image of a disk, for every disk that keeps the contract
  \<open>disk_image\<close>: the geometry of a volume, its allocation table as a function on clusters, and files as chains.
\<close>

section \<open>Volumes\<close>

type_synonym img = "u32 \<Rightarrow> u8"

definition bps :: "img \<Rightarrow> nat" where "bps v = unat (bytesPerSector v 0)"
definition spc :: "img \<Rightarrow> nat" where "spc v = unat (sectorsPerCluster v 0)"
definition bpc :: "img \<Rightarrow> nat" where "bpc v = spc v * bps v"
definition total :: "img \<Rightarrow> nat" where "total v = unat (if sectorCount v 0 \<noteq> 0 then sectorCount v 0 else largeSectorCount v 0)"

definition meta :: "img \<Rightarrow> nat" where
  "meta v = unat (reservedSectorCount v 0) + unat (fatCount v 0) * unat (sectorsPerFat v 0) + unat (rootEntryCount v 0) * 32 div bps v"

definition clusters :: "img \<Rightarrow> nat" where
  "clusters v = (total v - meta v) div spc v"

definition fat_at :: "img \<Rightarrow> nat \<Rightarrow> nat" where
  "fat_at v i = unat (reservedSectorCount v 0) * bps v + 2 * i"

definition root_at :: "img \<Rightarrow> nat" where
  "root_at v = (unat (reservedSectorCount v 0) + unat (fatCount v 0) * unat (sectorsPerFat v 0)) * bps v"

definition data_at :: "img \<Rightarrow> nat \<Rightarrow> nat" where
  "data_at v i = root_at v + unat (rootEntryCount v 0) * 32 + (i - 2) * bpc v"

definition fatval :: "img \<Rightarrow> nat \<Rightarrow> u16" where
  "fatval v i = load16 v (of_nat (fat_at v i))"

definition cluster :: "img \<Rightarrow> nat \<Rightarrow> u8 list" where
  "cluster v i = rd v (of_nat (data_at v i)) (bpc v)"

text \<open>
  A volume that fits on its disk: the table lies behind the boot sector and before the root directory, the clusters
  behind it, and cluster numbers are below the end-of-chain mark.
\<close>

definition volume :: "nat \<Rightarrow> img \<Rightarrow> bool" where
  "volume cap v \<longleftrightarrow> 0 < bps v \<and> 0 < spc v \<and> meta v \<le> total v \<and> 2 \<le> clusters v \<and> 0 < unat (fatCount v 0) \<and>
     62 \<le> fat_at v 0 \<and> fat_at v (clusters v) \<le> root_at v \<and> data_at v (clusters v) \<le> cap \<and> clusters v \<le> unat (fatval v 1)"

section \<open>Blocks of an image\<close>

lemma unat_ucast16: "unat (ucast (w :: u16) :: u32) = unat w"
  using unsigned_less [of w, where ?'a = nat] by (simp add: unsigned_ucast_eq take_bit_nat_eq_self_iff)

lemma ucast16_of_nat: "(ucast (w :: u16) :: u32) = of_nat (unat w)"
  unfolding word_unat_eq_iff by (use unsigned_less [of w, where ?'a = nat] in \<open>simp add: unat_ucast16 unat_of_nat_less\<close>)

lemma blocks_disjoint:
  assumes "a + n \<le> b \<or> b + k \<le> a" and "a + n \<le> 4294967296" and "b + k \<le> 4294967296"
  shows "block (of_nat a) n \<inter> block (of_nat b) k = {}"
proof (rule ccontr)
  assume "\<not> ?thesis"
  then obtain x where x: "x \<in> block (of_nat a) n" "x \<in> block (of_nat b) k" by blast
  have *: "\<exists>i < m. unat x = c + i" if "x \<in> block (of_nat c) m" "c + m \<le> 4294967296" for c m
  proof -
    let ?i = "unat (x - of_nat c)"
    have "?i < m" using that(1) by (simp add: in_block)
    have "x = of_nat (c + ?i)" by simp
    moreover have "unat (of_nat (c + ?i) :: u32) = c + ?i" by (rule unat_of_nat_less) (use that(2) \<open>?i < m\<close> in linarith)
    ultimately have "unat x = c + ?i" by (simp only:)
    then show ?thesis using \<open>?i < m\<close> by blast
  qed
  from * [OF x(1) assms(2)] * [OF x(2) assms(3)] show False using assms(1) by auto
qed

lemma rd_wr_apart:
  assumes "a + n \<le> b \<or> b + length xs \<le> a" and "a + n \<le> 4294967296" and "b + length xs \<le> 4294967296"
  shows "rd (wr v (of_nat b) xs) (of_nat a) n = rd v (of_nat a) n"
  by (rule rd_wr_disjoint) (use blocks_disjoint [of a n b "length xs"] assms in auto)

lemma load16_rd: "rd v a 2 = rd v' a 2 \<Longrightarrow> load16 v a = load16 v' a"
  by (simp add: load16_def numeral_eq_Suc)

lemma store16_wr: "store16 v a x = wr v a (bytes16 x)"
  by (simp add: store16_def bytes16_def)

lemma length_bytes16 [simp]: "length (bytes16 x) = 2"
  by (simp add: bytes16_def)

text \<open>Equal boot sectors give equal geometries.\<close>

definition same_boot :: "img \<Rightarrow> img \<Rightarrow> bool" where
  "same_boot v w \<longleftrightarrow> (\<forall>a. unat a < 62 \<longrightarrow> v a = w a)"

lemma same_boot_fields:
  assumes "same_boot v w"
  shows "bytesPerSector v 0 = bytesPerSector w 0" "sectorsPerCluster v 0 = sectorsPerCluster w 0"
    "reservedSectorCount v 0 = reservedSectorCount w 0" "fatCount v 0 = fatCount w 0" "rootEntryCount v 0 = rootEntryCount w 0"
    "sectorCount v 0 = sectorCount w 0" "sectorsPerFat v 0 = sectorsPerFat w 0" "largeSectorCount v 0 = largeSectorCount w 0"
  using assms
  by (simp_all add: same_boot_def bytesPerSector_def sectorsPerCluster_def reservedSectorCount_def fatCount_def rootEntryCount_def
      sectorCount_def sectorsPerFat_def largeSectorCount_def load16_def load32_def)

lemma same_boot_geometry:
  assumes "same_boot v w"
  shows "bps v = bps w" "spc v = spc w" "bpc v = bpc w" "clusters v = clusters w" "fat_at v = fat_at w" "root_at v = root_at w" "data_at v = data_at w" "meta v = meta w" "total v = total w"
  using same_boot_fields [OF assms]
  by (simp_all add: bps_def spc_def bpc_def clusters_def total_def meta_def fat_at_def root_at_def data_at_def fun_eq_iff)

lemma same_boot_volume: "same_boot v w \<Longrightarrow> fatval v 1 = fatval w 1 \<Longrightarrow> volume cap v = volume cap w"
  using same_boot_geometry [of v w] same_boot_fields [of v w] by (simp add: volume_def meta_def total_def)

lemma same_boot_wr: "62 \<le> b \<Longrightarrow> b + length xs \<le> 4294967296 \<Longrightarrow> same_boot (wr v (of_nat b) xs) v"
  unfolding same_boot_def
proof (intro allI impI)
  fix a :: u32 assume b: "62 \<le> b" "b + length xs \<le> 4294967296" and a: "unat a < 62"
  have "block (of_nat (unat a)) 1 \<inter> block (of_nat b) (length xs) = {}"
    by (rule blocks_disjoint) (use a b in auto)
  moreover have "a \<in> block a 1" by (simp add: in_block)
  ultimately show "wr v (of_nat b) xs a = v a" using b by (intro wr_other) auto
qed

section \<open>Places in a volume\<close>

lemma fat_places:
  assumes "volume cap v" and "i < clusters v"
  shows "62 \<le> fat_at v i" and "fat_at v i + 2 \<le> root_at v" and "root_at v \<le> cap"
  using assms by (auto simp: volume_def fat_at_def data_at_def)

lemma data_places:
  assumes "volume cap v" and "2 \<le> i" and "i < clusters v"
  shows "root_at v \<le> data_at v i" and "data_at v i + bpc v \<le> cap"
proof -
  show "root_at v \<le> data_at v i" by (simp add: data_at_def)
  have "i - 2 + 1 \<le> clusters v - 2" using assms by arith
  then have "(i - 2 + 1) * bpc v \<le> (clusters v - 2) * bpc v" by (rule mult_le_mono1)
  then show "data_at v i + bpc v \<le> cap" using assms(1) by (simp add: volume_def data_at_def)
qed

lemma data_apart:
  assumes "2 \<le> i" and "i < j"
  shows "data_at v i + bpc v \<le> data_at v j"
proof -
  have "(i - 2 + 1) * bpc v \<le> (j - 2) * bpc v" by (rule mult_le_mono1) (use assms in arith)
  then show ?thesis by (simp add: data_at_def)
qed

definition set_fat :: "img \<Rightarrow> nat \<Rightarrow> u16 \<Rightarrow> img" where
  "set_fat v i x = store16 v (of_nat (fat_at v i)) x"

lemma set_fat_ok:
  assumes "volume cap v" and "cap \<le> 4294967295" and "i < clusters v"
  shows "same_boot (set_fat v i x) v"
    and "j < clusters v \<Longrightarrow> fatval (set_fat v i x) j = (if j = i then x else fatval v j)"
    and "2 \<le> j \<Longrightarrow> j < clusters v \<Longrightarrow> cluster (set_fat v i x) j = cluster v j"
proof -
  note pi = fat_places [OF assms(1,3)]
  show b: "same_boot (set_fat v i x) v"
    unfolding set_fat_def store16_wr by (rule same_boot_wr) (use pi assms(2) in auto)
  note g = same_boot_geometry [OF b]
  show "fatval (set_fat v i x) j = (if j = i then x else fatval v j)" if "j < clusters v"
  proof (cases "j = i")
    case True then show ?thesis unfolding fatval_def g by (simp add: set_fat_def load_store16)
  next
    case False
    note pj = fat_places [OF assms(1) that]
    have "rd (set_fat v i x) (of_nat (fat_at v j)) 2 = rd v (of_nat (fat_at v j)) 2"
      unfolding set_fat_def store16_wr by (rule rd_wr_apart) (use pi pj assms(2) False in \<open>auto simp: fat_at_def\<close>)
    then have "load16 (set_fat v i x) (of_nat (fat_at v j)) = load16 v (of_nat (fat_at v j))" by (rule load16_rd)
    then show ?thesis using False unfolding fatval_def g by (simp only: if_False)
  qed
  show "cluster (set_fat v i x) j = cluster v j" if j: "2 \<le> j" "j < clusters v"
    unfolding cluster_def g unfolding set_fat_def store16_wr
    by (rule rd_wr_apart) (use pi data_places [OF assms(1) j] assms(2) in auto)
qed

definition put :: "img \<Rightarrow> nat \<Rightarrow> u8 list \<Rightarrow> img" where
  "put v i xs = wr v (of_nat (data_at v i)) xs"

lemma put_ok:
  assumes "volume cap v" and "cap \<le> 4294967295" and "2 \<le> i" and "i < clusters v" and "length xs \<le> bpc v"
  shows "same_boot (put v i xs) v" and "j < clusters v \<Longrightarrow> fatval (put v i xs) j = fatval v j"
    and "2 \<le> j \<Longrightarrow> j < clusters v \<Longrightarrow> j \<noteq> i \<Longrightarrow> cluster (put v i xs) j = cluster v j"
    and "take (length xs) (cluster (put v i xs) i) = xs"
proof -
  note pi = data_places [OF assms(1,3,4)] and fi = fat_places [OF assms(1,4)]
  show b: "same_boot (put v i xs) v" unfolding put_def by (rule same_boot_wr) (use pi fi assms(2,5) in auto)
  note g = same_boot_geometry [OF b]
  show "fatval (put v i xs) j = fatval v j" if "j < clusters v"
    unfolding fatval_def g unfolding put_def
    by (rule load16_rd, rule rd_wr_apart) (use pi fat_places [OF assms(1) that] assms(2,5) in auto)
  show "cluster (put v i xs) j = cluster v j" if j: "2 \<le> j" "j < clusters v" "j \<noteq> i"
  proof -
    from j(3) consider "i < j" | "j < i" by linarith
    then have "data_at v i + bpc v \<le> data_at v j \<or> data_at v j + bpc v \<le> data_at v i"
      by cases (use data_apart [of i j v] data_apart [of j i v] j(1) assms(3) in auto)
    then show ?thesis unfolding cluster_def g unfolding put_def
      by (intro rd_wr_apart) (use data_places [OF assms(1) j(1,2)] pi assms(2,5) in auto)
  qed
  have "bpc v = length xs + (bpc v - length xs)" using assms(5) by simp
  then have "cluster (put v i xs) i = rd (put v i xs) (of_nat (data_at v i)) (length xs) @
      rd (put v i xs) (of_nat (data_at v i) + of_nat (length xs)) (bpc v - length xs)"
    unfolding cluster_def g by (metis rd_append)
  moreover have "rd (put v i xs) (of_nat (data_at v i)) (length xs) = xs"
    unfolding put_def by (rule rd_wr) (use pi assms(2,5) in simp)
  ultimately show "take (length xs) (cluster (put v i xs) i) = xs" by simp
qed


section \<open>The operations on the image\<close>

lemma mem_is_refl [simp]: "mem_is P (fm s) s"
  by (simp add: mem_is_def)

lemma mem_is_trans: "mem_is P m s \<Longrightarrow> mem_is Q (fm s) s' \<Longrightarrow> P \<subseteq> R \<Longrightarrow> Q \<subseteq> R \<Longrightarrow> mem_is R m s'"
  unfolding mem_is_def by (metis subsetD)

lemma mem_is_wr: "mem_is P (wr m a xs) s \<Longrightarrow> length xs \<le> 4294967296 \<Longrightarrow> mem_is (P \<union> block a (length xs)) m s"
  by (auto simp: mem_is_def wr_other)

lemma boot_fields:
  assumes "rd m p 62 = rd v 0 62"
  shows "bytesPerSector m p = bytesPerSector v 0" "sectorsPerCluster m p = sectorsPerCluster v 0"
    "reservedSectorCount m p = reservedSectorCount v 0" "fatCount m p = fatCount v 0" "rootEntryCount m p = rootEntryCount v 0"
    "sectorCount m p = sectorCount v 0" "sectorsPerFat m p = sectorsPerFat v 0" "largeSectorCount m p = largeSectorCount v 0"
proof -
  have at: "m (p + of_nat i) = v (of_nat i)" if "i < 62" for i
    using assms nth_rd [of i 62 m p] nth_rd [of i 62 v 0] that by simp
  show "bytesPerSector m p = bytesPerSector v 0" "sectorsPerCluster m p = sectorsPerCluster v 0"
    "reservedSectorCount m p = reservedSectorCount v 0" "fatCount m p = fatCount v 0" "rootEntryCount m p = rootEntryCount v 0"
    "sectorCount m p = sectorCount v 0" "sectorsPerFat m p = sectorsPerFat v 0" "largeSectorCount m p = largeSectorCount v 0"
    using at [of 11] at [of 12] at [of 13] at [of 14] at [of 15] at [of 16] at [of 17] at [of 18] at [of 19] at [of 20] at [of 22]
      at [of 23] at [of 32] at [of 33] at [of 34] at [of 35]
    by (simp_all add: bytesPerSector_def sectorsPerCluster_def reservedSectorCount_def fatCount_def rootEntryCount_def
      sectorCount_def sectorsPerFat_def largeSectorCount_def load16_def load32_def add.assoc)
qed

context disk_image
begin

text \<open>\<open>looks s s'\<close>: the disk was only looked at.\<close>

definition looks :: "fstate \<Rightarrow> fstate \<Rightarrow> bool" where
  "looks s s' \<longleftrightarrow> good s' \<and> img s' = img s \<and> mem_is priv (fm s) s'"

lemma looks_trans: "looks s s' \<Longrightarrow> looks s' s'' \<Longrightarrow> looks s s''"
  by (auto simp: looks_def intro: mem_is_trans)

lemma with_bpb_ok:
  assumes "good s" and "volume cap (img s)"
  shows "\<exists>p s'. with_bpb d s = Some (p, s') \<and> looks s s' \<and> rd (fm s') p 62 = rd (img s) 0 62"
proof -
  have c: "62 \<le> cap" using fat_places [OF assms(2), of 0] assms(2) by (auto simp: volume_def)
  from view_law [OF assms(1), of 0] c obtain p len s' where v: "disk_view d 0 s = Some (p, len, s')" "good s'" "img s' = img s"
    "mem_is priv (fm s) s'" "p \<noteq> 0" "min 512 cap \<le> unat len" "\<forall>k. k \<le> unat len \<longrightarrow> k \<le> cap \<longrightarrow> rd (fm s') p k = rd (img s) 0 k"
    by auto
  from v(6) c have l: "62 \<le> unat len" by auto
  then have "62 \<le> len" by (simp add: word_le_nat_alt)
  with v l c show ?thesis by (simp add: with_bpb_def looks_def)
qed

lemma bpbE:
  assumes "good s" and "volume cap (img s)"
  obtains p s' where "with_bpb d s = Some (p, s')" "looks s s'" "good s'" "volume cap (img s')" "rd (fm s') p 62 = rd (img s) 0 62" "img s' = img s"
  using with_bpb_ok [OF assms] assms(2) by (auto simp: looks_def)

lemma root_table_ok:
  assumes "good s" and "volume cap (img s)"
  shows "\<exists>s'. fat_get_root_table_addr d s = Some (of_nat (fat_at (img s) 0), s') \<and> looks s s'"
proof -
  from assms obtain p s' where b: "with_bpb d s = Some (p, s')" "looks s s'" "rd (fm s') p 62 = rd (img s) 0 62" by (rule bpbE)
  then show ?thesis by (simp add: fat_get_root_table_addr_def boot_fields [OF b(3)] fat_at_def bps_def)
qed

lemma cluster_count_ok:
  assumes "good s" and "volume cap (img s)"
  shows "\<exists>s'. fat_get_cluster_count d s = Some (of_nat (clusters (img s)), s') \<and> looks s s'"
proof -
  let ?v = "img s"
  from assms obtain p1 s1 where 1: "with_bpb d s = Some (p1, s1)" "looks s s1" "good s1" "volume cap (img s1)" "rd (fm s1) p1 62 = rd ?v 0 62" "img s1 = ?v"
    by (rule bpbE)
  from 1(3,4) obtain p2 s2 where 2: "with_bpb d s1 = Some (p2, s2)" "looks s1 s2" "good s2" "volume cap (img s2)" "rd (fm s2) p2 62 = rd (img s1) 0 62" "img s2 = img s1"
    by (rule bpbE)
  from 2(3,4) obtain p3 s3 where 3: "with_bpb d s2 = Some (p3, s3)" "looks s2 s3" "good s3" "volume cap (img s3)" "rd (fm s3) p3 62 = rd (img s2) 0 62" "img s3 = img s2"
    by (rule bpbE)
  note f = boot_fields [OF 1(5)] boot_fields [OF 2(5) [unfolded 1(6)]] boot_fields [OF 3(5) [unfolded 2(6) 1(6)]]
  let ?T = "if sectorCount ?v 0 \<noteq> 0 then sectorCount ?v 0 else largeSectorCount ?v 0"
  let ?M = "reservedSectorCount ?v 0 + fatCount ?v 0 * sectorsPerFat ?v 0 + rootEntryCount ?v 0 * 32 div bytesPerSector ?v 0"
  have nz: "bytesPerSector ?v 0 \<noteq> 0" "sectorsPerCluster ?v 0 \<noteq> 0" using assms(2) by (auto simp: volume_def bps_def spc_def)
  have E: "unat (rootEntryCount ?v 0) < 65536"
    using unsigned_less [of "load16 ?v (0 + 17)", where ?'a = nat] by (simp add: rootEntryCount_def unsigned_ucast_eq le_less_trans [OF take_bit_nat_less_eq_self])
  then have e: "unat (rootEntryCount ?v 0 * 32) = unat (rootEntryCount ?v 0) * 32" by (simp add: unat_word_ariths)
  have T: "unat ?T = total ?v" by (simp add: total_def)
  have "of_nat (meta ?v) = ?M" unfolding meta_def bps_def by (simp add: word_arith_nat_div e)
  moreover have mt: "meta ?v \<le> total ?v" using assms(2) by (simp add: volume_def)
  ultimately have M: "unat ?M = meta ?v" using unat_of_nat_less [of "meta ?v"] unat_lt [of ?T] T by auto
  have "?M \<le> ?T" using mt unfolding word_le_nat_alt M T .
  then have "unat (?T - ?M) = total ?v - meta ?v" by (subst unat_sub) (simp_all only: M T)
  then have "(?T - ?M) div sectorsPerCluster ?v 0 = of_nat (clusters ?v)" by (simp add: word_arith_nat_div clusters_def spc_def)
  then have "fat_get_cluster_count d s = Some (of_nat (clusters ?v), s3)"
    using 1(1) 2(1) 3(1) nz f
    by (cases "sectorCount ?v 0 = 0") (simp_all add: fat_get_cluster_count_def fat_get_total_sector_count_def fat_get_meta_sector_count_def)
  then show ?thesis using 1(2) 2(2) 3(2) looks_trans by blast
qed


lemma cluster_addr_ok:
  assumes "good s" and "volume cap (img s)" and "2 \<le> i" and "i < clusters (img s)"
  shows "\<exists>s'. fat_get_cluster_addr d (of_nat i) s = Some (of_nat (data_at (img s) i), s') \<and> looks s s'"
proof -
  from assms(1,2) obtain p s' where b: "with_bpb d s = Some (p, s')" "looks s s'" "rd (fm s') p 62 = rd (img s) 0 62" by (rule bpbE)
  have "clusters (img s) < 65536" using assms(2) unsigned_less [of "fatval (img s) 1", where ?'a = nat] by (simp add: volume_def)
  then have "\<not> (of_nat i :: u32) < 2" using assms(3,4) unat_of_nat_less [of i] by (simp add: word_less_nat_alt)
  moreover have "(of_nat i - 2 :: u32) = of_nat (i - 2)" using assms(3) by (simp add: of_nat_diff)
  ultimately show ?thesis using b(1,2)
    by (simp add: fat_get_cluster_addr_def boot_fields [OF b(3)] data_at_def root_at_def bpc_def bps_def spc_def Let_def)
qed

text \<open>\<open>touches lv s s'\<close>: of memory that is not the disk's own, only the local variable at \<open>lv\<close> was changed.\<close>

definition touches :: "u32 \<Rightarrow> fstate \<Rightarrow> fstate \<Rightarrow> bool" where
  "touches lv s s' \<longleftrightarrow> good s' \<and> mem_is (priv \<union> block lv 2) (fm s) s'"

lemma touches_trans: "touches lv s s' \<Longrightarrow> touches lv s' s'' \<Longrightarrow> touches lv s s''"
  by (auto simp: touches_def intro: mem_is_trans)

lemma looks_touches: "looks s s' \<Longrightarrow> touches lv s s'"
  unfolding looks_def touches_def mem_is_def by simp

lemma mem_is_load16: "mem_is P (wr m a [x, y]) s \<Longrightarrow> apart a 2 P \<Longrightarrow> load16 (fm s) a = ucast x OR push_bit 8 (ucast y)"
proof -
  assume m: "mem_is P (wr m a [x, y]) s" and "apart a 2 P"
  moreover have "a \<in> block a 2" "a + 1 \<in> block a 2" by (simp_all add: in_block)
  ultimately have "a \<notin> P" "a + 1 \<notin> P" by (auto simp: apart_def)
  then have "fm s a = x" "fm s (a + 1) = y" using m by (simp_all add: mem_is_def)
  then show "load16 (fm s) a = ucast x OR push_bit 8 (ucast y)" by (simp add: load16_def)
qed

lemma read16_ok:
  assumes "good s" and "unat addr + 2 \<le> cap" and "apart lv 2 priv"
  shows "\<exists>s'. disk_read d lv addr 2 s = Some s' \<and> touches lv s s' \<and> img s' = img s \<and> load16 (fm s') lv = load16 (img s) addr"
proof -
  from read_law [OF assms(1), of addr 2 lv] assms(2,3) obtain s' where r: "disk_read d lv addr 2 s = Some s'" "good s'" "img s' = img s"
    "mem_is priv (wr (fm s) lv (rd (img s) addr 2)) s'" by auto
  have "rd (img s) addr 2 = [img s addr, img s (addr + 1)]" by (simp add: numeral_2_eq_2)
  with r(4) have w: "mem_is priv (wr (fm s) lv [img s addr, img s (addr + 1)]) s'" by simp
  have "load16 (fm s') lv = load16 (img s) addr" unfolding mem_is_load16 [OF w assms(3)] by (simp add: load16_def)
  moreover have "touches lv s s'" using r(2) mem_is_wr [OF w] by (simp add: touches_def numeral_2_eq_2)
  ultimately show ?thesis using r by blast
qed

lemma fat_addr: "volume cap (img s) \<Longrightarrow> i < clusters (img s) \<Longrightarrow>
    unat (of_nat (fat_at (img s) 0) + of_nat i * 2 :: u32) = fat_at (img s) i \<and> fat_at (img s) i + 2 \<le> cap \<and>
    of_nat (fat_at (img s) 0) + of_nat i * 2 = (of_nat (fat_at (img s) i) :: u32)"
proof -
  assume v: "volume cap (img s)" "i < clusters (img s)"
  have e: "of_nat (fat_at (img s) 0) + of_nat i * 2 = (of_nat (fat_at (img s) i) :: u32)" by (simp add: fat_at_def mult.commute)
  show ?thesis unfolding e using fat_places [OF v] cap_fits by (simp add: unat_of_nat_less)
qed

lemma clusters_small: "volume cap v \<Longrightarrow> clusters v < 65536"
  using unsigned_less [of "fatval v 1", where ?'a = nat] by (simp add: volume_def)

lemma index_less: "volume cap v \<Longrightarrow> i < 4294967296 \<Longrightarrow> (of_nat i :: u32) < of_nat (clusters v) \<longleftrightarrow> i < clusters v"
  using clusters_small [of v] by (simp add: word_less_nat_alt unat_of_nat_less)

lemma get_cluster_value_ok:
  assumes "good s" and "volume cap (img s)" and "i < clusters (img s)" and "apart lv 2 priv"
  shows "\<exists>s'. fat_get_cluster_value d lv (of_nat i) s = Some (fatval (img s) i, s') \<and> touches lv s s' \<and> img s' = img s"
proof -
  from root_table_ok [OF assms(1,2)] obtain s1 where 1: "fat_get_root_table_addr d s = Some (of_nat (fat_at (img s) 0), s1)" "looks s s1" by blast
  then have v1: "good s1" "img s1 = img s" by (simp_all add: looks_def)
  from cluster_count_ok [OF v1(1)] v1 assms(2) obtain s2 where 2: "fat_get_cluster_count d s1 = Some (of_nat (clusters (img s)), s2)" "looks s1 s2" by auto
  then have v2: "good s2" "img s2 = img s" using v1 by (simp_all add: looks_def)
  note a = fat_addr [OF assms(2,3)]
  from read16_ok [OF v2(1), of "of_nat (fat_at (img s) 0) + of_nat i * 2" lv] a assms(4) v2(2)
  obtain s3 where 3: "disk_read d lv (of_nat (fat_at (img s) 0) + of_nat i * 2) 2 s2 = Some s3" "touches lv s2 s3" "img s3 = img s"
    "load16 (fm s3) lv = fatval (img s) i" by (auto simp: fatval_def)
  have "(of_nat i :: u32) < of_nat (clusters (img s))" using assms(3) clusters_small [OF assms(2)] by (simp add: index_less [OF assms(2)])
  then have "fat_get_cluster_value d lv (of_nat i) s = Some (fatval (img s) i, s3)"
    using 1 2 3 by (simp add: fat_get_cluster_value_def)
  then show ?thesis using 1(2) 2(2) 3(2,3) touches_trans looks_touches by blast
qed


lemma set_cluster_value_ok:
  assumes "good s" and "volume cap (img s)" and "i < clusters (img s)" and "apart lv 2 priv"
  shows "\<exists>s'. fat_set_cluster_value d lv (of_nat i) x s = Some s' \<and> touches lv s s' \<and> img s' = set_fat (img s) i x"
proof -
  let ?s = "set_fm (store16 (fm s) lv x) s"
  have o: "store16 (fm s) lv x a = fm s a" if "a \<notin> block lv 2" for a using that by (simp add: store16_wr wr_other)
  have s: "good ?s" "img ?s = img s" using memory_law [OF assms(1), of "store16 (fm s) lv x"] o assms(4) by (auto simp: apart_def)
  have t: "touches lv s ?s" using s(1) o by (simp add: touches_def mem_is_def)
  from root_table_ok [OF s(1)] assms(2) s(2) obtain s1 where 1: "fat_get_root_table_addr d ?s = Some (of_nat (fat_at (img s) 0), s1)" "looks ?s s1" by auto
  then have v1: "good s1" "img s1 = img s" using s(2) by (simp_all add: looks_def)
  from cluster_count_ok [OF v1(1)] v1 assms(2) obtain s2 where 2: "fat_get_cluster_count d s1 = Some (of_nat (clusters (img s)), s2)" "looks s1 s2" by auto
  then have v2: "good s2" "img s2 = img s" using v1 by (simp_all add: looks_def)
  have "mem_is priv (store16 (fm s) lv x) s2" using looks_trans [OF 1(2) 2(2)] by (simp add: looks_def)
  then have "rd (fm s2) lv 2 = rd (store16 (fm s) lv x) lv 2" using assms(4) by (intro rd_cong) (auto simp: mem_is_def apart_def)
  then have b: "rd (fm s2) lv 2 = bytes16 x" using rd_wr [of "bytes16 x" "fm s" lv] by (simp add: store16_wr)
  note a = fat_addr [OF assms(2,3)]
  from write_law [OF v2(1), of "of_nat (fat_at (img s) 0) + of_nat i * 2" 2 lv] a assms(4) v2(2) b
  obtain s3 where 3: "disk_write d (of_nat (fat_at (img s) 0) + of_nat i * 2) lv 2 s2 = Some s3" "good s3" "mem_is priv (fm s2) s3"
    "img s3 = set_fat (img s) i x" by (auto simp: set_fat_def store16_wr)
  have "(of_nat i :: u32) < of_nat (clusters (img s))" using assms(3) clusters_small [OF assms(2)] by (simp add: index_less [OF assms(2)])
  then have "fat_set_cluster_value d lv (of_nat i) x s = Some s3"
    using 1 2 3 by (simp add: fat_set_cluster_value_def Let_def)
  moreover have "touches lv s2 s3" using 3(2,3) by (auto simp: touches_def mem_is_def)
  ultimately show ?thesis using t 1(2) 2(2) 3(4) touches_trans looks_touches by blast
qed


lemma set_fat_volume_gen:
  assumes "volume cap (img s)" and "i = 1 \<Longrightarrow> clusters (img s) \<le> unat x" and "i < clusters (img s)"
  shows "volume cap (set_fat (img s) i x)" and "clusters (set_fat (img s) i x) = clusters (img s)"
    and "set_fat (set_fat (img s) i x) i x = set_fat (img s) i x"
proof -
  note s = set_fat_ok [OF assms(1) cap_fits assms(3), where x = x]
  have "clusters (img s) \<le> unat (fatval (set_fat (img s) i x) 1)" using s(2) [of 1] assms by (auto simp: volume_def)
  then show "volume cap (set_fat (img s) i x)" using same_boot_geometry [OF s(1)] same_boot_fields [OF s(1)] assms(1)
    by (simp add: volume_def)
  show "clusters (set_fat (img s) i x) = clusters (img s)" using same_boot_geometry [OF s(1)] by simp
  have "fat_at (set_fat (img s) i x) = fat_at (img s)" using same_boot_geometry [OF s(1)] by simp
  then show "set_fat (set_fat (img s) i x) i x = set_fat (img s) i x"
    by (simp add: set_fat_def store16_def fun_eq_iff)
qed

lemma update_loop_gen:
  assumes "good s" and "volume cap (img s)" and "i = 1 \<Longrightarrow> clusters (img s) \<le> unat x" and "i < clusters (img s)" and "apart lv 2 priv"
  shows "\<exists>s'. update_cluster_loop (Suc n) d lv (of_nat i) x s = Some s' \<and> touches lv s s' \<and> img s' = set_fat (img s) i x"
  using assms
proof (induction n arbitrary: s)
  case 0
  then show ?case using set_cluster_value_ok [of s i lv x] by simp
next
  case (Suc n)
  from set_cluster_value_ok [OF Suc.prems(1,2,4,5), of x] obtain s1 where 1: "fat_set_cluster_value d lv (of_nat i) x s = Some s1"
    "touches lv s s1" "img s1 = set_fat (img s) i x" by blast
  note v = set_fat_volume_gen [OF Suc.prems(2) _ Suc.prems(4), of x, OF Suc.prems(3)]
  have "good s1" using 1(2) by (simp add: touches_def)
  then have "\<exists>s'. update_cluster_loop (Suc n) d lv (of_nat i) x s1 = Some s' \<and> touches lv s1 s' \<and> img s' = set_fat (img s1) i x"
    by (rule Suc.IH) (use 1(3) v Suc.prems in auto)
  then show ?case using 1 v(3) touches_trans [OF 1(2)] by auto
qed

lemma update_cluster_gen:
  assumes "good s" and "volume cap (img s)" and "i = 1 \<Longrightarrow> clusters (img s) \<le> unat x" and "i < clusters (img s)" and "apart lv 2 priv"
  shows "\<exists>s'. fat_update_cluster d lv (of_nat i) x s = Some s' \<and> touches lv s s' \<and> img s' = set_fat (img s) i x"
proof -
  from assms(1,2) obtain p s1 where b: "with_bpb d s = Some (p, s1)" "looks s s1" "good s1" "volume cap (img s1)" "rd (fm s1) p 62 = rd (img s) 0 62"
    "img s1 = img s" by (rule bpbE)
  obtain n where n: "unat (fatCount (fm s1) p) = Suc n" using assms(2) boot_fields(4) [OF b(5)] by (cases "unat (fatCount (fm s1) p)") (auto simp: volume_def)
  from update_loop_gen [OF b(3,4) _ _ assms(5), of i x n] assms(3,4) b(6) obtain s2 where
    "update_cluster_loop (Suc n) d lv (of_nat i) x s1 = Some s2" "touches lv s1 s2" "img s2 = set_fat (img s) i x" by auto
  then show ?thesis using b(1) n touches_trans [OF looks_touches [OF b(2)]] by (auto simp: fat_update_cluster_def)
qed

lemma set_fat_volume:
  assumes "volume cap (img s)" and "2 \<le> i" and "i < clusters (img s)"
  shows "volume cap (set_fat (img s) i x)" and "clusters (set_fat (img s) i x) = clusters (img s)"
    and "set_fat (set_fat (img s) i x) i x = set_fat (img s) i x"
  using set_fat_volume_gen [OF assms(1) _ assms(3), of x] assms(2) by simp_all

lemma update_cluster_ok:
  assumes "good s" and "volume cap (img s)" and "2 \<le> i" and "i < clusters (img s)" and "apart lv 2 priv"
  shows "\<exists>s'. fat_update_cluster d lv (of_nat i) x s = Some s' \<and> touches lv s s' \<and> img s' = set_fat (img s) i x"
  using update_cluster_gen [OF assms(1,2) _ assms(4,5), of x] assms(3) by simp

text \<open>The first free cluster from \<open>i\<close> on, of \<open>n\<close>.\<close>

lemma find_loop_ok:
  assumes "good s" and "volume cap (img s)" and "i + n \<le> clusters (img s)" and "apart lv 2 priv"
  shows "\<exists>s'. find_free_cluster_loop n d lv (of_nat (fat_at (img s) 0)) (of_nat i) s =
      Some (case find (\<lambda>j. fatval (img s) j = 0) [i..<i + n] of Some j \<Rightarrow> of_nat j | None \<Rightarrow> 0, s') \<and> (n = 0 \<and> s' = s \<or> touches lv s s') \<and> img s' = img s"
  using assms
proof (induction n arbitrary: i s)
  case (Suc n)
  have i: "i < clusters (img s)" using Suc.prems(3) by simp
  note a = fat_addr [OF Suc.prems(2) i]
  from read16_ok [OF Suc.prems(1), of "of_nat (fat_at (img s) 0) + of_nat i * 2" lv] a Suc.prems(4)
  obtain s1 where 1: "disk_read d lv (of_nat (fat_at (img s) 0) + of_nat i * 2) 2 s = Some s1" "touches lv s s1" "img s1 = img s"
    "load16 (fm s1) lv = fatval (img s) i" by (auto simp: fatval_def)
  have up: "[i..<i + Suc n] = i # [Suc i..<Suc i + n]" by (simp add: upt_conv_Cons)
  show ?case
  proof (cases "fatval (img s) i = 0")
    case True
    have "take_bit 32 i = i" using i clusters_small [OF Suc.prems(2)] by (simp add: take_bit_nat_eq_self_iff)
    then have "(ucast (of_nat i :: u32) :: u16) = of_nat i" by (simp add: unsigned_of_nat)
    then show ?thesis using 1 True unfolding up by simp
  next
    case False
    have g: "good s1" using 1(2) by (simp add: touches_def)
    have "\<exists>s'. find_free_cluster_loop n d lv (of_nat (fat_at (img s1) 0)) (of_nat (Suc i)) s1 =
      Some (case find (\<lambda>j. fatval (img s1) j = 0) [Suc i..<Suc i + n] of Some j \<Rightarrow> of_nat j | None \<Rightarrow> 0, s') \<and> (n = 0 \<and> s' = s1 \<or> touches lv s1 s') \<and> img s' = img s1"
      by (rule Suc.IH) (use g 1(3) Suc.prems in auto)
    then obtain s2 where 2: "find_free_cluster_loop n d lv (of_nat (fat_at (img s) 0)) (of_nat i + 1) s1 =
      Some (case find (\<lambda>j. fatval (img s) j = 0) [Suc i..<Suc i + n] of Some j \<Rightarrow> of_nat j | None \<Rightarrow> 0, s2)" "s2 = s1 \<or> touches lv s1 s2" "img s2 = img s"
      using 1(3) by (auto simp: add.commute)
    have "touches lv s s2" using 2(2) 1(2) touches_trans by blast
    then show ?thesis using 1 2 False unfolding up by simp
  qed
qed simp

lemma find_free_ok:
  assumes "good s" and "volume cap (img s)" and "apart lv 2 priv"
  shows "\<exists>s'. fat_find_free_cluster d lv s =
      Some (case find (\<lambda>j. fatval (img s) j = 0) [2..<clusters (img s)] of Some j \<Rightarrow> of_nat j | None \<Rightarrow> 0, s') \<and> touches lv s s' \<and> img s' = img s"
proof -
  from cluster_count_ok [OF assms(1,2)] obtain s1 where 1: "fat_get_cluster_count d s = Some (of_nat (clusters (img s)), s1)" "looks s s1" by blast
  then have v1: "good s1" "img s1 = img s" by (simp_all add: looks_def)
  from root_table_ok [OF v1(1)] v1 assms(2) obtain s2 where 2: "fat_get_root_table_addr d s1 = Some (of_nat (fat_at (img s) 0), s2)" "looks s1 s2" by auto
  then have v2: "good s2" "img s2 = img s" using v1 by (simp_all add: looks_def)
  have c: "2 \<le> clusters (img s)" "unat (of_nat (clusters (img s)) :: u32) = clusters (img s)"
    using assms(2) clusters_small [OF assms(2)] by (auto simp: volume_def intro: unat_of_nat_less)
  have e: "2 + (clusters (img s) - 2) = clusters (img s)" using c(1) by simp
  from find_loop_ok [OF v2(1), of 2 "clusters (img s) - 2" lv, unfolded v2(2) e, OF assms(2) order_refl assms(3)] obtain s3 where
    3: "find_free_cluster_loop (clusters (img s) - 2) d lv (of_nat (fat_at (img s) 0)) 2 s2 =
      Some (case find (\<lambda>j. fatval (img s) j = 0) [2..<clusters (img s)] of Some j \<Rightarrow> of_nat j | None \<Rightarrow> 0, s3)" "s3 = s2 \<or> touches lv s2 s3" "img s3 = img s"
    by auto
  have "touches lv s s2" using 1(2) 2(2) looks_touches looks_trans by blast
  then have "touches lv s s3" using 3(2) touches_trans by blast
  then show ?thesis using 1(1) 2(1) 3 c(2) by (simp add: fat_find_free_cluster_def)
qed

end

section \<open>Chains\<close>

text \<open>\<open>chain v h xs\<close>: from the cluster \<open>h\<close> on, the table links the clusters \<open>xs\<close>, up to the end-of-chain mark.\<close>

primrec chain :: "img \<Rightarrow> nat \<Rightarrow> nat list \<Rightarrow> bool" where
  "chain v h [] \<longleftrightarrow> h = unat (fatval v 1)"
| "chain v h (x # xs) \<longleftrightarrow> h = x \<and> 2 \<le> x \<and> x < clusters v \<and> chain v (unat (fatval v x)) xs"

definition contents :: "img \<Rightarrow> nat list \<Rightarrow> u8 list" where
  "contents v xs = concat (map (cluster v) xs)"

lemma contents_simps [simp]: "contents v [] = []" "contents v (x # xs) = cluster v x @ contents v xs" "contents v (xs @ ys) = contents v xs @ contents v ys"
  by (simp_all add: contents_def)

lemma length_cluster [simp]: "length (cluster v i) = bpc v"
  by (simp add: cluster_def)

lemma length_contents [simp]: "length (contents v xs) = length xs * bpc v"
  by (induction xs) auto

lemma chain_in: "chain v h xs \<Longrightarrow> x \<in> set xs \<Longrightarrow> 2 \<le> x \<and> x < clusters v"
  by (induction xs arbitrary: h) auto

lemma chain_unique: "volume cap v \<Longrightarrow> chain v h xs \<Longrightarrow> chain v h ys \<Longrightarrow> xs = ys"
proof (induction xs arbitrary: h ys)
  case Nil then show ?case by (cases ys) (auto simp: volume_def)
next
  case (Cons x xs) then show ?case by (cases ys) (auto simp: volume_def)
qed

lemma chain_suffix: "chain v h (xs @ y # ys) \<Longrightarrow> chain v (unat (fatval v y)) ys"
  by (induction xs arbitrary: h) auto

lemma chain_distinct: "volume cap v \<Longrightarrow> chain v h xs \<Longrightarrow> distinct xs"
proof (induction xs arbitrary: h)
  case (Cons x xs)
  have "x \<notin> set xs"
  proof
    assume "x \<in> set xs"
    then obtain ys zs where xs: "xs = ys @ x # zs" by (auto simp: in_set_conv_decomp)
    with Cons.prems(2) have c: "chain v (unat (fatval v x)) (ys @ x # zs)" by simp
    with chain_suffix [OF c] have "ys @ x # zs = zs" using chain_unique [OF Cons.prems(1)] by blast
    then show False by (metis append_Cons append_is_Nil_conv append_self_conv2 append.assoc list.distinct(1) append_Nil same_append_eq self_append_conv2)
  qed
  with Cons show ?case by auto
qed simp

lemma chain_size:
  assumes "volume cap v" and "chain v h xs"
  shows "length xs * bpc v \<le> cap"
proof -
  have "set xs \<subseteq> {2..<clusters v}" using chain_in [OF assms(2)] by auto
  then have "card (set xs) \<le> clusters v - 2" using card_mono [of "{2..<clusters v}" "set xs"] by simp
  then have "length xs \<le> clusters v - 2" using distinct_card [OF chain_distinct [OF assms]] by simp
  then have "length xs * bpc v \<le> (clusters v - 2) * bpc v" by (rule mult_le_mono1)
  also have "\<dots> \<le> cap" using assms(1) by (simp add: volume_def data_at_def)
  finally show ?thesis .
qed

lemma chain_cong:
  "(\<And>x. x \<in> set xs \<Longrightarrow> fatval w x = fatval v x) \<Longrightarrow> fatval w 1 = fatval v 1 \<Longrightarrow> clusters w = clusters v \<Longrightarrow> chain w h xs = chain v h xs"
  by (induction xs arbitrary: h) auto

lemma sub_block: "p + n \<le> len \<Longrightarrow> len \<le> 4294967295 \<Longrightarrow> block (a + of_nat p) n \<subseteq> block a len"
  by (rule block_shift) (simp add: unat_of_nat_less)


lemma count_min:
  assumes "p \<le> len" and "len \<le> 4294967295" and "b \<le> 4294967295"
  shows "(if of_nat len - of_nat p > (of_nat b :: u32) then of_nat b else of_nat len - of_nat p :: u32) = of_nat (min b (len - p))"
proof -
  have "of_nat len - of_nat p = (of_nat (len - p) :: u32)" using assms(1) by (simp add: of_nat_diff)
  then show ?thesis using unat_of_nat_less [of b] unat_of_nat_less [of "len - p"] assms
    by (simp only: word_less_nat_alt) (auto simp: min_def)
qed

context disk_image
begin

section \<open>Reading a chain\<close>

lemma read_cluster_ok:
  assumes "good s" and "volume cap (img s)" and "2 \<le> x" and "x < clusters (img s)" and "n \<le> bpc (img s)" and "apart dst n priv"
  shows "\<exists>s1 s2. fat_get_cluster_addr d (of_nat x) s = Some (of_nat (data_at (img s) x), s1) \<and>
    disk_read d dst (of_nat (data_at (img s) x) + 0) (of_nat n) s1 = Some s2 \<and> good s2 \<and> img s2 = img s \<and>
    rd (fm s2) dst n = take n (cluster (img s) x) \<and> mem_is (priv \<union> block dst n) (fm s) s2"
proof -
  let ?a = "of_nat (data_at (img s) x) :: u32"
  note p = data_places [OF assms(2,3,4)]
  have n: "n \<le> 4294967295" and u: "unat (of_nat n :: u32) = n" "unat ?a = data_at (img s) x"
    using p(2) cap_fits assms(5) by (simp_all add: unat_of_nat_less)
  from cluster_addr_ok [OF assms(1,2,3,4)] obtain s1 where 1: "fat_get_cluster_addr d (of_nat x) s = Some (?a, s1)" "looks s s1" by blast
  then have v1: "good s1" "img s1 = img s" "mem_is priv (fm s) s1" by (simp_all add: looks_def)
  have le: "data_at (img s) x + n \<le> cap" using p(2) assms(5) by simp
  from read_law [OF v1(1), of ?a "of_nat n" dst, unfolded u v1(2), OF le assms(6)] obtain s2 where
    2: "disk_read d dst ?a (of_nat n) s1 = Some s2" "good s2" "img s2 = img s" "mem_is priv (wr (fm s1) dst (rd (img s) ?a n)) s2" by blast
  have "rd (fm s2) dst n = rd (wr (fm s1) dst (rd (img s) ?a n)) dst n"
    by (rule rd_cong) (use 2(4) assms(6) n in \<open>auto simp: mem_is_def apart_def\<close>)
  also have "\<dots> = rd (img s) ?a n" using rd_wr [of "rd (img s) ?a n" "fm s1" dst] n by simp
  also have "\<dots> = take n (cluster (img s) x)"
    unfolding cluster_def using rd_append [of "img s" ?a n "bpc (img s) - n"] assms(5) by simp
  finally have r: "rd (fm s2) dst n = take n (cluster (img s) x)" .
  have "mem_is (priv \<union> block dst n) (fm s1) s2" using mem_is_wr [OF 2(4)] n by simp
  then have "mem_is (priv \<union> block dst n) (fm s) s2" using mem_is_trans [OF v1(3)] by blast
  then show ?thesis using 1(1) 2(1,2,3) r by auto
qed

text \<open>Two pieces of memory written one after the other.\<close>

lemma join_pieces:
  assumes "mem_is (Q \<union> block a n) m s1" "mem_is (Q \<union> block (a + of_nat n) (len - n)) (fm s1) s2" "block a n \<inter> Q = {}"
    and "n \<le> len" "len \<le> 4294967295"
  shows "rd (fm s2) a len = rd (fm s1) a n @ rd (fm s2) (a + of_nat n) (len - n)" "mem_is (Q \<union> block a len) m s2"
proof -
  have "rd (fm s2) a n = rd (fm s1) a n"
  proof (rule rd_cong)
    fix x assume x: "x \<in> block a n"
    then have "x \<notin> block (a + of_nat n) (len - n)" using block_split_disjoint [of n "len - n" a] assms(4,5) by auto
    then show "fm s2 x = fm s1 x" using x assms(2,3) by (auto simp: mem_is_def)
  qed (use assms(4,5) in simp)
  then show "rd (fm s2) a len = rd (fm s1) a n @ rd (fm s2) (a + of_nat n) (len - n)"
    using rd_append [of "fm s2" a n "len - n"] assms(4) by simp
  have "block a n \<subseteq> block a len" "block (a + of_nat n) (len - n) \<subseteq> block a len"
    using block_mono [OF assms(4), of a] sub_block [of n "len - n" len a] assms(4,5) by simp_all
  then show "mem_is (Q \<union> block a len) m s2" by (intro mem_is_trans [OF assms(1,2)]) auto
qed

lemma not_end_of_chain:
  assumes "volume cap v" "x < clusters v"
  shows "(of_nat x :: u32) \<noteq> ucast (fatval v 1)"
proof
  assume "(of_nat x :: u32) = ucast (fatval v 1)"
  then have "unat (of_nat x :: u32) = unat (ucast (fatval v 1) :: u32)" by simp
  moreover have "x < 65536" "clusters v \<le> unat (fatval v 1)" using assms clusters_small [OF assms(1)] by (simp_all add: volume_def)
  ultimately show False using assms(2) by (simp add: unat_of_nat_less unat_ucast16)
qed

text \<open>One round of the loop: a cluster, or what is missing of it, is read, and the chain is followed.\<close>

lemma read_step_ok:
  assumes "good s" and "volume cap (img s)" and "apart lv 2 priv" and x: "2 \<le> x" "x < clusters (img s)"
    and dst: "apart dst len (priv \<union> block lv 2)" and p: "p = k * bpc (img s)" "p < len"
    and small: "len \<le> 4294967295" "p + bpc (img s) \<le> 4294967295"
  defines "n \<equiv> min (bpc (img s)) (len - p)"
  shows "\<exists>s3. read_data_loop d lv (of_nat (bpc (img s))) (fatval (img s) 1) dst (of_nat len) 0 (of_nat x) (of_nat (k * bpc (img s))) (of_nat p) s =
      read_data_loop d lv (of_nat (bpc (img s))) (fatval (img s) 1) dst (of_nat len) 0 (of_nat (unat (fatval (img s) x)))
        (of_nat (Suc k * bpc (img s))) (of_nat (p + n)) s3 \<and> good s3 \<and> img s3 = img s \<and>
    rd (fm s3) (dst + of_nat p) n = take n (cluster (img s) x) \<and> mem_is (priv \<union> block lv 2 \<union> block (dst + of_nat p) n) (fm s) s3"
proof -
  let ?v = "img s" and ?b = "bpc (img s)"
  have n: "n \<le> ?b" "p + n \<le> len" using p(2) by (auto simp: n_def)
  have dstn: "apart (dst + of_nat p) n priv" "block (dst + of_nat p) n \<inter> (priv \<union> block lv 2) = {}"
    using dst sub_block [OF n(2) small(1), of dst] by (auto simp: apart_def)
  from read_cluster_ok [OF assms(1,2) x n(1) dstn(1)] obtain s1 s2 where
    1: "fat_get_cluster_addr d (of_nat x) s = Some (of_nat (data_at ?v x), s1)"
      "disk_read d (dst + of_nat p) (of_nat (data_at ?v x) + 0) (of_nat n) s1 = Some s2" "good s2" "img s2 = ?v"
      "rd (fm s2) (dst + of_nat p) n = take n (cluster ?v x)" "mem_is (priv \<union> block (dst + of_nat p) n) (fm s) s2" by blast
  from get_cluster_value_ok [OF 1(3), of x lv] 1(4) assms(2,3) x(2) obtain s3 where
    3: "fat_get_cluster_value d lv (of_nat x) s2 = Some (fatval ?v x, s3)" "touches lv s2 s3" "img s3 = ?v" by auto
  have g3: "good s3" "mem_is (priv \<union> block lv 2) (fm s2) s3" using 3(2) by (simp_all add: touches_def)
  have "rd (fm s3) (dst + of_nat p) n = rd (fm s2) (dst + of_nat p) n"
    by (rule rd_cong) (use g3(2) dstn(2) n small in \<open>auto simp: mem_is_def\<close>)
  moreover have "mem_is (priv \<union> block lv 2 \<union> block (dst + of_nat p) n) (fm s) s3" by (rule mem_is_trans [OF 1(6) g3(2)]) auto
  moreover have cnt: "(if of_nat len - of_nat p > (of_nat ?b :: u32) then of_nat ?b else of_nat len - of_nat p :: u32) = of_nat n"
    unfolding n_def by (rule count_min) (use p(2) small in simp_all)
  have "0 < ?b" using assms(2) by (simp add: volume_def bpc_def)
  then have cond: "(of_nat len :: u32) > of_nat p" "of_nat (k * ?b) + of_nat ?b > (0 :: u32)"
    using p small unat_of_nat_less [of "k * ?b + ?b"] unat_of_nat_less [of len] unat_of_nat_less [of p] by (simp_all add: word_less_nat_alt)
  have start: "(if of_nat (k * ?b) > (0 :: u32) then 0 else 0 - of_nat (k * ?b)) = (0 :: u32)" by (simp add: word_gt_0)
  have follow: "(of_nat (unat (fatval ?v x)) :: u32) = ucast (fatval ?v x)" by (simp only: ucast16_of_nat)
  have next_args: "(of_nat (k * ?b) + of_nat ?b :: u32) = of_nat (Suc k * ?b)" "(of_nat p + of_nat n :: u32) = of_nat (p + n)" by (simp_all add: add.commute)
  have "read_data_loop d lv (of_nat ?b) (fatval ?v 1) dst (of_nat len) 0 (of_nat x) (of_nat (k * ?b)) (of_nat p) s =
      read_data_loop d lv (of_nat ?b) (fatval ?v 1) dst (of_nat len) 0 (of_nat (unat (fatval ?v x))) (of_nat (Suc k * ?b)) (of_nat (p + n)) s3"
    using not_end_of_chain [OF assms(2) x(2)] cond 1(1,2) 3(1) unfolding next_args [symmetric] follow
    by (subst read_data_loop.simps) (simp only: cnt start Let_def cond if_True if_False bind.bind_lunit prod.case simp_thms)
  ultimately show ?thesis using g3(1) 3(3) 1(5) by auto
qed

lemma read_loop_ok:
  assumes "good s" and "volume cap (img s)" and "apart lv 2 priv" and "chain (img s) h xs" and "apart dst len (priv \<union> block lv 2)"
    and "(k + length xs) * bpc (img s) \<le> cap" and "len \<le> (k + length xs) * bpc (img s)" and "p \<le> len" and "p = k * bpc (img s) \<or> p = len"
  shows "\<exists>s'. read_data_loop d lv (of_nat (bpc (img s))) (fatval (img s) 1) dst (of_nat len) 0 (of_nat h) (of_nat (k * bpc (img s))) (of_nat p) s =
      Some (of_nat len, s') \<and> good s' \<and> img s' = img s \<and>
    rd (fm s') (dst + of_nat p) (len - p) = take (len - p) (contents (img s) xs) \<and>
    mem_is (priv \<union> block lv 2 \<union> block (dst + of_nat p) (len - p)) (fm s) s'"
  using assms
proof (induction xs arbitrary: h k p s)
  case Nil
  then have "p = len" by auto
  then show ?case using Nil.prems(1,4) by (subst read_data_loop.simps) (simp add: mem_is_def)
next
  case (Cons x xs)
  let ?v = "img s" and ?b = "bpc (img s)"
  have small: "len \<le> 4294967295" using Cons.prems(6,7) cap_fits by linarith
  have x: "h = x" "2 \<le> x" "x < clusters ?v" "chain ?v (unat (fatval ?v x)) xs" using Cons.prems(4) by simp_all
  show ?case
  proof (cases "p = len")
    case True
    then show ?thesis using Cons.prems(1) small by (subst read_data_loop.simps) (simp add: mem_is_def)
  next
    case False
    then have p: "p = k * ?b" "p < len" using Cons.prems(8,9) by auto
    define n where "n = min ?b (len - p)"
    have n: "p + n \<le> len" "n \<le> len - p" "len - p \<le> 4294967295" using p(2) small by (auto simp: n_def)
    have "p + ?b = Suc k * ?b" using p(1) by simp
    also have "\<dots> \<le> (k + length (x # xs)) * ?b" by (rule mult_le_mono1) simp
    finally have pb: "p + ?b \<le> 4294967295" using Cons.prems(6) cap_fits by linarith
    from read_step_ok [OF Cons.prems(1-3) x(2,3) Cons.prems(5) p small pb, folded n_def] obtain s3 where
      3: "read_data_loop d lv (of_nat ?b) (fatval ?v 1) dst (of_nat len) 0 (of_nat x) (of_nat (k * ?b)) (of_nat p) s =
        read_data_loop d lv (of_nat ?b) (fatval ?v 1) dst (of_nat len) 0 (of_nat (unat (fatval ?v x))) (of_nat (Suc k * ?b)) (of_nat (p + n)) s3"
      "good s3" "img s3 = ?v" "rd (fm s3) (dst + of_nat p) n = take n (cluster ?v x)"
      "mem_is (priv \<union> block lv 2 \<union> block (dst + of_nat p) n) (fm s) s3" by blast
    have "p + n = Suc k * ?b \<or> p + n = len" using p by (auto simp: n_def)
    then have "\<exists>s'. read_data_loop d lv (of_nat (bpc (img s3))) (fatval (img s3) 1) dst (of_nat len) 0 (of_nat (unat (fatval ?v x)))
        (of_nat (Suc k * bpc (img s3))) (of_nat (p + n)) s3 = Some (of_nat len, s') \<and> good s' \<and> img s' = img s3 \<and>
      rd (fm s') (dst + of_nat (p + n)) (len - (p + n)) = take (len - (p + n)) (contents (img s3) xs) \<and>
      mem_is (priv \<union> block lv 2 \<union> block (dst + of_nat (p + n)) (len - (p + n))) (fm s3) s'"
      by (intro Cons.IH) (use 3(2,3) Cons.prems x(4) n(1) in auto)
    then obtain s' where 4: "read_data_loop d lv (of_nat ?b) (fatval ?v 1) dst (of_nat len) 0 (of_nat x) (of_nat (k * ?b)) (of_nat p) s = Some (of_nat len, s')"
      "good s'" "img s' = ?v" "rd (fm s') (dst + of_nat p + of_nat n) (len - p - n) = take (len - p - n) (contents ?v xs)"
      "mem_is (priv \<union> block lv 2 \<union> block (dst + of_nat p + of_nat n) (len - p - n)) (fm s3) s'"
      unfolding 3(1,3) by (auto simp: add.assoc)
    have "block (dst + of_nat p) n \<inter> (priv \<union> block lv 2) = {}"
      using Cons.prems(5) sub_block [OF n(1) small, of dst] by (auto simp: apart_def)
    note join = join_pieces [OF 3(5) 4(5) this n(2,3)]
    have "rd (fm s') (dst + of_nat p) (len - p) = take (len - p) (contents ?v (x # xs))"
      unfolding join(1) 3(4) 4(4) using n_def by (cases "?b \<le> len - p") (simp_all add: min_def)
    then show ?thesis using 4(1-3) join(2) x(1) by blast
  qed
qed

lemma read_data_ok:
  assumes "good s" and "volume cap (img s)" and "apart lv 2 priv" and "chain (img s) h xs" and "xs \<noteq> []"
    and "apart dst len (priv \<union> block lv 2)" and "len \<le> length xs * bpc (img s)"
  shows "\<exists>s'. fat_read_data d lv (of_nat h) dst (of_nat len) 0 s = Some (of_nat len, s') \<and> good s' \<and> img s' = img s \<and>
    rd (fm s') dst len = take len (contents (img s) xs) \<and> mem_is (priv \<union> block lv 2 \<union> block dst len) (fm s) s'"
proof -
  let ?v = "img s"
  have c: "length xs * bpc ?v \<le> cap" by (rule chain_size [OF assms(2,4)])
  from assms(1,2) obtain p s1 where b: "with_bpb d s = Some (p, s1)" "looks s s1" "good s1" "volume cap (img s1)" "rd (fm s1) p 62 = rd ?v 0 62"
    "img s1 = ?v" by (rule bpbE)
  obtain x ys where xs: "xs = x # ys" using assms(5) by (cases xs) auto
  then have h: "2 \<le> h" "h < clusters ?v" using assms(4) by auto
  have h0: "(of_nat h :: u32) \<noteq> 0" using h clusters_small [OF assms(2)] unat_of_nat_less [of h] by (auto simp: word_unat_eq_iff)
  have bc: "sectorsPerCluster (fm s1) p * bytesPerSector (fm s1) p = of_nat (bpc ?v)"
    by (simp add: boot_fields [OF b(5)] bpc_def bps_def spc_def)
  show ?thesis
  proof (cases "len = 0")
    case True
    then show ?thesis using b(1,2) h0 bc by (auto simp: fat_read_data_def looks_def mem_is_def Let_def)
  next
    case False
    have l: "len \<le> 4294967295" using assms(7) c cap_fits by linarith
    then have l0: "(of_nat len :: u32) \<noteq> 0" using False unat_of_nat_less [of len] by (auto simp: word_unat_eq_iff)
    from get_cluster_value_ok [OF b(3,4), of 1 lv] b(6) assms(2,3) obtain s2 where
      2: "fat_get_cluster_value d lv 1 s1 = Some (fatval ?v 1, s2)" "touches lv s1 s2" "img s2 = ?v" by (auto simp: volume_def)
    have g2: "good s2" "mem_is (priv \<union> block lv 2) (fm s1) s2" using 2(2) by (simp_all add: touches_def)
    from read_loop_ok [OF g2(1), of lv h xs dst len 0 0] 2(3) assms c obtain s' where
      3: "read_data_loop d lv (of_nat (bpc ?v)) (fatval ?v 1) dst (of_nat len) 0 (of_nat h) 0 0 s2 = Some (of_nat len, s')"
        "good s'" "img s' = ?v" "rd (fm s') dst len = take len (contents ?v xs)" "mem_is (priv \<union> block lv 2 \<union> block dst len) (fm s2) s'"
      by auto
    have "mem_is (priv \<union> block lv 2) (fm s) s2" using b(2) g2(2) by (auto simp: looks_def mem_is_def)
    then have "mem_is (priv \<union> block lv 2 \<union> block dst len) (fm s) s'" by (rule mem_is_trans [OF _ 3(5)]) auto
    moreover have "fat_read_data d lv (of_nat h) dst (of_nat len) 0 s = Some (of_nat len, s')"
      using b(1) h0 l0 bc 2(1) 3(1) by (simp add: fat_read_data_def Let_def)
    ultimately show ?thesis using 3 by blast
  qed
qed

end


section \<open>Extending a chain\<close>

definition free_clusters :: "img \<Rightarrow> nat set" where
  "free_clusters v = {j. 2 \<le> j \<and> j < clusters v \<and> fatval v j = 0}"

definition append_cluster :: "img \<Rightarrow> nat list \<Rightarrow> nat \<Rightarrow> u8 list \<Rightarrow> img" where
  "append_cluster v ys c bs =
     (let w = set_fat (put v c bs) c (fatval v 1) in if ys = [] then w else set_fat w (last ys) (of_nat c))"

lemma chain_nonzero: "volume cap v \<Longrightarrow> chain v h xs \<Longrightarrow> x \<in> set xs \<Longrightarrow> fatval v x \<noteq> 0"
proof (induction xs arbitrary: h)
  case (Cons y ys)
  then have "unat (fatval v y) \<noteq> 0" by (cases ys) (auto simp: volume_def)
  then show ?case using Cons by auto
qed simp

lemma chain_append:
  assumes "chain v h ys" and "ys \<noteq> []" and "2 \<le> c" and "c < clusters v" and "c \<notin> set ys" and "distinct ys"
    and "clusters w = clusters v" and "fatval w 1 = fatval v 1" and "fatval w c = fatval v 1" and "unat (fatval w (last ys)) = c"
    and "\<And>y. y \<in> set ys \<Longrightarrow> y \<noteq> last ys \<Longrightarrow> fatval w y = fatval v y"
  shows "chain w h (ys @ [c])"
  using assms
proof (induction ys arbitrary: h)
  case (Cons y ys)
  show ?case
  proof (cases "ys = []")
    case True
    then show ?thesis using Cons.prems by simp
  next
    case False
    have "chain w (unat (fatval v y)) (ys @ [c])"
    proof (rule Cons.IH)
      show "chain v (unat (fatval v y)) ys" using Cons.prems(1) by simp
      show "c \<notin> set ys" "distinct ys" using Cons.prems(5,6) by simp_all
      show "unat (fatval w (last ys)) = c" using Cons.prems(10) False by simp
      show "fatval w z = fatval v z" if "z \<in> set ys" "z \<noteq> last ys" for z using Cons.prems(11) [of z] that False by simp
    qed (rule False Cons.prems)+
    moreover have "y \<noteq> last ys" using Cons.prems(6) False by auto
    then have "fatval w y = fatval v y" using Cons.prems(11) [of y] False by simp
    ultimately show ?thesis using Cons.prems by simp
  qed
qed simp

text \<open>What \<^const>\<open>append_cluster\<close> writes: the entry of the new cluster, the entry of the last one, the bytes of the new cluster.\<close>

lemma append_cluster_writes:
  fixes v ys c bs
  defines "w \<equiv> append_cluster v ys c bs"
  assumes "volume cap v" and "cap \<le> 4294967295" and c: "2 \<le> c" "c < clusters v" and "length bs \<le> bpc v"
    and ys: "ys = [] \<or> last ys < clusters v"
  shows "same_boot w v"
    and "\<And>j. j < clusters v \<Longrightarrow> fatval w j = (if ys \<noteq> [] \<and> j = last ys then of_nat c else if j = c then fatval v 1 else fatval v j)"
    and "\<And>j. 2 \<le> j \<Longrightarrow> j < clusters v \<Longrightarrow> j \<noteq> c \<Longrightarrow> cluster w j = cluster v j" and "take (length bs) (cluster w c) = bs"
proof -
  have one: "1 < clusters v" using assms(2) by (auto simp: volume_def)
  define v1 where "v1 = put v c bs"
  define v2 where "v2 = set_fat v1 c (fatval v 1)"
  note p = put_ok [OF assms(2,3) c(1,2) assms(6), folded v1_def]
  note g1 = same_boot_geometry [OF p(1)]
  have vol1: "volume cap v1" using same_boot_volume [OF p(1), of cap] p(2) [of 1] one assms(2) by simp
  note q = set_fat_ok [OF vol1 assms(3), of c, unfolded g1, OF c(2), where x = "fatval v 1", folded v2_def]
  have f2: "fatval v2 j = (if j = c then fatval v 1 else fatval v j)" if "j < clusters v" for j using q(2) p(2) that by simp
  have b2: "same_boot v2 v" using q(1) p(1) by (simp add: same_boot_def)
  note g2 = same_boot_geometry [OF b2]
  have vol2: "volume cap v2" using same_boot_volume [OF b2, of cap] f2 [of 1] c(1) one assms(2) by simp
  have w: "w = (if ys = [] then v2 else set_fat v2 (last ys) (of_nat c))" by (simp add: w_def append_cluster_def v1_def v2_def Let_def)
  have "same_boot w v2" using set_fat_ok(1) [OF vol2 assms(3)] ys by (auto simp: w g2 same_boot_def)
  then show "same_boot w v" using b2 by (simp add: same_boot_def)
  show "fatval w j = (if ys \<noteq> [] \<and> j = last ys then of_nat c else if j = c then fatval v 1 else fatval v j)" if "j < clusters v" for j
  proof (cases "ys = []")
    case True then show ?thesis using f2 [OF that] unfolding w by simp
  next
    case False
    have "fatval w j = (if j = last ys then of_nat c else fatval v2 j)" unfolding w if_not_P [OF False]
      by (rule set_fat_ok(2) [OF vol2 assms(3)]) (use that ys False g2 in auto)
    then show ?thesis using f2 [OF that] False by (simp only: simp_thms)
  qed
  have cl: "cluster w j = cluster v1 j" if "2 \<le> j" "j < clusters v" for j
    using set_fat_ok(3) [OF vol2 assms(3), of "last ys" j] q(3) [of j] that ys by (auto simp: w g2)
  show "cluster w j = cluster v j" if "2 \<le> j" "j < clusters v" "j \<noteq> c" for j using cl [of j] p(3) [of j] that by simp
  show "take (length bs) (cluster w c) = bs" using cl [OF c(1,2)] p(4) by simp
qed

lemma append_cluster_ok:
  fixes v ys c bs
  defines "w \<equiv> append_cluster v ys c bs"
  assumes "volume cap v" and "cap \<le> 4294967295" and "c \<in> free_clusters v" and "length bs \<le> bpc v" and "ys = [] \<or> chain v (hd ys) ys"
  shows "same_boot w v" and "volume cap w" and "chain w (hd (ys @ [c])) (ys @ [c])" and "take (length bs) (cluster w c) = bs"
    and "\<And>j. j < clusters v \<Longrightarrow> j \<noteq> c \<Longrightarrow> ys = [] \<or> j \<noteq> last ys \<Longrightarrow> fatval w j = fatval v j"
    and "\<And>j. 2 \<le> j \<Longrightarrow> j < clusters v \<Longrightarrow> j \<noteq> c \<Longrightarrow> cluster w j = cluster v j"
    and "free_clusters w = free_clusters v - {c}"
proof -
  have c: "2 \<le> c" "c < clusters v" "fatval v c = 0" using assms(4) by (auto simp: free_clusters_def)
  have eoc: "clusters v \<le> unat (fatval v 1)" "1 < clusters v" using assms(2) by (auto simp: volume_def)
  have ys: "last ys < clusters v" "2 \<le> last ys" "last ys \<noteq> c" "fatval v (last ys) \<noteq> 0" "distinct ys" "c \<notin> set ys" if "ys \<noteq> []"
  proof -
    have ch: "chain v (hd ys) ys" using assms(6) that by simp
    show "last ys < clusters v" "2 \<le> last ys" "fatval v (last ys) \<noteq> 0"
      using chain_in [OF ch] chain_nonzero [OF assms(2) ch] last_in_set [OF that] by auto
    show "c \<notin> set ys" using chain_nonzero [OF assms(2) ch] c(3) by auto
    then show "last ys \<noteq> c" using last_in_set [OF that] by auto
    show "distinct ys" by (rule chain_distinct [OF assms(2) ch])
  qed
  have "ys = [] \<or> last ys < clusters v" using ys(1) by blast
  note wr = append_cluster_writes [OF assms(2,3) c(1,2) assms(5) this, folded w_def]
  show boot: "same_boot w v" by (rule wr(1))
  show "cluster w j = cluster v j" if "2 \<le> j" "j < clusters v" "j \<noteq> c" for j using that by (rule wr(3))
  show "take (length bs) (cluster w c) = bs" by (rule wr(4))
  note g = same_boot_geometry [OF boot] and f = wr(2)
  show "fatval w j = fatval v j" if "j < clusters v" "j \<noteq> c" "ys = [] \<or> j \<noteq> last ys" for j using f that by auto
  have one: "fatval w 1 = fatval v 1" using f [of 1] eoc(2) c(1) ys(2) by auto
  then show "volume cap w" using same_boot_volume [OF boot, of cap] assms(2) by simp
  have "clusters v < 65536" using eoc(1) unsigned_less [of "fatval v 1", where ?'a = nat] by simp
  then have c16: "unat (of_nat c :: u16) = c" using c(2) by (simp add: unsigned_of_nat take_bit_nat_eq_self_iff)
  show "chain w (hd (ys @ [c])) (ys @ [c])"
  proof (cases "ys = []")
    case True
    then show ?thesis using c(1,2) f [OF c(2)] one g(4) by simp
  next
    case False
    have "chain w (hd ys) (ys @ [c])"
      by (rule chain_append [of v]) (use False assms(6) c ys [OF False] g(4) one f c16 chain_in [of v "hd ys" ys] in auto)
    then show ?thesis using False by simp
  qed
  have "unat (fatval v 1) \<noteq> 0" "(of_nat c :: u16) \<noteq> 0" using eoc c(1) c16 by auto
  then show "free_clusters w = free_clusters v - {c}" using f ys(4) c(1) by (auto simp: free_clusters_def g(4) split: if_splits)
qed

end
