(* ===== verification/Fat16_Files.thy ===== *)
theory Fat16_Files
  imports Fat16_Props
begin

text \<open>
  Storing data in a chain of free clusters, and the theorems about files: what was added can be read back, other
  files stay as they are, and a volume without room is left as it was.
\<close>

section \<open>Adding data\<close>

lemma put_volume:
  assumes "volume cap v" and "cap \<le> 4294967295" and "c \<in> free_clusters v" and "length bs \<le> bpc v"
  shows "volume cap (put v c bs)" and "clusters (put v c bs) = clusters v" and "fatval (put v c bs) 1 = fatval v 1"
proof -
  have c: "2 \<le> c" "c < clusters v" using assms(3) by (auto simp: free_clusters_def)
  note p = put_ok [OF assms(1,2) c assms(4)]
  have "1 < clusters v" using c by simp
  then show f: "fatval (put v c bs) 1 = fatval v 1" by (rule p(2))
  show "volume cap (put v c bs)" using same_boot_volume [OF p(1) f] assms(1) by simp
  show "clusters (put v c bs) = clusters v" using same_boot_geometry [OF p(1)] by simp
qed

context disk_image
begin

lemma write_cluster_ok:
  assumes "good s" and "volume cap (img s)" and "c \<in> free_clusters (img s)" and "n \<le> bpc (img s)" and "apart p n priv"
  shows "\<exists>s1 s2. fat_get_cluster_addr d (of_nat c) s = Some (of_nat (data_at (img s) c), s1) \<and>
    disk_write d (of_nat (data_at (img s) c)) p (of_nat n) s1 = Some s2 \<and> good s2 \<and> mem_is priv (fm s) s2 \<and> img s2 = put (img s) c (rd (fm s) p n)"
proof -
  let ?a = "of_nat (data_at (img s) c) :: u32"
  have c: "2 \<le> c" "c < clusters (img s)" using assms(3) by (auto simp: free_clusters_def)
  note q = data_places [OF assms(2) c]
  have n: "n \<le> 4294967296" and u: "unat (of_nat n :: u32) = n" "unat ?a = data_at (img s) c"
    using q(2) cap_fits assms(4) by (simp_all add: unat_of_nat_less)
  from cluster_addr_ok [OF assms(1,2) c] obtain s1 where 1: "fat_get_cluster_addr d (of_nat c) s = Some (?a, s1)" "looks s s1" by blast
  then have v1: "good s1" "img s1 = img s" "mem_is priv (fm s) s1" by (simp_all add: looks_def)
  have le: "data_at (img s) c + n \<le> cap" using q(2) assms(4) by simp
  from write_law [OF v1(1), of ?a "of_nat n" p, unfolded u v1(2), OF le assms(5)] obtain s2 where
    2: "disk_write d ?a p (of_nat n) s1 = Some s2" "good s2" "img s2 = wr (img s) ?a (rd (fm s1) p n)" "mem_is priv (fm s1) s2" by blast
  have "rd (fm s1) p n = rd (fm s) p n" by (rule rd_cong) (use v1(3) assms(5) n in \<open>auto simp: mem_is_def apart_def\<close>)
  then show ?thesis using 1(1) 2 mem_is_trans [OF v1(3) 2(4)] by (auto simp: put_def)
qed

lemma add_step_ok:
  assumes "good s" and "volume cap (img s)" and "apart lv 2 priv" and "c \<in> free_clusters (img s)" and "n \<le> bpc (img s)"
    and "apart p n priv" and "ys = [] \<or> chain (img s) (hd ys) ys"
  shows "\<exists>s1 s2 s3 s4. fat_get_cluster_addr d (of_nat c) s = Some (of_nat (data_at (img s) c), s1) \<and>
    disk_write d (of_nat (data_at (img s) c)) p (of_nat n) s1 = Some s2 \<and>
    fat_update_cluster d lv (of_nat c) (fatval (img s) 1) s2 = Some s3 \<and>
    (if ys = [] then s4 = s3 else fat_update_cluster d lv (of_nat (last ys)) (of_nat c) s3 = Some s4) \<and>
    touches lv s s4 \<and> img s4 = append_cluster (img s) ys c (rd (fm s) p n)"
proof -
  let ?v = "img s" and ?bs = "rd (fm s) p n"
  have c: "2 \<le> c" "c < clusters ?v" using assms(4) by (auto simp: free_clusters_def)
  from write_cluster_ok [OF assms(1,2,4,5,6)] obtain s1 s2 where
    1: "fat_get_cluster_addr d (of_nat c) s = Some (of_nat (data_at ?v c), s1)"
      "disk_write d (of_nat (data_at ?v c)) p (of_nat n) s1 = Some s2" "good s2" "mem_is priv (fm s) s2" "img s2 = put ?v c ?bs" by blast
  have t2: "touches lv s s2" using 1(3,4) by (auto simp: touches_def mem_is_def)
  note v2 = put_volume [OF assms(2) cap_fits assms(4), of ?bs, unfolded length_rd, OF assms(5), folded 1(5)]
  from update_cluster_ok [OF 1(3) v2(1) c(1) _ assms(3), of "fatval ?v 1"] v2(2) c(2) obtain s3 where
    3: "fat_update_cluster d lv (of_nat c) (fatval ?v 1) s2 = Some s3" "touches lv s2 s3" "img s3 = set_fat (put ?v c ?bs) c (fatval ?v 1)"
    using 1(5) by auto
  note v3 = set_fat_volume [OF v2(1) c(1), of "fatval ?v 1", unfolded v2(2), OF c(2), unfolded 1(5), folded 3(3)]
  have g3: "good s3" using 3(2) by (simp add: touches_def)
  show ?thesis
  proof (cases "ys = []")
    case True
    then have "img s3 = append_cluster ?v ys c ?bs" using 3(3) by (simp add: append_cluster_def)
    then show ?thesis using 1 3 True touches_trans [OF t2 3(2)] by auto
  next
    case False
    then have l: "2 \<le> last ys" "last ys < clusters ?v" using chain_in [of ?v "hd ys" ys "last ys"] assms(7) by auto
    from update_cluster_ok [OF g3 v3(1) l(1) _ assms(3), of "of_nat c"] l(2) v3(2) v2(2) obtain s4 where
      4: "fat_update_cluster d lv (of_nat (last ys)) (of_nat c) s3 = Some s4" "touches lv s3 s4" "img s4 = set_fat (img s3) (last ys) (of_nat c)"
      by auto
    then have "img s4 = append_cluster ?v ys c ?bs" using 3(3) False by (simp add: append_cluster_def)
    moreover have "touches lv s s4" using t2 3(2) 4(2) touches_trans by blast
    ultimately show ?thesis using 1 3 4 False by auto
  qed
qed


end

text \<open>
  \<open>stored v w ys zs bs\<close>: from the image \<open>v\<close> to \<open>w\<close>, the chain \<open>ys\<close> was extended by the free clusters \<open>zs\<close>, which hold
  \<open>bs\<close>; everything else is as it was.
\<close>

definition stored :: "img \<Rightarrow> img \<Rightarrow> nat list \<Rightarrow> nat list \<Rightarrow> u8 list \<Rightarrow> bool" where
  "stored v w ys zs bs \<longleftrightarrow> same_boot w v \<and> fatval w 1 = fatval v 1 \<and> (ys @ zs = [] \<or> chain w (hd (ys @ zs)) (ys @ zs)) \<and>
     length bs \<le> length zs * bpc v \<and> take (length bs) (contents w zs) = bs \<and> set zs \<subseteq> free_clusters v \<and>
     (\<forall>j < clusters v. j \<notin> set zs \<longrightarrow> ys = [] \<or> j \<noteq> last ys \<longrightarrow> fatval w j = fatval v j) \<and>
     (\<forall>j < clusters v. 2 \<le> j \<longrightarrow> j \<notin> set zs \<longrightarrow> cluster w j = cluster v j)"

lemma stored_Nil: "ys = [] \<or> chain v (hd ys) ys \<Longrightarrow> stored v v ys [] []"
  by (auto simp: stored_def same_boot_def)

lemma stored_Cons:
  assumes "volume cap v" and "cap \<le> 4294967295" and "c \<in> free_clusters v" and "length b \<le> bpc v" and "ys = [] \<or> chain v (hd ys) ys"
    and st: "stored (append_cluster v ys c b) w (ys @ [c]) zs bs" and full: "bs = [] \<or> length b = bpc v"
  shows "stored v w ys (c # zs) (b @ bs)"
proof -
  let ?u = "append_cluster v ys c b"
  note a = append_cluster_ok [OF assms(1-5)]
  note g = same_boot_geometry [OF a(1)]
  have c: "2 \<le> c" "c < clusters v" using assms(3) by (auto simp: free_clusters_def)
  have fr: "set zs \<subseteq> free_clusters v - {c}" using st a(7) by (simp add: stored_def)
  have cc: "cluster w c = cluster ?u c" using st c fr by (auto simp: stored_def g)
  have "take (length b) (cluster w c) = b" using a(4) cc by simp
  moreover have "length (cluster w c) = bpc v" using st same_boot_geometry(3) [of w ?u] by (simp add: stored_def g)
  ultimately have "take (length (b @ bs)) (contents w (c # zs)) = b @ bs"
    using st full assms(4) by (auto simp: stored_def)
  moreover have "fatval ?u 1 = fatval v 1"
    using a(5) [of 1] c assms(5) chain_in [of v "hd ys" ys "last ys"] by (cases "ys = []") auto
  moreover have "length (b @ bs) \<le> length (c # zs) * bpc v" using st assms(4) by (simp add: stored_def g)
  moreover have "\<forall>j < clusters v. j \<notin> set (c # zs) \<longrightarrow> ys = [] \<or> j \<noteq> last ys \<longrightarrow> fatval w j = fatval v j"
    using st a(5) by (auto simp: stored_def g)
  moreover have "\<forall>j < clusters v. 2 \<le> j \<longrightarrow> j \<notin> set (c # zs) \<longrightarrow> cluster w j = cluster v j"
    using st a(6) by (auto simp: stored_def g)
  moreover have "same_boot w v" using st a(1) by (simp add: stored_def same_boot_def)
  ultimately show ?thesis using st fr assms(3) by (auto simp: stored_def)
qed

lemma find_free_cluster:
  assumes "0 < card (free_clusters v)"
  obtains c where "find (\<lambda>j. fatval v j = 0) [2..<clusters v] = Some c" and "c \<in> free_clusters v"
proof (cases "find (\<lambda>j. fatval v j = 0) [2..<clusters v]")
  case None
  then have "free_clusters v = {}" by (auto simp: find_None_iff free_clusters_def)
  then show ?thesis using assms by simp
next
  case (Some c)
  then have "c \<in> free_clusters v" by (auto simp: find_Some_iff free_clusters_def)
  with Some that show ?thesis by blast
qed

lemma finite_free [simp]: "finite (free_clusters v)"
  by (simp add: free_clusters_def)

context disk_image
begin

text \<open>The loop at a state where the chain \<open>ys\<close> holds what was stored so far.\<close>

definition add_loop :: "u32 \<Rightarrow> u32 \<Rightarrow> nat \<Rightarrow> u32 \<Rightarrow> nat list \<Rightarrow> fstate \<Rightarrow> (u16 \<times> fstate) option" where
  "add_loop lv fi n p ys s = add_data_loop d lv fi (of_nat (bpc (img s))) (fatval (img s) 1) p (p + of_nat n)
      (of_nat (if ys = [] then 0 else last ys)) (of_nat (if ys = [] then 0 else hd ys)) s"

lemma keep_source:
  assumes "touches lv s t" and "apart p n (priv \<union> block lv 2)" and "i + k \<le> n" and "n \<le> 4294967295"
  shows "rd (fm t) (p + of_nat i) k = rd (fm s) (p + of_nat i) k"
proof (rule rd_cong)
  show "fm t x = fm s x" if "x \<in> block (p + of_nat i) k" for x
    using that sub_block [OF assms(3,4), of p] assms(1,2) by (auto simp: touches_def mem_is_def apart_def)
qed (use assms(3,4) in simp)

lemma u16_index: "2 \<le> c \<Longrightarrow> c < 65536 \<Longrightarrow> (of_nat c :: u16) \<noteq> 0 \<and> (ucast (of_nat c :: u16) :: u32) = of_nat c"
proof -
  assume c: "2 \<le> c" "c < 65536"
  then have "unat (of_nat c :: u16) = c" by (simp add: unsigned_of_nat take_bit_nat_eq_self_iff)
  then show ?thesis using c by (auto simp: ucast16_of_nat)
qed

lemma add_loop_step:
  assumes "good s" and "volume cap (img s)" and "apart lv 2 priv" and "apart p n (priv \<union> block lv 2)" and "unat p + n \<le> 4294967295"
    and "ys = [] \<or> chain (img s) (hd ys) ys" and "0 < n" and "0 < card (free_clusters (img s))" and m_def: "m = min (bpc (img s)) n"
  shows "\<exists>c t. c \<in> free_clusters (img s) \<and> touches lv s t \<and> img t = append_cluster (img s) ys c (rd (fm s) p m) \<and>
    add_loop lv fi n p ys s = add_loop lv fi (n - m) (p + of_nat m) (ys @ [c]) t"
proof -
  let ?v = "img s" and ?b = "bpc (img s)"
  have m: "m \<le> ?b" "m \<le> n" by (auto simp: m_def)
  from assms(8) obtain c where c: "find (\<lambda>j. fatval ?v j = 0) [2..<clusters ?v] = Some c" "c \<in> free_clusters ?v" by (rule find_free_cluster)
  then have cb: "2 \<le> c" "c < 65536" "c < clusters ?v" using clusters_small [OF assms(2)] by (auto simp: free_clusters_def)
  note cu = u16_index [OF cb(1,2)]
  have bl: "?b \<le> 4294967295" using data_places(2) [OF assms(2) cb(1,3)] cap_fits by simp
  from find_free_ok [OF assms(1,2,3)] c(1) obtain s0 where
    0: "fat_find_free_cluster d lv s = Some (of_nat c, s0)" "touches lv s s0" "img s0 = ?v" by auto
  have g0: "good s0" using 0(2) by (simp add: touches_def)
  have r0: "rd (fm s0) p m = rd (fm s) p m" using keep_source [OF 0(2) assms(4), of 0 m] m(2) assms(5) by simp
  have ap: "apart p m priv" using assms(4) block_mono [OF m(2), of p] by (auto simp: apart_def)
  from add_step_ok [OF g0 _ assms(3) _ _ ap, of c ys] 0(3) assms(2,6) c(2) m(1) r0 obtain s1 s2 s3 t where
    1: "fat_get_cluster_addr d (of_nat c) s0 = Some (of_nat (data_at ?v c), s1)"
      "disk_write d (of_nat (data_at ?v c)) p (of_nat m) s1 = Some s2" "fat_update_cluster d lv (of_nat c) (fatval ?v 1) s2 = Some s3"
      "if ys = [] then t = s3 else fat_update_cluster d lv (of_nat (last ys)) (of_nat c) s3 = Some t" "touches lv s0 t"
    and t: "img t = append_cluster ?v ys c (rd (fm s) p m)"
    by auto
  note a = append_cluster_ok [OF assms(2) cap_fits c(2), of "rd (fm s) p m", unfolded length_rd, OF m(1) assms(6), folded t]
  have lu: "(of_nat (last ys) :: u16) \<noteq> 0 \<and> (ucast (of_nat (last ys) :: u16) :: u32) = of_nat (last ys)" if "ys \<noteq> []"
    using u16_index [of "last ys"] chain_in [of ?v "hd ys" ys "last ys"] clusters_small [OF assms(2)] that assms(6) by auto
  have f1: "fatval (img t) 1 = fatval ?v 1"
    using a(5) [of 1] cb assms(6) chain_in [of ?v "hd ys" ys "last ys"] by (cases "ys = []") auto
  have lt: "p < p + of_nat n" using unat_add_fits [of p n] assms(5,7) by (simp add: word_less_nat_alt)
  have df: "p + of_nat n - p = (of_nat n :: u32)" by simp
  have cnt: "(if of_nat n > (of_nat ?b :: u32) then of_nat ?b else of_nat n :: u32) = of_nat m"
    using unat_of_nat_less [of n] unat_of_nat_less [of ?b] assms(5) bl by (auto simp: m_def min_def word_less_nat_alt)
  have pend: "p + of_nat m + of_nat (n - m) = p + of_nat n" using m(2) by (simp add: of_nat_diff)
  have "add_loop lv fi n p ys s = add_loop lv fi (n - m) (p + of_nat m) (ys @ [c]) t"
    using lt 0(1) 1(1-4) cu lu f1 same_boot_geometry(3) [OF a(1)]
    unfolding add_loop_def pend add_data_loop.simps [of _ _ _ _ _ p] df cnt Let_def by (cases "ys = []") simp_all
  then show ?thesis using c(2) touches_trans [OF 0(2) 1(5)] t by blast
qed

lemma add_loop_ok:
  assumes "good s" and "volume cap (img s)" and "apart lv 2 priv" and "apart p n (priv \<union> block lv 2)" and "unat p + n \<le> 4294967295"
    and "ys = [] \<or> chain (img s) (hd ys) ys" and "n \<le> card (free_clusters (img s)) * bpc (img s)"
  shows "\<exists>zs s'. add_loop lv fi n p ys s = Some (of_nat (if ys @ zs = [] then 0 else hd (ys @ zs)), s') \<and>
      touches lv s s' \<and> stored (img s) (img s') ys zs (rd (fm s) p n)"
  using assms
proof (induction n arbitrary: p s ys rule: less_induct)
  case (less n)
  let ?v = "img s" and ?b = "bpc (img s)"
  show ?case
  proof (cases "n = 0")
    case True
    then show ?thesis using stored_Nil [OF less.prems(6)] less.prems(1)
      unfolding add_loop_def by (subst add_data_loop.simps) (auto intro!: exI [of _ "[]"] simp: touches_def)
  next
    case False
    define m where "m = min ?b n"
    have "0 < ?b" using less.prems(2) by (simp add: volume_def bpc_def)
    then have m: "m \<le> ?b" "m \<le> n" "0 < m" "m = n \<or> m = ?b" using False by (auto simp: m_def)
    have "0 < card (free_clusters ?v)" using less.prems(7) False by (cases "card (free_clusters ?v)") auto
    from add_loop_step [OF less.prems(1-6) _ this m_def] False obtain c t where
      c: "c \<in> free_clusters ?v" "touches lv s t" "img t = append_cluster ?v ys c (rd (fm s) p m)"
        "add_loop lv fi n p ys s = add_loop lv fi (n - m) (p + of_nat m) (ys @ [c]) t" by blast
    note a = append_cluster_ok [OF less.prems(2) cap_fits c(1), of "rd (fm s) p m", unfolded length_rd, OF m(1) less.prems(6), folded c(3)]
    have "\<exists>zs s'. add_loop lv fi (n - m) (p + of_nat m) (ys @ [c]) t = Some (of_nat (if (ys @ [c]) @ zs = [] then 0 else hd ((ys @ [c]) @ zs)), s') \<and>
      touches lv t s' \<and> stored (img t) (img s') (ys @ [c]) zs (rd (fm t) (p + of_nat m) (n - m))"
    proof (rule less.IH)
      show "apart (p + of_nat m) (n - m) (priv \<union> block lv 2)"
        using less.prems(4,5) sub_block [of m "n - m" n p] m(2) by (auto simp: apart_def)
      show "unat (p + of_nat m) + (n - m) \<le> 4294967295" using unat_add_fits [of p m] less.prems(5) m(2) by simp
      show "ys @ [c] = [] \<or> chain (img t) (hd (ys @ [c])) (ys @ [c])" using a(3) by simp
      show "n - m \<le> card (free_clusters (img t)) * bpc (img t)" using less.prems(7) m(4) c(1) same_boot_geometry(3) [OF a(1)]
        by (auto simp: a(7) card_Diff_singleton diff_mult_distrib)
    qed (use m c(2) a(2) less.prems(3) in \<open>auto simp: touches_def\<close>)
    then obtain zs s' where 2: "add_loop lv fi n p ys s = Some (of_nat (hd (ys @ c # zs)), s')" "touches lv t s'"
      "stored (append_cluster ?v ys c (rd (fm s) p m)) (img s') (ys @ [c]) zs (rd (fm s) (p + of_nat m) (n - m))"
      using c(3,4) keep_source [OF c(2) less.prems(4), of m "n - m"] m(2) less.prems(5) by auto
    have "stored ?v (img s') ys (c # zs) (rd (fm s) p n)"
      using stored_Cons [OF less.prems(2) cap_fits c(1) _ less.prems(6) 2(3)] m rd_append [of "fm s" p m "n - m"] by auto
    then show ?thesis using 2 touches_trans [OF c(2) 2(2)] by (intro exI [of _ "c # zs"] exI [of _ s']) simp
  qed
qed


lemma add_data_start:
  assumes "good s" and "volume cap (img s)" and "apart lv 2 priv" and "0 < n" and "n \<le> 4294967295"
  shows "\<exists>t. fat_add_data d lv fi p (of_nat n) s = add_loop lv fi n p [] t \<and> touches lv s t \<and> img t = img s"
proof -
  from assms(1,2) obtain q s1 where b: "with_bpb d s = Some (q, s1)" "looks s s1" "good s1" "volume cap (img s1)" "rd (fm s1) q 62 = rd (img s) 0 62"
    "img s1 = img s" by (rule bpbE)
  have bc: "sectorsPerCluster (fm s1) q * bytesPerSector (fm s1) q = of_nat (bpc (img s))"
    by (simp add: boot_fields [OF b(5)] bpc_def bps_def spc_def)
  have n0: "(of_nat n :: u32) \<noteq> 0" using assms(4,5) unat_of_nat_less [of n] by (auto simp: word_unat_eq_iff)
  from get_cluster_value_ok [OF b(3,4), of 1 lv] b(6) assms(2,3) obtain t where
    t: "fat_get_cluster_value d lv 1 s1 = Some (fatval (img s) 1, t)" "touches lv s1 t" "img t = img s" by (auto simp: volume_def)
  then have "fat_add_data d lv fi p (of_nat n) s = add_loop lv fi n p [] t"
    using b(1) n0 bc by (simp add: fat_add_data_def add_loop_def Let_def)
  then show ?thesis using t(2,3) touches_trans [OF looks_touches [OF b(2)]] by blast
qed

lemma add_data_ok:
  assumes "good s" and "volume cap (img s)" and "apart lv 2 priv" and "apart p n (priv \<union> block lv 2)" and "unat p + n \<le> 4294967295"
    and "0 < n" and "n \<le> card (free_clusters (img s)) * bpc (img s)"
  shows "\<exists>zs s'. fat_add_data d lv fi p (of_nat n) s = Some (of_nat (hd zs), s') \<and> zs \<noteq> [] \<and>
      touches lv s s' \<and> stored (img s) (img s') [] zs (rd (fm s) p n)"
proof -
  from add_data_start [OF assms(1-3,6), of fi p] assms(5) obtain t where
    t: "fat_add_data d lv fi p (of_nat n) s = add_loop lv fi n p [] t" "touches lv s t" "img t = img s" by auto
  then have g: "good t" by (simp add: touches_def)
  from add_loop_ok [OF g _ assms(3,4,5), of "[]" fi, unfolded append_Nil t(3), OF assms(2) disjI1 [OF refl] assms(7)] obtain zs s' where
    z: "add_loop lv fi n p [] t = Some (of_nat (if zs = [] then 0 else hd zs), s')" "touches lv t s'" "stored (img s) (img s') [] zs (rd (fm t) p n)"
    by blast
  have r: "rd (fm t) p n = rd (fm s) p n" using keep_source [OF t(2) assms(4), of 0 n] assms(5) by simp
  have "zs \<noteq> []" using z(3) assms(6) by (auto simp: stored_def)
  then show ?thesis using t(1) z touches_trans [OF t(2) z(2)] unfolding r by auto
qed

section \<open>Removing data\<close>

lemma remove_loop_ok:
  assumes "good s" and "volume cap (img s)" and "apart lv 2 priv" and "chain (img s) h xs"
  shows "\<exists>s'. remove_data_loop d lv fi (fatval (img s) 1) (of_nat h) s = Some s' \<and> touches lv s s' \<and> same_boot (img s') (img s) \<and>
    (\<forall>j < clusters (img s). fatval (img s') j = (if j \<in> set xs then ucast fi else fatval (img s) j) \<and>
       (2 \<le> j \<longrightarrow> cluster (img s') j = cluster (img s) j))"
  using assms
proof (induction xs arbitrary: h s)
  case Nil
  have "of_nat h = (ucast (fatval (img s) 1) :: u32)" using Nil.prems(4) by (simp only: chain.simps ucast16_of_nat)
  then have "remove_data_loop d lv fi (fatval (img s) 1) (of_nat h) s = Some s" by (subst remove_data_loop.simps) simp
  then show ?case using Nil.prems(1) by (simp add: touches_def same_boot_def)
next
  case (Cons x xs)
  let ?v = "img s"
  have x: "h = x" "2 \<le> x" "x < clusters ?v" "chain ?v (unat (fatval ?v x)) xs" using Cons.prems(4) by simp_all
  have eoc: "clusters ?v \<le> unat (fatval ?v 1)" "1 < clusters ?v" using Cons.prems(2) by (auto simp: volume_def)
  have go: "(of_nat x :: u32) \<noteq> ucast (fatval ?v 1)"
    using x(3) eoc clusters_small [OF Cons.prems(2)] unat_of_nat_less [of x] by (auto simp: word_unat_eq_iff unat_ucast16)
  from get_cluster_value_ok [OF Cons.prems(1,2) x(3) Cons.prems(3)] obtain s1 where
    1: "fat_get_cluster_value d lv (of_nat x) s = Some (fatval ?v x, s1)" "touches lv s s1" "img s1 = ?v" by blast
  have g1: "good s1" "volume cap (img s1)" using 1 Cons.prems(2) by (simp_all add: touches_def)
  from update_cluster_ok [OF g1 x(2) _ Cons.prems(3), of "ucast fi"] 1(3) x(3) obtain s2 where
    2: "fat_update_cluster d lv (of_nat x) (ucast fi) s1 = Some s2" "touches lv s1 s2" "img s2 = set_fat ?v x (ucast fi)" by auto
  have g2: "good s2" using 2(2) by (simp add: touches_def)
  note v2 = set_fat_volume [OF Cons.prems(2) x(2,3), of "ucast fi", folded 2(3)]
  note f2 = set_fat_ok [OF Cons.prems(2) cap_fits x(3), where x = "ucast fi", folded 2(3)]
  have "x \<notin> set xs" using chain_distinct [OF Cons.prems(2,4)] by simp
  then have "fatval (img s2) z = fatval ?v z" if "z \<in> set xs" for z using f2(2) [of z] chain_in [OF x(4) that] that by auto
  then have ch2: "chain (img s2) (unat (fatval ?v x)) xs"
    using chain_cong [of xs "img s2" ?v "unat (fatval ?v x)"] x(2,4) f2(2) [of 1] v2(2) eoc(2) by simp
  have e2: "fatval (img s2) 1 = fatval ?v 1" using f2(2) [of 1] x(2) eoc(2) by simp
  from Cons.IH [OF g2 v2(1) Cons.prems(3) ch2, unfolded e2 v2(2)] obtain s3 where 3: "remove_data_loop d lv fi (fatval ?v 1) (of_nat (unat (fatval ?v x))) s2 = Some s3" "touches lv s2 s3"
    "same_boot (img s3) (img s2)" "\<forall>j < clusters ?v. fatval (img s3) j = (if j \<in> set xs then ucast fi else fatval (img s2) j) \<and>
       (2 \<le> j \<longrightarrow> cluster (img s3) j = cluster (img s2) j)"
    by blast
  have "remove_data_loop d lv fi (fatval ?v 1) (of_nat h) s = Some s3"
    unfolding x(1) using go 1(1) 2(1) 3(1) by (subst remove_data_loop.simps) simp
  moreover have "touches lv s s3" using 1(2) 2(2) 3(2) touches_trans by blast
  moreover have "same_boot (img s3) ?v" using 3(3) f2(1) by (simp add: same_boot_def)
  ultimately show ?case using 3(4) f2(2,3) \<open>x \<notin> set xs\<close> by auto
qed

lemma remove_data_ok:
  assumes "good s" and "volume cap (img s)" and "apart lv 2 priv" and "chain (img s) h xs" and "xs \<noteq> []"
  shows "\<exists>s'. fat_remove_data d lv fi (of_nat h) s = Some s' \<and> touches lv s s' \<and> same_boot (img s') (img s) \<and>
    (\<forall>j < clusters (img s). fatval (img s') j = (if j \<in> set xs then ucast fi else fatval (img s) j) \<and>
       (2 \<le> j \<longrightarrow> cluster (img s') j = cluster (img s) j))"
proof -
  have h: "2 \<le> h" "h < 65536" using assms(4,5) clusters_small [OF assms(2)] by (cases xs; auto)+
  then have h0: "(of_nat h :: u32) \<noteq> 0" using unat_of_nat_less [of h] by (auto simp: word_unat_eq_iff)
  from get_cluster_value_ok [OF assms(1,2), of 1 lv] assms(2,3) obtain t where
    t: "fat_get_cluster_value d lv 1 s = Some (fatval (img s) 1, t)" "touches lv s t" "img t = img s" by (auto simp: volume_def)
  then have "good t" by (simp add: touches_def)
  from remove_loop_ok [OF this, of lv h xs fi] t assms obtain s' where
    "remove_data_loop d lv fi (fatval (img s) 1) (of_nat h) t = Some s'" "touches lv t s'" "same_boot (img s') (img s)"
    "\<forall>j < clusters (img s). fatval (img s') j = (if j \<in> set xs then ucast fi else fatval (img s) j) \<and>
       (2 \<le> j \<longrightarrow> cluster (img s') j = cluster (img s) j)" by auto
  then show ?thesis using t h0 touches_trans [OF t(2)] by (auto simp: fat_remove_data_def)
qed


section \<open>No room\<close>

lemma add_loop_none_free:
  assumes "good s" and "volume cap (img s)" and "apart lv 2 priv" and "unat p + n \<le> 4294967295" and "0 < n"
    and "ys = [] \<or> chain (img s) (hd ys) ys" and fr: "free_clusters (img s) = {}"
  shows "\<exists>s'. add_loop lv fi n p ys s = Some (0, s') \<and> touches lv s s' \<and> same_boot (img s') (img s) \<and>
    (\<forall>j < clusters (img s). fatval (img s') j = (if j \<in> set ys then ucast fi else fatval (img s) j) \<and>
       (2 \<le> j \<longrightarrow> cluster (img s') j = cluster (img s) j))"
proof -
  let ?v = "img s"
  have "find (\<lambda>j. fatval ?v j = 0) [2..<clusters ?v] = None" using fr by (auto simp: find_None_iff free_clusters_def)
  with find_free_ok [OF assms(1-3)] obtain t where
    t: "fat_find_free_cluster d lv s = Some (0, t)" "touches lv s t" "img t = ?v" by auto
  have lt: "p < p + of_nat n" using unat_add_fits [of p n] assms(4,5) by (simp add: word_less_nat_alt)
  show ?thesis
  proof (cases "ys = []")
    case True
    then have "add_loop lv fi n p ys s = Some (0, t)" using lt t(1) unfolding add_loop_def by (subst add_data_loop.simps) simp
    then show ?thesis using t True by (simp add: same_boot_def)
  next
    case False
    then have ch: "chain ?v (hd ys) ys" "2 \<le> hd ys" "hd ys < 65536"
      using assms(6) chain_in [of ?v "hd ys" ys "hd ys"] clusters_small [OF assms(2)] by auto
    have g: "good t" using t(2) by (simp add: touches_def)
    from remove_data_ok [OF g, of lv "hd ys" ys fi] t(3) assms(2,3) ch(1) False obtain s' where
      r: "fat_remove_data d lv fi (of_nat (hd ys)) t = Some s'" "touches lv t s'" "same_boot (img s') ?v"
        "\<forall>j < clusters ?v. fatval (img s') j = (if j \<in> set ys then ucast fi else fatval ?v j) \<and> (2 \<le> j \<longrightarrow> cluster (img s') j = cluster ?v j)" by auto
    have "add_loop lv fi n p ys s = Some (0, s')"
      using lt t(1) r(1) u16_index [OF ch(2,3)] False unfolding add_loop_def by (subst add_data_loop.simps) simp
    then show ?thesis using r touches_trans [OF t(2) r(2)] by auto
  qed
qed

lemma add_loop_full:
  assumes "good s" and "volume cap (img s)" and "apart lv 2 priv" and "apart p n (priv \<union> block lv 2)" and "unat p + n \<le> 4294967295"
    and "ys = [] \<or> chain (img s) (hd ys) ys" and "n > card (free_clusters (img s)) * bpc (img s)"
  shows "\<exists>s'. add_loop lv fi n p ys s = Some (0, s') \<and> touches lv s s' \<and> same_boot (img s') (img s) \<and>
    (\<forall>j < clusters (img s). fatval (img s') j = (if j \<in> set ys \<or> j \<in> free_clusters (img s) then ucast fi else fatval (img s) j) \<and>
       (2 \<le> j \<longrightarrow> j \<notin> free_clusters (img s) \<longrightarrow> cluster (img s') j = cluster (img s) j))"
  using assms
proof (induction "card (free_clusters (img s))" arbitrary: n p s ys)
  case 0
  then have "free_clusters (img s) = {}" by simp
  then show ?case using add_loop_none_free [OF "0.prems"(1-3,5) _ "0.prems"(6)] "0.prems"(7) by simp
next
  case (Suc k)
  let ?v = "img s" and ?b = "bpc (img s)"
  define m where "m = min ?b n"
  have "?b \<le> Suc k * ?b" by simp
  also have "\<dots> < n" using Suc.prems(7) unfolding Suc.hyps(2) .
  finally have m: "m = ?b" "m \<le> n" "0 < n" by (simp_all add: m_def)
  from add_loop_step [OF Suc.prems(1-6) m(3) _ m_def] Suc.hyps(2) obtain c t where
    c: "c \<in> free_clusters ?v" "touches lv s t" "img t = append_cluster ?v ys c (rd (fm s) p m)"
      "add_loop lv fi n p ys s = add_loop lv fi (n - m) (p + of_nat m) (ys @ [c]) t" by (metis zero_less_Suc)
  have ml: "length (rd (fm s) p m) \<le> ?b" using m(1) by simp
  note a = append_cluster_ok [OF Suc.prems(2) cap_fits c(1) ml Suc.prems(6), folded c(3)]
  note g = same_boot_geometry [OF a(1)]
  have "card (free_clusters (img t)) = k" using Suc.hyps(2) c(1) by (simp add: a(7) card_Diff_singleton)
  then have "\<exists>s'. add_loop lv fi (n - m) (p + of_nat m) (ys @ [c]) t = Some (0, s') \<and> touches lv t s' \<and> same_boot (img s') (img t) \<and>
    (\<forall>j < clusters (img t). fatval (img s') j = (if j \<in> set (ys @ [c]) \<or> j \<in> free_clusters (img t) then ucast fi else fatval (img t) j) \<and>
       (2 \<le> j \<longrightarrow> j \<notin> free_clusters (img t) \<longrightarrow> cluster (img s') j = cluster (img t) j))"
  proof (intro Suc.hyps(1))
    show "apart (p + of_nat m) (n - m) (priv \<union> block lv 2)"
      using Suc.prems(4,5) sub_block [of m "n - m" n p] m(2) by (auto simp: apart_def)
    show "unat (p + of_nat m) + (n - m) \<le> 4294967295" using unat_add_fits [of p m] Suc.prems(5) m(2) by simp
    show "ys @ [c] = [] \<or> chain (img t) (hd (ys @ [c])) (ys @ [c])" using a(3) by simp
    show "card (free_clusters (img t)) * bpc (img t) < n - m"
      using Suc.prems(7) \<open>card (free_clusters (img t)) = k\<close> m(1) g(3) unfolding Suc.hyps(2) [symmetric] by simp
  qed (use c(2) a(2) Suc.prems(3) in \<open>auto simp: touches_def\<close>)
  then obtain s' where 2: "add_loop lv fi n p ys s = Some (0, s')" "touches lv t s'" "same_boot (img s') (img t)"
    "\<forall>j < clusters ?v. fatval (img s') j = (if j \<in> set (ys @ [c]) \<or> j \<in> free_clusters ?v - {c} then ucast fi else fatval (img t) j) \<and>
       (2 \<le> j \<longrightarrow> j \<notin> free_clusters ?v - {c} \<longrightarrow> cluster (img s') j = cluster (img t) j)"
    unfolding a(7) g c(4) by blast
  have "same_boot (img s') ?v" using 2(3) a(1) by (simp add: same_boot_def)
  moreover have "fatval (img t) j = fatval ?v j" if "j < clusters ?v" "j \<noteq> c" "j \<notin> set ys" for j
    using a(5) [of j] last_in_set [of ys] that by blast
  then have "\<forall>j < clusters ?v. fatval (img s') j = (if j \<in> set ys \<or> j \<in> free_clusters ?v then ucast fi else fatval ?v j) \<and>
       (2 \<le> j \<longrightarrow> j \<notin> free_clusters ?v \<longrightarrow> cluster (img s') j = cluster ?v j)"
    using 2(4) a(6) c(1) by auto
  ultimately show ?case using 2(1) touches_trans [OF c(2) 2(2)] by blast
qed


section \<open>Formatting\<close>

lemma format_loop_ok:
  assumes "good s" and "volume cap (img s)" and "apart lv 2 priv" and "2 \<le> i" and "i + n \<le> clusters (img s)"
  shows "\<exists>s'. format_loop n d lv (of_nat i) s = Some s' \<and> touches lv s s' \<and> same_boot (img s') (img s) \<and>
    (\<forall>j < clusters (img s). fatval (img s') j = (if i \<le> j \<and> j < i + n then 0 else fatval (img s) j))"
  using assms
proof (induction n arbitrary: i s)
  case 0
  then show ?case by (auto simp: touches_def same_boot_def)
next
  case (Suc n)
  have i: "i < clusters (img s)" using Suc.prems(5) by simp
  from update_cluster_ok [OF Suc.prems(1,2,4) i Suc.prems(3), of 0] obtain t where
    t: "fat_update_cluster d lv (of_nat i) 0 s = Some t" "touches lv s t" "img t = set_fat (img s) i 0" by blast
  note v = set_fat_volume [OF Suc.prems(2,4) i, of 0, folded t(3)] and f = set_fat_ok [OF Suc.prems(2) cap_fits i, where x = 0, folded t(3)]
  have "good t" using t(2) by (simp add: touches_def)
  from Suc.IH [OF this v(1) Suc.prems(3), of "Suc i", unfolded v(2)] Suc.prems(4,5) obtain s' where
    s': "format_loop n d lv (of_nat (Suc i)) t = Some s'" "touches lv t s'" "same_boot (img s') (img t)"
      "\<forall>j < clusters (img s). fatval (img s') j = (if Suc i \<le> j \<and> j < Suc i + n then 0 else fatval (img t) j)" by auto
  have "format_loop (Suc n) d lv (of_nat i) s = Some s'" using t(1) s'(1) by (simp add: add.commute)
  moreover have "same_boot (img s') (img s)" using s'(3) f(1) by (simp add: same_boot_def)
  moreover have "\<forall>j < clusters (img s). fatval (img s') j = (if i \<le> j \<and> j < i + Suc n then 0 else fatval (img s) j)"
    using s'(4) f(2) by auto
  ultimately show ?case using touches_trans [OF t(2) s'(2)] by blast
qed

lemma format_ok:
  assumes "good s" and "apart lv 2 priv" and "apart bpb 512 priv" and "block bpb 512 \<inter> block lv 2 = {}"
    and "bytesPerSector (fm s) bpb = 512" and "fm s (bpb + 0x1fe) = 0x55" and "fm s (bpb + 0x1ff) = 0xaa"
    and "volume cap (wr (img s) 0 (rd (fm s) bpb 512))" and "512 \<le> cap"
  shows "\<exists>s'. fat_format d lv bpb s = Some (True, s') \<and> touches lv s s' \<and> volume cap (img s') \<and>
    same_boot (img s') (wr (img s) 0 (rd (fm s) bpb 512)) \<and> free_clusters (img s') = {2..<clusters (img s')} \<and> fatval (img s') 1 = 0xFFFF"
proof -
  let ?v = "wr (img s) 0 (rd (fm s) bpb 512)"
  from write_law [OF assms(1), of 0 512 bpb] assms(3,9) obtain s1 where
    1: "disk_write d 0 bpb 512 s = Some s1" "good s1" "img s1 = ?v" "mem_is priv (fm s) s1" by auto
  have t1: "touches lv s s1" using 1(2,4) by (auto simp: touches_def mem_is_def)
  have vol1: "volume cap (img s1)" using assms(8) 1(3) by simp
  from cluster_count_ok [OF 1(2) vol1] obtain s2 where
    2: "fat_get_cluster_count d s1 = Some (of_nat (clusters ?v), s2)" "looks s1 s2" unfolding 1(3) by blast
  have v2: "good s2" "img s2 = ?v" "volume cap (img s2)" using 2(2) 1(3) vol1 by (simp_all add: looks_def)
  have n: "2 \<le> clusters ?v" "clusters ?v < 65536" using vol1 clusters_small [OF vol1] 1(3) by (simp_all add: volume_def)
  let ?x = "0xff00 OR ucast (mediaType (fm s2) bpb) :: u16"
  from update_cluster_gen [OF v2(1,3) _ _ assms(2), of 0 ?x] n v2(2) obtain s3 where
    3: "fat_update_cluster d lv 0 ?x s2 = Some s3" "touches lv s2 s3" "img s3 = set_fat ?v 0 ?x" by auto
  note v3 = set_fat_volume_gen [OF v2(3), of 0 ?x, unfolded v2(2), folded 3(3)]
  have n3: "clusters (img s3) = clusters ?v" "volume cap (img s3)" using v3 n by simp_all
  have g3: "good s3" using 3(2) by (simp add: touches_def)
  have ff: "unat (0xffff :: u16) = 65535" by simp
  from update_cluster_gen [OF g3 n3(2) _ _ assms(2), of 1 "0xffff"] n n3(1) ff obtain s4 where
    4: "fat_update_cluster d lv 1 0xffff s3 = Some s4" "touches lv s3 s4" "img s4 = set_fat (img s3) 1 0xffff" by auto
  have g4: "good s4" using 4(2) by (simp add: touches_def)
  have v4: "volume cap (img s4)" "clusters (img s4) = clusters ?v"
    using set_fat_volume_gen [OF n3(2), of 1 "0xffff", folded 4(3)] n n3(1) ff by simp_all
  have e: "2 + (clusters ?v - 2) = clusters ?v" using n(1) by simp
  from format_loop_ok [OF g4 v4(1) assms(2) order_refl, of "clusters ?v - 2", unfolded v4(2) e, OF order_refl] obtain s5 where
    5: "format_loop (clusters ?v - 2) d lv 2 s4 = Some s5" "touches lv s4 s5" "same_boot (img s5) (img s4)"
      "\<forall>j < clusters ?v. fatval (img s5) j = (if 2 \<le> j then 0 else fatval (img s4) j)" by auto
  have "fat_format d lv bpb s = Some (True, s5)"
    using assms(5,6,7) 1(1) 2(1) 3(1) 4(1) 5(1) n unat_of_nat_less [of "clusters ?v"] by (simp add: fat_format_def word_le_nat_alt)
  moreover have "touches lv s s5" using t1 looks_touches [OF 2(2)] 3(2) 4(2) 5(2) touches_trans by blast
  moreover have b: "same_boot (img s5) ?v"
    using 5(3) set_fat_ok(1) [OF n3(2) cap_fits, of 1 "0xffff", folded 4(3)] set_fat_ok(1) [OF v2(3) cap_fits, of 0 ?x, unfolded v2(2), folded 3(3)] n n3(1)
    by (simp add: same_boot_def)
  moreover have f1: "fatval (img s5) 1 = 0xFFFF"
    using 5(4) set_fat_ok(2) [OF n3(2) cap_fits, of 1 1 "0xffff", folded 4(3)] n n3(1) by simp
  moreover have "volume cap (img s5)"
    using same_boot_geometry [OF b] same_boot_fields [OF b] assms(8) f1 n(2) by (simp add: volume_def)
  moreover have "free_clusters (img s5) = {2..<clusters (img s5)}"
    using 5(4) same_boot_geometry(4) [OF b] by (auto simp: free_clusters_def)
  ultimately show ?thesis by blast
qed

end

end
