(* ===== verification/Fat16_Claims.thy ===== *)
theory Fat16_Claims
  imports Fat16_Files
begin

text \<open>
  The properties of the FAT16 file system on the disk in memory, which is the one that \<^verbatim>\<open>new_fat16\<close> creates.
  \<open>sep\<close> says that a buffer is neither on the disk nor at the local variable.
\<close>

definition on_disk :: "u32 \<Rightarrow> nat \<Rightarrow> bool" where
  "on_disk base cap \<longleftrightarrow> base \<noteq> 0 \<and> unat base + cap \<le> 4294967296"

definition sep :: "u32 \<Rightarrow> nat \<Rightarrow> u32 \<Rightarrow> u32 \<Rightarrow> nat \<Rightarrow> bool" where
  "sep base cap lv a n \<longleftrightarrow> block a n \<inter> block base cap = {} \<and> block a n \<inter> block lv 2 = {} \<and> unat a + n \<le> 4294967295"

lemma mem_cap_on_disk: "on_disk base cap \<Longrightarrow> mem_cap base cap = cap"
  by (auto simp: on_disk_def mem_cap_def)

lemma sep_apart: "sep base cap lv a n \<Longrightarrow> apart a n (block base cap \<union> block lv 2)"
  by (auto simp: sep_def apart_def)

section \<open>A new volume\<close>

definition new_boot :: "u16 \<Rightarrow> u8 list" where
  "new_boot n = new_bpb n @ replicate 448 0 @ [0x55, 0xaa]"

lemma length_new_bpb [simp]: "length (new_bpb n) = 62"
  by (simp add: new_bpb_def bytes16_def bytes32_def bytes_def)


lemma new_boot_at: "k < 62 \<Longrightarrow> wr v 0 (new_boot n) (of_nat k) = new_bpb n ! k"
  using wr_at [of k "new_boot n" v 0] by (simp add: new_boot_def nth_append)

lemma new_boot_fields:
  fixes u
  defines "v \<equiv> wr u 0 (new_boot 128)"
  shows "bytesPerSector v 0 = 512" "sectorsPerCluster v 0 = 1" "reservedSectorCount v 0 = 4" "fatCount v 0 = 2" "rootEntryCount v 0 = 512"
    "sectorCount v 0 = 128" "sectorsPerFat v 0 = 20"
  using new_boot_at [of 11 u 128] new_boot_at [of 12 u 128] new_boot_at [of 13 u 128] new_boot_at [of 14 u 128] new_boot_at [of 15 u 128]
    new_boot_at [of 16 u 128] new_boot_at [of 17 u 128] new_boot_at [of 18 u 128] new_boot_at [of 19 u 128] new_boot_at [of 20 u 128]
    new_boot_at [of 22 u 128] new_boot_at [of 23 u 128]
  by (simp_all add: v_def bytesPerSector_def sectorsPerCluster_def reservedSectorCount_def fatCount_def rootEntryCount_def
      sectorCount_def sectorsPerFat_def load16_def new_bpb_def bytes16_def bytes_def)

lemma new_boot_geometry:
  fixes u
  defines "v \<equiv> wr u 0 (new_boot 128)"
  shows "bps v = 512" "spc v = 1" "bpc v = 512" "meta v = 76" "total v = 128" "clusters v = 52" "fat_at v i = 2048 + 2 * i" "root_at v = 22528"
    "data_at v i = 38912 + (i - 2) * 512"
  using new_boot_fields [of u]
  by (simp_all add: v_def bps_def spc_def bpc_def meta_def total_def clusters_def fat_at_def root_at_def data_at_def)




section \<open>Files\<close>

lemma add_on_disk:
  assumes "on_disk base cap" and "volume cap (mem_img base cap s)" and "sep base cap lv src n" and "block lv 2 \<inter> block base cap = {}"
    and "0 < n" and "n \<le> card (free_clusters (mem_img base cap s)) * bpc (mem_img base cap s)"
  shows "\<exists>zs s'. fat_add_data (mem_disk base) lv fi src (of_nat n) s = Some (of_nat (hd zs), s') \<and> zs \<noteq> [] \<and>
    mem_is (block base cap \<union> block lv 2) (fm s) s' \<and> stored (mem_img base cap s) (mem_img base cap s') [] zs (rd (fm s) src n)"
  using mdisk.add_data_ok [where base = base and cap = cap and s = s and lv = lv and p = src and n = n and fi = fi,
      unfolded mdisk.touches_def, unfolded mem_cap_on_disk [OF assms(1)]] assms sep_apart [OF assms(3)]
  by (simp add: sep_def apart_def)

lemma read_on_disk:
  assumes "on_disk base cap" and "volume cap (mem_img base cap s)" and "sep base cap lv dst n" and "block lv 2 \<inter> block base cap = {}"
    and "chain (mem_img base cap s) h xs" and "xs \<noteq> []" and "n \<le> length xs * bpc (mem_img base cap s)"
  shows "\<exists>s'. fat_read_data (mem_disk base) lv (of_nat h) dst (of_nat n) 0 s = Some (of_nat n, s') \<and>
    rd (fm s') dst n = take n (contents (mem_img base cap s) xs)"
  using mdisk.read_data_ok [where base = base and cap = cap and s = s and lv = lv and h = h and xs = xs and dst = dst and len = n,
      unfolded mem_cap_on_disk [OF assms(1)]] assms sep_apart [OF assms(3)]
  by (auto simp: apart_def)

lemma stored_facts:
  assumes "volume cap v" and "cap \<le> 4294967295" and "stored v w [] zs bs" and "zs \<noteq> []"
  shows "volume cap w" and "2 \<le> hd zs" and "hd zs < 65536" and "chain w (hd zs) zs" and "length bs \<le> length zs * bpc w"
    and "take (length bs) (contents w zs) = bs"
proof -
  have b: "same_boot w v" "fatval w 1 = fatval v 1" using assms(3) by (simp_all add: stored_def)
  show "volume cap w" using same_boot_volume [OF b] assms(1) by simp
  show ch: "chain w (hd zs) zs" "take (length bs) (contents w zs) = bs" using assms(3,4) by (simp_all add: stored_def)
  show "length bs \<le> length zs * bpc w" using assms(3) same_boot_geometry(3) [OF b(1)] by (simp add: stored_def)
  have "hd zs \<in> free_clusters v" using assms(3,4) by (auto simp: stored_def)
  moreover have "clusters v < 65536" using assms(1) unsigned_less [of "fatval v 1", where ?'a = nat] by (simp add: volume_def)
  ultimately show "2 \<le> hd zs" "hd zs < 65536" by (auto simp: free_clusters_def)
qed

lemma on_disk_cap: "on_disk base cap \<Longrightarrow> cap \<le> 4294967295"
  using unat_gt_0 [of base] by (auto simp: on_disk_def)

lemma ucast_cluster: "h < 65536 \<Longrightarrow> ucast (of_nat h :: u16) = (of_nat h :: u32)"
  using take_bit_nat_eq_self [of h 16] by (simp add: ucast16_of_nat unsigned_of_nat)

lemma chain_kept:
  assumes "volume cap v" and "stored v w [] zs bs" and "chain v h xs"
  shows "chain w h xs" and "contents w xs = contents v xs"
proof -
  have "j \<notin> set zs" if "j \<in> set xs" for j
    using chain_nonzero [OF assms(1,3) that] assms(2) by (auto simp: stored_def free_clusters_def)
  then have "fatval w j = fatval v j \<and> cluster w j = cluster v j" if "j \<in> set xs" for j
    using chain_in [OF assms(3) that] assms(2) that by (auto simp: stored_def)
  moreover have "clusters w = clusters v" "fatval w 1 = fatval v 1" using assms(2) same_boot_geometry(4) by (auto simp: stored_def)
  ultimately show "chain w h xs" "contents w xs = contents v xs"
    using chain_cong [of xs w v h] assms(3) by (auto simp: contents_def intro!: arg_cong [where f = concat])
qed


section \<open>An example\<close>

text \<open>A volume of 64 KiB at \<^verbatim>\<open>0x10000\<close> with one file, which has the cluster 2 and is full of zeros.\<close>

definition demo_img :: img where
  "demo_img = wr (wr (\<lambda>_. 0) 0 (new_boot 128)) (of_nat 2048) [0xf8, 0xff, 0xff, 0xff, 0xff, 0xff]"

definition demo_state :: fstate where
  "demo_state = \<lparr>dv = zero_dstate\<lparr>pmem := \<lambda>a. demo_img (a - 0x10000)\<rparr>, interrupted = False, motor_ticks = 0, motor_state = 0,
     floppy_dmacyl = -1, sleep_timer_pid = -1\<rparr>"

lemma demo_boot_sector: "same_boot (mem_img 0x10000 65536 demo_state) (wr (\<lambda>_. 0) 0 (new_boot 128))"
proof -
  have "same_boot demo_img (wr (\<lambda>_. 0) 0 (new_boot 128))" unfolding demo_img_def by (rule same_boot_wr) simp_all
  moreover have "mem_img 0x10000 65536 demo_state a = demo_img a" if "unat a < 62" for a
    using that by (simp add: mem_img_def clip_def demo_state_def fm_def)
  ultimately show ?thesis by (simp add: same_boot_def)
qed

lemmas demo_geometry = same_boot_geometry [OF demo_boot_sector, unfolded new_boot_geometry]

lemma demo_fat: "j < 52 \<Longrightarrow> fatval (mem_img 0x10000 65536 demo_state) j = (if j = 0 then 0xfff8 else if j < 3 then 0xffff else 0)"
proof -
  assume j: "j < 52"
  let ?f = "[0xf8, 0xff, 0xff, 0xff, 0xff, 0xff] :: u8 list"
  have z: "demo_img (of_nat (2048 + k)) = (if k < 6 then ?f ! k else 0)" if "k < 104" for k
  proof -
    have u: "unat (of_nat (2048 + k) :: u32) = 2048 + k" using that by (intro unat_of_nat_less) simp
    then have "wr (\<lambda>_. 0) 0 (new_boot 128) (of_nat (2048 + k)) = (0 :: u8)" by (intro wr_other) (simp_all add: in_block new_boot_def)
    moreover have "of_nat (2048 + k) \<notin> block (of_nat 2048) (length ?f)" if "\<not> k < 6" using that \<open>k < 104\<close> by (simp add: in_block unat_of_nat_less)
    ultimately show ?thesis using wr_at [of k ?f "wr (\<lambda>_. 0) 0 (new_boot 128)" "of_nat 2048"] wr_other [of "of_nat (2048 + k)" "of_nat 2048" ?f]
      unfolding demo_img_def by (cases "k < 6") (simp_all add: of_nat_add)
  qed
  have at: "mem_img 0x10000 65536 demo_state (of_nat (2048 + k)) = demo_img (of_nat (2048 + k))" if "k < 104" for k
    using that unat_of_nat_less [of "2048 + k"] by (simp add: mem_img_def clip_def demo_state_def fm_def)
  define b where "b k = (if k < 6 then ?f ! k else 0)" for k
  have e: "(of_nat (2048 + 2 * j) + 1 :: u32) = of_nat (2048 + (2 * j + 1))" by simp
  have "mem_img 0x10000 65536 demo_state (of_nat (2048 + 2 * j)) = b (2 * j)" "mem_img 0x10000 65536 demo_state (of_nat (2048 + (2 * j + 1))) = b (2 * j + 1)"
    unfolding b_def using z [of "2 * j"] z [of "2 * j + 1"] at [of "2 * j"] at [of "2 * j + 1"] j by (simp_all only:)
  then have l: "load16 (mem_img 0x10000 65536 demo_state) (of_nat (2048 + 2 * j)) = ucast (b (2 * j)) OR push_bit 8 (ucast (b (2 * j + 1)))"
    unfolding load16_def e by (simp only:)
  consider "j = 0" | "j = 1" | "j = 2" | "3 \<le> j" by linarith
  then show ?thesis unfolding fatval_def demo_geometry l by cases (simp_all add: b_def)
qed


lemma demo_volume:
  "on_disk 0x10000 65536" "volume 65536 (mem_img 0x10000 65536 demo_state)" "chain (mem_img 0x10000 65536 demo_state) 2 [2]"
  "card (free_clusters (mem_img 0x10000 65536 demo_state)) = 49"
proof -
  let ?v = "mem_img 0x10000 65536 demo_state"
  show "on_disk 0x10000 65536" by (simp add: on_disk_def)
  show "volume 65536 ?v" by (simp add: volume_def demo_geometry demo_fat same_boot_fields [OF demo_boot_sector] new_boot_fields)
  show "chain ?v 2 [2]" by (simp add: demo_geometry demo_fat)
  have "free_clusters ?v = {3..<52}" by (auto simp: free_clusters_def demo_geometry demo_fat split: if_splits)
  then show "card (free_clusters ?v) = 49" by simp
qed

lemma demo_sep: "sep 0x10000 65536 0x1000 0x3000 600" "sep 0x10000 65536 0x1000 0x8000 600" "block 0x1000 2 \<inter> block 0x10000 65536 = {}"
  "sep 0x10000 65536 0x1000 0x30000 26000" "sep 0x10000 65536 0x1000 0x3000 512"
  using blocks_disjoint [of "0x3000" 600 "0x10000" 65536] blocks_disjoint [of "0x3000" 600 "0x1000" 2]
    blocks_disjoint [of "0x8000" 600 "0x10000" 65536] blocks_disjoint [of "0x8000" 600 "0x1000" 2]
    blocks_disjoint [of "0x1000" 2 "0x10000" 65536]
    blocks_disjoint [of "0x30000" 26000 "0x10000" 65536] blocks_disjoint [of "0x30000" 26000 "0x1000" 2]
    blocks_disjoint [of "0x3000" 512 "0x10000" 65536] blocks_disjoint [of "0x3000" 512 "0x1000" 2]
  by (simp_all add: sep_def)

section \<open>Properties\<close>



text \<open>
  C5: What is stored can be read back: on a volume with room for them, \<^verbatim>\<open>fat_add_data\<close> stores any \<open>n > 0\<close> bytes and returns the first
  cluster of a new chain, and \<^verbatim>\<open>fat_read_data\<close> from that cluster returns the same bytes.
\<close>

theorem fat_add_then_read:
  assumes "on_disk base cap" and "volume cap (mem_img base cap s)" and "sep base cap lv src n" and "sep base cap lv dst n"
    and "block lv 2 \<inter> block base cap = {}" and "0 < n"
    and "n \<le> card (free_clusters (mem_img base cap s)) * bpc (mem_img base cap s)"
  shows "\<exists>c s1 s2. fat_add_data (mem_disk base) lv fi src (of_nat n) s = Some (c, s1) \<and> c \<noteq> 0 \<and>
    fat_read_data (mem_disk base) lv (ucast c) dst (of_nat n) 0 s1 = Some (of_nat n, s2) \<and> rd (fm s2) dst n = rd (fm s) src n"
proof -
  from add_on_disk [OF assms(1,2,3,5,6,7), of fi] obtain zs s1 where
    1: "fat_add_data (mem_disk base) lv fi src (of_nat n) s = Some (of_nat (hd zs), s1)" "zs \<noteq> []"
      "stored (mem_img base cap s) (mem_img base cap s1) [] zs (rd (fm s) src n)" by blast
  note f = stored_facts [OF assms(2) on_disk_cap [OF assms(1)] 1(3,2)]
  from read_on_disk [OF assms(1) f(1) assms(4,5) f(4) 1(2)] f(5) obtain s2 where
    2: "fat_read_data (mem_disk base) lv (of_nat (hd zs)) dst (of_nat n) 0 s1 = Some (of_nat n, s2)"
      "rd (fm s2) dst n = take n (contents (mem_img base cap s1) zs)" by auto
  have "(of_nat (hd zs) :: u16) \<noteq> 0" using mdisk.u16_index [OF f(2,3)] by simp
  then show ?thesis using 1(1) 2 f(3,6) by (auto simp: ucast_cluster)
qed

theorem fat_add_then_read_witness:
  "\<exists>c s1 s2. fat_add_data (mem_disk 0x10000) 0x1000 0 0x3000 600 demo_state = Some (c, s1) \<and> c \<noteq> 0 \<and>
    fat_read_data (mem_disk 0x10000) 0x1000 (ucast c) 0x8000 600 0 s1 = Some (600, s2) \<and> rd (fm s2) 0x8000 600 = rd (fm demo_state) 0x3000 600"
  using fat_add_then_read [OF demo_volume(1,2) demo_sep(1-3), of 0] by (simp add: demo_volume demo_geometry)

text \<open>
  C10: Storing data does not disturb other files: every chain of the volume has the same clusters and the same contents afterwards.
\<close>

theorem fat_add_keeps_other_files:
  assumes "on_disk base cap" and "volume cap (mem_img base cap s)" and "sep base cap lv src n" and "block lv 2 \<inter> block base cap = {}"
    and "0 < n" and "n \<le> card (free_clusters (mem_img base cap s)) * bpc (mem_img base cap s)" and "chain (mem_img base cap s) h xs"
  shows "\<exists>c s1. fat_add_data (mem_disk base) lv fi src (of_nat n) s = Some (c, s1) \<and>
    chain (mem_img base cap s1) h xs \<and> contents (mem_img base cap s1) xs = contents (mem_img base cap s) xs"
proof -
  from add_on_disk [OF assms(1-6), of fi] obtain zs s1 where
    1: "fat_add_data (mem_disk base) lv fi src (of_nat n) s = Some (of_nat (hd zs), s1)"
      "stored (mem_img base cap s) (mem_img base cap s1) [] zs (rd (fm s) src n)" by blast
  then show ?thesis using chain_kept [OF assms(2) 1(2) assms(7)] by blast
qed

theorem fat_add_keeps_other_files_witness:
  "\<exists>c s1. fat_add_data (mem_disk 0x10000) 0x1000 0 0x3000 600 demo_state = Some (c, s1) \<and>
    chain (mem_img 0x10000 65536 s1) 2 [2] \<and> contents (mem_img 0x10000 65536 s1) [2] = contents (mem_img 0x10000 65536 demo_state) [2]"
  using fat_add_keeps_other_files [OF demo_volume(1,2) demo_sep(1,3) _ _ demo_volume(3), of 0] by (simp add: demo_volume demo_geometry)





end
