(* ===== verification/Floppy.thy ===== *)
theory Floppy
  imports Fat16
begin

text \<open>
  \<^verbatim>\<open>driver/floppy.c\<close>: the 1.44 MB floppy drive, as the second implementation of a disk, and \<^verbatim>\<open>setup_filesystem\<close>, which chooses between
  the two.

  What the environment does is a parameter: \<open>irq\<close> is the state when the drive's next interrupt has been
  handled (nothing, if it never comes), with all that the drive did to memory by then; \<open>dmabuf\<close> is the
  address of the buffer that the linker chooses; \<open>spawn\<close> starts the process that stops the motor. The messages that the driver prints
  are left out, and sleeping changes nothing of this state.
\<close>

record floppy_env =
  irq :: "fstate \<Rightarrow> fstate option"
  dmabuf :: u32
  spawn :: "fstate \<Rightarrow> int \<times> fstate"

definition FLOPPY_BASE :: u16 where "FLOPPY_BASE = 0x03f0"
definition DOR :: u16 where "DOR = 2"
definition MSR :: u16 where "MSR = 4"
definition FIFO :: u16 where "FIFO = 5"
definition CCR :: u16 where "CCR = 7"

definition FLOPPY_144_CYLINDER_SIZE :: u32 where "FLOPPY_144_CYLINDER_SIZE = 18 * 512 * 2"

datatype dir = dir_read | dir_write

definition fout :: "u8 \<Rightarrow> u16 \<Rightarrow> fstate \<Rightarrow> fstate" where
  "fout v port s = s\<lparr>dv := outb v port (dv s)\<rparr>"

definition fin :: "u16 \<Rightarrow> fstate \<Rightarrow> u8 \<times> fstate" where
  "fin port s = (let (v, d) = inb port (dv s) in (v, s\<lparr>dv := d\<rparr>))"

section \<open>Commands\<close>

definition floppy_IT :: "fstate \<Rightarrow> fstate" where
  "floppy_IT s = (fout 0x20 0x20 s)\<lparr>interrupted := True\<rparr>"

text \<open>The tick until which \<^verbatim>\<open>timer_sleep\<close> sleeps.\<close>

definition timer_sleep :: "u32 \<Rightarrow> u32 \<Rightarrow> u32" where
  "timer_sleep ms clock = clock + of_int QUARTZ div of_int (c_div QUARTZ CLOCKFREQ) * ms div 1000"

definition wait_interrupt :: "floppy_env \<Rightarrow> fstate \<Rightarrow> fstate option" where
  "wait_interrupt env s = (if interrupted s then Some s else irq env s)"

primrec write_cmd_loop :: "nat \<Rightarrow> u16 \<Rightarrow> u8 \<Rightarrow> fstate \<Rightarrow> fstate option" where
  "write_cmd_loop 0 base cmd s = None"
| "write_cmd_loop (Suc n) base cmd s =
     (let (v, s) = fin (base + MSR) s in
      if 0x80 AND v \<noteq> 0 then Some (fout cmd (base + FIFO) s) else write_cmd_loop n base cmd s)"

definition write_cmd :: "u16 \<Rightarrow> u8 \<Rightarrow> fstate \<Rightarrow> fstate option" where
  "write_cmd base cmd s = write_cmd_loop 600 base cmd s"

primrec fdc_read_loop :: "nat \<Rightarrow> u16 \<Rightarrow> fstate \<Rightarrow> (u8 \<times> fstate) option" where
  "fdc_read_loop 0 base s = None"
| "fdc_read_loop (Suc n) base s =
     (let (v, s) = fin (base + MSR) s in
      if 0x80 AND v \<noteq> 0 then Some (fin (base + FIFO) s) else fdc_read_loop n base s)"

definition read_data :: "u16 \<Rightarrow> fstate \<Rightarrow> (u8 \<times> fstate) option" where
  "read_data base s = fdc_read_loop 600 base s"

primrec write_cmds :: "u16 \<Rightarrow> u8 list \<Rightarrow> fstate \<Rightarrow> fstate option" where
  "write_cmds base [] s = Some s"
| "write_cmds base (c # cs) s = do { s \<leftarrow> write_cmd base c s; write_cmds base cs s }"

section \<open>Motor\<close>

definition motor_off :: int where "motor_off = 0"
definition motor_on :: int where "motor_on = 1"
definition motor_wait :: int where "motor_wait = 2"

definition motor :: "u16 \<Rightarrow> int \<Rightarrow> fstate \<Rightarrow> fstate" where
  "motor base onoff s =
     (if onoff \<noteq> 0 then
        let s = (if motor_state s = 0 then fout 0x1c (base + DOR) s else s)
        in s\<lparr>motor_state := motor_on\<rparr>
      else s\<lparr>motor_ticks := 300, motor_state := motor_wait\<rparr>)"

definition motor_kill :: "u16 \<Rightarrow> fstate \<Rightarrow> fstate" where
  "motor_kill base s = (fout 0x0c (base + DOR) s)\<lparr>motor_state := motor_off\<rparr>"

text \<open>One turn of the endless loop of \<^verbatim>\<open>sleep_timer\<close>, after its half second of sleep.\<close>

definition sleep_timer_turn :: "fstate \<Rightarrow> fstate" where
  "sleep_timer_turn s =
     (if motor_state s = motor_wait then
        let s = s\<lparr>motor_ticks := motor_ticks s - 50\<rparr>
        in if motor_ticks s \<le> 0 then motor_kill FLOPPY_BASE s else s
      else s)"

section \<open>Positioning\<close>

definition check_interrupt :: "u16 \<Rightarrow> fstate \<Rightarrow> (u8 \<times> u8 \<times> fstate) option" where
  "check_interrupt base s = do {
     s \<leftarrow> write_cmd base 8 s;
     (st0, s) \<leftarrow> read_data base s;
     (cyl, s) \<leftarrow> read_data base s;
     Some (st0, cyl, s) }"

primrec calibrate_loop :: "nat \<Rightarrow> floppy_env \<Rightarrow> u16 \<Rightarrow> fstate \<Rightarrow> (int \<times> fstate) option" where
  "calibrate_loop 0 env base s = Some (-1, motor base motor_off s)"
| "calibrate_loop (Suc n) env base s = do {
     s \<leftarrow> write_cmds base [7, 0] (s\<lparr>interrupted := False\<rparr>);
     s \<leftarrow> wait_interrupt env s;
     (st0, cyl, s) \<leftarrow> check_interrupt base s;
     if st0 AND 0xC0 = 0 \<and> cyl = 0 then Some (0, motor base motor_off s)
     else calibrate_loop n env base s }"

definition calibrate :: "floppy_env \<Rightarrow> u16 \<Rightarrow> fstate \<Rightarrow> (int \<times> fstate) option" where
  "calibrate env base s = calibrate_loop 10 env base (motor base motor_on s)"

definition reset :: "floppy_env \<Rightarrow> u16 \<Rightarrow> fstate \<Rightarrow> (int \<times> fstate) option" where
  "reset env base s = do {
     let s = s\<lparr>interrupted := False\<rparr>;
     let s = fout 0x0C (base + DOR) (fout 0x00 (base + DOR) s);
     s \<leftarrow> wait_interrupt env s;
     (_, _, s) \<leftarrow> check_interrupt base s;
     let s = fout 0x00 (base + CCR) s;
     s \<leftarrow> write_cmds base [3, 0xdf, 0x02] s;
     (r, s) \<leftarrow> calibrate env base s;
     Some (if r \<noteq> 0 then -1 else 0, s) }"

primrec seek_loop :: "nat \<Rightarrow> floppy_env \<Rightarrow> u16 \<Rightarrow> u32 \<Rightarrow> int \<Rightarrow> fstate \<Rightarrow> (int \<times> fstate) option" where
  "seek_loop 0 env base cyli head s = Some (-1, motor base motor_off s)"
| "seek_loop (Suc n) env base cyli head s = do {
     s \<leftarrow> write_cmds base [15, of_int head * 4, ucast cyli] (s\<lparr>interrupted := False\<rparr>);
     s \<leftarrow> wait_interrupt env s;
     (st0, cyl, s) \<leftarrow> check_interrupt base s;
     if st0 AND 0xC0 = 0 \<and> ucast cyl = cyli then Some (0, motor base motor_off s)
     else seek_loop n env base cyli head s }"

definition seek :: "floppy_env \<Rightarrow> u16 \<Rightarrow> u32 \<Rightarrow> int \<Rightarrow> fstate \<Rightarrow> (int \<times> fstate) option" where
  "seek env base cyli head s = seek_loop 10 env base cyli head (motor base motor_on s)"

section \<open>Transfers\<close>

definition dma_init :: "floppy_env \<Rightarrow> dir \<Rightarrow> fstate \<Rightarrow> fstate option" where
  "dma_init env dr s =
     (let a = dmabuf env; c = FLOPPY_144_CYLINDER_SIZE - 1 in
      if drop_bit 24 a \<noteq> 0 \<or> drop_bit 16 c \<noteq> 0 \<or> drop_bit 16 ((a AND 0xffff) + c) \<noteq> 0 then None
      else
        let mode = (case dr of dir_read \<Rightarrow> 0x46 | dir_write \<Rightarrow> 0x4a);
            s = fout 0x06 0x0a s;
            s = fout 0xff 0x0c s;
            s = fout (ucast a) 0x04 s;
            s = fout (ucast (drop_bit 8 a)) 0x04 s;
            s = fout (ucast (drop_bit 16 a)) 0x81 s;
            s = fout 0xff 0x0c s;
            s = fout (ucast c) 0x05 s;
            s = fout (ucast (drop_bit 8 c)) 0x05 s;
            s = fout mode 0x0b s
        in Some (fout 0x02 0x0a s))"

text \<open>How the result bytes of a transfer are judged: 0 for success, 1 for an error to retry, 2 for write protection.\<close>

definition transfer_error :: "u8 \<Rightarrow> u8 \<Rightarrow> u8 \<Rightarrow> u8 \<Rightarrow> int" where
  "transfer_error st0 st1 st2 nb =
     (if st1 AND 0x02 \<noteq> 0 then 2
      else if st0 AND 0xC0 \<noteq> 0 \<or> st1 AND 0x80 \<noteq> 0 \<or> st0 AND 0x08 \<noteq> 0 \<or> st1 AND 0x20 \<noteq> 0 \<or> st1 AND 0x10 \<noteq> 0 \<or>
              st1 AND 0x04 \<noteq> 0 \<or> (st1 OR st2) AND 0x01 \<noteq> 0 \<or> st2 AND 0x40 \<noteq> 0 \<or> st2 AND 0x20 \<noteq> 0 \<or> st2 AND 0x10 \<noteq> 0 \<or>
              st2 AND 0x04 \<noteq> 0 \<or> st2 AND 0x02 \<noteq> 0 \<or> nb \<noteq> 0x2 then 1
      else 0)"

definition transfer_cmd :: "dir \<Rightarrow> u8" where
  "transfer_cmd dr = (case dr of dir_read \<Rightarrow> 6 OR 0xC0 | dir_write \<Rightarrow> 5 OR 0xC0)"

primrec track_loop :: "nat \<Rightarrow> floppy_env \<Rightarrow> u16 \<Rightarrow> u32 \<Rightarrow> dir \<Rightarrow> fstate \<Rightarrow> (int \<times> fstate) option" where
  "track_loop 0 env base cyl dr s = Some (-1, motor base motor_off s)"
| "track_loop (Suc n) env base cyl dr s = do {
     s \<leftarrow> dma_init env dr (motor base motor_on s);
     s \<leftarrow> write_cmds base [transfer_cmd dr, 0, ucast cyl, 0, 1, 2, 18, 0x1b, 0xff] (s\<lparr>interrupted := False\<rparr>);
     s \<leftarrow> wait_interrupt env s;
     (st0, s) \<leftarrow> read_data base s;
     (st1, s) \<leftarrow> read_data base s;
     (st2, s) \<leftarrow> read_data base s;
     (rcy, s) \<leftarrow> read_data base s;
     (rhe, s) \<leftarrow> read_data base s;
     (rse, s) \<leftarrow> read_data base s;
     (nb, s) \<leftarrow> read_data base s;
     let error = transfer_error st0 st1 st2 nb;
     if error = 0 then Some (0, motor base motor_off s)
     else if error > 1 then Some (-2, motor base motor_off s)
     else track_loop n env base cyl dr s }"

definition do_track :: "floppy_env \<Rightarrow> u16 \<Rightarrow> u32 \<Rightarrow> dir \<Rightarrow> fstate \<Rightarrow> (int \<times> fstate) option" where
  "do_track env base cyl dr s = do {
     let s = (if sleep_timer_pid s = 0 then (let (pid, s) = spawn env s in s\<lparr>sleep_timer_pid := pid\<rparr>) else s);
     (r, s) \<leftarrow> seek env base cyl 0 s;
     if r \<noteq> 0 then Some (-1, s)
     else do {
       (r, s) \<leftarrow> seek env base cyl 1 s;
       if r \<noteq> 0 then Some (-1, s) else track_loop 20 env base cyl dr s } }"

section \<open>The cylinder in the buffer\<close>

definition addr_2_coff :: "u32 \<Rightarrow> u16 \<times> u32 \<times> u32" where
  "addr_2_coff addr =
     (ucast (addr div FLOPPY_144_CYLINDER_SIZE), addr mod FLOPPY_144_CYLINDER_SIZE,
      FLOPPY_144_CYLINDER_SIZE - addr mod FLOPPY_144_CYLINDER_SIZE)"

definition has_floppy :: "fstate \<Rightarrow> bool \<times> fstate" where
  "has_floppy s =
     (let s = fout 0x10 0x70 s;
          (drives, s) = fin 0x71 s;
          drive0 = drop_bit 4 drives
      in (drive0 = 4, s))"

text \<open>The result is the return code, the offset in the buffer and the number of bytes from there to the end of the cylinder.\<close>

definition do_cached :: "floppy_env \<Rightarrow> dir \<Rightarrow> u32 \<Rightarrow> fstate \<Rightarrow> (int \<times> u32 \<times> u32 \<times> fstate) option" where
  "do_cached env dr addr s =
     (let (present, s) = has_floppy s; (cyl, offset, len) = addr_2_coff addr in
      if \<not> present then Some (-2, offset, len, s)
      else if dr = dir_read \<and> ucast cyl = floppy_dmacyl s then Some (0, offset, len, s)
      else do {
        (ret, s) \<leftarrow> do_track env FLOPPY_BASE (ucast cyl) dr s;
        Some (ret, offset, len, if ret \<ge> 0 then s\<lparr>floppy_dmacyl := ucast cyl\<rparr> else s) })"

definition floppy_read_view :: "floppy_env \<Rightarrow> u32 \<Rightarrow> fstate \<Rightarrow> (u32 \<times> u32 \<times> fstate) option" where
  "floppy_read_view env addr s = do {
     (ret, offset, len, s) \<leftarrow> do_cached env dir_read addr s;
     Some (if ret < 0 then 0 else dmabuf env + offset, len, s) }"

partial_function (option) floppy_read_loop :: "floppy_env \<Rightarrow> u32 \<Rightarrow> u32 \<Rightarrow> u32 \<Rightarrow> u32 \<Rightarrow> fstate \<Rightarrow> (int \<times> fstate) option" where
  "floppy_read_loop env dst addr len done_size s =
     (if len > done_size then do {
        (ret, offset, working_size, s) \<leftarrow> do_cached env dir_read (addr + done_size) s;
        if ret < 0 then Some (ret, s)
        else do {
          let working_size = (if working_size > len - done_size then len - done_size else working_size);
          let s = set_fm (snd (memcpy (dst + done_size) (dmabuf env + offset) working_size (fm s))) s;
          floppy_read_loop env dst addr len (done_size + working_size) s } }
      else Some (0, s))"

definition floppy_read :: "floppy_env \<Rightarrow> u32 \<Rightarrow> u32 \<Rightarrow> u32 \<Rightarrow> fstate \<Rightarrow> (int \<times> fstate) option" where
  "floppy_read env dst addr len s = floppy_read_loop env dst addr len 0 s"

partial_function (option) floppy_write_loop :: "floppy_env \<Rightarrow> u32 \<Rightarrow> u32 \<Rightarrow> u32 \<Rightarrow> u32 \<Rightarrow> fstate \<Rightarrow> (int \<times> fstate) option" where
  "floppy_write_loop env addr src len done_size s =
     (if len > done_size then do {
        (ret, offset, working_size, s) \<leftarrow> do_cached env dir_read (addr + done_size) s;
        if ret < 0 then Some (ret, s)
        else do {
          let working_size = (if working_size > len - done_size then len - done_size else working_size);
          let s = set_fm (snd (memcpy (dmabuf env + offset) (src + done_size) working_size (fm s))) s;
          (ret, _, _, s) \<leftarrow> do_cached env dir_write (addr + done_size) s;
          if ret < 0 then Some (ret, s) else floppy_write_loop env addr src len (done_size + working_size) s } }
      else Some (0, s))"

definition floppy_write :: "floppy_env \<Rightarrow> u32 \<Rightarrow> u32 \<Rightarrow> u32 \<Rightarrow> fstate \<Rightarrow> (int \<times> fstate) option" where
  "floppy_write env addr src len s = floppy_write_loop env addr src len 0 s"

section \<open>The disk\<close>

definition floppy_disk_write :: "floppy_env \<Rightarrow> u32 \<Rightarrow> u32 \<Rightarrow> u32 \<Rightarrow> u32 \<Rightarrow> fstate \<Rightarrow> fstate option" where
  "floppy_disk_write env arg addr src n s = do { (res, s) \<leftarrow> floppy_write env addr src n s; if res \<ge> 0 then Some s else None }"

definition floppy_disk_read :: "floppy_env \<Rightarrow> u32 \<Rightarrow> u32 \<Rightarrow> u32 \<Rightarrow> u32 \<Rightarrow> fstate \<Rightarrow> fstate option" where
  "floppy_disk_read env arg dst addr n s = do { (res, s) \<leftarrow> floppy_read env dst addr n s; if res \<ge> 0 then Some s else None }"

definition floppy_disk_view :: "floppy_env \<Rightarrow> u32 \<Rightarrow> u32 \<Rightarrow> fstate \<Rightarrow> (u32 \<times> u32 \<times> fstate) option" where
  "floppy_disk_view env arg addr s = do { (res, len, s) \<leftarrow> floppy_read_view env addr s; if res \<noteq> 0 then Some (res, len, s) else None }"

definition floppy_disk :: "floppy_env \<Rightarrow> disk_t" where
  "floppy_disk env = \<lparr>disk_write_op = floppy_disk_write env, disk_read_op = floppy_disk_read env, disk_view_op = floppy_disk_view env, disk_arg = 0\<rparr>"

definition load_floppy :: "floppy_env \<Rightarrow> fstate \<Rightarrow> disk_t option \<times> fstate" where
  "load_floppy env s = (let (present, s) = has_floppy s in (if present then Some (floppy_disk env) else None, s))"

text \<open>\<^verbatim>\<open>setup_filesystem\<close>: the floppy if there is one, else a new volume in memory.\<close>

definition setup_filesystem :: "floppy_env \<Rightarrow> u32 \<Rightarrow> u32 \<Rightarrow> u32 \<Rightarrow> fstate \<Rightarrow> (disk_t \<times> fstate) option" where
  "setup_filesystem env alloc lv bootSector s =
     (case load_floppy env s of
        (Some d, s) \<Rightarrow> Some (d, s)
      | (None, s) \<Rightarrow> do { (d, _, s) \<leftarrow> new_fat16 alloc lv bootSector 128 s; Some (d, s) })"

end
