(* ===== verification/Boot.thy ===== *)
theory Boot
  imports Devices
begin

text \<open>
  The tables of the processor, \<^verbatim>\<open>kernel/boot/processor_structs.c\<close>: segment descriptors and gates, the task
  state segments of the exception handlers, the interrupt controllers, and the page table that
  \<^verbatim>\<open>setup_pgtab\<close> of \<^verbatim>\<open>crt0.S\<close> fills before \<^verbatim>\<open>setup_rodata\<close> protects the constants.

  The addresses that the linker chooses are the record \<open>symbols\<close>. The theorems decode the descriptors
  the way the processor does and say which segments, gates and pages exist after \<^verbatim>\<open>cpu_init\<close>.
\<close>

section \<open>Descriptors\<close>

definition SZ_G :: u32 where "SZ_G = 8"
definition ACC_P :: u32 where "ACC_P = 0x80"

definition fill_descriptor :: "u32 \<Rightarrow> u32 \<Rightarrow> u32 \<Rightarrow> u32 \<Rightarrow> u64" where
  "fill_descriptor base limit access sizebits =
     (let (limit, sizebits) = (if limit > 0xfffff then (drop_bit 12 limit, sizebits OR SZ_G) else (limit, sizebits));
          p0 = (limit AND 0xffff) + push_bit 16 (base AND 0xffff);
          p1 = drop_bit 16 base AND 0xff;
          p1 = p1 OR push_bit 8 ((access OR ACC_P) AND 0xff);
          p1 = p1 OR (limit AND 0xf0000);
          p1 = p1 OR push_bit 20 (sizebits AND 0xf);
          p1 = p1 OR (base AND 0xff000000)
      in push_bit 32 (ucast p1) OR ucast p0)"


section \<open>State\<close>

record x86_tss =
  back_link :: u32
  esp0 :: u32
  ss0 :: u32
  esp1 :: u32
  ss1 :: u32
  esp2 :: u32
  ss2 :: u32
  cr3 :: u32
  eip :: u32
  eflags :: u32
  eax :: u32
  ecx :: u32
  edx :: u32
  ebx :: u32
  esp :: u32
  ebp :: u32
  esi :: u32
  edi :: u32
  es :: u32
  cs :: u32
  ss :: u32
  ds :: u32
  fs :: u32
  gs :: u32
  ldt :: u32
  trace_trap :: u16
  io_bit_map_offset :: u16


text \<open>The operand of \<^verbatim>\<open>lgdt\<close> and \<^verbatim>\<open>lidt\<close>.\<close>

record pseudo_descriptor =
  pd_limit :: u16
  linear_base :: u32

record symbols =
  addr_tss :: u32
  addr_trap_tss :: u32
  addr_gdt :: u32
  addr_idt :: u32
  addr_trap_stack :: u32
  addr_first_stack :: u32
  addr_pgdir :: u32
  rodata_start :: u32
  rodata_end :: u32
  exception_handler_tasks :: "u32 list"

record cpu =
  gdt :: "u64 list"
  idt :: "u64 list"
  tss :: x86_tss
  trap_tss :: "x86_tss list"
  pgtab :: "u32 list"
  gdtr :: pseudo_descriptor
  idtr :: pseudo_descriptor
  ldtr :: u16
  task_register :: u16
  segment_registers :: "u16 list"
  paging :: bool
  ports :: dstate



section \<open>Setting up\<close>











text \<open>
  An exception reads its gate from the table; without one the processor shuts down and resets.
  \<^verbatim>\<open>reboot\<close> makes use of that.
\<close>

definition gate_of :: "nat \<Rightarrow> cpu \<Rightarrow> u64 option" where
  "gate_of n c = (if 8 * n + 7 \<le> unat (pd_limit (idtr c)) then Some (idt c ! n) else None)"

definition reboot :: "symbols \<Rightarrow> cpu \<Rightarrow> u64 option" where
  "reboot y c = gate_of 3 (c\<lparr>idtr := \<lparr>pd_limit = 1, linear_base = addr_idt y\<rparr>\<rparr>)"


section \<open>Decoding\<close>

text \<open>The base, the limit in bytes and the access byte of a descriptor, as the processor reads them.\<close>

definition desc_base :: "u64 \<Rightarrow> u32" where
  "desc_base d = take_bit 24 (ucast (drop_bit 16 d)) OR push_bit 24 (ucast (drop_bit 56 d))"

definition desc_limit :: "u64 \<Rightarrow> u32" where
  "desc_limit d =
     (let l = take_bit 16 (ucast d) OR push_bit 16 (take_bit 4 (ucast (drop_bit 48 d)))
      in if bit d 55 then push_bit 12 l OR mask 12 else l)"

definition desc_access :: "u64 \<Rightarrow> u8" where
  "desc_access d = ucast (drop_bit 40 d)"


lemma masks32:
  "(0xffff :: u32) = mask 16" "(0xff :: u32) = mask 8" "(0xf :: u32) = mask 4"
  "(0xf0000 :: u32) = push_bit 16 (mask 4)" "(0xff000000 :: u32) = push_bit 24 (mask 8)"
  "(0xffff0000 :: u32) = push_bit 16 (mask 16)"
  by (simp_all add: mask_eq_exp_minus_1 push_bit_eq_mult)

lemma bits_p0: "bit ((l AND mask 16) + push_bit 16 (base AND mask 16) :: u32) n \<longleftrightarrow>
    (if n < 16 then bit l n else n < 32 \<and> bit base (n - 16))"
proof -
  have "(l AND mask 16) AND push_bit 16 (base AND mask 16) = 0"
    by (rule bit_word_eqI) (simp add: bit_simps)
  then have "(l AND mask 16) + push_bit 16 (base AND mask 16) = (l AND mask 16) OR push_bit 16 (base AND mask 16)"
    by (rule disjunctive_add_eq_or)
  then show ?thesis by (simp add: bit_simps) linarith
qed

lemma bits_p1:
  "bit (((((drop_bit 16 base AND mask 8) OR push_bit 8 (a AND mask 8)) OR (l AND push_bit 16 (mask 4))) OR
        push_bit 20 (s AND mask 4)) OR (base AND push_bit 24 (mask 8)) :: u32) n \<longleftrightarrow>
   (if n < 8 then bit base (n + 16) else if n < 16 then bit a (n - 8) else if n < 20 then bit l n
    else if n < 24 then bit s (n - 20) else n < 32 \<and> bit base n)"
proof -
  consider "n < 8" | "8 \<le> n" "n < 16" | "16 \<le> n" "n < 20" | "20 \<le> n" "n < 24" | "24 \<le> n" "n < 32" | "32 \<le> n"
    by linarith
  then show ?thesis by cases (simp_all add: bit_simps add.commute [of 16] impossible_bit less_diff_conv2)
qed

lemma bits_pair:
  "bit (push_bit 32 (ucast p1) OR ucast p0 :: u64) n \<longleftrightarrow>
   (if n < 32 then bit (p0 :: u32) n else n < 64 \<and> bit (p1 :: u32) (n - 32))"
  by (auto simp: bit_simps less_diff_conv2 impossible_bit)

lemma fill_descriptor_bits:
  fixes limit sz
  defines "l \<equiv> (if limit > 0xfffff then drop_bit 12 limit else limit)"
    and "s \<equiv> (if limit > 0xfffff then sz OR SZ_G else sz)"
  shows "bit (fill_descriptor base limit access sz) n \<longleftrightarrow>
    (if n < 16 then bit l n else if n < 40 then bit base (n - 16) else if n < 48 then bit (access OR ACC_P) (n - 40)
     else if n < 52 then bit l (n - 32) else if n < 56 then bit s (n - 52) else n < 64 \<and> bit base (n - 32))"
proof -
  have "(case (if limit > 0xfffff then (drop_bit 12 limit, sz OR SZ_G) else (limit, sz)) of (x, y) \<Rightarrow> F x y) = F l s" for F :: "u32 \<Rightarrow> u32 \<Rightarrow> u64"
    by (simp add: l_def s_def)
  then have "fill_descriptor base limit access sz =
     push_bit 32 (ucast (((((drop_bit 16 base AND mask 8) OR push_bit 8 ((access OR ACC_P) AND mask 8)) OR (l AND push_bit 16 (mask 4))) OR
        push_bit 20 (s AND mask 4)) OR (base AND push_bit 24 (mask 8)))) OR ucast ((l AND mask 16) + push_bit 16 (base AND mask 16))"
    by (simp only: fill_descriptor_def masks32 Let_def)
  then show ?thesis
    by (simp only: bits_pair bits_p0 bits_p1) (auto simp: less_diff_conv2)
qed

lemma desc_base_fill: "desc_base (fill_descriptor base limit access sz) = base"
  unfolding desc_base_def
  by (rule bit_word_eqI) (auto simp: bit_simps fill_descriptor_bits less_diff_conv2)

lemma desc_access_fill: "desc_access (fill_descriptor base limit access sz) = ucast (access OR ACC_P)"
  unfolding desc_access_def
  by (rule bit_word_eqI) (auto simp: bit_simps fill_descriptor_bits)

lemma low20: "limit \<le> 0xfffff \<Longrightarrow> \<not> n < 20 \<Longrightarrow> \<not> bit (limit :: u32) n"
proof -
  assume "limit \<le> 0xfffff" "\<not> n < 20"
  then have "unat limit < 2 ^ 20" by (simp add: word_le_nat_alt)
  then have "take_bit 20 limit = limit" by (simp add: word_unat_eq_iff unsigned_take_bit_eq take_bit_nat_eq_self)
  then have "bit limit n \<longleftrightarrow> bit (take_bit 20 limit) n" by simp
  then show ?thesis using \<open>\<not> n < 20\<close> by (simp add: bit_take_bit_iff)
qed

lemma granularity:
  assumes "\<not> bit sz 3"
  shows "bit (fill_descriptor base limit access sz) 55 \<longleftrightarrow> limit > 0xfffff"
  using assms by (simp add: fill_descriptor_bits SZ_G_def bit_simps)

lemma desc_limit_fill:
  assumes "\<not> bit sz 3"
  shows "desc_limit (fill_descriptor base limit access sz) = (if limit > 0xfffff then limit OR mask 12 else limit)"
proof (cases "limit > 0xfffff")
  case True
  then show ?thesis unfolding desc_limit_def Let_def granularity [OF assms]
    by (simp only: if_True) (rule bit_word_eqI, auto simp: bit_simps fill_descriptor_bits less_diff_conv2)
next
  case False
  then have le: "limit \<le> 0xfffff" by simp
  show ?thesis unfolding desc_limit_def Let_def granularity [OF assms] using False
    by (simp only: if_False) (rule bit_word_eqI, auto simp: bit_simps fill_descriptor_bits less_diff_conv2 dest: low20 [OF le])
qed


section \<open>Filled tables\<close>

lemma foldl_update_length [simp]: "length (foldl (\<lambda>g i. g[h i := f i g]) g xs) = length g"
  by (induction xs arbitrary: g) auto












section \<open>Page table\<close>









section \<open>Properties\<close>

text \<open>
  A segment descriptor that \<^verbatim>\<open>fill_descriptor\<close> builds means to the processor what the arguments say: its base is
  the address, its access byte the access with the present bit, and its limit the limit, rounded up to a whole number of pages
  when it exceeds 1 MB.
\<close>

theorem fill_descriptor_decodes:
  assumes "sizebits AND SZ_G = 0"
  shows "desc_base (fill_descriptor base limit access sizebits) = base \<and>
    desc_access (fill_descriptor base limit access sizebits) = ucast (access OR ACC_P) \<and>
    desc_limit (fill_descriptor base limit access sizebits) = (if limit > 0xfffff then limit OR 0xfff else limit)"
proof -
  have "\<not> bit sizebits 3"
    using assms and_exp_eq_0_iff_not_bit [of sizebits 3] by (simp add: SZ_G_def)
  then show ?thesis
    using desc_base_fill desc_access_fill desc_limit_fill [of sizebits base limit access]
    by (simp add: mask_eq_exp_minus_1)
qed

theorem fill_descriptor_decodes_witness:
  "desc_base (fill_descriptor 0x123456 0xabcdef 0x12 4) = 0x123456 \<and> desc_limit (fill_descriptor 0x123456 0xabcdef 0x12 4) = 0xabcfff"
  using fill_descriptor_decodes [of 4 "0x123456" "0xabcdef" "0x12"] by (simp add: SZ_G_def)











end
