(* ===== verification/Div64.thy ===== *)
theory Div64
  imports Memory
begin

text \<open>
  The 64-bit division of \<^verbatim>\<open>shared/div64.c\<close>, written with the instructions of a 32-bit processor:
  \<^verbatim>\<open>bsr\<close>, \<^verbatim>\<open>shrd\<close>, \<^verbatim>\<open>shr\<close> and \<^verbatim>\<open>div\<close>. A division error (a zero divisor, or a quotient that does not
  fit in 32 bits) is \<open>None\<close>. The theorems say for which divisors the routine returns quotient and
  remainder: all but those whose 32 leading bits are ones.
\<close>

section \<open>The instructions\<close>

text \<open>\<^verbatim>\<open>bsr\<close>: the index of the highest bit that is set; the destination is undefined for zero.\<close>

primrec bsr_from :: "nat \<Rightarrow> u32 \<Rightarrow> nat" where
  "bsr_from 0 n = 0"
| "bsr_from (Suc k) n = (if bit n (Suc k) then Suc k else bsr_from k n)"

definition hard_bsr :: "u32 \<Rightarrow> u32" where
  "hard_bsr n = of_nat (bsr_from 31 n)"

text \<open>The shift instructions use the five low bits of the count.\<close>

definition shift_count :: "u32 \<Rightarrow> nat" where
  "shift_count n = unat (n AND 31)"

definition shrd :: "u32 \<Rightarrow> u32 \<Rightarrow> u32 \<Rightarrow> u32" where
  "shrd src dst n =
     (let c = shift_count n in if c = 0 then dst else drop_bit c dst OR push_bit (32 - c) src)"

definition rshift64 :: "u32 \<Rightarrow> u32 \<Rightarrow> u32 \<Rightarrow> u32 \<times> u32" where
  "rshift64 x1 x0 n =
     (let x0 = shrd x1 x0 n; x1 = drop_bit (shift_count n) x1
      in if n AND 32 = 0 then (x1, x0) else (0, x1))"

definition rshift64_32 :: "u32 \<Rightarrow> u32 \<Rightarrow> u32 \<Rightarrow> u32" where
  "rshift64_32 x1 x0 n = (let x0 = shrd x1 x0 n in if n AND 32 = 0 then x0 else x1)"

text \<open>\<^verbatim>\<open>divl\<close>: the remainder goes to the high word and the quotient to the low one.\<close>

definition div64_32 :: "u32 \<Rightarrow> u32 \<Rightarrow> u32 \<Rightarrow> (u32 \<times> u32) option" where
  "div64_32 x1 x0 y =
     (let n = unat x1 * 2 ^ 32 + unat x0
      in if y = 0 \<or> n div unat y \<ge> 2 ^ 32 then None
         else Some (of_nat (n mod unat y), of_nat (n div unat y)))"

section \<open>The division\<close>

text \<open>The correction loop.\<close>

partial_function (option) div64_correct :: "u64 \<Rightarrow> u32 \<Rightarrow> u64 \<Rightarrow> (u32 \<times> u64) option" where
  "div64_correct y x0 r = (if r \<ge> y then div64_correct y (x0 + 1) (r - y) else Some (x0, r))"

text \<open>
  \<^verbatim>\<open>do_div64\<close> returns the quotient, and the value it stores through \<^verbatim>\<open>rem\<close> when that is not null.
\<close>

definition do_div64 :: "u64 \<Rightarrow> u64 \<Rightarrow> (u64 \<times> u64) option" where
  "do_div64 x y =
     (let y1 = ucast (drop_bit 32 y) :: u32; y0 = ucast (y AND 0xffffffff) :: u32;
          x1 = ucast (drop_bit 32 x) :: u32; x0 = ucast (x AND 0xffffffff) :: u32
      in if y1 \<noteq> 0 then do {
           let l = hard_bsr y1 + 1;
           let y0 = rshift64_32 y1 y0 l;
           let (x1, x0) = rshift64 x1 x0 l;
           (x1, x0) \<leftarrow> div64_32 x1 x0 (y0 + 1);
           (x0, r) \<leftarrow> div64_correct y x0 (x - y * ucast x0);
           Some (ucast x0, r) }
         else if x1 < y0 then do {
           (x1, x0) \<leftarrow> div64_32 x1 x0 y0;
           Some (ucast x0, ucast x1) }
         else if y0 \<noteq> 0 then do {
           (x2, x1) \<leftarrow> div64_32 0 x1 y0;
           (x2, x0) \<leftarrow> div64_32 x2 x0 y0;
           Some (push_bit 32 (ucast x1) + ucast x0, ucast x2) }
         else Some (0, x))"

definition div64 :: "u64 \<Rightarrow> u64 \<Rightarrow> u64 option" where
  "div64 x y = do { (q, _) \<leftarrow> do_div64 x y; Some q }"

definition mod64 :: "u64 \<Rightarrow> u64 \<Rightarrow> u64 option" where
  "mod64 x y = do { (_, r) \<leftarrow> do_div64 x y; Some r }"

section \<open>Words as numbers\<close>

lemma unat_drop_bit: "unat (drop_bit n (x :: 'a::len word)) = unat x div 2 ^ n"
  by (simp flip: drop_bit_eq_div add: unsigned_drop_bit_eq take_bit_nat_eq_self)

lemma unat_hi32: "unat (ucast (drop_bit 32 x) :: u32) = unat (x :: u64) div 2 ^ 32"
proof -
  have "unat x div 2 ^ 32 < 2 ^ 32"
    using unsigned_less [of x, where ?'a = nat] by (simp add: div_less_iff_less_mult)
  then show ?thesis
    by (simp add: unat_drop_bit unsigned_ucast_eq take_bit_nat_eq_self_iff)
qed

lemma ucast_lo32: "(ucast (x AND 0xffffffff) :: u32) = ucast (x :: u64)"
proof -
  have "x AND 0xffffffff = take_bit 32 x" by (simp add: take_bit_eq_mask mask_eq_exp_minus_1)
  then show ?thesis by (auto intro!: bit_word_eqI simp: bit_simps)
qed

lemma unat_lo32: "unat (ucast x :: u32) = unat (x :: u64) mod 2 ^ 32"
  by (simp add: unsigned_ucast_eq take_bit_eq_mod)

section \<open>The instructions on pairs of words\<close>

lemma and31: "(of_nat l :: u32) AND 31 = of_nat (l mod 32)"
proof -
  have "(of_nat l :: u32) AND 31 = take_bit 5 (of_nat l)"
    by (simp add: take_bit_eq_mask mask_eq_exp_minus_1)
  then show ?thesis by (simp add: take_bit_of_nat) (simp add: take_bit_eq_mod)
qed

lemma shift_count_of_nat: "shift_count (of_nat l) = l mod 32"
  by (simp add: shift_count_def and31 unsigned_of_nat take_bit_nat_eq_self_iff)

lemma and32: "l < 64 \<Longrightarrow> (of_nat l :: u32) AND 32 = 0 \<longleftrightarrow> l < 32"
proof -
  assume "l < 64"
  have "(of_nat l :: u32) AND 32 = 0 \<longleftrightarrow> \<not> bit (of_nat l :: u32) 5"
    using and_exp_eq_0_iff_not_bit [of "of_nat l :: u32" 5] by simp
  also have "\<dots> \<longleftrightarrow> \<not> bit l 5" by (simp add: bit_simps)
  also have "\<dots> \<longleftrightarrow> l < 32" using \<open>l < 64\<close> div_nat_eqI [of 32 1 l] by (cases "l < 32") (simp_all add: bit_iff_odd)
  finally show ?thesis .
qed

lemma shrd_pair:
  assumes "0 < l" "l < 32"
  shows "shrd (ucast (drop_bit 32 x)) (ucast x) (of_nat l) = ucast (drop_bit l (x :: u64))"
  using assms
  by (auto intro!: bit_word_eqI simp: shrd_def shift_count_of_nat bit_simps add.commute [of _ l])

lemma rshift64_32_ok:
  assumes "0 < l" "l \<le> 32"
  shows "rshift64_32 (ucast (drop_bit 32 x)) (ucast x) (of_nat l) = ucast (drop_bit l (x :: u64))"
  using assms and32 [of l] shrd_pair [of l x]
  by (cases "l = 32") (auto simp: rshift64_32_def)

lemma rshift64_ok:
  assumes "0 < l" "l \<le> 32"
  shows "rshift64 (ucast (drop_bit 32 x)) (ucast x) (of_nat l) =
         (ucast (drop_bit (32 + l) x), ucast (drop_bit l (x :: u64)))"
proof (cases "l = 32")
  case True
  then show ?thesis using shift_count_of_nat [of 32]
    by (auto simp: rshift64_def bit_simps intro!: bit_word_eqI dest: bit_imp_le_length)
next
  case False
  then have "rshift64 (ucast (drop_bit 32 x)) (ucast x) (of_nat l) =
      (drop_bit l (ucast (drop_bit 32 x)), ucast (drop_bit l x))"
    using assms and32 [of l] shrd_pair [of l x] by (simp add: rshift64_def shift_count_of_nat)
  moreover have "drop_bit l (ucast (drop_bit 32 x) :: u32) = ucast (drop_bit (32 + l) x)"
    by (rule bit_word_eqI) (auto simp: bit_simps add.assoc dest: bit_imp_le_length)
  ultimately show ?thesis by simp
qed

lemma bsr_from_spec:
  "\<exists>i\<le>k. bit n i \<Longrightarrow> bsr_from k n \<le> k \<and> bit n (bsr_from k n) \<and> (\<forall>i. bsr_from k n < i \<and> i \<le> k \<longrightarrow> \<not> bit n i)"
  by (induction k) (force simp: le_Suc_eq)+


lemma hard_bsr_spec:
  assumes "n \<noteq> 0"
  obtains b where "b < 32" "hard_bsr n = of_nat b" "2 ^ b \<le> unat n" "unat n < 2 ^ Suc b"
proof -
  define b where "b = bsr_from 31 n"
  from assms obtain i where "bit n i" using bit_word_eqI [of n 0] by auto
  moreover from this have "i \<le> 31" using bit_imp_le_length [of n i] by simp
  ultimately have b: "b \<le> 31" "bit n b" and above: "\<And>i. b < i \<Longrightarrow> i \<le> 31 \<Longrightarrow> \<not> bit n i"
    using bsr_from_spec [of 31 n] unfolding b_def by auto
  have "bit (unat n) b" using b by (simp add: bit_unsigned_iff)
  then have "unat n div 2 ^ b \<noteq> 0" by (metis bit_iff_odd even_zero)
  then have lo: "2 ^ b \<le> unat n" by (meson div_less not_le)
  have "i \<le> b" if "bit n i" for i
    using above [of i] bit_imp_le_length [OF that] that by (cases "b < i") auto
  then have "take_bit (Suc b) n = n"
    by (intro bit_word_eqI) (auto simp: bit_simps less_Suc_eq_le)
  then have "unat n < 2 ^ Suc b"
    by (metis take_bit_nat_less_exp unsigned_take_bit_eq)
  with lo b show thesis using that [of b] by (simp add: hard_bsr_def b_def)
qed

lemma div64_32_fits:
  assumes "unat (x1 :: u32) < unat (y :: u32)"
  shows "(unat x1 * 2 ^ 32 + unat (x0 :: u32)) div unat y < 2 ^ 32"
proof -
  have "unat x0 < 2 ^ 32" using unat_lt [of x0] by simp
  then have "unat x1 * 2 ^ 32 + unat x0 < (unat x1 + 1) * 2 ^ 32" by simp
  also have "\<dots> \<le> unat y * 2 ^ 32" using assms by (intro mult_right_mono) auto
  finally show ?thesis by (simp add: div_less_iff_less_mult mult.commute)
qed

lemma div64_32_ok:
  "unat x1 < unat y \<Longrightarrow>
   div64_32 x1 x0 y = Some (of_nat ((unat x1 * 2 ^ 32 + unat x0) mod unat y), of_nat ((unat x1 * 2 ^ 32 + unat x0) div unat y))"
  using div64_32_fits [of x1 y x0] by (auto simp: div64_32_def Let_def)

text \<open>The correction loop ends with quotient and remainder.\<close>

lemma div64_correct_ok:
  assumes "2 ^ 32 \<le> unat y" "unat x = unat x0 * unat y + unat r"
  shows "div64_correct y x0 r = Some (of_nat (unat x div unat y), x mod y)"
  using assms
proof (induction "unat r" arbitrary: x0 r rule: less_induct)
  case less
  show ?case
  proof (cases "y \<le> r")
    case True
    have pos: "0 < unat y" using less.prems(1) by simp
    have "unat (r - y) = unat r - unat y" using True by (rule unat_sub)
    moreover have "unat y \<le> unat r" using True by (simp add: word_le_nat_alt)
    ultimately have r: "unat (r - y) = unat r - unat y" "unat y \<le> unat r" by simp_all
    have "(unat x0 + 1) * unat y \<le> unat x" using less.prems r by simp
    also have "\<dots> < 2 ^ 64" using unsigned_less [of x, where ?'a = nat] by simp
    finally have "(unat x0 + 1) * 2 ^ 32 < 2 ^ 64"
      by (rule le_less_trans [OF mult_le_mono2 [OF less.prems(1)]])
    then have "unat (x0 + 1) = unat x0 + 1"
      by (intro unat_plus_one) simp
    then have "unat x = unat (x0 + 1) * unat y + unat (r - y)" using less.prems r by simp
    then show ?thesis
      using less.hyps [of "r - y" "x0 + 1"] less.prems(1) r pos True
      by (simp add: div64_correct.simps [of y x0 r])
  next
    case False
    then have "unat r < unat y" by (simp add: word_le_nat_alt)
    then have "unat x div unat y = unat x0" "unat x mod unat y = unat r"
      using less.prems by simp_all
    then show ?thesis using False
      by (simp add: div64_correct.simps word_unat_eq_iff unat_mod_distrib)
  qed
qed


section \<open>Correctness\<close>

text \<open>The estimate of the quotient does not exceed it.\<close>

lemma estimate_le: "x div c div (y div c + 1) * y \<le> (x :: nat)" if "0 < c"
proof -
  have "y \<le> (y div c + 1) * c"
    using that by (metis add.commute add_mult_distrib div_mult_mod_eq less_imp_le mod_less_divisor mult_1 nat_add_left_cancel_le)
  then have "x div c div (y div c + 1) * y \<le> x div c div (y div c + 1) * (y div c + 1) * c"
    unfolding mult.assoc by (rule mult_le_mono2)
  also have "\<dots> \<le> x div c * c" by (rule mult_le_mono1 [OF div_times_less_eq_dividend])
  also have "\<dots> \<le> x" by simp
  finally show ?thesis .
qed

text \<open>
  The divisors that the routine cannot handle: those of at least 33 bits whose 32 leading bits are
  all ones.
\<close>

definition leading_ones :: "u64 \<Rightarrow> bool" where
  "leading_ones y \<longleftrightarrow> (\<exists>l\<in>{1..32}. unat y div 2 ^ l = 2 ^ 32 - 1)"

text \<open>The shift that brings the leading bit of the divisor to bit 31.\<close>

definition norm_shift :: "u64 \<Rightarrow> nat" where
  "norm_shift y = Suc (unat (hard_bsr (ucast (drop_bit 32 y))))"

lemma pow2_split: "(2 :: nat) ^ (32 + n) = 2 ^ 32 * 2 ^ n"
  by (simp add: power_add)

lemma norm_shift_spec:
  assumes "2 ^ 32 \<le> unat (y :: u64)"
  shows "0 < norm_shift y" "norm_shift y \<le> 32"
    and "hard_bsr (ucast (drop_bit 32 y)) + 1 = of_nat (norm_shift y)"
    and "2 ^ 31 \<le> unat y div 2 ^ norm_shift y" "unat y div 2 ^ norm_shift y < 2 ^ 32"
proof -
  let ?y1 = "ucast (drop_bit 32 y) :: u32"
  have y1: "unat ?y1 = unat y div 2 ^ 32" by (rule unat_hi32)
  then have "?y1 \<noteq> 0" using assms by (auto simp: div_greater_zero_iff)
  then obtain b where b: "b < 32" "hard_bsr ?y1 = of_nat b" "2 ^ b \<le> unat ?y1" "unat ?y1 < 2 ^ Suc b"
    by (rule hard_bsr_spec)
  have sh: "norm_shift y = Suc b" using b by (simp add: norm_shift_def unsigned_of_nat take_bit_nat_eq_self_iff)
  with b show "0 < norm_shift y" "norm_shift y \<le> 32" "hard_bsr ?y1 + 1 = of_nat (norm_shift y)"
    by simp_all
  have "2 ^ b * 2 ^ 32 \<le> unat y"
    using b(3) unfolding y1 by (simp add: less_eq_div_iff_mult_less_eq)
  then have "2 ^ 31 * 2 ^ Suc b \<le> unat y" by (simp add: mult.commute)
  then show "2 ^ 31 \<le> unat y div 2 ^ norm_shift y"
    unfolding sh by (subst less_eq_div_iff_mult_less_eq) simp_all
  have "unat y < 2 ^ Suc b * 2 ^ 32"
    using b(4) unfolding y1 by (simp add: div_less_iff_less_mult)
  then show "unat y div 2 ^ norm_shift y < 2 ^ 32"
    unfolding sh by (subst div_less_iff_less_mult) (simp_all add: mult.commute)
qed

lemma leading_ones_norm:
  assumes "2 ^ 32 \<le> unat y"
  shows "leading_ones y \<longleftrightarrow> unat y div 2 ^ norm_shift y = 2 ^ 32 - 1"
proof
  assume "leading_ones y"
  then obtain l where l: "l \<in> {1..32}" "unat y div 2 ^ l = 2 ^ 32 - 1" by (auto simp: leading_ones_def)
  have "norm_shift y = l"
  proof (rule ccontr)
    assume "norm_shift y \<noteq> l"
    then consider "Suc l \<le> norm_shift y" | "Suc (norm_shift y) \<le> l" by linarith
    then show False
    proof cases
      case 1
      then obtain k where k: "norm_shift y = l + Suc k" by (metis add_Suc_right less_eqE plus_nat.simps(2))
      then have "unat y div 2 ^ norm_shift y = (2 ^ 32 - 1) div 2 ^ Suc k"
        using l(2) by (simp only: power_add div_mult2_eq)
      also have "\<dots> \<le> (2 ^ 32 - 1) div 2" by (simp add: div_mult2_eq)
      finally show False using norm_shift_spec(4) [OF assms] by simp
    next
      case 2
      then obtain k where k: "l = norm_shift y + Suc k" by (metis add_Suc_right less_eqE plus_nat.simps(2))
      then have "2 ^ 32 - 1 = unat y div 2 ^ norm_shift y div 2 ^ Suc k"
        using l(2) by (simp only: power_add div_mult2_eq)
      also have "\<dots> \<le> unat y div 2 ^ norm_shift y div 2" by (simp add: div_mult2_eq)
      finally show False using norm_shift_spec(5) [OF assms] by simp
    qed
  qed
  with l show "unat y div 2 ^ norm_shift y = 2 ^ 32 - 1" by simp
next
  assume "unat y div 2 ^ norm_shift y = 2 ^ 32 - 1"
  then show "leading_ones y"
    using norm_shift_spec(1,2) [OF assms] unfolding leading_ones_def by auto
qed


lemma unat_shr: "unat (x :: u64) div 2 ^ l < 2 ^ 32 \<Longrightarrow> unat (ucast (drop_bit l x) :: u32) = unat x div 2 ^ l"
  by (simp add: unat_drop_bit unsigned_ucast_eq take_bit_nat_eq_self_iff)

lemma shifted_dividend:
  assumes "0 < l" "l \<le> 32"
  shows "unat (ucast (drop_bit (32 + l) x) :: u32) * 2 ^ 32 + unat (ucast (drop_bit l x) :: u32) = unat (x :: u64) div 2 ^ l"
    and "unat (ucast (drop_bit (32 + l) x) :: u32) < 2 ^ 31"
proof -
  have "unat x < 2 ^ 31 * 2 ^ 33" using unsigned_less [of x, where ?'a = nat] by simp
  also have "\<dots> \<le> 2 ^ 31 * 2 ^ (32 + l)" using assms by (intro mult_left_mono power_increasing) auto
  finally have hi: "unat x div 2 ^ (32 + l) < 2 ^ 31" by (simp only: div_less_iff_less_mult zero_less_power zero_less_numeral)
  then have hi': "unat (ucast (drop_bit (32 + l) x) :: u32) = unat x div 2 ^ (32 + l)"
    by (intro unat_shr) simp
  with hi show "unat (ucast (drop_bit (32 + l) x) :: u32) < 2 ^ 31" by simp
  have "unat (ucast (drop_bit l x) :: u32) = unat x div 2 ^ l mod 2 ^ 32"
    by (simp only: unat_lo32 unat_drop_bit)
  moreover have "unat x div 2 ^ (32 + l) = unat x div 2 ^ l div 2 ^ 32"
    by (simp only: power_add mult.commute [of "2 ^ 32"] div_mult2_eq)
  ultimately show "unat (ucast (drop_bit (32 + l) x) :: u32) * 2 ^ 32 + unat (ucast (drop_bit l x) :: u32) = unat x div 2 ^ l"
    unfolding hi' by (simp only: div_mult_mod_eq)
qed

text \<open>A divisor of at least 33 bits: the estimate and its correction.\<close>

lemma do_div64_wide_eq:
  assumes "2 ^ 32 \<le> unat y" and l_def: "l = norm_shift y"
  shows "do_div64 x y = do {
           (x1, x0) \<leftarrow> div64_32 (ucast (drop_bit (32 + l) x)) (ucast (drop_bit l x)) (ucast (drop_bit l y) + 1);
           (x0, r) \<leftarrow> div64_correct y x0 (x - y * ucast x0);
           Some (ucast x0, r) }"
proof -
  have "unat (ucast (drop_bit 32 y) :: u32) \<noteq> 0"
    using assms(1) unfolding unat_hi32 by (simp add: div_greater_zero_iff)
  then have "(ucast (drop_bit 32 y) :: u32) \<noteq> 0" by auto
  then show ?thesis
    using norm_shift_spec(1-3) [OF assms(1)]
    by (simp add: do_div64_def ucast_lo32 l_def rshift64_32_ok rshift64_ok)
qed

lemma quotient_fits:
  assumes "2 ^ 32 \<le> unat y" "q * unat y \<le> unat (x :: u64)"
  shows "q < 2 ^ 32"
proof -
  have "q * 2 ^ 32 \<le> q * unat y" by (rule mult_le_mono2 [OF assms(1)])
  also have "\<dots> < 2 ^ 64" using assms(2) unsigned_less [of x, where ?'a = nat] by simp
  finally show ?thesis by simp
qed

lemma ucast_of_nat32: "q < 2 ^ 32 \<Longrightarrow> (ucast (of_nat q :: u32) :: u64) = of_nat q"
  by (simp add: word_unat_eq_iff unsigned_ucast_eq unsigned_of_nat take_bit_nat_eq_self)

lemma unat_diff_mult:
  assumes "q * unat y \<le> unat (x :: u64)" "q < 2 ^ 32"
  shows "unat (x - y * ucast (of_nat q :: u32)) = unat x - q * unat y"
proof -
  have "q * unat y < 2 ^ 64" using assms(1) unsigned_less [of x, where ?'a = nat] by simp
  then have "unat (y * ucast (of_nat q :: u32)) = q * unat y"
    using assms(2) by (simp add: ucast_of_nat32 unat_word_ariths unsigned_of_nat take_bit_nat_eq_self mult.commute)
  then show ?thesis using assms(1) by (simp add: unat_sub word_le_nat_alt)
qed

lemma do_div64_wide:
  assumes wide: "2 ^ 32 \<le> unat y"
  shows "do_div64 x y = (if leading_ones y then None else Some (x div y, x mod y))"
proof -
  define l where "l = norm_shift y"
  define yl where "yl = unat y div 2 ^ l"
  define q where "q = unat x div 2 ^ l div (yl + 1)"
  have l: "0 < l" "l \<le> 32" and yl: "2 ^ 31 \<le> yl" "yl < 2 ^ 32"
    using norm_shift_spec [OF wide] by (simp_all add: l_def yl_def)
  have y0: "unat (ucast (drop_bit l y) :: u32) = yl" unfolding yl_def
    by (rule unat_shr) (use yl in \<open>simp add: yl_def\<close>)
  show ?thesis
  proof (cases "yl = 2 ^ 32 - 1")
    case True
    then have "unat (ucast (drop_bit l y) :: u32) = unat (- 1 :: u32)"
      using y0 by (simp add: unsigned_minus_1_eq_mask mask_eq_exp_minus_1)
    then have "(ucast (drop_bit l y) :: u32) + 1 = 0" by (simp only: word_unat_eq_iff [symmetric]) simp
    then show ?thesis using True leading_ones_norm [OF wide]
      by (simp add: do_div64_wide_eq [OF wide l_def] div64_32_def yl_def l_def)
  next
    case False
    then have d: "unat ((ucast (drop_bit l y) :: u32) + 1) = yl + 1" using y0 yl by (subst unat_plus_one) simp_all
    have le: "q * unat y \<le> unat x" unfolding q_def yl_def by (rule estimate_le) simp
    have q: "q < 2 ^ 32" by (rule quotient_fits [OF wide le])
    have "div64_32 (ucast (drop_bit (32 + l) x)) (ucast (drop_bit l x)) (ucast (drop_bit l y) + 1) =
        Some (of_nat (unat x div 2 ^ l mod (yl + 1)), of_nat q)"
      using div64_32_ok [of "ucast (drop_bit (32 + l) x)" "ucast (drop_bit l y) + 1" "ucast (drop_bit l x)"]
        shifted_dividend [OF l, of x] yl unfolding d q_def by simp
    moreover have "unat (x - y * ucast (of_nat q :: u32)) = unat x - q * unat y"
      by (rule unat_diff_mult [OF le q])
    moreover have "(ucast (of_nat (unat x div unat y) :: u32) :: u64) = x div y"
      using quotient_fits [OF wide div_times_less_eq_dividend] by (simp add: ucast_of_nat32 word_arith_nat_div)
    moreover have "unat (of_nat q :: u32) = q" using q by (simp add: unsigned_of_nat take_bit_nat_eq_self)
    ultimately show ?thesis
      using leading_ones_norm [OF wide] False le q div64_correct_ok [OF wide, of x "of_nat q" "x - y * ucast (of_nat q :: u32)"]
      by (simp add: do_div64_wide_eq [OF wide l_def] yl_def l_def)
  qed
qed


text \<open>A divisor of at most 32 bits: one or two divisions of the processor.\<close>

lemma long_division:
  assumes "0 < y"
  shows "x1 div y * c + (x1 mod y * c + x0) div y = (x1 * c + x0) div (y :: nat)"
    and "(x1 mod y * c + x0) mod y = (x1 * c + x0) mod (y :: nat)"
proof -
  have "(a * y + b) * c = a * c * y + b * c" for a b by (simp add: algebra_simps)
  from this [of "x1 div y" "x1 mod y"] have eq: "x1 * c + x0 = x1 div y * c * y + (x1 mod y * c + x0)"
    by simp
  show "x1 div y * c + (x1 mod y * c + x0) div y = (x1 * c + x0) div y"
    unfolding eq using assms by simp
  show "(x1 mod y * c + x0) mod y = (x1 * c + x0) mod y" unfolding eq by simp
qed

lemma unat_div_mod: "unat (x div y) = unat x div unat y" "unat (x mod y) = unat x mod unat y"
  by (simp_all add: unat_div_distrib unat_mod_distrib)

lemma unat_ucast_of_nat32: "n < 2 ^ 32 \<Longrightarrow> unat (ucast (of_nat n :: u32) :: u64) = n"
  by (simp add: ucast_of_nat32 unsigned_of_nat take_bit_nat_eq_self)

lemma quotient_fits_narrow:
  assumes "(ucast (drop_bit 32 x) :: u32) < ucast y" "unat (ucast y :: u32) = unat y"
  shows "unat (x :: u64) div unat (y :: u64) < 2 ^ 32"
proof -
  have "unat x div 2 ^ 32 < unat y" using assms by (simp add: word_less_nat_alt unat_hi32)
  then have "unat x < unat y * 2 ^ 32" by (simp add: div_less_iff_less_mult)
  then show ?thesis using assms(1) by (subst div_less_iff_less_mult) (auto simp: unat_gt_0 mult.commute)
qed

lemma unat_of_nat_mod32: "0 < n \<Longrightarrow> unat (of_nat (unat (x :: u32) mod n) :: u32) = unat x mod n"
  using unat_lt [of x] by (simp add: unsigned_of_nat take_bit_nat_eq_self le_less_trans [OF mod_less_eq_dividend])

lemma combine_quotient:
  assumes "unat (x1 :: u32) * 2 ^ 32 + x0 = unat x" "0 < unat y" "(unat x1 mod unat y * 2 ^ 32 + x0) div unat y < 2 ^ 32"
  shows "push_bit 32 (ucast (of_nat (unat x1 div unat y) :: u32)) +
    ucast (of_nat ((unat x1 mod unat y * 2 ^ 32 + x0) div unat y) :: u32) = (x :: u64) div y"
proof -
  have "unat x1 div unat y < 2 ^ 32"
    using unat_lt [of x1] by (simp add: le_less_trans [OF div_le_dividend])
  then have "push_bit 32 (ucast (of_nat (unat x1 div unat y) :: u32)) +
      ucast (of_nat ((unat x1 mod unat y * 2 ^ 32 + x0) div unat y) :: u32) =
      (of_nat (unat x1 div unat y * 2 ^ 32 + (unat x1 mod unat y * 2 ^ 32 + x0) div unat y) :: u64)"
    using assms(3) by (simp add: ucast_of_nat32 push_bit_eq_mult)
  also have "\<dots> = x div y"
    using assms by (simp only: long_division word_arith_nat_div)
  finally show ?thesis .
qed

lemma do_div64_narrow:
  assumes narrow: "unat y < 2 ^ 32"
  shows "do_div64 x y = Some (x div y, x mod y)"
proof -
  let ?y0 = "ucast y :: u32" and ?x1 = "ucast (drop_bit 32 x) :: u32" and ?x0 = "ucast x :: u32"
  have y1: "(ucast (drop_bit 32 y) :: u32) = 0"
    using narrow unat_hi32 [of y] by (simp add: unat_eq_zero)
  have y0: "unat ?y0 = unat y" using narrow by (simp add: unat_lo32)
  have x: "unat ?x1 * 2 ^ 32 + unat ?x0 = unat x" by (simp only: unat_hi32) (simp only: unat_lo32 div_mult_mod_eq)
  have mod: "unat x mod unat y < 2 ^ 32" if "y \<noteq> 0"
    using narrow that by (meson less_trans mod_less_divisor unat_gt_0)
  consider (one) "?x1 < ?y0" | (zero) "?y0 = 0" | (two) "\<not> ?x1 < ?y0" "?y0 \<noteq> 0" by auto
  then show ?thesis
  proof cases
    case one
    then have "div64_32 ?x1 ?x0 ?y0 = Some (of_nat (unat x mod unat y), of_nat (unat x div unat y))"
      using div64_32_ok [of ?x1 ?y0 ?x0] unfolding x y0 by (simp add: word_less_nat_alt y0)
    moreover have "y \<noteq> 0" using one by auto
    moreover have "unat x div unat y < 2 ^ 32" by (rule quotient_fits_narrow [OF one y0])
    ultimately show ?thesis using one y1 mod
      by (simp add: do_div64_def ucast_lo32 word_unat_eq_iff unat_ucast_of_nat32 unat_div_mod)
  next
    case zero
    then have "y = 0" using y0 by (simp add: unat_eq_zero)
    then show ?thesis using y1 by (simp add: do_div64_def)
  next
    case two
    then have pos: "0 < unat ?y0" by (simp add: unat_gt_0)
    let ?r = "of_nat (unat ?x1 mod unat y) :: u32"
    have r: "unat ?r = unat ?x1 mod unat y"
      using pos y0 by (intro unat_of_nat_mod32) simp_all
    have "div64_32 0 ?x1 ?y0 = Some (?r, of_nat (unat ?x1 div unat y))"
      using div64_32_ok [of 0 ?y0 ?x1] pos by (simp add: y0)
    moreover have "div64_32 ?r ?x0 ?y0 = Some (of_nat (unat x mod unat y), of_nat ((unat ?x1 mod unat y * 2 ^ 32 + unat ?x0) div unat y))"
      using div64_32_ok [of ?r ?y0 ?x0] pos long_division(2) [of "unat y" "unat ?x1" "2 ^ 32" "unat ?x0"]
      unfolding r y0 x by simp
    moreover have "push_bit 32 (ucast (of_nat (unat ?x1 div unat y) :: u32)) +
        ucast (of_nat ((unat ?x1 mod unat y * 2 ^ 32 + unat ?x0) div unat y) :: u32) = x div y"
      using div64_32_fits [of ?r ?y0 ?x0] pos unfolding r y0
      by (intro combine_quotient [OF x]) simp_all
    moreover have "(ucast (of_nat (unat x mod unat y) :: u32) :: u64) = x mod y"
      using two y0 mod by (auto simp: word_unat_eq_iff unat_ucast_of_nat32 unat_div_mod)
    ultimately show ?thesis using two y1 by (simp add: do_div64_def ucast_lo32 Let_def)
  qed
qed

lemma narrow_not_leading: "unat y < 2 ^ 32 \<Longrightarrow> \<not> leading_ones y"
proof
  assume narrow: "unat y < 2 ^ 32" and "leading_ones y"
  then obtain l where l: "l \<in> {1..32}" "unat y div 2 ^ l = 2 ^ 32 - 1" by (auto simp: leading_ones_def)
  then obtain k where "l = Suc k" by (cases l) auto
  then have "unat y div 2 ^ l \<le> unat y div 2" by (simp add: div_mult2_eq)
  also have "\<dots> < 2 ^ 31" using narrow by (simp add: div_less_iff_less_mult)
  finally show False using l by simp
qed

text \<open>
  C22: \<^verbatim>\<open>do_div64\<close> returns quotient and remainder for every dividend and every divisor (for a zero divisor the
  quotient 0 and the dividend as remainder), except the divisors of more than 32 bits whose 32 leading bits are all ones:
  there the increment of the shifted divisor wraps to zero and the processor raises a division error.
\<close>

theorem do_div64_exact:
  "do_div64 x y = (if leading_ones y then None else Some (x div y, x mod y))"
  by (cases "unat y < 2 ^ 32") (simp_all add: do_div64_narrow do_div64_wide narrow_not_leading not_less)

end
