(* ===== verification/Queue_Header.thy ===== *)
theory Queue_Header
  imports Memory "HOL-Library.Multiset"
begin

text \<open>
  The generic priority queues of \<^verbatim>\<open>shared/queue.h\<close>: a circular doubly linked list through a field of
  the elements, sorted by priority, with the element to take at its end. The links of memory are
  two maps from addresses; the macros get the offset \<open>diff\<close> of the link field in the element, and the
  priority field as a function of the element's address. A failed assertion is \<open>None\<close>.

  The list of a queue is \<open>ring\<close>; the theorems relate it to the elements in the order of their
  arrival: an element leaves when none has a higher priority and, among those of its priority,
  none came earlier.
\<close>

section \<open>Links\<close>

record links =
  lprev :: "u32 \<Rightarrow> u32"
  lnext :: "u32 \<Rightarrow> u32"

definition set_prev :: "u32 \<Rightarrow> u32 \<Rightarrow> links \<Rightarrow> links" where
  "set_prev p v m = m\<lparr>lprev := (lprev m)(p := v)\<rparr>"

definition set_next :: "u32 \<Rightarrow> u32 \<Rightarrow> links \<Rightarrow> links" where
  "set_next p v m = m\<lparr>lnext := (lnext m)(p := v)\<rparr>"

definition init_list_head :: "u32 \<Rightarrow> links \<Rightarrow> links" where
  "init_list_head l m = set_prev l l (set_next l l m)"

definition init_link :: "u32 \<Rightarrow> links \<Rightarrow> links" where
  "init_link l m = set_prev l 0 (set_next l 0 m)"

definition queue_entry :: "u32 \<Rightarrow> u32 \<Rightarrow> u32" where
  "queue_entry diff l = l - diff"

section \<open>Operations\<close>

text \<open>The do-while loop of \<^verbatim>\<open>queue_add\<close>.\<close>

partial_function (option) queue_add_loop :: "(u32 \<Rightarrow> int) \<Rightarrow> u32 \<Rightarrow> u32 \<Rightarrow> u32 \<Rightarrow> u32 \<Rightarrow> links \<Rightarrow> u32 option" where
  "queue_add_loop priofield diff head elem cur m =
     (let cur = lnext m cur
      in if cur \<noteq> head \<and> priofield (queue_entry diff cur) < priofield elem
         then queue_add_loop priofield diff head elem cur m else Some cur)"

definition queue_add :: "(u32 \<Rightarrow> int) \<Rightarrow> u32 \<Rightarrow> u32 \<Rightarrow> u32 \<Rightarrow> links \<Rightarrow> links option" where
  "queue_add priofield diff elem head m =
     (let elem_link = elem + diff
      in if \<not> (lprev m elem_link = 0 \<and> lnext m elem_link = 0) then None
         else do {
           cur \<leftarrow> queue_add_loop priofield diff head elem head m;
           let m = set_next elem_link cur m;
           let m = set_prev elem_link (lprev m cur) m;
           let m = set_next (lprev m cur) elem_link m;
           Some (set_prev cur elem_link m) })"

definition queue_empty :: "u32 \<Rightarrow> links \<Rightarrow> bool" where
  "queue_empty head m \<longleftrightarrow> lnext m head = head"

text \<open>\<^verbatim>\<open>queue_out\<close> returns the element, or 0 if there is none.\<close>

definition queue_out :: "u32 \<Rightarrow> u32 \<Rightarrow> links \<Rightarrow> u32 \<times> links" where
  "queue_out diff head m =
     (let ret = lprev m head
      in if queue_empty head m then (0, m)
         else let m = set_prev head (lprev m (lprev m head)) m;
                  m = set_next (lprev m head) head m;
                  m = set_prev ret 0 m;
                  m = set_next ret 0 m
              in (ret - diff, m))"

definition queue_del :: "u32 \<Rightarrow> u32 \<Rightarrow> links \<Rightarrow> links option" where
  "queue_del diff elem m =
     (let elem_link = elem + diff
      in if \<not> (lprev m elem_link \<noteq> 0 \<and> lnext m elem_link \<noteq> 0) then None
         else let m = set_next (lprev m elem_link) (lnext m elem_link) m;
                  m = set_prev (lnext m elem_link) (lprev m elem_link) m;
                  m = set_next elem_link 0 m
              in Some (set_prev elem_link 0 m))"

definition queue_top :: "u32 \<Rightarrow> u32 \<Rightarrow> links \<Rightarrow> u32" where
  "queue_top diff head m = (let ret = lprev m head in if queue_empty head m then 0 else ret - diff)"

text \<open>The two iteration macros, as the elements they visit with a body that leaves the links alone.\<close>

partial_function (option) queue_for_each_loop :: "(u32 \<Rightarrow> u32) \<Rightarrow> u32 \<Rightarrow> u32 \<Rightarrow> u32 \<Rightarrow> u32 list option" where
  "queue_for_each_loop nx diff head elem =
     (if elem + diff \<noteq> head then do {
        es \<leftarrow> queue_for_each_loop nx diff head (queue_entry diff (nx (elem + diff)));
        Some (elem # es) }
      else Some [])"

definition queue_for_each :: "u32 \<Rightarrow> u32 \<Rightarrow> links \<Rightarrow> u32 list option" where
  "queue_for_each diff head m = queue_for_each_loop (lnext m) diff head (queue_entry diff (lnext m head))"

definition queue_for_each_prev :: "u32 \<Rightarrow> u32 \<Rightarrow> links \<Rightarrow> u32 list option" where
  "queue_for_each_prev diff head m = queue_for_each_loop (lprev m) diff head (queue_entry diff (lprev m head))"

section \<open>Rings\<close>

text \<open>A segment of links that are chained both ways, and the ring of a queue: the elements behind its head.\<close>

primrec lseg :: "links \<Rightarrow> u32 \<Rightarrow> u32 list \<Rightarrow> u32 \<Rightarrow> bool" where
  "lseg m a [] b \<longleftrightarrow> lnext m a = b \<and> lprev m b = a"
| "lseg m a (x # xs) b \<longleftrightarrow> lnext m a = x \<and> lprev m x = a \<and> lseg m x xs b"

definition ring :: "links \<Rightarrow> u32 \<Rightarrow> u32 list \<Rightarrow> bool" where
  "ring m h ls \<longleftrightarrow> lseg m h ls h \<and> distinct (h # ls) \<and> 0 \<notin> set (h # ls)"

lemma lnext_set [simp]:
  "lnext (set_next p v m) = (lnext m)(p := v)" "lprev (set_next p v m) = lprev m"
  "lprev (set_prev p v m) = (lprev m)(p := v)" "lnext (set_prev p v m) = lnext m"
  by (simp_all add: set_next_def set_prev_def)

lemma lseg_append: "lseg m a (xs @ y # ys) b \<longleftrightarrow> lseg m a xs y \<and> lseg m y ys b"
  by (induction xs arbitrary: a) auto

lemma lseg_cong:
  assumes "\<And>x. x \<in> insert a (set xs) \<Longrightarrow> lnext m' x = lnext m x"
    and "\<And>x. x \<in> insert b (set xs) \<Longrightarrow> lprev m' x = lprev m x"
  shows "lseg m' a xs b = lseg m a xs b"
  using assms by (induction xs arbitrary: a) auto

text \<open>Inserting a link between two parts of a ring, and taking one out.\<close>

definition link_in :: "u32 \<Rightarrow> u32 \<Rightarrow> links \<Rightarrow> links" where
  "link_in l cur m = set_prev cur l (set_next (lprev m cur) l (set_prev l (lprev m cur) (set_next l cur m)))"

definition link_out :: "u32 \<Rightarrow> links \<Rightarrow> links" where
  "link_out l m = set_prev l 0 (set_next l 0 (set_prev (lnext m l) (lprev m l) (set_next (lprev m l) (lnext m l) m)))"

lemma lseg_last: "lseg m a xs b \<Longrightarrow> lprev m b = last (a # xs)"
  by (induction xs arbitrary: a) auto

lemma lseg_first: "lseg m a xs b \<Longrightarrow> lnext m a = hd (xs @ [b])"
  by (cases xs) auto

lemma lseg_set [simp]:
  "p \<notin> insert a (set xs) \<Longrightarrow> lseg (set_next p v m) a xs b = lseg m a xs b"
  "p \<notin> insert b (set xs) \<Longrightarrow> lseg (set_prev p v m) a xs b = lseg m a xs b"
  by (rule lseg_cong; auto)+

lemma ring_link_in:
  assumes "ring m h (xs @ ys)" "l \<notin> set (h # xs @ ys)" "l \<noteq> 0" "cur = hd (ys @ [h])"
  shows "ring (link_in l cur m) h (xs @ l # ys)"
  using assms
  by (cases xs rule: rev_cases; cases ys) (auto simp: ring_def link_in_def lseg_append)

lemma ring_link_out:
  assumes "ring m h (xs @ l # ys)"
  shows "ring (link_out l m) h (xs @ ys)"
  using assms
  by (cases xs rule: rev_cases; cases ys) (auto simp: ring_def link_out_def lseg_append)

section \<open>The operations on rings\<close>

lemma queue_add_loop_ok:
  assumes "lseg m cur ls h" "h \<notin> set ls"
  shows "queue_add_loop priofield diff h elem cur m =
    Some (hd (dropWhile (\<lambda>l. priofield (queue_entry diff l) < priofield elem) ls @ [h]))"
  using assms by (induction ls arbitrary: cur) (subst queue_add_loop.simps, auto)+

lemma insort_key_conv: "insort_key f x ys = takeWhile (\<lambda>y. f y < f x) ys @ x # dropWhile (\<lambda>y. f y < f x) ys"
  by (induction ys) auto

abbreviation links_of :: "u32 \<Rightarrow> u32 list \<Rightarrow> u32 list" where
  "links_of diff es \<equiv> map (\<lambda>e. e + diff) es"

text \<open>The links outside a ring keep their contents.\<close>

definition same_outside :: "u32 set \<Rightarrow> links \<Rightarrow> links \<Rightarrow> bool" where
  "same_outside A m m' \<longleftrightarrow> (\<forall>x. x \<notin> A \<longrightarrow> lprev m' x = lprev m x \<and> lnext m' x = lnext m x)"

lemma lseg_ends: "lseg m a xs b \<Longrightarrow> lprev m b \<in> insert a (set xs)" "lseg m a xs b \<Longrightarrow> lnext m a \<in> insert b (set xs)"
  by (cases xs rule: rev_cases; auto simp: lseg_append) (cases xs; auto)

lemma dropWhile_hd_in: "dropWhile P xs = y # ys \<Longrightarrow> y \<in> set xs"
  by (metis list.set_intros(1) set_dropWhileD)

lemma ring_closed:
  assumes "ring m h ls" "x \<in> set (h # ls)"
  shows "lprev m x \<in> set (h # ls)" "lnext m x \<in> set (h # ls)"
proof -
  consider "x = h" | xs ys where "ls = xs @ x # ys" using assms(2) by (auto simp: in_set_conv_decomp)
  then show "lprev m x \<in> set (h # ls)" "lnext m x \<in> set (h # ls)"
    using assms(1) by (cases; auto simp: ring_def lseg_append dest: lseg_ends)+
qed

lemma same_outside_link_in:
  "ring m h ls \<Longrightarrow> cur \<in> set (h # ls) \<Longrightarrow> same_outside (set (h # l # ls)) m (link_in l cur m)"
  using ring_closed [of m h ls cur] by (auto simp: same_outside_def link_in_def)

lemma ring_not_empty: "ring m h ls \<Longrightarrow> queue_empty h m \<longleftrightarrow> ls = []"
  by (cases ls) (auto simp: ring_def queue_empty_def)

lemma queue_out_ok:
  assumes r: "ring m h (ls @ [l])"
  shows "queue_out diff h m = (l - diff, link_out l m)"
proof -
  have "lprev m h = l" "lnext m l = h" "l \<noteq> h" "lprev m l \<noteq> l"
    using r by (auto simp: ring_def lseg_append dest: lseg_ends(1))
  then show ?thesis using ring_not_empty [OF r]
    by (simp add: queue_out_def link_out_def Let_def set_next_def set_prev_def fun_upd_twist)
qed

lemma queue_add_ok:
  assumes r: "ring m h (links_of diff es)"
    and new: "e + diff \<notin> set (h # links_of diff es)" "e + diff \<noteq> 0"
    and free: "lprev m (e + diff) = 0" "lnext m (e + diff) = 0"
  shows "\<exists>m'. queue_add priofield diff e h m = Some m' \<and> ring m' h (links_of diff (insort_key priofield e es)) \<and>
    same_outside (set (h # (e + diff) # links_of diff es)) m m'"
proof -
  let ?low = "\<lambda>l. priofield (queue_entry diff l) < priofield e"
  let ?xs = "takeWhile (\<lambda>x. priofield x < priofield e) es" and ?ys = "dropWhile (\<lambda>x. priofield x < priofield e) es"
  have drop: "dropWhile ?low (links_of diff es) = links_of diff ?ys"
    by (simp add: dropWhile_map comp_def queue_entry_def)
  let ?cur = "hd (links_of diff ?ys @ [h])"
  have loop: "queue_add_loop priofield diff h e h m = Some ?cur"
    using r queue_add_loop_ok [of m h "links_of diff es" h priofield diff e] drop by (simp add: ring_def)
  have cur: "?cur \<in> set (h # links_of diff es)"
  proof (cases ?ys)
    case (Cons y ys)
    then have "y \<in> set es" by (rule dropWhile_hd_in)
    then show ?thesis unfolding Cons by simp
  qed (simp only: list.map append.simps list.sel, simp)
  have split: "ring m h (links_of diff ?xs @ links_of diff ?ys)" using r by (simp flip: map_append)
  have notin: "e + diff \<notin> set (h # links_of diff ?xs @ links_of diff ?ys)"
    using new(1) by (simp flip: set_append map_append)
  have "queue_add priofield diff e h m = Some (link_in (e + diff) ?cur m)"
    using loop cur new free by (auto simp: queue_add_def link_in_def Let_def)
  moreover have "ring (link_in (e + diff) ?cur m) h (links_of diff (insort_key priofield e es))"
    using ring_link_in [OF split _ new(2) refl] notin by (simp add: insort_key_conv)
  moreover have "same_outside (set (h # (e + diff) # links_of diff es)) m (link_in (e + diff) ?cur m)"
    using same_outside_link_in [OF r cur] by simp
  ultimately show ?thesis by blast
qed


lemma queue_del_ok:
  assumes r: "ring m h (links_of diff (xs @ e # ys))"
  shows "queue_del diff e m = Some (link_out (e + diff) m)"
proof -
  have "e + diff \<in> set (h # links_of diff (xs @ e # ys))" by simp
  note mem = ring_closed [OF r this]
  then have "lprev m (e + diff) \<noteq> 0" "lnext m (e + diff) \<noteq> 0" using r by (auto simp: ring_def)
  moreover have "lprev m (e + diff) \<noteq> e + diff"
    using r by (auto simp: ring_def lseg_append dest: lseg_ends(1))
  ultimately show ?thesis by (simp add: queue_del_def link_out_def Let_def)
qed

lemma same_outside_link_out:
  assumes "ring m h ls" "l \<in> set ls"
  shows "same_outside (set (h # ls)) m (link_out l m)"
  using ring_closed [OF assms(1), of l] assms(2) by (auto simp: same_outside_def link_out_def)

lemma link_out_free [simp]: "lprev (link_out l m) l = 0" "lnext (link_out l m) l = 0"
  by (simp_all add: link_out_def)

lemma for_each_next:
  "lseg m a (links_of diff es) h \<Longrightarrow> h \<notin> set (links_of diff es) \<Longrightarrow>
   queue_for_each_loop (lnext m) diff h (queue_entry diff (lnext m a)) = Some es"
  by (induction es arbitrary: a) (subst queue_for_each_loop.simps, auto simp: queue_entry_def)+

lemma for_each_prev:
  "lseg m h (links_of diff es) b \<Longrightarrow> h \<notin> set (links_of diff es) \<Longrightarrow>
   queue_for_each_loop (lprev m) diff h (queue_entry diff (lprev m b)) = Some (rev es)"
  by (induction es arbitrary: b rule: rev_induct)
     (subst queue_for_each_loop.simps, auto simp: queue_entry_def lseg_append)+

section \<open>Arrival order\<close>

text \<open>
  The contract of a stable priority queue, on the list of its elements with the latest arrival first:
  elements leave from the end of the list sorted by priority.
\<close>

lemma last_insort_key:
  "sorted (map f s) \<Longrightarrow> s \<noteq> [] \<Longrightarrow> last (insort_key f a s) = (if f a \<le> f (last s) then last s else a)"
proof (induction s)
  case (Cons x s)
  then show ?case using order_trans [of "f a" "f x" "f (last s)"] by (cases "s = []") auto
qed simp

lemma sort_key_Nil [simp]: "sort_key f xs = [] \<longleftrightarrow> xs = []"
  by (metis length_0_conv length_sort)

lemma last_sort_key:
  "arr \<noteq> [] \<Longrightarrow> \<exists>as bs. arr = as @ last (sort_key f arr) # bs \<and>
     (\<forall>x\<in>set as. f x \<le> f (last (sort_key f arr))) \<and> (\<forall>x\<in>set bs. f x < f (last (sort_key f arr)))"
proof (induction arr)
  case (Cons a arr)
  show ?case
  proof (cases "arr = []")
    case False
    let ?e = "last (sort_key f arr)"
    from Cons.IH [OF False] obtain as bs where arr: "arr = as @ ?e # bs"
      "\<forall>x\<in>set as. f x \<le> f ?e" "\<forall>x\<in>set bs. f x < f ?e" by blast
    have last: "last (sort_key f (a # arr)) = (if f a \<le> f ?e then ?e else a)"
      using False last_insort_key [of f "sort_key f arr" a] by simp
    show ?thesis
    proof (cases "f a \<le> f ?e")
      case True
      then have "a # arr = (a # as) @ ?e # bs" using arr(1) by simp
      moreover have "last (sort_key f (a # arr)) = ?e" using True last by simp
      moreover have "\<forall>x\<in>set (a # as). f x \<le> f ?e" using True arr(2) by simp
      ultimately show ?thesis using arr(3) by metis
    next
      case le: False
      have "f x < f a" if "x \<in> set arr" for x
      proof -
        have "x \<in> set (as @ ?e # bs)" using that arr(1) by metis
        then have "f x \<le> f ?e" using arr(2,3) by auto
        then show ?thesis using le by simp
      qed
      moreover have "last (sort_key f (a # arr)) = a" using le last by simp
      ultimately show ?thesis by (metis append_Nil empty_iff empty_set)
    qed
  qed (simp, metis append_Nil empty_iff empty_set)
qed simp

lemma sort_key_filter: "filter (\<lambda>x. f k = f x) (sort_key f xs) = filter (\<lambda>x. f k = f x) xs"
  using sort_key_stable [of f "f k" xs] by (simp add: eq_commute [of "f k"])

lemma sort_key_remove1: "sort_key f (remove1 e xs) = remove1 e (sort_key f xs)"
  by (rule properties_for_sort_key)
     (simp_all add: sort_key_filter sorted_map_remove1 filter_remove1)

lemma sort_key_split:
  assumes "\<forall>x\<in>set as. f x \<le> f e" "\<forall>x\<in>set bs. f x < f e"
  shows "sort_key f (as @ e # bs) = sort_key f (as @ bs) @ [e]"
proof (rule properties_for_sort_key)
  have "filter (\<lambda>x. f e = f x) bs = []" using assms(2) by (auto simp: filter_empty_conv)
  then show "filter (\<lambda>x. f k = f x) (sort_key f (as @ bs) @ [e]) = filter (\<lambda>x. f k = f x) (as @ e # bs)" for k
    by (simp add: sort_key_filter)
qed (use assms in \<open>auto simp: sorted_append\<close>)

text \<open>The elements that come out when \<open>n\<close> are taken.\<close>

primrec drain :: "('m \<Rightarrow> 'e \<times> 'm) \<Rightarrow> nat \<Rightarrow> 'm \<Rightarrow> 'e list" where
  "drain out 0 m = []"
| "drain out (Suc n) m = (case out m of (e, m') \<Rightarrow> e # drain out n m')"

locale stable_queue =
  fixes queued :: "'m \<Rightarrow> 'e list \<Rightarrow> bool"
    and prio :: "'e \<Rightarrow> 'p :: linorder"
    and free :: "'m \<Rightarrow> 'e \<Rightarrow> bool"
    and add :: "'e \<Rightarrow> 'm \<Rightarrow> 'm option"
    and out :: "'m \<Rightarrow> 'e \<times> 'm"
  assumes add_law: "queued m arr \<Longrightarrow> free m e \<Longrightarrow> e \<notin> set arr \<Longrightarrow>
      \<exists>m'. add e m = Some m' \<and> queued m' (e # arr) \<and> (\<forall>x. free m x \<and> x \<noteq> e \<longrightarrow> free m' x)"
    and out_law: "queued m arr \<Longrightarrow> arr \<noteq> [] \<Longrightarrow>
      \<exists>m'. out m = (last (sort_key prio arr), m') \<and> queued m' (remove1 (last (sort_key prio arr)) arr)"
    and queued_distinct: "queued m arr \<Longrightarrow> distinct arr"
begin

text \<open>What comes out has the highest priority, and is the oldest element of that priority.\<close>

lemma out_oldest:
  assumes "queued m arr" "arr \<noteq> []"
  obtains newer e older m' where "out m = (e, m')" "arr = newer @ e # older" "queued m' (newer @ older)"
    "\<forall>x\<in>set newer. prio x \<le> prio e" "\<forall>x\<in>set older. prio x < prio e"
proof -
  obtain as bs where arr: "arr = as @ last (sort_key prio arr) # bs"
    "\<forall>x\<in>set as. prio x \<le> prio (last (sort_key prio arr))" "\<forall>x\<in>set bs. prio x < prio (last (sort_key prio arr))"
    using last_sort_key [OF assms(2)] by blast
  obtain m' where "out m = (last (sort_key prio arr), m')" "queued m' (remove1 (last (sort_key prio arr)) arr)"
    using out_law [OF assms] by blast
  moreover have "remove1 (last (sort_key prio arr)) arr = as @ bs"
    using queued_distinct [OF assms(1)] arr(1)
    by (metis distinct_append not_distinct_conv_prefix remove1_append remove1.simps(2) append_Nil in_set_conv_decomp)
  ultimately show thesis using that arr by metis
qed

lemma drain_sorted: "queued m arr \<Longrightarrow> drain out (length arr) m = rev (sort_key prio arr)"
proof (induction "length arr" arbitrary: arr m)
  case (Suc n)
  then have "arr \<noteq> []" by auto
  with \<open>queued m arr\<close> obtain newer e older m' where o: "out m = (e, m')" "arr = newer @ e # older"
    "queued m' (newer @ older)" "\<forall>x\<in>set newer. prio x \<le> prio e" "\<forall>x\<in>set older. prio x < prio e"
    by (rule out_oldest)
  then have "drain out n m' = rev (sort_key prio (newer @ older))"
    using Suc.hyps(1) [of "newer @ older" m'] Suc.hyps(2) by simp
  then show ?case using o Suc.hyps(2) sort_key_split [OF o(4,5)] by (simp flip: Suc.hyps(2))
qed simp

end

definition pq_rel :: "(u32 \<Rightarrow> int) \<Rightarrow> u32 \<Rightarrow> u32 \<Rightarrow> links \<Rightarrow> u32 list \<Rightarrow> bool" where
  "pq_rel priofield diff h m arr \<longleftrightarrow> ring m h (links_of diff (sort_key priofield arr))"

definition link_free :: "u32 \<Rightarrow> u32 \<Rightarrow> links \<Rightarrow> u32 \<Rightarrow> bool" where
  "link_free diff h m e \<longleftrightarrow> e + diff \<noteq> 0 \<and> e + diff \<noteq> h \<and> lprev m (e + diff) = 0 \<and> lnext m (e + diff) = 0"

lemma pq_add:
  assumes r: "pq_rel priofield diff h m arr" and f: "link_free diff h m e" and "e \<notin> set arr"
  shows "\<exists>m'. queue_add priofield diff e h m = Some m' \<and> pq_rel priofield diff h m' (e # arr) \<and>
    (\<forall>x. link_free diff h m x \<and> x \<noteq> e \<longrightarrow> link_free diff h m' x)"
proof -
  let ?es = "sort_key priofield arr"
  have "e + diff \<notin> set (h # links_of diff ?es)" "e + diff \<noteq> 0"
    "lprev m (e + diff) = 0" "lnext m (e + diff) = 0"
    using f assms(3) by (auto simp: link_free_def)
  from queue_add_ok [OF r [unfolded pq_rel_def] this, of priofield] obtain m' where
    m': "queue_add priofield diff e h m = Some m'" "ring m' h (links_of diff (insort_key priofield e ?es))"
    and same: "same_outside (set (h # (e + diff) # links_of diff ?es)) m m'" by blast
  have "link_free diff h m' x" if "link_free diff h m x" "x \<noteq> e" for x
  proof -
    have "x + diff \<notin> set (links_of diff ?es)"
      using that(1) r ring_closed(1) [OF r [unfolded pq_rel_def], of "x + diff"]
      by (auto simp: link_free_def pq_rel_def ring_def)
    then show ?thesis using that same by (auto simp: link_free_def same_outside_def)
  qed
  with m' show ?thesis by (auto simp: pq_rel_def)
qed

lemma pq_distinct: "pq_rel priofield diff h m arr \<Longrightarrow> distinct arr"
  by (auto simp: pq_rel_def ring_def distinct_map)

lemma pq_remove:
  assumes r: "pq_rel priofield diff h m arr" and "e \<in> set arr"
  shows "pq_rel priofield diff h (link_out (e + diff) m) (remove1 e arr)"
proof -
  have "e \<in> set (sort_key priofield arr)" using assms(2) by simp
  then obtain xs ys where es: "sort_key priofield arr = xs @ e # ys" "e \<notin> set xs"
    by (meson split_list_first)
  then have "sort_key priofield (remove1 e arr) = xs @ ys"
    by (simp add: sort_key_remove1 remove1_append)
  then show ?thesis using r ring_link_out [of m h "links_of diff xs" "e + diff" "links_of diff ys"]
    by (simp add: pq_rel_def es(1))
qed

lemma pq_out:
  assumes r: "pq_rel priofield diff h m arr" and ne: "arr \<noteq> []"
  shows "\<exists>m'. queue_out diff h m = (last (sort_key priofield arr), m') \<and>
    pq_rel priofield diff h m' (remove1 (last (sort_key priofield arr)) arr)"
proof -
  let ?es = "sort_key priofield arr"
  have es: "?es = butlast ?es @ [last ?es]" using ne by simp
  have "links_of diff ?es = links_of diff (butlast ?es) @ [last ?es + diff]" by (subst es) simp
  then have "queue_out diff h m = (last ?es + diff - diff, link_out (last ?es + diff) m)"
    using r queue_out_ok [of m h "links_of diff (butlast ?es)" "last ?es + diff" diff] by (simp add: pq_rel_def)
  moreover have "last ?es \<in> set arr" using ne last_in_set [of ?es] by simp
  ultimately show ?thesis using pq_remove [OF r] by simp
qed

interpretation pq: stable_queue "pq_rel priofield diff h" priofield "link_free diff h"
  "\<lambda>e. queue_add priofield diff e h" "queue_out diff h" for priofield diff h
  by unfold_locales (fact pq_add pq_out pq_distinct)+

section \<open>Properties\<close>

lemma pq_del:
  assumes r: "pq_rel priofield diff h m arr" and "e \<in> set arr"
  shows "\<exists>m'. queue_del diff e m = Some m' \<and> pq_rel priofield diff h m' (remove1 e arr) \<and> link_free diff h m' e"
proof -
  have "e \<in> set (sort_key priofield arr)" using assms(2) by simp
  then obtain xs ys where es: "sort_key priofield arr = xs @ e # ys" by (meson split_list)
  have "link_free diff h (link_out (e + diff) m) e"
    using r by (auto simp: link_free_def pq_rel_def es ring_def)
  then show ?thesis using queue_del_ok [of m h diff xs e ys] pq_remove [OF assms] r by (simp add: pq_rel_def es)
qed

lemma pq_top: "pq_rel priofield diff h m arr \<Longrightarrow> queue_top diff h m = fst (queue_out diff h m)"
  by (simp add: queue_top_def queue_out_def Let_def)

lemma pq_for_each:
  assumes "pq_rel priofield diff h m arr"
  shows "queue_for_each diff h m = Some (sort_key priofield arr)"
    and "queue_for_each_prev diff h m = Some (rev (sort_key priofield arr))"
  using assms for_each_next [of m h diff "sort_key priofield arr" h] for_each_prev [of m h diff "sort_key priofield arr" h]
  by (simp_all add: pq_rel_def ring_def queue_for_each_def queue_for_each_prev_def)


lemma init_list_head_empty: "h \<noteq> 0 \<Longrightarrow> pq_rel priofield diff h (init_list_head h m) []"
  by (simp add: pq_rel_def ring_def init_list_head_def)

text \<open>
  C21: The queue of \<^verbatim>\<open>queue.h\<close> implements the list of its elements in the order of arrival (latest first):
  \<^verbatim>\<open>queue_add\<close> puts a free element in front, \<^verbatim>\<open>queue_out\<close> removes the element of highest priority and
  among those the one that came first, \<^verbatim>\<open>queue_del\<close> removes the element it is given and frees its link,
  \<^verbatim>\<open>queue_empty\<close> tests for the empty list, and the iterations visit the elements by increasing and by
  decreasing priority.
\<close>

theorem queue_refines_arrivals:
  assumes r: "pq_rel priofield diff h m arr"
  shows "(link_free diff h m e \<and> e \<notin> set arr \<longrightarrow>
      (\<exists>m'. queue_add priofield diff e h m = Some m' \<and> pq_rel priofield diff h m' (e # arr))) \<and>
    (arr \<noteq> [] \<longrightarrow> (\<exists>newer x older m'. queue_out diff h m = (x, m') \<and> queue_top diff h m = x \<and>
      arr = newer @ x # older \<and> pq_rel priofield diff h m' (newer @ older) \<and>
      (\<forall>y\<in>set newer. priofield y \<le> priofield x) \<and> (\<forall>y\<in>set older. priofield y < priofield x))) \<and>
    (e \<in> set arr \<longrightarrow> (\<exists>m'. queue_del diff e m = Some m' \<and> pq_rel priofield diff h m' (remove1 e arr) \<and> link_free diff h m' e)) \<and>
    (queue_empty h m \<longleftrightarrow> arr = []) \<and>
    queue_for_each diff h m = Some (sort_key priofield arr) \<and>
    queue_for_each_prev diff h m = Some (rev (sort_key priofield arr))"
proof (intro conjI impI)
  assume "link_free diff h m e \<and> e \<notin> set arr"
  then show "\<exists>m'. queue_add priofield diff e h m = Some m' \<and> pq_rel priofield diff h m' (e # arr)"
    using pq.add_law [OF r] by blast
next
  assume "arr \<noteq> []"
  with r obtain newer x older m' where "queue_out diff h m = (x, m')" "arr = newer @ x # older"
    "pq_rel priofield diff h m' (newer @ older)"
    "\<forall>y\<in>set newer. priofield y \<le> priofield x" "\<forall>y\<in>set older. priofield y < priofield x"
    by (rule pq.out_oldest)
  moreover from this have "queue_top diff h m = x" by (simp add: pq_top [OF r])
  ultimately show "\<exists>newer x older m'. queue_out diff h m = (x, m') \<and> queue_top diff h m = x \<and>
      arr = newer @ x # older \<and> pq_rel priofield diff h m' (newer @ older) \<and>
      (\<forall>y\<in>set newer. priofield y \<le> priofield x) \<and> (\<forall>y\<in>set older. priofield y < priofield x)"
    by blast
next
  show "queue_empty h m \<longleftrightarrow> arr = []" using r ring_not_empty by (auto simp: pq_rel_def)
qed (use pq_del [OF r] pq_for_each [OF r] in auto)

text \<open>A queue at address 256 with the elements 512 and 768, whose links are 8 bytes into them.\<close>

definition demo_links :: links where
  "demo_links = \<lparr>lprev = (\<lambda>_. 0)(256 := 520, 520 := 776, 776 := 256), lnext = (\<lambda>_. 0)(256 := 776, 776 := 520, 520 := 256)\<rparr>"

theorem queue_refines_arrivals_witness:
  "queue_empty 256 demo_links = False \<and> queue_for_each 8 256 demo_links = Some [768, 512] \<and>
   (\<exists>m'. queue_out 8 256 demo_links = (512, m') \<and> pq_rel (\<lambda>_. 3) 8 256 m' [768]) \<and>
   (\<exists>m'. queue_add (\<lambda>_. 3) 8 1024 256 demo_links = Some m' \<and> pq_rel (\<lambda>_. 3) 8 256 m' [1024, 768, 512])"
proof -
  have r: "pq_rel (\<lambda>_. 3) 8 256 demo_links [768, 512]"
    by (simp add: pq_rel_def ring_def demo_links_def)
  have "link_free 8 256 demo_links 1024" by (simp add: link_free_def demo_links_def)
  moreover have "xs @ x # ys = [768, 512 :: u32] \<and> ys = [] \<Longrightarrow> x = 512 \<and> xs = [768]" for xs x ys
    by (cases xs rule: rev_cases) auto
  ultimately show ?thesis
    using queue_refines_arrivals [OF r, of 1024] by (auto 0 4 simp: neq_Nil_conv dest: sym)
qed

end
