(* ===== verification/Kbd.thy ===== *)
theory Kbd
  imports Memory
begin

text \<open>
  The keyboard decoder, \<^verbatim>\<open>kernel/kbd-linux/keyboard.c\<close> and \<^verbatim>\<open>scancode.c\<close>, with the glue of
  \<^verbatim>\<open>driver/keyboard-glue.c\<close>: scan codes to key codes, key codes to key symbols by the key map of the current modifiers, and
  symbols to the strings given to \<^verbatim>\<open>keyboard_data\<close>.

  The key maps, the strings of the function keys and the accents are the record \<open>keymaps\<close>; the
  record \<open>kbd\<close> has the static variables of the three files. \<open>sent\<close> and \<open>leds_sent\<close> list the calls of
  \<^verbatim>\<open>keyboard_data\<close> and \<^verbatim>\<open>kbd_leds\<close>. There is one console, number 0, so that \<^verbatim>\<open>kbd\<close> is the first entry of
  \<^verbatim>\<open>kbd_table\<close>; \<^verbatim>\<open>kbd_ledfunc\<close> is never set. Reading a table outside its bounds is \<open>None\<close>.
\<close>

section \<open>State\<close>

record kbdiacr =
  kd_diacr :: u8
  kd_base :: u8
  kd_result :: u8

record keymaps =
  key_maps :: "u16 list option list"
  func_table :: "u8 list option list"
  accent_table :: "kbdiacr list"

text \<open>The settings of a console; the bit fields have their width.\<close>

record kbd_struct =
  lockstate :: u8
  slockstate :: u8
  ledmode :: "2 word"
  ledflagstate :: "3 word"
  default_ledflagstate :: "3 word"
  kbdmode :: "2 word"
  modeflags :: "5 word"

record ledptr =
  led_addr :: u32
  led_mask :: u32
  led_valid :: bool

record kbd =
  k_down :: "u8 list"
  key_down :: "u32 list"
  dead_key_next :: bool
  shift_state :: u32
  npadch :: u32
  diacr :: u8
  rep :: bool
  kbd_table :: "kbd_struct list"
  tty :: bool
  tty_stopped :: bool
  ledstate :: u8
  ledioctl :: u8
  ledptrs :: "ledptr list"
  tasklet_enabled :: bool
  prev_scancode :: u32
  high_keys :: "u8 list"
  e0_keys :: "u8 list"
  glue_init :: bool
  sent :: "u8 list list"
  leds_sent :: "u8 list"

section \<open>Constants\<close>

definition MAX_NR_CONSOLES :: nat where "MAX_NR_CONSOLES = 63"
definition NR_SHIFT :: nat where "NR_SHIFT = 9"
definition KG_SHIFT :: nat where "KG_SHIFT = 0"
definition KG_CAPSSHIFT :: u8 where "KG_CAPSSHIFT = 8"

definition KT_LATIN :: u8 where "KT_LATIN = 0"
definition KT_SPEC :: u8 where "KT_SPEC = 2"
definition KT_SHIFT :: u8 where "KT_SHIFT = 7"
definition KT_LETTER :: u8 where "KT_LETTER = 11"
definition KT_SLOCK :: u8 where "KT_SLOCK = 12"

definition VC_NUMLOCK :: nat where "VC_NUMLOCK = 1"
definition VC_CAPSLOCK :: nat where "VC_CAPSLOCK = 2"
definition VC_XLATE :: "2 word" where "VC_XLATE = 0"
definition VC_MEDIUMRAW :: "2 word" where "VC_MEDIUMRAW = 1"
definition VC_RAW :: "2 word" where "VC_RAW = 2"
definition VC_UNICODE :: "2 word" where "VC_UNICODE = 3"
definition VC_APPLIC :: nat where "VC_APPLIC = 0"
definition VC_CKMODE :: nat where "VC_CKMODE = 1"
definition VC_REPEAT :: nat where "VC_REPEAT = 2"
definition VC_CRLF :: nat where "VC_CRLF = 3"
definition VC_META :: nat where "VC_META = 4"
definition LED_SHOW_FLAGS :: "2 word" where "LED_SHOW_FLAGS = 0"
definition LED_SHOW_IOCTL :: "2 word" where "LED_SHOW_IOCTL = 1"
definition LED_SHOW_MEM :: "2 word" where "LED_SHOW_MEM = 2"

definition KTYP :: "u16 \<Rightarrow> u8" where "KTYP x = ucast (drop_bit 8 x)"
definition KVAL :: "u16 \<Rightarrow> u8" where "KVAL x = ucast (x AND 0xff)"
definition key_U :: "u16 \<Rightarrow> u16" where "key_U x = x XOR 0xf000"

section \<open>Flags of a console\<close>

definition fg_kbd :: "kbd \<Rightarrow> kbd_struct" where
  "fg_kbd s = kbd_table s ! 0"

definition upd_kbd :: "(kbd_struct \<Rightarrow> kbd_struct) \<Rightarrow> kbd \<Rightarrow> kbd" where
  "upd_kbd f s = s\<lparr>kbd_table := (kbd_table s)[0 := f (kbd_table s ! 0)]\<rparr>"

definition vc_kbd_mode :: "kbd_struct \<Rightarrow> nat \<Rightarrow> bool" where
  "vc_kbd_mode k flag = bit (modeflags k) flag"

definition vc_kbd_led :: "kbd_struct \<Rightarrow> nat \<Rightarrow> bool" where
  "vc_kbd_led k flag = bit (ledflagstate k) flag"

definition set_vc_kbd_led :: "nat \<Rightarrow> kbd_struct \<Rightarrow> kbd_struct" where
  "set_vc_kbd_led flag k = k\<lparr>ledflagstate := ledflagstate k OR push_bit flag 1\<rparr>"

definition clr_vc_kbd_led :: "nat \<Rightarrow> kbd_struct \<Rightarrow> kbd_struct" where
  "clr_vc_kbd_led flag k = k\<lparr>ledflagstate := ledflagstate k AND NOT (push_bit flag 1)\<rparr>"

definition chg_vc_kbd_led :: "nat \<Rightarrow> kbd_struct \<Rightarrow> kbd_struct" where
  "chg_vc_kbd_led flag k = k\<lparr>ledflagstate := ledflagstate k XOR push_bit flag 1\<rparr>"

definition chg_vc_kbd_lock :: "nat \<Rightarrow> kbd_struct \<Rightarrow> kbd_struct" where
  "chg_vc_kbd_lock flag k = k\<lparr>lockstate := lockstate k XOR push_bit flag 1\<rparr>"

definition chg_vc_kbd_slock :: "nat \<Rightarrow> kbd_struct \<Rightarrow> kbd_struct" where
  "chg_vc_kbd_slock flag k = k\<lparr>slockstate := slockstate k XOR push_bit flag 1\<rparr>"

section \<open>Bitmaps\<close>

definition test_bit :: "nat \<Rightarrow> u32 list \<Rightarrow> bool" where
  "test_bit nr ws = bit (ws ! (nr div 32)) (nr mod 32)"

definition test_and_set_bit :: "nat \<Rightarrow> u32 list \<Rightarrow> bool \<times> u32 list" where
  "test_and_set_bit nr ws = (test_bit nr ws, ws[nr div 32 := ws ! (nr div 32) OR push_bit (nr mod 32) 1])"

definition test_and_clear_bit :: "nat \<Rightarrow> u32 list \<Rightarrow> bool \<times> u32 list" where
  "test_and_clear_bit nr ws = (test_bit nr ws, ws[nr div 32 := ws ! (nr div 32) AND NOT (push_bit (nr mod 32) 1)])"

section \<open>Glue\<close>

text \<open>A string ends at its first zero: the character 0 is sent as an empty string.\<close>

definition keyboard_send_str :: "u8 list \<Rightarrow> kbd \<Rightarrow> kbd" where
  "keyboard_send_str str s = s\<lparr>sent := sent s @ [takeWhile (\<lambda>c. c \<noteq> 0) str]\<rparr>"

definition keyboard_send_ch :: "u8 \<Rightarrow> kbd \<Rightarrow> kbd" where
  "keyboard_send_ch ch s = keyboard_send_str [ch, 0] s"

definition keyboard_stop_tty :: "kbd \<Rightarrow> kbd" where
  "keyboard_stop_tty s = (if tty_stopped s then s else s\<lparr>tty_stopped := True\<rparr>)"

definition keyboard_start_tty :: "kbd \<Rightarrow> kbd" where
  "keyboard_start_tty s = (if \<not> tty_stopped s then s else s\<lparr>tty_stopped := False\<rparr>)"

definition keyboard_pckbd_leds :: "u8 \<Rightarrow> kbd \<Rightarrow> kbd" where
  "keyboard_pckbd_leds leds s = s\<lparr>leds_sent := leds_sent s @ [leds]\<rparr>"

definition keyboard_vc_cons_allocated :: "nat \<Rightarrow> bool" where
  "keyboard_vc_cons_allocated nr = (nr = 0)"

definition put_queue :: "u8 \<Rightarrow> kbd \<Rightarrow> kbd" where
  "put_queue ch s = (if tty s then keyboard_send_ch ch s else s)"

definition puts_queue :: "u8 list \<Rightarrow> kbd \<Rightarrow> kbd" where
  "puts_queue cp s = (if \<not> tty s then s else keyboard_send_str cp s)"

definition to_utf8 :: "u16 \<Rightarrow> kbd \<Rightarrow> kbd" where
  "to_utf8 c s =
     (if c < 0x80 then put_queue (ucast c) s
      else if c < 0x800 then
        put_queue (ucast (0x80 OR (c AND 0x3f))) (put_queue (ucast (0xc0 OR drop_bit 6 c)) s)
      else
        put_queue (ucast (0x80 OR (c AND 0x3f)))
          (put_queue (ucast (0x80 OR (drop_bit 6 c AND 0x3f)))
            (put_queue (ucast (0xe0 OR drop_bit 12 c)) s)))"

definition applkey :: "u8 \<Rightarrow> bool \<Rightarrow> kbd \<Rightarrow> kbd" where
  "applkey key mode s = puts_queue [0x1b, if mode then 79 else 91, key, 0] s"


section \<open>Modifiers\<close>

text \<open>\<^verbatim>\<open>compute_shiftstate\<close>: the body for a key that is down, and the loops.\<close>

definition shift_of_key :: "u16 list \<Rightarrow> nat \<Rightarrow> kbd \<Rightarrow> kbd option" where
  "shift_of_key map0 k s =
     (if k \<ge> length map0 then None
      else let sym = key_U (map0 ! k)
        in if KTYP sym = KT_SHIFT \<or> KTYP sym = KT_SLOCK then
             let val = (if KVAL sym = KG_CAPSSHIFT then KG_SHIFT else unat (KVAL sym))
             in if val \<ge> length (k_down s) then None
                else Some (s\<lparr>k_down := (k_down s)[val := k_down s ! val + 1], shift_state := shift_state s OR push_bit val 1\<rparr>)
           else Some s)"

primrec compute_shift_loop :: "nat list \<Rightarrow> u16 list \<Rightarrow> kbd \<Rightarrow> kbd option" where
  "compute_shift_loop [] map0 s = Some s"
| "compute_shift_loop (k # ks) map0 s =
     (if test_bit k (key_down s) then do { s \<leftarrow> shift_of_key map0 k s; compute_shift_loop ks map0 s }
      else compute_shift_loop ks map0 s)"

definition compute_shiftstate :: "keymaps \<Rightarrow> kbd \<Rightarrow> kbd option" where
  "compute_shiftstate km s =
     (let s = s\<lparr>shift_state := 0, k_down := map (\<lambda>_. 0) (k_down s)\<rparr>
      in case key_maps km ! 0 of None \<Rightarrow> None
         | Some map0 \<Rightarrow> compute_shift_loop [0..<32 * length (key_down s)] map0 s)"

section \<open>Special keys\<close>

definition enter_key :: "kbd \<Rightarrow> kbd" where
  "enter_key s =
     (let s = (if diacr s \<noteq> 0 then (put_queue (diacr s) s)\<lparr>diacr := 0\<rparr> else s);
          s = put_queue 13 s
      in if vc_kbd_mode (fg_kbd s) VC_CRLF then put_queue 10 s else s)"

definition caps_toggle :: "kbd \<Rightarrow> kbd" where
  "caps_toggle s = (if rep s then s else upd_kbd (chg_vc_kbd_led VC_CAPSLOCK) s)"

definition caps_on :: "kbd \<Rightarrow> kbd" where
  "caps_on s = (if rep s then s else upd_kbd (set_vc_kbd_led VC_CAPSLOCK) s)"

definition hold :: "kbd \<Rightarrow> kbd" where
  "hold s =
     (if rep s \<or> \<not> tty s then s
      else if tty_stopped s then keyboard_start_tty s else keyboard_stop_tty s)"

definition bare_num :: "kbd \<Rightarrow> kbd" where
  "bare_num s = (if \<not> rep s then upd_kbd (chg_vc_kbd_led VC_NUMLOCK) s else s)"

definition num_key :: "kbd \<Rightarrow> kbd" where
  "num_key s = (if vc_kbd_mode (fg_kbd s) VC_APPLIC then applkey 80 True s else bare_num s)"

definition compose :: "kbd \<Rightarrow> kbd" where
  "compose s = s\<lparr>dead_key_next := True\<rparr>"

text \<open>
  The searches for the neighbouring console; the foreground console is 0, and \<^verbatim>\<open>set_console\<close> does
  nothing.
\<close>

definition vc_cons_allocated :: "int \<Rightarrow> bool" where
  "vc_cons_allocated i = (if i \<ge> int MAX_NR_CONSOLES then False else keyboard_vc_cons_allocated (nat i))"

partial_function (option) decr_console_loop :: "int \<Rightarrow> int option" where
  "decr_console_loop i =
     (if i \<noteq> 0 then
        (let i = (if i = -1 then int MAX_NR_CONSOLES - 1 else i)
         in if vc_cons_allocated i then Some i else decr_console_loop (i - 1))
      else Some i)"

partial_function (option) incr_console_loop :: "int \<Rightarrow> int option" where
  "incr_console_loop i =
     (if i \<noteq> 0 then
        (let i = (if i = int MAX_NR_CONSOLES then 0 else i)
         in if vc_cons_allocated i then Some i else incr_console_loop (i + 1))
      else Some i)"

definition decr_console :: "kbd \<Rightarrow> kbd option" where
  "decr_console s = do { i \<leftarrow> decr_console_loop (0 - 1); Some s }"

definition incr_console :: "kbd \<Rightarrow> kbd option" where
  "incr_console s = do { i \<leftarrow> incr_console_loop (0 + 1); Some s }"

text \<open>
  \<^verbatim>\<open>spec_fn_table\<close>. The entries 2 to 6, 10 to 12, 15 and 18 (registers, memory and state, interrupt, last console, scrolling,
  rebooting, the secure attention key, a new console) call functions of the glue that do nothing.
\<close>

definition spec_fn :: "keymaps \<Rightarrow> nat \<Rightarrow> kbd \<Rightarrow> kbd option" where
  "spec_fn km v s =
     (if v = 0 then compute_shiftstate km s
      else if v = 1 then Some (enter_key s)
      else if v = 7 then Some (caps_toggle s)
      else if v = 8 then Some (num_key s)
      else if v = 9 then Some (hold s)
      else if v = 13 then Some (caps_on s)
      else if v = 14 then Some (compose s)
      else if v = 16 then decr_console s
      else if v = 17 then incr_console s
      else if v = 19 then Some (bare_num s)
      else Some s)"

definition do_spec :: "keymaps \<Rightarrow> u8 \<Rightarrow> bool \<Rightarrow> kbd \<Rightarrow> kbd option" where
  "do_spec km v up_flag s =
     (if up_flag then Some s
      else if v \<ge> 20 then Some s
      else if (kbdmode (fg_kbd s) = VC_RAW \<or> kbdmode (fg_kbd s) = VC_MEDIUMRAW) \<and> v \<noteq> 15 then Some s
      else spec_fn km (unat v) s)"

section \<open>Key handlers\<close>

primrec find_accent :: "kbdiacr list \<Rightarrow> u8 \<Rightarrow> u8 \<Rightarrow> u8 option" where
  "find_accent [] d ch = None"
| "find_accent (a # as) d ch = (if kd_diacr a = d \<and> kd_base a = ch then Some (kd_result a) else find_accent as d ch)"

definition handle_diacr :: "keymaps \<Rightarrow> u8 \<Rightarrow> kbd \<Rightarrow> u8 \<times> kbd" where
  "handle_diacr km ch s =
     (let d = diacr s;
          s = s\<lparr>diacr := 0\<rparr>
      in case find_accent (accent_table km) d ch of
           Some r \<Rightarrow> (r, s)
         | None \<Rightarrow> if ch = 32 \<or> ch = d then (d, s) else (ch, put_queue d s))"

definition do_self :: "keymaps \<Rightarrow> u8 \<Rightarrow> bool \<Rightarrow> kbd \<Rightarrow> kbd" where
  "do_self km v up_flag s =
     (if up_flag then s
      else let (v, s) = (if diacr s \<noteq> 0 then handle_diacr km v s else (v, s))
        in if dead_key_next s then s\<lparr>dead_key_next := False, diacr := v\<rparr>
           else put_queue v s)"

definition do_dead2 :: "keymaps \<Rightarrow> u8 \<Rightarrow> bool \<Rightarrow> kbd \<Rightarrow> kbd" where
  "do_dead2 km v up_flag s =
     (if up_flag then s
      else let (v, s) = (if diacr s \<noteq> 0 then handle_diacr km v s else (v, s)) in s\<lparr>diacr := v\<rparr>)"

definition ret_diacr :: "u8 list" where
  "ret_diacr = [96, 39, 94, 126, 34, 44]"

definition do_dead :: "keymaps \<Rightarrow> u8 \<Rightarrow> bool \<Rightarrow> kbd \<Rightarrow> kbd option" where
  "do_dead km v up_flag s =
     (if unat v \<ge> length ret_diacr then None else Some (do_dead2 km (ret_diacr ! unat v) up_flag s))"

definition do_fn :: "keymaps \<Rightarrow> u8 \<Rightarrow> bool \<Rightarrow> kbd \<Rightarrow> kbd option" where
  "do_fn km v up_flag s =
     (if up_flag then Some s
      else if unat v \<ge> length (func_table km) then None
      else case func_table km ! unat v of None \<Rightarrow> Some s | Some str \<Rightarrow> Some (puts_queue str s))"

text \<open>The string literals end with a zero byte, which can be read.\<close>

definition cur_chars :: "u8 list" where
  "cur_chars = [66, 68, 67, 65, 0]"

definition do_cur :: "u8 \<Rightarrow> bool \<Rightarrow> kbd \<Rightarrow> kbd option" where
  "do_cur v up_flag s =
     (if up_flag then Some s
      else if unat v \<ge> length cur_chars then None
      else Some (applkey (cur_chars ! unat v) (vc_kbd_mode (fg_kbd s) VC_CKMODE) s))"

definition pad_chars :: "u8 list" where
  "pad_chars = [48, 49, 50, 51, 52, 53, 54, 55, 56, 57, 43, 45, 42, 47, 13, 44, 46, 63, 40, 41, 0]"

definition app_map :: "u8 list" where
  "app_map = [112, 113, 114, 115, 116, 117, 118, 119, 120, 121, 108, 83, 82, 81, 77, 110, 110, 109, 80, 81, 0]"

definition do_pad :: "keymaps \<Rightarrow> u8 \<Rightarrow> bool \<Rightarrow> kbd \<Rightarrow> kbd option" where
  "do_pad km v up_flag s =
     (if up_flag then Some s
      else if vc_kbd_mode (fg_kbd s) VC_APPLIC \<and> k_down s ! KG_SHIFT = 0 then
        (if unat v \<ge> length app_map then None else Some (applkey (app_map ! unat v) True s))
      else if \<not> vc_kbd_led (fg_kbd s) VC_NUMLOCK \<and> (v = 15 \<or> v = 16) then do_fn km 22 False s
      else if \<not> vc_kbd_led (fg_kbd s) VC_NUMLOCK \<and> v = 0 then do_fn km 21 False s
      else if \<not> vc_kbd_led (fg_kbd s) VC_NUMLOCK \<and> v = 1 then do_fn km 23 False s
      else if \<not> vc_kbd_led (fg_kbd s) VC_NUMLOCK \<and> v = 2 then do_cur 0 False s
      else if \<not> vc_kbd_led (fg_kbd s) VC_NUMLOCK \<and> v = 3 then do_fn km 25 False s
      else if \<not> vc_kbd_led (fg_kbd s) VC_NUMLOCK \<and> v = 4 then do_cur 1 False s
      else if \<not> vc_kbd_led (fg_kbd s) VC_NUMLOCK \<and> v = 6 then do_cur 2 False s
      else if \<not> vc_kbd_led (fg_kbd s) VC_NUMLOCK \<and> v = 7 then do_fn km 20 False s
      else if \<not> vc_kbd_led (fg_kbd s) VC_NUMLOCK \<and> v = 8 then do_cur 3 False s
      else if \<not> vc_kbd_led (fg_kbd s) VC_NUMLOCK \<and> v = 9 then do_fn km 24 False s
      else if \<not> vc_kbd_led (fg_kbd s) VC_NUMLOCK \<and> v = 5 then Some (applkey 71 (vc_kbd_mode (fg_kbd s) VC_APPLIC) s)
      else if unat v \<ge> length pad_chars then None
      else let s = put_queue (pad_chars ! unat v) s
        in Some (if v = 14 \<and> vc_kbd_mode (fg_kbd s) VC_CRLF then put_queue 10 s else s))"

text \<open>\<^verbatim>\<open>do_shift\<close>: the count of the modifier and its bit, the character typed on the pad, and the function.\<close>

definition count_key :: "nat \<Rightarrow> bool \<Rightarrow> kbd \<Rightarrow> kbd" where
  "count_key v up_flag s =
     (let s = (if up_flag then
                 (if k_down s ! v \<noteq> 0 then s\<lparr>k_down := (k_down s)[v := k_down s ! v - 1]\<rparr> else s)
               else s\<lparr>k_down := (k_down s)[v := k_down s ! v + 1]\<rparr>)
      in if k_down s ! v \<noteq> 0 then s\<lparr>shift_state := shift_state s OR push_bit v 1\<rparr>
         else s\<lparr>shift_state := shift_state s AND NOT (push_bit v 1)\<rparr>)"

definition flush_npadch :: "bool \<Rightarrow> u32 \<Rightarrow> kbd \<Rightarrow> kbd" where
  "flush_npadch up_flag old_state s =
     (if up_flag \<and> shift_state s \<noteq> old_state \<and> npadch s \<noteq> - 1 then
        (if kbdmode (fg_kbd s) = VC_UNICODE then to_utf8 (ucast (npadch s AND 0xffff)) s
         else put_queue (ucast (npadch s AND 0xff)) s)\<lparr>npadch := - 1\<rparr>
      else s)"

definition do_shift :: "u8 \<Rightarrow> bool \<Rightarrow> kbd \<Rightarrow> kbd option" where
  "do_shift v up_flag s =
     (let old_state = shift_state s
      in if rep s then Some s
         else
           let (v, s) =
                 (if v = KG_CAPSSHIFT then
                    (of_nat KG_SHIFT, if \<not> up_flag then upd_kbd (clr_vc_kbd_led VC_CAPSLOCK) s else s)
                  else (v, s))
           in if unat v \<ge> length (k_down s) then None
              else Some (flush_npadch up_flag old_state (count_key (unat v) up_flag s)))"

definition do_meta :: "u8 \<Rightarrow> bool \<Rightarrow> kbd \<Rightarrow> kbd" where
  "do_meta v up_flag s =
     (if up_flag then s
      else if vc_kbd_mode (fg_kbd s) VC_META then put_queue v (put_queue 27 s)
      else put_queue (v OR 0x80) s)"

text \<open>The number typed on the pad is an \<^verbatim>\<open>int\<close>, whose overflow wraps here.\<close>

definition do_ascii :: "u8 \<Rightarrow> bool \<Rightarrow> kbd \<Rightarrow> kbd" where
  "do_ascii v up_flag s =
     (if up_flag then s
      else let (v, base) = (if v < 10 then (v, 10) else (v - 10, 16))
        in if npadch s = - 1 then s\<lparr>npadch := ucast v\<rparr> else s\<lparr>npadch := npadch s * base + ucast v\<rparr>)"

definition do_lock :: "u8 \<Rightarrow> bool \<Rightarrow> kbd \<Rightarrow> kbd" where
  "do_lock v up_flag s = (if up_flag \<or> rep s then s else upd_kbd (chg_vc_kbd_lock (unat v)) s)"

definition do_slock :: "keymaps \<Rightarrow> u8 \<Rightarrow> bool \<Rightarrow> kbd \<Rightarrow> kbd option" where
  "do_slock km v up_flag s = do {
     s \<leftarrow> do_shift v up_flag s;
     if up_flag \<or> rep s then Some s
     else do {
       let s = upd_kbd (chg_vc_kbd_slock (unat v)) s;
       let i = unat (lockstate (fg_kbd s) XOR slockstate (fg_kbd s));
       if i \<ge> length (key_maps km) then None
       else if key_maps km ! i = None then
         Some (upd_kbd (chg_vc_kbd_slock (unat v)) (upd_kbd (\<lambda>k. k\<lparr>slockstate := 0\<rparr>) s))
       else Some s } }"

text \<open>\<^verbatim>\<open>key_handler\<close>, by the type of the key symbol.\<close>

definition key_handler :: "keymaps \<Rightarrow> nat \<Rightarrow> u8 \<Rightarrow> bool \<Rightarrow> kbd \<Rightarrow> kbd option" where
  "key_handler km type v up_flag s =
     (if type = 0 then Some (do_self km v up_flag s)
      else if type = 1 then do_fn km v up_flag s
      else if type = 2 then do_spec km v up_flag s
      else if type = 3 then do_pad km v up_flag s
      else if type = 4 then do_dead km v up_flag s
      else if type = 5 then Some s
      else if type = 6 then do_cur v up_flag s
      else if type = 7 then do_shift v up_flag s
      else if type = 8 then Some (do_meta v up_flag s)
      else if type = 9 then Some (do_ascii v up_flag s)
      else if type = 10 then Some (do_lock v up_flag s)
      else if type = 11 then Some s
      else if type = 12 then do_slock km v up_flag s
      else if type = 13 then Some (do_dead2 km v up_flag s)
      else if type < 16 then Some s
      else None)"


section \<open>Scan codes\<close>

definition SC_LIM :: nat where "SC_LIM = 89"

definition init_high_keys :: "u8 list" where
  "init_high_keys =
     [124, 125, 126, 127, 0, 0, 0,
      0, 0, 0, 0, 0, 0, 0, 0,
      0, 0, 0, 0, 0, 122, 0, 123,
      0, 0, 0, 89, 120, 0, 0, 90,
      91, 92, 93, 94,
      95, 124, 121, 0]"

definition init_e0_keys :: "u8 list" where
  "init_e0_keys =
     [0, 0, 0, 0, 0, 0, 0, 0,
      0, 0, 0, 0, 0, 0, 0, 0,
      0, 0, 0, 0, 0, 0, 0, 0,
      0, 0, 0, 0, 96, 97, 0, 0,
      0, 0, 0, 0, 0, 0, 0, 0,
      0, 0, 0, 0, 0, 0, 0, 0,
      0, 0, 0, 0, 0, 98, 0, 99,
      100, 0, 0, 0, 0, 113, 114, 115,
      116, 117, 0, 0, 0, 0, 101, 102,
      103, 104, 0, 105, 124, 106, 118, 107,
      108, 109, 110, 111, 0, 0, 0, 0,
      0, 0, 0, 125, 126, 127, 0, 0,
      0, 0, 0, 0, 0, 0, 0, 0,
      0, 0, 0, 0, 0, 0, 0, 112,
      0, 0, 0, 0, 0, 0, 0, 0,
      0, 0, 0, 0, 0, 0, 0, 0]"

definition keyboard_pckbd_setkeycode :: "u32 \<Rightarrow> u32 \<Rightarrow> kbd \<Rightarrow> int \<times> kbd" where
  "keyboard_pckbd_setkeycode scancode keycode s =
     (if unat scancode < SC_LIM \<or> scancode > 255 \<or> keycode > 127 then (-1, s)
      else if scancode < 128 then (0, s\<lparr>high_keys := (high_keys s)[unat scancode - SC_LIM := ucast keycode]\<rparr>)
      else (0, s\<lparr>e0_keys := (e0_keys s)[unat scancode - 128 := ucast keycode]\<rparr>))"

definition keyboard_pckbd_getkeycode :: "u32 \<Rightarrow> kbd \<Rightarrow> int" where
  "keyboard_pckbd_getkeycode scancode s =
     (if unat scancode < SC_LIM \<or> scancode > 255 then -1
      else if scancode < 128 then uint (high_keys s ! (unat scancode - SC_LIM))
      else uint (e0_keys s ! (unat scancode - 128)))"

text \<open>\<^verbatim>\<open>keyboard_pckbd_translate\<close>: the key code, or \<open>None\<close> where the source returns 0.\<close>

definition keyboard_pckbd_translate :: "u8 \<Rightarrow> kbd \<Rightarrow> u8 option \<times> kbd" where
  "keyboard_pckbd_translate scancode s =
     (if scancode = 0xe0 \<or> scancode = 0xe1 then (None, s\<lparr>prev_scancode := ucast scancode\<rparr>)
      else if scancode = 0x00 \<or> scancode = 0xff then (None, s\<lparr>prev_scancode := 0\<rparr>)
      else
        let scancode = scancode AND 0x7f
        in if prev_scancode s \<noteq> 0 then
             (if prev_scancode s \<noteq> 0xe0 then
                (if prev_scancode s = 0xe1 \<and> scancode = 0x1d then (None, s\<lparr>prev_scancode := 0x100\<rparr>)
                 else if prev_scancode s = 0x100 \<and> scancode = 0x45 then (Some 119, s\<lparr>prev_scancode := 0\<rparr>)
                 else (None, s\<lparr>prev_scancode := 0\<rparr>))
              else
                let s = s\<lparr>prev_scancode := 0\<rparr>
                in if scancode = 0x2a \<or> scancode = 0x36 then (None, s)
                   else if e0_keys s ! unat scancode \<noteq> 0 then (Some (e0_keys s ! unat scancode), s)
                   else (None, s))
           else if unat scancode \<ge> SC_LIM then
             (let keycode = high_keys s ! (unat scancode - SC_LIM)
              in if keycode = 0 then (None, s) else (Some keycode, s))
           else (Some scancode, s))"

definition keyboard_pckbd_unexpected_up :: "u8 \<Rightarrow> bool" where
  "keyboard_pckbd_unexpected_up keycode = (if unat keycode \<ge> SC_LIM \<or> keycode = 85 then False else True)"

section \<open>The decoder\<close>

text \<open>
  The part of \<^verbatim>\<open>handle_scancode\<close> for a key symbol, when there is a key map for the modifiers: a letter is looked up again
  with the other shift when caps lock is on.
\<close>

definition letter_key :: "keymaps \<Rightarrow> nat \<Rightarrow> u8 \<Rightarrow> kbd \<Rightarrow> u8 \<Rightarrow> u16 \<Rightarrow> (u8 \<times> u16) option" where
  "letter_key km shift_final keycode s type keysym =
     (if type = KT_LETTER then
        (if vc_kbd_led (fg_kbd s) VC_CAPSLOCK then
           (let i = unat ((of_nat shift_final :: u32) XOR push_bit KG_SHIFT 1)
            in if i \<ge> length (key_maps km) then None
               else case key_maps km ! i of None \<Rightarrow> Some (KT_LATIN, keysym)
                    | Some m \<Rightarrow> if unat keycode \<ge> length m then None else Some (KT_LATIN, m ! unat keycode))
         else Some (KT_LATIN, keysym))
      else Some (type, keysym))"

definition handle_keysym :: "keymaps \<Rightarrow> bool \<Rightarrow> bool \<Rightarrow> nat \<Rightarrow> u16 list \<Rightarrow> u8 \<Rightarrow> kbd \<Rightarrow> kbd option" where
  "handle_keysym km raw_mode up_flag shift_final key_map keycode s =
     (if unat keycode \<ge> length key_map then None
      else
        let keysym = key_map ! unat keycode;
            type = KTYP keysym
        in if type \<ge> 0xf0 then
             let type = type - 0xf0
             in if raw_mode \<and> type \<noteq> KT_SPEC \<and> type \<noteq> KT_SHIFT then Some s
                else do {
                  (type, keysym) \<leftarrow> letter_key km shift_final keycode s type keysym;
                  s \<leftarrow> key_handler km (unat type) (KVAL keysym) up_flag s;
                  Some (if type \<noteq> KT_SLOCK then upd_kbd (\<lambda>k. k\<lparr>slockstate := 0\<rparr>) s else s) }
           else Some (if \<not> up_flag \<and> \<not> raw_mode then to_utf8 keysym s else s))"

text \<open>Keeping track of the keys that are down, and what a key code does.\<close>

definition track_key :: "u8 \<Rightarrow> bool \<Rightarrow> kbd \<Rightarrow> bool \<times> kbd" where
  "track_key keycode up_flag s =
     (if up_flag then
        (case test_and_clear_bit (unat keycode) (key_down s) of (old, kd) \<Rightarrow>
          (if \<not> old then keyboard_pckbd_unexpected_up keycode else up_flag, s\<lparr>rep := False, key_down := kd\<rparr>))
      else
        (case test_and_set_bit (unat keycode) (key_down s) of (old, kd) \<Rightarrow> (up_flag, s\<lparr>rep := old, key_down := kd\<rparr>)))"

definition handle_keycode :: "keymaps \<Rightarrow> bool \<Rightarrow> bool \<Rightarrow> u8 \<Rightarrow> kbd \<Rightarrow> kbd option" where
  "handle_keycode km raw_mode up_flag keycode s =
     (let (raw_mode, s) =
            (if kbdmode (fg_kbd s) = VC_MEDIUMRAW then
               (True, put_queue (keycode + (if up_flag then 0x80 else 0)) s)
             else (raw_mode, s))
      in if \<not> rep s \<or> (vc_kbd_mode (fg_kbd s) VC_REPEAT \<and> tty s) then
           let shift_final = unat ((shift_state s OR ucast (slockstate (fg_kbd s))) XOR ucast (lockstate (fg_kbd s)))
           in if shift_final \<ge> length (key_maps km) then None
              else case key_maps km ! shift_final of
                Some key_map \<Rightarrow> handle_keysym km raw_mode up_flag shift_final key_map keycode s
              | None \<Rightarrow> do {
                  s \<leftarrow> compute_shiftstate km s;
                  Some (upd_kbd (\<lambda>k. k\<lparr>slockstate := 0\<rparr>) s) }
         else Some s)"

definition handle_scancode :: "keymaps \<Rightarrow> u8 \<Rightarrow> bool \<Rightarrow> kbd \<Rightarrow> kbd option" where
  "handle_scancode km scancode down s =
     (let up_flag = (\<not> down);
          s = s\<lparr>tty := True\<rparr>;
          raw_mode = (kbdmode (fg_kbd s) = VC_RAW);
          s = (if raw_mode then put_queue (if up_flag then scancode OR 0x80 else scancode) s else s);
          (kc, s) = keyboard_pckbd_translate scancode s
      in case kc of None \<Rightarrow> Some s
         | Some keycode \<Rightarrow>
             let (up_flag, s) = track_key keycode up_flag s
             in handle_keycode km raw_mode up_flag keycode s)"

section \<open>Lights\<close>

definition getleds :: "mem \<Rightarrow> kbd \<Rightarrow> u8" where
  "getleds m s =
     (let k = kbd_table s ! 0
      in if ledmode k = LED_SHOW_IOCTL then ledioctl s
         else
           let leds = ucast (ledflagstate k);
               show = (\<lambda>i leds. let p = ledptrs s ! i in
                 if led_valid p then
                   (if load32 m (led_addr p) AND led_mask p \<noteq> 0 then leds OR push_bit i 1 else leds AND NOT (push_bit i 1))
                 else leds)
           in if ledmode k = LED_SHOW_MEM then show 2 (show 1 (show 0 leds)) else leds)"

definition kbd_bh :: "mem \<Rightarrow> kbd \<Rightarrow> kbd" where
  "kbd_bh m s =
     (let leds = getleds m s
      in if leds \<noteq> ledstate s then keyboard_pckbd_leds leds (s\<lparr>ledstate := leds\<rparr>) else s)"

definition keyboard_schedule_tasklet :: "mem \<Rightarrow> kbd \<Rightarrow> kbd" where
  "keyboard_schedule_tasklet m s = (if tasklet_enabled s then kbd_bh m s else s)"

definition setledstate :: "mem \<Rightarrow> nat \<Rightarrow> u32 \<Rightarrow> kbd \<Rightarrow> kbd" where
  "setledstate m console led s =
     (let s = (if led AND NOT 7 = 0 then
                 s\<lparr>ledioctl := ucast led, kbd_table := (kbd_table s)[console := (kbd_table s ! console)\<lparr>ledmode := LED_SHOW_IOCTL\<rparr>]\<rparr>
               else s\<lparr>kbd_table := (kbd_table s)[console := (kbd_table s ! console)\<lparr>ledmode := LED_SHOW_FLAGS\<rparr>]\<rparr>)
      in keyboard_schedule_tasklet m s)"

definition register_leds :: "nat \<Rightarrow> nat \<Rightarrow> u32 \<Rightarrow> u32 \<Rightarrow> kbd \<Rightarrow> kbd" where
  "register_leds console led addr msk s =
     (if led < 3 then
        s\<lparr>ledptrs := (ledptrs s)[led := \<lparr>led_addr = addr, led_mask = msk, led_valid = True\<rparr>],
          kbd_table := (kbd_table s)[console := (kbd_table s ! console)\<lparr>ledmode := LED_SHOW_MEM\<rparr>]\<rparr>
      else s\<lparr>kbd_table := (kbd_table s)[console := (kbd_table s ! console)\<lparr>ledmode := LED_SHOW_FLAGS\<rparr>]\<rparr>)"

section \<open>Initialisation and the entry point\<close>

definition KBD_DEFMODE :: "5 word" where
  "KBD_DEFMODE = push_bit VC_REPEAT 1 OR push_bit VC_META 1"

definition kbd0 :: kbd_struct where
  "kbd0 = \<lparr>lockstate = 0, slockstate = 0, ledmode = LED_SHOW_FLAGS, ledflagstate = 0, default_ledflagstate = 0,
     kbdmode = VC_XLATE, modeflags = KBD_DEFMODE\<rparr>"

definition kbd_init :: "mem \<Rightarrow> kbd \<Rightarrow> kbd" where
  "kbd_init m s =
     (let s = s\<lparr>kbd_table := map (\<lambda>_. kbd0) (kbd_table s)\<rparr>;
          s = s\<lparr>tasklet_enabled := True\<rparr>
      in keyboard_schedule_tasklet m s)"

text \<open>The values of the static variables before the first scan code.\<close>

definition boot_kbd :: kbd where
  "boot_kbd = \<lparr>k_down = replicate NR_SHIFT 0, key_down = replicate 8 0, dead_key_next = False, shift_state = 0, npadch = - 1,
     diacr = 0, rep = False,
     kbd_table = replicate MAX_NR_CONSOLES \<lparr>lockstate = 0, slockstate = 0, ledmode = 0, ledflagstate = 0, default_ledflagstate = 0, kbdmode = 0, modeflags = 0\<rparr>,
     tty = False, tty_stopped = False, ledstate = 0xff, ledioctl = 0,
     ledptrs = replicate 3 \<lparr>led_addr = 0, led_mask = 0, led_valid = False\<rparr>, tasklet_enabled = False, prev_scancode = 0,
     high_keys = init_high_keys, e0_keys = init_e0_keys, glue_init = False, sent = [], leds_sent = []\<rparr>"

text \<open>\<^verbatim>\<open>do_scancode\<close> gets an \<^verbatim>\<open>int\<close>; the decoder takes its low byte.\<close>

definition do_scancode :: "keymaps \<Rightarrow> mem \<Rightarrow> int \<Rightarrow> kbd \<Rightarrow> kbd option" where
  "do_scancode km m scancode s =
     (let s = (if \<not> glue_init s then kbd_init m (s\<lparr>glue_init := True\<rparr>) else s)
      in if scancode \<noteq> 0x00 \<and> scancode \<noteq> 0xff then do {
           s \<leftarrow> handle_scancode km (of_int scancode) (\<not> bit scancode 7) s;
           Some (kbd_bh m s) }
         else Some s)"


text \<open>\<^verbatim>\<open>keyboard_IT\<close> reads a scan code into a signed \<^verbatim>\<open>char\<close> and passes it on; a run of the decoder on the codes read.\<close>

definition scan_byte :: "keymaps \<Rightarrow> mem \<Rightarrow> u8 \<Rightarrow> kbd \<Rightarrow> kbd option" where
  "scan_byte km m c s = do_scancode km m (sint c) s"

primrec scan_bytes :: "keymaps \<Rightarrow> mem \<Rightarrow> u8 list \<Rightarrow> kbd \<Rightarrow> kbd option" where
  "scan_bytes km m [] s = Some s"
| "scan_bytes km m (c # cs) s = do { s \<leftarrow> scan_byte km m c s; scan_bytes km m cs s }"

end
