(* ===== verification/Kbd_Maps.thy ===== *)
theory Kbd_Maps
  imports Kbd
begin

text \<open>
  The tables of \<^verbatim>\<open>kernel/kbd-linux/defkeymap.c\<close>: seven key maps of 256 symbols (a French keyboard), the strings of the
  function keys and an empty table of accents. The rows after the last key of a keyboard all have the
  symbol 0xf200, and are written with \<open>replicate\<close>.
\<close>

definition plain_map :: "u16 list" where
  "plain_map =
     [0xf200, 0xf01b, 0xf026, 0xf07b, 0xf022, 0xf027, 0xf028, 0xf02d,
      0xf07d, 0xf05f, 0xf02f, 0xf040, 0xf029, 0xf03d, 0xf07f, 0xf009,
      0xfb61, 0xfb7a, 0xfb65, 0xfb72, 0xfb74, 0xfb79, 0xfb75, 0xfb69,
      0xfb6f, 0xfb70, 0xf05e, 0xf024, 0xf201, 0xf702, 0xfb71, 0xfb73,
      0xfb64, 0xfb66, 0xfb67, 0xfb68, 0xfb6a, 0xfb6b, 0xfb6c, 0xfb6d,
      0xf07c, 0xf02a, 0xf700, 0xf02a, 0xfb77, 0xfb78, 0xfb63, 0xfb76,
      0xfb62, 0xfb6e, 0xf02c, 0xf03b, 0xf03a, 0xf021, 0xf700, 0xf30c,
      0xf703, 0xf020, 0xf207, 0xf100, 0xf101, 0xf102, 0xf103, 0xf104,
      0xf105, 0xf106, 0xf107, 0xf108, 0xf109, 0xf208, 0xf209, 0xf307,
      0xf308, 0xf309, 0xf30b, 0xf304, 0xf305, 0xf306, 0xf30a, 0xf301,
      0xf302, 0xf303, 0xf300, 0xf310, 0xf206, 0xf200, 0xf03c, 0xf10a,
      0xf10b, 0xf200, 0xf200, 0xf200, 0xf200, 0xf200, 0xf200, 0xf200,
      0xf30e, 0xf702, 0xf30d, 0xf200, 0xf701, 0xf205, 0xf114, 0xf603,
      0xf118, 0xf601, 0xf602, 0xf117, 0xf600, 0xf119, 0xf115, 0xf116,
      0xf200, 0xf200, 0xf200, 0xf200, 0xf200, 0xf200, 0xf200, 0xf11d] @ replicate 136 0xf200"

definition shift_map :: "u16 list" where
  "shift_map =
     [0xf200, 0xf01b, 0xf031, 0xf032, 0xf033, 0xf034, 0xf035, 0xf036,
      0xf037, 0xf038, 0xf039, 0xf030, 0xf05d, 0xf02b, 0xf07f, 0xf009,
      0xfb41, 0xfb5a, 0xfb45, 0xfb52, 0xfb54, 0xfb59, 0xfb55, 0xfb49,
      0xfb4f, 0xfb50, 0xf03c, 0xf03e, 0xf201, 0xf702, 0xfb51, 0xfb53,
      0xfb44, 0xfb46, 0xfb47, 0xfb48, 0xfb4a, 0xfb4b, 0xfb4c, 0xfb4d,
      0xf025, 0xf07e, 0xf700, 0xf023, 0xfb57, 0xfb58, 0xfb43, 0xfb56,
      0xfb42, 0xfb4e, 0xf03f, 0xf02e, 0xf02f, 0xf05c, 0xf700, 0xf30c,
      0xf703, 0xf020, 0xf207, 0xf10c, 0xf10d, 0xf10e, 0xf10f, 0xf110,
      0xf111, 0xf112, 0xf113, 0xf11e, 0xf11f, 0xf208, 0xf203, 0xf307,
      0xf308, 0xf309, 0xf30b, 0xf304, 0xf305, 0xf306, 0xf30a, 0xf301,
      0xf302, 0xf303, 0xf300, 0xf310, 0xf206, 0xf200, 0xf03e, 0xf120,
      0xf121, 0xf200, 0xf200, 0xf200, 0xf200, 0xf200, 0xf200, 0xf200,
      0xf30e, 0xf702, 0xf30d, 0xf200, 0xf701, 0xf205, 0xf114, 0xf603,
      0xf20b, 0xf601, 0xf602, 0xf117, 0xf600, 0xf20a, 0xf115, 0xf116,
      0xf200, 0xf200, 0xf200, 0xf200, 0xf200, 0xf200, 0xf200, 0xf11d] @ replicate 136 0xf200"

definition altgr_map :: "u16 list" where
  "altgr_map =
     [0xf200, 0xf200, 0xf200, 0xf07e, 0xf023, 0xf07b, 0xf05b, 0xf07c,
      0xf060, 0xf05c, 0xf05e, 0xf040, 0xf05d, 0xf07d, 0xf200, 0xf200,
      0xfb61, 0xfb7a, 0xfb65, 0xfb72, 0xfb74, 0xfb79, 0xfb75, 0xfb69,
      0xfb6f, 0xfb70, 0xf200, 0xf07e, 0xf201, 0xf702, 0xfb71, 0xfb73,
      0xfb64, 0xfb66, 0xfb67, 0xfb68, 0xfb6a, 0xfb6b, 0xfb6c, 0xfb6d,
      0xf200, 0xf200, 0xf700, 0xf200, 0xfb77, 0xfb78, 0xfb63, 0xfb76,
      0xfb62, 0xfb6e, 0xf200, 0xf200, 0xf200, 0xf200, 0xf700, 0xf916,
      0xf703, 0xf200, 0xf207, 0xf200, 0xf200, 0xf200, 0xf200, 0xf200,
      0xf200, 0xf200, 0xf200, 0xf200, 0xf200, 0xf914, 0xf202, 0xf911,
      0xf912, 0xf913, 0xf917, 0xf90e, 0xf90f, 0xf910, 0xf918, 0xf90b,
      0xf90c, 0xf90d, 0xf90a, 0xf310, 0xf206, 0xf200, 0xf07c, 0xf200,
      0xf200, 0xf200, 0xf200, 0xf200, 0xf200, 0xf200, 0xf200, 0xf200,
      0xf919, 0xf702, 0xf915, 0xf200, 0xf701, 0xf205, 0xf114, 0xf603,
      0xf118, 0xf601, 0xf602, 0xf117, 0xf600, 0xf119, 0xf115, 0xf116,
      0xf200, 0xf200, 0xf200, 0xf200, 0xf200, 0xf200, 0xf200, 0xf11d] @ replicate 136 0xf200"

definition ctrl_map :: "u16 list" where
  "ctrl_map =
     [0xf200, 0xf200, 0xf200, 0xf000, 0xf01b, 0xf01c, 0xf01d, 0xf01e,
      0xf01f, 0xf07f, 0xf200, 0xf200, 0xf01f, 0xf200, 0xf200, 0xf200,
      0xf001, 0xf01a, 0xf005, 0xf012, 0xf014, 0xf019, 0xf015, 0xf009,
      0xf00f, 0xf010, 0xf01b, 0xf01d, 0xf201, 0xf702, 0xf011, 0xf013,
      0xf004, 0xf006, 0xf007, 0xf008, 0xf00a, 0xf00b, 0xf00c, 0xf00d,
      0xf007, 0xf000, 0xf700, 0xf01c, 0xf017, 0xf018, 0xf003, 0xf016,
      0xf002, 0xf00e, 0xf200, 0xf200, 0xf200, 0xf07f, 0xf700, 0xf30c,
      0xf703, 0xf000, 0xf207, 0xf122, 0xf123, 0xf124, 0xf125, 0xf126,
      0xf127, 0xf128, 0xf129, 0xf12a, 0xf12b, 0xf208, 0xf204, 0xf307,
      0xf308, 0xf309, 0xf30b, 0xf304, 0xf305, 0xf306, 0xf30a, 0xf301,
      0xf302, 0xf303, 0xf300, 0xf310, 0xf206, 0xf200, 0xf200, 0xf12c,
      0xf12d, 0xf200, 0xf200, 0xf200, 0xf200, 0xf200, 0xf200, 0xf200,
      0xf30e, 0xf702, 0xf30d, 0xf01c, 0xf701, 0xf205, 0xf114, 0xf603,
      0xf118, 0xf601, 0xf602, 0xf117, 0xf600, 0xf119, 0xf115, 0xf116,
      0xf200, 0xf200, 0xf200, 0xf200, 0xf200, 0xf200, 0xf200, 0xf11d] @ replicate 136 0xf200"

definition altgr_ctrl_map :: "u16 list" where
  "altgr_ctrl_map =
     [0xf200, 0xf200, 0xf200, 0xf200, 0xf200, 0xf200, 0xf200, 0xf200,
      0xf200, 0xf200, 0xf200, 0xf200, 0xf200, 0xf200, 0xf200, 0xf200,
      0xf001, 0xf01a, 0xf005, 0xf012, 0xf014, 0xf019, 0xf015, 0xf009,
      0xf00f, 0xf010, 0xf200, 0xf200, 0xf201, 0xf702, 0xf011, 0xf013,
      0xf004, 0xf006, 0xf007, 0xf008, 0xf00a, 0xf00b, 0xf00c, 0xf00d,
      0xf200, 0xf200, 0xf700, 0xf200, 0xf017, 0xf018, 0xf003, 0xf016,
      0xf002, 0xf00e, 0xf200, 0xf200, 0xf200, 0xf200, 0xf700, 0xf30c,
      0xf703, 0xf200, 0xf207, 0xf200, 0xf200, 0xf200, 0xf200, 0xf200,
      0xf200, 0xf200, 0xf200, 0xf200, 0xf200, 0xf208, 0xf200, 0xf307,
      0xf308, 0xf309, 0xf30b, 0xf304, 0xf305, 0xf306, 0xf30a, 0xf301,
      0xf302, 0xf303, 0xf300, 0xf20c, 0xf206, 0xf200, 0xf200, 0xf200,
      0xf200, 0xf200, 0xf200, 0xf200, 0xf200, 0xf200, 0xf200, 0xf200,
      0xf30e, 0xf702, 0xf30d, 0xf200, 0xf701, 0xf205, 0xf114, 0xf603,
      0xf118, 0xf601, 0xf602, 0xf117, 0xf600, 0xf119, 0xf115, 0xf20c,
      0xf200, 0xf200, 0xf200, 0xf200, 0xf200, 0xf200, 0xf200, 0xf11d] @ replicate 136 0xf200"

definition alt_map :: "u16 list" where
  "alt_map =
     [0xf200, 0xf81b, 0xf831, 0xf832, 0xf833, 0xf834, 0xf835, 0xf836,
      0xf837, 0xf838, 0xf839, 0xf830, 0xf82d, 0xf83d, 0xf87f, 0xf809,
      0xf861, 0xf87a, 0xf865, 0xf872, 0xf874, 0xf879, 0xf875, 0xf869,
      0xf86f, 0xf870, 0xf85b, 0xf85d, 0xf80d, 0xf702, 0xf871, 0xf873,
      0xf864, 0xf866, 0xf867, 0xf868, 0xf86a, 0xf86b, 0xf86c, 0xf86d,
      0xf827, 0xf860, 0xf700, 0xf85c, 0xf877, 0xf878, 0xf863, 0xf876,
      0xf862, 0xf86e, 0xf200, 0xf82c, 0xf82e, 0xf82f, 0xf700, 0xf30c,
      0xf703, 0xf820, 0xf207, 0xf500, 0xf501, 0xf502, 0xf503, 0xf504,
      0xf505, 0xf506, 0xf507, 0xf508, 0xf509, 0xf208, 0xf209, 0xf907,
      0xf908, 0xf909, 0xf30b, 0xf904, 0xf905, 0xf906, 0xf30a, 0xf901,
      0xf902, 0xf903, 0xf900, 0xf310, 0xf206, 0xf200, 0xf83c, 0xf50a,
      0xf50b, 0xf200, 0xf200, 0xf200, 0xf200, 0xf200, 0xf200, 0xf200,
      0xf30e, 0xf702, 0xf30d, 0xf01c, 0xf701, 0xf205, 0xf114, 0xf212,
      0xf118, 0xf210, 0xf211, 0xf117, 0xf600, 0xf119, 0xf115, 0xf116,
      0xf200, 0xf200, 0xf200, 0xf200, 0xf200, 0xf200, 0xf200, 0xf11d] @ replicate 136 0xf200"

definition ctrl_alt_map :: "u16 list" where
  "ctrl_alt_map =
     [0xf200, 0xf200, 0xf200, 0xf200, 0xf200, 0xf200, 0xf200, 0xf200,
      0xf200, 0xf200, 0xf200, 0xf200, 0xf200, 0xf200, 0xf200, 0xf200,
      0xf801, 0xf81a, 0xf805, 0xf812, 0xf814, 0xf819, 0xf815, 0xf809,
      0xf80f, 0xf810, 0xf200, 0xf200, 0xf201, 0xf702, 0xf811, 0xf813,
      0xf804, 0xf806, 0xf807, 0xf808, 0xf80a, 0xf80b, 0xf80c, 0xf80d,
      0xf200, 0xf200, 0xf700, 0xf200, 0xf817, 0xf818, 0xf803, 0xf816,
      0xf802, 0xf80e, 0xf200, 0xf200, 0xf200, 0xf200, 0xf700, 0xf30c,
      0xf703, 0xf200, 0xf207, 0xf500, 0xf501, 0xf502, 0xf503, 0xf504,
      0xf505, 0xf506, 0xf507, 0xf508, 0xf509, 0xf208, 0xf200, 0xf307,
      0xf308, 0xf309, 0xf30b, 0xf304, 0xf305, 0xf306, 0xf30a, 0xf301,
      0xf302, 0xf303, 0xf300, 0xf20c, 0xf206, 0xf200, 0xf200, 0xf50a,
      0xf50b, 0xf200, 0xf200, 0xf200, 0xf200, 0xf200, 0xf200, 0xf200,
      0xf30e, 0xf702, 0xf30d, 0xf200, 0xf701, 0xf205, 0xf114, 0xf603,
      0xf118, 0xf601, 0xf602, 0xf117, 0xf600, 0xf119, 0xf115, 0xf20c,
      0xf200, 0xf200, 0xf200, 0xf200, 0xf200, 0xf200, 0xf200, 0xf11d] @ replicate 136 0xf200"

definition def_key_maps :: "u16 list option list" where
  "def_key_maps =
     [Some plain_map, Some shift_map, Some altgr_map, None,
      Some ctrl_map, None, Some altgr_ctrl_map, None,
      Some alt_map, None, None, None,
      Some ctrl_alt_map] @ replicate 243 None"

definition func_buf :: "u8 list" where
  "func_buf =
     [27, 91, 91, 65, 0,
      27, 91, 91, 66, 0,
      27, 91, 91, 67, 0,
      27, 91, 91, 68, 0,
      27, 91, 91, 69, 0,
      27, 91, 49, 55, 126, 0,
      27, 91, 49, 56, 126, 0,
      27, 91, 49, 57, 126, 0,
      27, 91, 50, 48, 126, 0,
      27, 91, 50, 49, 126, 0,
      27, 91, 50, 51, 126, 0,
      27, 91, 50, 52, 126, 0,
      27, 91, 50, 53, 126, 0,
      27, 91, 50, 54, 126, 0,
      27, 91, 50, 56, 126, 0,
      27, 91, 50, 57, 126, 0,
      27, 91, 51, 49, 126, 0,
      27, 91, 51, 50, 126, 0,
      27, 91, 51, 51, 126, 0,
      27, 91, 51, 52, 126, 0,
      27, 91, 49, 126, 0,
      27, 91, 50, 126, 0,
      27, 91, 51, 126, 0,
      27, 91, 52, 126, 0,
      27, 91, 53, 126, 0,
      27, 91, 54, 126, 0]"

definition func_offsets :: "nat list" where
  "func_offsets = [0, 5, 10, 15, 20, 25, 31, 37, 43, 49, 55, 61, 67, 73, 79, 85, 91, 97, 103, 109, 115, 120, 125, 130, 135, 140]"

text \<open>A string of the table is the part of the buffer up to the next zero byte.\<close>

definition def_func_table :: "u8 list option list" where
  "def_func_table =
     map (\<lambda>i. Some (takeWhile (\<lambda>c. c \<noteq> 0) (drop i func_buf))) func_offsets @ replicate (256 - length func_offsets) None"

definition def_keymaps :: keymaps where
  "def_keymaps = \<lparr>key_maps = def_key_maps, func_table = def_func_table, accent_table = []\<rparr>"

end
