(* ===== verification/Kbd_Props.thy ===== *)
theory Kbd_Props
  imports Kbd_Maps
begin

text \<open>
  Correctness of the keyboard decoder. \<open>keymaps_ok\<close> is what the decoder needs of its tables, and the
  default tables have it; \<open>kbd_ok\<close> is the invariant of its state: the arrays have their lengths and the
  bit of a modifier is set if and only if a key of that modifier is counted as down. The locale \<open>keyboard_tables\<close> is
  the interface between the decoder and its tables; in it every handler is shown to return, without
  an access outside a table, and to keep the invariant.
\<close>

section \<open>Tables\<close>

definition sym_ok :: "u16 \<Rightarrow> bool" where
  "sym_ok x =
     (let t = KTYP x; v = KVAL x
      in (t = 0xf3 \<longrightarrow> v < 21) \<and> (t = 0xf4 \<longrightarrow> v < 6) \<and> (t = 0xf6 \<longrightarrow> v < 5) \<and> (t = 0xf7 \<longrightarrow> v < 9) \<and> (t = 0xfc \<longrightarrow> v < 9))"

definition keymap_ok :: "u16 list \<Rightarrow> bool" where
  "keymap_ok m \<longleftrightarrow> length m = 256 \<and> list_all sym_ok m"

definition keymaps_ok :: "keymaps \<Rightarrow> bool" where
  "keymaps_ok km \<longleftrightarrow> length (key_maps km) = 256 \<and> length (func_table km) = 256 \<and>
     list_all (\<lambda>m. case m of None \<Rightarrow> True | Some m \<Rightarrow> keymap_ok m) (key_maps km) \<and>
     (case key_maps km ! 0 of None \<Rightarrow> False | Some m \<Rightarrow> KTYP (m ! 0) \<noteq> 0xf7 \<and> KTYP (m ! 0) \<noteq> 0xfc)"

lemma list_all_replicate [simp]: "list_all P (replicate n x) \<longleftrightarrow> n = 0 \<or> P x"
  by (induction n) auto

lemmas sym_eval = keymap_ok_def sym_ok_def KTYP_def KVAL_def

lemma maps_ok:
  "keymap_ok plain_map" "keymap_ok shift_map" "keymap_ok altgr_map" "keymap_ok ctrl_map"
  "keymap_ok altgr_ctrl_map" "keymap_ok alt_map" "keymap_ok ctrl_alt_map"
  by (simp_all add: sym_eval plain_map_def shift_map_def altgr_map_def ctrl_map_def altgr_ctrl_map_def alt_map_def ctrl_alt_map_def)

lemma def_keymaps_ok: "keymaps_ok def_keymaps"
proof -
  have "KTYP (plain_map ! 0) \<noteq> 0xf7" "KTYP (plain_map ! 0) \<noteq> 0xfc" by (simp_all add: plain_map_def KTYP_def)
  then show ?thesis using maps_ok
    by (simp add: keymaps_ok_def def_keymaps_def def_key_maps_def def_func_table_def func_offsets_def)
qed

section \<open>State\<close>

definition kbd_ok :: "kbd \<Rightarrow> bool" where
  "kbd_ok s \<longleftrightarrow> length (k_down s) = NR_SHIFT \<and> length (key_down s) = 8 \<and> length (kbd_table s) = MAX_NR_CONSOLES \<and>
     length (ledptrs s) = 3 \<and> length (high_keys s) = 39 \<and> length (e0_keys s) = 128 \<and>
     (\<forall>v. bit (shift_state s) v \<longleftrightarrow> v < 8 \<and> k_down s ! v \<noteq> 0)"

lemma boot_kbd_ok: "kbd_ok boot_kbd"
  by (simp add: kbd_ok_def boot_kbd_def init_high_keys_def init_e0_keys_def NR_SHIFT_def nth_replicate)

text \<open>Sending characters only changes \<open>sent\<close>, and the settings of the console only \<open>kbd_table\<close>.\<close>

lemma put_queue_alt: "put_queue ch s = s\<lparr>sent := sent s @ (if tty s then [if ch = 0 then [] else [ch]] else [])\<rparr>"
  by (simp add: put_queue_def keyboard_send_ch_def keyboard_send_str_def)

lemma puts_queue_alt: "puts_queue str s = s\<lparr>sent := sent s @ (if tty s then [takeWhile (\<lambda>c. c \<noteq> 0) str] else [])\<rparr>"
  by (simp add: puts_queue_def keyboard_send_str_def)

lemma kbd_ok_sent [simp]: "kbd_ok (s\<lparr>sent := x\<rparr>) = kbd_ok s"
  by (simp add: kbd_ok_def)

lemma kbd_ok_misc [simp]:
  "kbd_ok (s\<lparr>diacr := a\<rparr>) = kbd_ok s" "kbd_ok (s\<lparr>dead_key_next := b\<rparr>) = kbd_ok s" "kbd_ok (s\<lparr>npadch := c\<rparr>) = kbd_ok s"
  "kbd_ok (s\<lparr>tty := b\<rparr>) = kbd_ok s" "kbd_ok (s\<lparr>tty_stopped := b\<rparr>) = kbd_ok s" "kbd_ok (s\<lparr>rep := b\<rparr>) = kbd_ok s"
  "kbd_ok (s\<lparr>prev_scancode := c\<rparr>) = kbd_ok s" "kbd_ok (s\<lparr>ledstate := a\<rparr>) = kbd_ok s" "kbd_ok (s\<lparr>leds_sent := l\<rparr>) = kbd_ok s"
  "kbd_ok (s\<lparr>glue_init := b\<rparr>) = kbd_ok s" "kbd_ok (s\<lparr>tasklet_enabled := b\<rparr>) = kbd_ok s"
  by (simp_all add: kbd_ok_def)

lemma kbd_ok_put [simp]: "kbd_ok (put_queue ch s) = kbd_ok s" "kbd_ok (puts_queue str s) = kbd_ok s"
  "kbd_ok (applkey key mode s) = kbd_ok s" "kbd_ok (to_utf8 c s) = kbd_ok s"
  by (simp_all add: put_queue_alt puts_queue_alt applkey_def to_utf8_def)

lemma kbd_ok_upd [simp]: "kbd_ok (upd_kbd f s) = kbd_ok s"
  by (simp add: kbd_ok_def upd_kbd_def)

lemma kbd_ok_kbd_bh [simp]: "kbd_ok (kbd_bh m s) = kbd_ok s"
  by (simp add: kbd_bh_def keyboard_pckbd_leds_def Let_def)

lemma kbd_ok_init [simp]: "kbd_ok (kbd_init m s) = kbd_ok s"
  by (simp add: kbd_init_def keyboard_schedule_tasklet_def Let_def) (simp add: kbd_ok_def)

lemma kbd_ok_special [simp]:
  "kbd_ok (enter_key s) = kbd_ok s" "kbd_ok (caps_toggle s) = kbd_ok s" "kbd_ok (caps_on s) = kbd_ok s" "kbd_ok (hold s) = kbd_ok s"
  "kbd_ok (bare_num s) = kbd_ok s" "kbd_ok (num_key s) = kbd_ok s" "kbd_ok (compose s) = kbd_ok s"
  by (simp_all add: enter_key_def caps_toggle_def caps_on_def hold_def bare_num_def num_key_def compose_def Let_def
      keyboard_start_tty_def keyboard_stop_tty_def)

lemma kbd_ok_diacr [simp]: "kbd_ok (snd (handle_diacr km ch s)) = kbd_ok s"
  by (simp add: handle_diacr_def Let_def split: option.split)

lemma kbd_ok_diacr_eq: "handle_diacr km ch s = (r, s') \<Longrightarrow> kbd_ok s' = kbd_ok s"
  by (metis kbd_ok_diacr snd_conv)

lemma kbd_ok_keys [simp]:
  "kbd_ok (do_self km v up s) = kbd_ok s" "kbd_ok (do_dead2 km v up s) = kbd_ok s" "kbd_ok (do_meta v up s) = kbd_ok s"
  "kbd_ok (do_ascii v up s) = kbd_ok s" "kbd_ok (do_lock v up s) = kbd_ok s"
  by (auto simp: do_self_def do_dead2_def do_meta_def do_ascii_def do_lock_def Let_def split: prod.split dest: kbd_ok_diacr_eq)

section \<open>Modifiers\<close>

text \<open>One count changed and the bit set to match it.\<close>

lemma kbd_ok_count:
  assumes ok: "kbd_ok s" and v: "v < 8"
  shows "kbd_ok (s\<lparr>k_down := (k_down s)[v := c],
    shift_state := (if c \<noteq> 0 then shift_state s OR push_bit v 1 else shift_state s AND NOT (push_bit v 1))\<rparr>)"
proof -
  have len: "length (k_down s) = 9" using ok by (simp add: kbd_ok_def NR_SHIFT_def)
  have bits: "bit (shift_state s) n \<longleftrightarrow> n < 8 \<and> k_down s ! n \<noteq> 0" for n using ok by (simp add: kbd_ok_def)
  have "bit (if c \<noteq> 0 then shift_state s OR push_bit v 1 else shift_state s AND NOT (push_bit v 1)) n \<longleftrightarrow>
      n < 8 \<and> (k_down s)[v := c] ! n \<noteq> 0" for n
    using v len by (cases "n = v") (auto simp: bit_simps bits)
  then show ?thesis using ok by (simp add: kbd_ok_def)
qed


definition new_count :: "bool \<Rightarrow> u8 \<Rightarrow> u8" where
  "new_count up c = (if up then (if c \<noteq> 0 then c - 1 else c) else c + 1)"

lemma count_key_alt:
  assumes "v < length (k_down s)"
  shows "count_key v up s =
    s\<lparr>k_down := (k_down s)[v := new_count up (k_down s ! v)],
      shift_state := (if new_count up (k_down s ! v) \<noteq> 0 then shift_state s OR push_bit v 1 else shift_state s AND NOT (push_bit v 1))\<rparr>"
proof (cases "up \<and> k_down s ! v = 0")
  case True
  then have "(k_down s)[v := 0] = k_down s" by (metis list_update_id)
  then show ?thesis using True by (simp add: count_key_def new_count_def)
next
  case False
  then show ?thesis using assms by (cases up) (simp_all add: count_key_def new_count_def Let_def)
qed

lemma kbd_ok_count_key: "kbd_ok s \<Longrightarrow> v < 8 \<Longrightarrow> kbd_ok (count_key v up s)"
  using kbd_ok_count by (simp add: count_key_alt kbd_ok_def NR_SHIFT_def)

lemma kbd_ok_flush [simp]: "kbd_ok (flush_npadch up old s) = kbd_ok s"
  by (simp add: flush_npadch_def)

lemma do_shift_ok:
  assumes "kbd_ok s" "v < 9"
  shows "\<exists>s'. do_shift v up s = Some s' \<and> kbd_ok s'"
proof -
  have len: "length (k_down s) = 9" using assms by (simp add: kbd_ok_def NR_SHIFT_def)
  show ?thesis
  proof (cases "v = 8")
    case True
    then show ?thesis using assms len
      by (auto simp: do_shift_def KG_CAPSSHIFT_def KG_SHIFT_def intro!: kbd_ok_count_key) (simp add: upd_kbd_def)
  next
    case False
    then have "unat v < 8" using assms(2) by (simp add: word_less_nat_alt nat_less_le word_unat_eq_iff)
    then show ?thesis using assms len False
      by (simp add: do_shift_def KG_CAPSSHIFT_def kbd_ok_count_key)
  qed
qed


lemma unat_add_one8: "unat (c :: u8) + 1 < 256 \<Longrightarrow> unat (c + 1) = unat c + 1"
  by (simp add: unat_word_ariths)

text \<open>The modifier that a key has in the plain map, if it is a modifier key.\<close>

definition key_modifier :: "u16 list \<Rightarrow> nat \<Rightarrow> nat option" where
  "key_modifier map0 k =
     (if KTYP (map0 ! k) = 0xf7 \<or> KTYP (map0 ! k) = 0xfc
      then Some (if KVAL (map0 ! k) = 8 then 0 else unat (KVAL (map0 ! k))) else None)"

lemma key_masks: "(0xff :: u16) = mask 8" "(0xf000 :: u16) = push_bit 12 (mask 4)" "(0xf0 :: u8) = push_bit 4 (mask 4)"
  by (simp_all add: mask_eq_exp_minus_1)

lemma KVAL_U: "KVAL (key_U x) = KVAL x"
  unfolding KVAL_def key_U_def key_masks by (rule bit_word_eqI) (auto simp: bit_simps)

lemma KTYP_U: "KTYP (key_U x) = KTYP x XOR 0xf0"
  unfolding KTYP_def key_U_def key_masks by (rule bit_word_eqI) (auto simp: bit_simps)

lemma xor_eq_iff: "a XOR m = b \<longleftrightarrow> a = b XOR (m :: u8)"
  by (auto simp: xor.assoc)

lemma KTYP_U_eq: "KTYP (key_U x) = KT_SHIFT \<longleftrightarrow> KTYP x = 0xf7" "KTYP (key_U x) = KT_SLOCK \<longleftrightarrow> KTYP x = 0xfc"
  by (simp_all add: KTYP_U xor_eq_iff KT_SHIFT_def KT_SLOCK_def)

lemma shift_of_key_eq:
  "shift_of_key map0 k s =
     (if k \<ge> length map0 then None
      else case key_modifier map0 k of None \<Rightarrow> Some s
        | Some v \<Rightarrow> if v \<ge> length (k_down s) then None
            else Some (s\<lparr>k_down := (k_down s)[v := k_down s ! v + 1], shift_state := shift_state s OR push_bit v 1\<rparr>))"
  by (simp add: shift_of_key_def key_modifier_def KTYP_U_eq KVAL_U KG_CAPSSHIFT_def KG_SHIFT_def Let_def)

lemma key_modifier_lt: "keymap_ok map0 \<Longrightarrow> k < 256 \<Longrightarrow> key_modifier map0 k = Some v \<Longrightarrow> v < 8"
proof -
  assume "keymap_ok map0" "k < 256" and v: "key_modifier map0 k = Some v"
  then have "sym_ok (map0 ! k)" by (simp add: keymap_ok_def list_all_length)
  with v have "KVAL (map0 ! k) < 9" by (auto simp: key_modifier_def sym_ok_def Let_def split: if_splits)
  then have "KVAL (map0 ! k) \<noteq> 8 \<Longrightarrow> unat (KVAL (map0 ! k)) < 8"
    by (simp add: word_less_nat_alt nat_less_le word_unat_eq_iff)
  with v show "v < 8" by (auto simp: key_modifier_def split: if_splits)
qed

definition modifier_keys :: "u16 list \<Rightarrow> nat list \<Rightarrow> nat list" where
  "modifier_keys map0 ks = filter (\<lambda>k. key_modifier map0 k \<noteq> None) ks"

lemma compute_shift_loop_ok:
  assumes "kbd_ok s" "keymap_ok map0" "\<forall>k\<in>set ks. k < 256"
    and "\<forall>v<8. unat (k_down s ! v) + length (modifier_keys map0 ks) < 256"
  shows "\<exists>s'. compute_shift_loop ks map0 s = Some s' \<and> kbd_ok s' \<and> key_down s' = key_down s \<and>
    (\<forall>v. bit (shift_state s') v \<longleftrightarrow> bit (shift_state s) v \<or> (\<exists>k\<in>set ks. test_bit k (key_down s) \<and> key_modifier map0 k = Some v))"
  using assms
proof (induction ks arbitrary: s)
  case (Cons k ks)
  have len: "length map0 = 256" "length (k_down s) = 9"
    using Cons.prems(1,2) by (simp_all add: keymap_ok_def kbd_ok_def NR_SHIFT_def)
  show ?case
  proof (cases "test_bit k (key_down s) \<and> key_modifier map0 k \<noteq> None")
    case False
    then have "\<forall>v<8. unat (k_down s ! v) + length (modifier_keys map0 ks) < 256"
      using Cons.prems(4) by (fastforce simp: modifier_keys_def split: if_splits)
    from Cons.IH [OF Cons.prems(1,2) _ this] show ?thesis
      using Cons.prems(3) False len by (auto simp: shift_of_key_eq)
  next
    case True
    then obtain v where v: "key_modifier map0 k = Some v" by auto
    then have lt: "v < 8" using key_modifier_lt [OF Cons.prems(2), of k] Cons.prems(3) by auto
    let ?s = "s\<lparr>k_down := (k_down s)[v := k_down s ! v + 1], shift_state := shift_state s OR push_bit v 1\<rparr>"
    have bound: "\<forall>u<8. unat (k_down s ! u) + Suc (length (modifier_keys map0 ks)) < 256"
      using Cons.prems(4) v by (simp add: modifier_keys_def)
    then have inc: "unat (k_down s ! v + 1) = unat (k_down s ! v) + 1"
      using lt by (intro unat_add_one8) fastforce
    then have "unat (k_down s ! v + 1) \<noteq> 0" by simp
    then have "k_down s ! v + 1 \<noteq> 0" by (simp only: unat_eq_zero not_False_eq_True)
    then have "kbd_ok ?s" using kbd_ok_count [OF Cons.prems(1) lt, of "k_down s ! v + 1"] by (simp only: if_True not_False_eq_True)
    moreover have "\<forall>u<8. unat (k_down ?s ! u) + length (modifier_keys map0 ks) < 256"
      using bound inc lt len by (auto simp: nth_list_update less_SucI)
    ultimately obtain s' where s': "compute_shift_loop ks map0 ?s = Some s'" "kbd_ok s'" "key_down s' = key_down s"
      "\<forall>u. bit (shift_state s') u \<longleftrightarrow> bit (shift_state ?s) u \<or> (\<exists>k\<in>set ks. test_bit k (key_down s) \<and> key_modifier map0 k = Some u)"
      using Cons.IH [of ?s] Cons.prems(2,3) by auto
    then show ?thesis using True v lt len Cons.prems(3)
      by (auto simp: shift_of_key_eq bit_simps)
  qed
qed simp


lemma modifier_keys_all:
  assumes "key_modifier map0 0 = None"
  shows "length (modifier_keys map0 [0..<256]) < 256"
proof -
  have "modifier_keys map0 [0..<256] = modifier_keys map0 [1..<256]"
    using assms upt_conv_Cons [of 0 256] by (simp add: modifier_keys_def)
  also have "length \<dots> \<le> 255" unfolding modifier_keys_def by (rule order_trans [OF length_filter_le]) simp
  finally show ?thesis by simp
qed

section \<open>Handlers\<close>

lemma do_cur_ok: "kbd_ok s \<Longrightarrow> v < 5 \<Longrightarrow> \<exists>s'. do_cur v up s = Some s' \<and> kbd_ok s'"
  by (simp add: do_cur_def cur_chars_def word_less_nat_alt)

lemma console_loops: "decr_console_loop (- 1) = Some 0" "incr_console_loop 1 = Some 0"
proof -
  have "decr_console_loop i = Some 0" if "0 \<le> i" "i < 63" for i
    using that
  proof (induction "nat i" arbitrary: i)
    case (Suc n)
    then show ?case by (subst decr_console_loop.simps) (auto simp: Let_def MAX_NR_CONSOLES_def vc_cons_allocated_def keyboard_vc_cons_allocated_def)
  qed (simp add: decr_console_loop.simps)
  from this [of 61] show "decr_console_loop (- 1) = Some 0"
    by (subst decr_console_loop.simps) (simp add: Let_def MAX_NR_CONSOLES_def vc_cons_allocated_def keyboard_vc_cons_allocated_def)
  have "incr_console_loop i = Some 0" if "1 \<le> i" "i \<le> 63" for i
    using that
  proof (induction "nat (63 - i)" arbitrary: i)
    case 0
    then show ?case by (subst incr_console_loop.simps) (simp add: Let_def MAX_NR_CONSOLES_def vc_cons_allocated_def keyboard_vc_cons_allocated_def)
  next
    case (Suc n)
    then show ?case by (subst incr_console_loop.simps) (auto simp: Let_def MAX_NR_CONSOLES_def vc_cons_allocated_def keyboard_vc_cons_allocated_def)
  qed
  then show "incr_console_loop 1 = Some 0" by simp
qed

lemma unat8_lt [simp]: "unat (w :: u8) < 256" "\<not> 256 \<le> unat (w :: u8)"
  using unsigned_less [of w, where ?'a = nat] by simp_all

lemma unat_type: "unat (a - 0xf0 :: u8) = n \<Longrightarrow> a = 0xf0 + of_nat n"
  by (drule arg_cong [of _ _ "of_nat :: nat \<Rightarrow> u8"]) (simp add: algebra_simps)

lemma low_bits_lt:
  assumes "\<And>n. bit (w :: u32) n \<Longrightarrow> n < 8"
  shows "unat w < 256"
proof -
  have "take_bit 8 w = w" using assms by (intro bit_word_eqI) (auto simp: bit_simps)
  then have "unat w = take_bit 8 (unat w)" by (metis unsigned_take_bit_eq)
  then show ?thesis using take_bit_nat_less_exp [of 8 "unat w"] by simp
qed

lemma xor_one_lt: "n < 256 \<Longrightarrow> unat ((of_nat n :: u32) XOR push_bit KG_SHIFT 1) < 256"
proof (rule low_bits_lt)
  fix k
  assume "n < 256" "bit ((of_nat n :: u32) XOR push_bit KG_SHIFT 1) k"
  moreover from this have "take_bit 8 n = n" by (simp add: take_bit_nat_eq_self)
  moreover have "bit n k \<Longrightarrow> k < 8" using calculation(3) by (metis bit_take_bit_iff)
  ultimately show "k < 8" by (auto simp: bit_simps KG_SHIFT_def)
qed

lemma do_dead_ok: "kbd_ok s \<Longrightarrow> v < 6 \<Longrightarrow> \<exists>s'. do_dead km v up s = Some s' \<and> kbd_ok s'"
  by (simp add: do_dead_def ret_diacr_def word_less_nat_alt)

locale keyboard_tables =
  fixes km :: keymaps
  assumes tables: "keymaps_ok km"
begin

lemma table_lengths: "length (key_maps km) = 256" "length (func_table km) = 256"
  using tables by (simp_all add: keymaps_ok_def)

lemma map_ok: "i < 256 \<Longrightarrow> key_maps km ! i = Some m \<Longrightarrow> keymap_ok m"
  using tables by (auto simp: keymaps_ok_def list_all_length split: option.splits)

lemma do_fn_ok: "kbd_ok s \<Longrightarrow> \<exists>s'. do_fn km v up s = Some s' \<and> kbd_ok s'"
  by (simp add: do_fn_def table_lengths split: option.split)

lemma do_pad_ok: "kbd_ok s \<Longrightarrow> v < 21 \<Longrightarrow> \<exists>s'. do_pad km v up s = Some s' \<and> kbd_ok s'"
  using do_fn_ok [of s] do_cur_ok [of s]
  by (simp add: do_pad_def app_map_def pad_chars_def word_less_nat_alt Let_def)

lemma plain_map: obtains m where "key_maps km ! 0 = Some m" "keymap_ok m" "key_modifier m 0 = None"
proof -
  obtain m where m: "key_maps km ! 0 = Some m" "KTYP (m ! 0) \<noteq> 0xf7" "KTYP (m ! 0) \<noteq> 0xfc"
    using tables by (auto simp: keymaps_ok_def split: option.splits)
  then show thesis using that [of m] map_ok [of 0 m] by (simp add: key_modifier_def)
qed

text \<open>\<^verbatim>\<open>compute_shiftstate\<close> finds the modifiers of the keys that are down.\<close>

lemma compute_shiftstate_spec:
  assumes "kbd_ok s" "key_maps km ! 0 = Some m"
  shows "\<exists>s'. compute_shiftstate km s = Some s' \<and> kbd_ok s' \<and> key_down s' = key_down s \<and>
    (\<forall>v. bit (shift_state s') v \<longleftrightarrow> (\<exists>k<256. test_bit k (key_down s) \<and> key_modifier m k = Some v))"
proof -
  let ?s = "s\<lparr>shift_state := 0, k_down := map (\<lambda>_. 0) (k_down s)\<rparr>"
  have m: "keymap_ok m" "key_modifier m 0 = None" using plain_map assms(2) by auto
  have len: "length (k_down s) = 9" "length (key_down s) = 8" using assms(1) by (simp_all add: kbd_ok_def NR_SHIFT_def)
  have "kbd_ok ?s" using assms(1) len by (auto simp: kbd_ok_def)
  moreover have "\<forall>v<8. unat (k_down ?s ! v) + length (modifier_keys m [0..<256]) < 256"
    using modifier_keys_all [OF m(2)] len by simp
  ultimately show ?thesis
    using compute_shift_loop_ok [of ?s m "[0..<256]"] m(1) assms(2) len
    by (simp add: compute_shiftstate_def Let_def) (auto simp: atLeast0LessThan)
qed

lemma compute_shiftstate_ok: "kbd_ok s \<Longrightarrow> \<exists>s'. compute_shiftstate km s = Some s' \<and> kbd_ok s'"
  using plain_map compute_shiftstate_spec by metis

lemma do_spec_ok: "kbd_ok s \<Longrightarrow> \<exists>s'. do_spec km v up s = Some s' \<and> kbd_ok s'"
  using compute_shiftstate_ok [of s]
  by (simp add: do_spec_def spec_fn_def decr_console_def incr_console_def console_loops)

lemma do_slock_ok: "kbd_ok s \<Longrightarrow> v < 9 \<Longrightarrow> \<exists>s'. do_slock km v up s = Some s' \<and> kbd_ok s'"
proof -
  assume "kbd_ok s" "v < 9"
  then obtain s' where "do_shift v up s = Some s'" "kbd_ok s'" using do_shift_ok by blast
  then show ?thesis by (simp add: do_slock_def Let_def table_lengths)
qed

lemma key_handler_ok:
  assumes "kbd_ok s" "sym_ok x" "KTYP x \<ge> 0xf0"
  shows "\<exists>s'. key_handler km (unat (KTYP x - 0xf0)) (KVAL x) up s = Some s' \<and> kbd_ok s'"
proof -
  define n where "n = unat (KTYP x - 0xf0)"
  have "n < 16" using assms(3) by (simp add: n_def unat_sub word_le_nat_alt) (simp add: less_diff_conv2 word_le_nat_alt)
  have tx: "KTYP x = 0xf0 + of_nat n" using unat_type n_def by blast
  have "n = 3 \<Longrightarrow> KVAL x < 21" "n = 4 \<Longrightarrow> KVAL x < 6" "n = 6 \<Longrightarrow> KVAL x < 5" "n = 7 \<Longrightarrow> KVAL x < 9" "n = 12 \<Longrightarrow> KVAL x < 9"
    using assms(2) tx by (simp_all add: sym_ok_def)
  then show ?thesis
    using \<open>n < 16\<close> do_fn_ok [OF assms(1)] do_spec_ok [OF assms(1)] do_pad_ok [OF assms(1)] do_cur_ok [OF assms(1)]
      do_shift_ok [OF assms(1)] do_slock_ok [OF assms(1)] do_dead_ok [OF assms(1)] assms(1)
    unfolding n_def [symmetric]
    by (simp add: key_handler_def)
qed

lemma letter_key_ok:
  assumes "shift_final < 256"
  shows "\<exists>v. letter_key km shift_final kc s t x = Some (if t = KT_LETTER then (KT_LATIN, v) else (t, x))"
proof -
  define i where "i = unat ((of_nat shift_final :: u32) XOR push_bit KG_SHIFT 1)"
  have i: "i < 256" unfolding i_def by (rule xor_one_lt [OF assms])
  show ?thesis using i map_ok [OF i]
    unfolding letter_key_def i_def [symmetric] Let_def
    by (cases "key_maps km ! i") (auto simp: table_lengths keymap_ok_def)
qed

lemma handle_keysym_ok:
  assumes ok: "kbd_ok s" and m: "keymap_ok m" and sf: "shift_final < 256"
  shows "\<exists>s'. handle_keysym km raw up shift_final m kc s = Some s' \<and> kbd_ok s'"
proof -
  define x where "x = m ! unat kc"
  have len: "length m = 256" and sym: "sym_ok x" using m by (simp_all add: keymap_ok_def x_def list_all_length)
  obtain v where v: "letter_key km shift_final kc s (KTYP x - 0xf0) x =
      Some (if KTYP x - 0xf0 = KT_LETTER then (KT_LATIN, v) else (KTYP x - 0xf0, x))"
    using letter_key_ok [OF sf] by blast
  have latin: "key_handler km 0 u up s = Some (do_self km u up s)" for u by (simp add: key_handler_def)
  show ?thesis
  proof (cases "KTYP x \<ge> 0xf0")
    case False
    then show ?thesis using ok len by (simp add: handle_keysym_def Let_def x_def [symmetric])
  next
    case True
    obtain s' where s': "key_handler km (unat (KTYP x - 0xf0)) (KVAL x) up s = Some s'" "kbd_ok s'"
      using key_handler_ok [OF ok sym True] by blast
    define t where "t = KTYP x - 0xf0"
    have eq: "handle_keysym km raw up shift_final m kc s =
        (if raw \<and> t \<noteq> KT_SPEC \<and> t \<noteq> KT_SHIFT then Some s
         else do {
           (t, y) \<leftarrow> letter_key km shift_final kc s t x;
           s \<leftarrow> key_handler km (unat t) (KVAL y) up s;
           Some (if t \<noteq> KT_SLOCK then upd_kbd (\<lambda>k. k\<lparr>slockstate := 0\<rparr>) s else s) })"
      using True len unfolding handle_keysym_def x_def [symmetric] Let_def t_def by simp
    note s' = s' [folded t_def] and v = v [folded t_def]
    show ?thesis
    proof (cases "t = KT_LETTER")
      case True
      then have "letter_key km shift_final kc s t x = Some (0, v)" using v by (simp add: KT_LATIN_def)
      then show ?thesis unfolding eq using ok by (simp add: latin)
    next
      case False
      then have "letter_key km shift_final kc s t x = Some (t, x)" using v by simp
      then show ?thesis unfolding eq using ok s' by simp
    qed
  qed
qed

lemma shift_final_lt: "kbd_ok s \<Longrightarrow> unat ((shift_state s OR ucast (a :: u8)) XOR ucast (b :: u8)) < 256"
proof (rule low_bits_lt)
  fix n
  assume "kbd_ok s" and n: "bit ((shift_state s OR ucast a) XOR ucast b) n"
  then have shift: "bit (shift_state s) n \<Longrightarrow> n < 8" by (simp add: kbd_ok_def)
  have byte: "bit c n \<Longrightarrow> n < 8" for c :: u8 using bit_imp_le_length [of c n] by simp
  from n have "bit (shift_state s) n \<or> bit a n \<or> bit b n"
    by (auto simp: bit_or_iff bit_xor_iff bit_unsigned_iff)
  with shift byte show "n < 8" by blast
qed

lemma translate_ok: "kbd_ok (snd (keyboard_pckbd_translate sc s)) = kbd_ok s"
  by (simp add: keyboard_pckbd_translate_def Let_def)

lemma track_key_ok: "kbd_ok s \<Longrightarrow> kbd_ok (snd (track_key k up s))"
  by (simp add: track_key_def test_and_set_bit_def test_and_clear_bit_def) (simp add: kbd_ok_def)

lemma handle_keycode_ok:
  assumes "kbd_ok s"
  shows "\<exists>s'. handle_keycode km raw up k s = Some s' \<and> kbd_ok s'"
proof -
  obtain raw' s1 where s1: "(if kbdmode (fg_kbd s) = VC_MEDIUMRAW then
      (True, put_queue (k + (if up then 0x80 else 0)) s) else (raw, s)) = (raw', s1)"
    by fastforce
  then have ok: "kbd_ok s1" using assms by (auto split: if_splits)
  define sf where "sf = unat ((shift_state s1 OR ucast (slockstate (fg_kbd s1))) XOR ucast (lockstate (fg_kbd s1)))"
  have sf: "sf < 256" unfolding sf_def by (rule shift_final_lt [OF ok])
  show ?thesis
    using ok sf handle_keysym_ok [OF ok map_ok [OF sf] sf] compute_shiftstate_ok [OF ok]
    unfolding handle_keycode_def s1 prod.case Let_def sf_def [symmetric] table_lengths
    by (cases "key_maps km ! sf") auto
qed

lemma handle_scancode_ok:
  assumes ok: "kbd_ok s"
  shows "\<exists>s'. handle_scancode km sc down s = Some s' \<and> kbd_ok s'"
proof -
  define s0 where "s0 = (if kbdmode (fg_kbd (s\<lparr>tty := True\<rparr>)) = VC_RAW
      then put_queue (if \<not> down then sc OR 0x80 else sc) (s\<lparr>tty := True\<rparr>) else s\<lparr>tty := True\<rparr>)"
  obtain kc s1 where tr: "keyboard_pckbd_translate sc s0 = (kc, s1)" by fastforce
  have "kbd_ok s0" using ok by (simp add: s0_def)
  then have s1: "kbd_ok s1" using translate_ok [of sc s0] tr by simp
  show ?thesis
  proof (cases kc)
    case None
    then show ?thesis using s1 unfolding handle_scancode_def Let_def s0_def [symmetric] tr by simp
  next
    case (Some k)
    obtain up s2 where s2: "track_key k (\<not> down) s1 = (up, s2)" by fastforce
    then have "kbd_ok s2" using track_key_ok [OF s1] by (metis snd_conv)
    then show ?thesis unfolding handle_scancode_def Let_def s0_def [symmetric] tr
      by (simp add: Some s2 handle_keycode_ok)
  qed
qed

lemma do_scancode_ok: "kbd_ok s \<Longrightarrow> \<exists>s'. do_scancode km m sc s = Some s' \<and> kbd_ok s'"
proof -
  assume ok: "kbd_ok s"
  define s0 where "s0 = (if \<not> glue_init s then kbd_init m (s\<lparr>glue_init := True\<rparr>) else s)"
  have "kbd_ok s0" using ok by (simp add: s0_def)
  with handle_scancode_ok [OF this, of "of_int sc" "\<not> bit sc 7"] show ?thesis
    by (auto simp: do_scancode_def Let_def s0_def [symmetric])
qed

lemma scan_bytes_ok: "kbd_ok s \<Longrightarrow> \<exists>s'. scan_bytes km m cs s = Some s' \<and> kbd_ok s'"
proof (induction cs arbitrary: s)
  case (Cons c cs)
  obtain s' where "scan_byte km m c s = Some s'" "kbd_ok s'"
    using do_scancode_ok [OF Cons.prems] by (auto simp: scan_byte_def)
  then show ?case using Cons.IH by simp
qed simp

end



section \<open>Typing a key\<close>

text \<open>The symbol of a key under the current modifiers: caps lock exchanges the two cases of a letter.\<close>

definition current_map :: "kbd \<Rightarrow> nat" where
  "current_map s = unat ((shift_state s OR ucast (slockstate (fg_kbd s))) XOR ucast (lockstate (fg_kbd s)))"

definition typed_symbol :: "keymaps \<Rightarrow> kbd \<Rightarrow> u16 list \<Rightarrow> nat \<Rightarrow> u16" where
  "typed_symbol km s m k =
     (if KTYP (m ! k) = 0xfb \<and> vc_kbd_led (fg_kbd s) VC_CAPSLOCK then
        (case key_maps km ! unat ((of_nat (current_map s) :: u32) XOR 1) of None \<Rightarrow> m ! k | Some m' \<Rightarrow> m' ! k)
      else m ! k)"

definition ready :: "kbd \<Rightarrow> bool" where
  "ready s \<longleftrightarrow> kbd_ok s \<and> glue_init s \<and> kbdmode (fg_kbd s) = VC_XLATE \<and> diacr s = 0 \<and> \<not> dead_key_next s \<and>
     slockstate (fg_kbd s) = 0 \<and> prev_scancode s = 0"

lemma bit_sint8: "bit (sint (c :: u8)) 7 \<longleftrightarrow> bit c 7"
  by (simp add: bit_sint_iff)

lemma sint_zero: "sint (c :: u8) = 0 \<longleftrightarrow> c = 0"
  by (metis signed_0 signed_word_eqI)

lemma sint_lt: "sint (c :: u8) \<noteq> 255"
  using sint_lt [of c] by simp

lemma scan_byte_eq:
  assumes "glue_init s" "c \<noteq> 0"
  shows "scan_byte km m c s = map_option (kbd_bh m) (handle_scancode km c (\<not> bit c 7) s)"
  using assms
  by (simp add: scan_byte_def do_scancode_def sint_zero sint_lt bit_sint8 Let_def map_option_case bind_eq_None_conv split: option.split)

lemma kbd_bh_fields [simp]:
  "sent (kbd_bh m s) = sent s" "key_down (kbd_bh m s) = key_down s" "k_down (kbd_bh m s) = k_down s"
  "shift_state (kbd_bh m s) = shift_state s" "kbd_table (kbd_bh m s) = kbd_table s" "rep (kbd_bh m s) = rep s"
  "tty (kbd_bh m s) = tty s" "glue_init (kbd_bh m s) = glue_init s" "diacr (kbd_bh m s) = diacr s"
  "dead_key_next (kbd_bh m s) = dead_key_next s" "prev_scancode (kbd_bh m s) = prev_scancode s"
  "ledptrs (kbd_bh m s) = ledptrs s" "high_keys (kbd_bh m s) = high_keys s" "e0_keys (kbd_bh m s) = e0_keys s"
  by (simp_all add: kbd_bh_def keyboard_pckbd_leds_def Let_def)

lemma clear_slock: "kbd_ok s \<Longrightarrow> slockstate (fg_kbd s) = 0 \<Longrightarrow> upd_kbd (\<lambda>k. k\<lparr>slockstate := 0\<rparr>) s = s"
proof -
  assume "slockstate (fg_kbd s) = 0"
  then have "(fg_kbd s)\<lparr>slockstate := 0\<rparr> = fg_kbd s" by (cases "fg_kbd s") simp
  then show ?thesis by (simp add: upd_kbd_def fg_kbd_def)
qed

lemma fg_put [simp]: "fg_kbd (put_queue c s) = fg_kbd s"
  by (simp add: put_queue_alt fg_kbd_def)

lemma handle_latin:
  assumes tabs: "keymaps_ok km" and r: "ready s" and "\<not> rep s"
    and m: "key_maps km ! current_map s = Some m" "KTYP (m ! unat k) \<in> {0xf0, 0xfb}"
  shows "handle_keycode km False up k s = Some (if up then s else put_queue (KVAL (typed_symbol km s m (unat k))) s)"
proof -
  have tables: "keyboard_tables km" by unfold_locales (rule tabs)
  have ok: "kbd_ok s" using r by (simp add: ready_def)
  have sf: "current_map s < 256" unfolding current_map_def by (rule keyboard_tables.shift_final_lt [OF tables ok])
  have len: "length m = 256" "length (key_maps km) = 256"
    using keyboard_tables.map_ok [OF tables sf m(1)] tabs by (simp_all add: keymap_ok_def keymaps_ok_def)
  have letter: "letter_key km (current_map s) k s (KTYP (m ! unat k) - 0xf0) (m ! unat k) = Some (KT_LATIN, typed_symbol km s m (unat k))"
  proof -
    define i where "i = unat ((of_nat (current_map s) :: u32) XOR 1)"
    have "i < 256" using xor_one_lt [OF sf] by (simp add: i_def KG_SHIFT_def)
    moreover from this have "key_maps km ! i = Some m' \<Longrightarrow> length m' = 256" for m'
      using keyboard_tables.map_ok [OF tables, of i m'] by (simp add: keymap_ok_def)
    moreover have other: "unat ((of_nat (current_map s) :: u32) XOR push_bit KG_SHIFT 1) = i" by (simp add: i_def KG_SHIFT_def)
    ultimately show ?thesis using m(2) len
      unfolding letter_key_def typed_symbol_def other i_def [symmetric] Let_def
      by (auto simp: KT_LETTER_def KT_LATIN_def split: option.split)
  qed
  have "handle_keysym km False up (current_map s) m k s = Some (if up then s else put_queue (KVAL (typed_symbol km s m (unat k))) s)"
    using m(2) len letter r clear_slock
    by (auto simp: handle_keysym_def Let_def key_handler_def KT_LATIN_def KT_SLOCK_def do_self_def ready_def)
  moreover have "kbdmode (fg_kbd s) \<noteq> VC_MEDIUMRAW" using r by (simp add: ready_def VC_XLATE_def VC_MEDIUMRAW_def)
  ultimately show ?thesis using assms(3) sf len m(1)
    unfolding handle_keycode_def by (simp add: Let_def flip: current_map_def)
qed


lemma seven_bits:
  assumes "unat (k :: u8) < 89"
  shows "k AND 0x7f = k" "(k OR 0x80) AND 0x7f = k" "bit (k OR 0x80) 7" "\<not> bit k 7"
proof -
  have mask: "(0x7f :: u8) = mask 7" "(0x80 :: u8) = push_bit 7 1" by (simp_all add: mask_eq_exp_minus_1)
  have tb: "take_bit 7 k = k" using assms by (simp add: word_unat_eq_iff unsigned_take_bit_eq take_bit_nat_eq_self)
  then have low: "bit k n \<Longrightarrow> n < 7" for n by (metis bit_take_bit_iff)
  show "k AND 0x7f = k" unfolding mask using tb by (simp add: take_bit_eq_mask)
  show "(k OR 0x80) AND 0x7f = k" unfolding mask
    by (rule bit_word_eqI) (simp only: bit_and_iff bit_or_iff bit_push_bit_iff bit_mask_iff bit_1_iff, auto dest: low)
  show "bit (k OR 0x80) 7" by (simp add: bit_or_iff)
  show "\<not> bit k 7" using low by blast
qed

lemma translate_make: "prev_scancode s = 0 \<Longrightarrow> 0 < unat k \<Longrightarrow> unat k < 89 \<Longrightarrow> keyboard_pckbd_translate k s = (Some k, s)"
  using seven_bits(1) [of k] by (auto simp: keyboard_pckbd_translate_def SC_LIM_def)

lemma translate_break: "prev_scancode s = 0 \<Longrightarrow> 0 < unat k \<Longrightarrow> unat k < 89 \<Longrightarrow> keyboard_pckbd_translate (k OR 0x80) s = (Some k, s)"
proof -
  assume k: "prev_scancode s = 0" "0 < unat k" "unat k < 89"
  have "k OR 0x80 \<noteq> c" if "unat (c AND 0x7f) = 0 \<or> unat (c AND 0x7f) \<ge> 89" for c
    using that k seven_bits(2) [of k] by auto
  from this [of "0xe0"] this [of "0xe1"] this [of 0] this [of "0xff"] show ?thesis
    using k seven_bits(2) [of k] by (simp add: keyboard_pckbd_translate_def SC_LIM_def)
qed

lemma handle_make:
  assumes "keymaps_ok km" "ready s" "0 < unat k" "unat k < 89" "\<not> test_bit (unat k) (key_down s)"
    and "key_maps km ! current_map s = Some m" "KTYP (m ! unat k) \<in> {0xf0, 0xfb}"
  shows "handle_scancode km k True s =
    Some (put_queue (KVAL (typed_symbol km s m (unat k))) (s\<lparr>tty := True, rep := False, key_down := snd (test_and_set_bit (unat k) (key_down s))\<rparr>))"
proof -
  let ?s = "s\<lparr>tty := True, rep := False, key_down := snd (test_and_set_bit (unat k) (key_down s))\<rparr>"
  have r: "ready ?s" using assms(2) by (simp add: ready_def kbd_ok_def fg_kbd_def test_and_set_bit_def)
  have same: "current_map ?s = current_map s" "typed_symbol km ?s = typed_symbol km s"
    by (simp_all add: current_map_def typed_symbol_def fg_kbd_def fun_eq_iff)
  have "handle_keycode km False False k ?s = Some (put_queue (KVAL (typed_symbol km s m (unat k))) ?s)"
    using handle_latin [OF assms(1) r, of m k False] assms(6,7) same by simp
  moreover have "kbdmode (fg_kbd (s\<lparr>tty := True\<rparr>)) = VC_XLATE" using assms(2) by (simp add: ready_def fg_kbd_def)
  moreover have "keyboard_pckbd_translate k (s\<lparr>tty := True\<rparr>) = (Some k, s\<lparr>tty := True\<rparr>)"
    using assms(2-4) by (intro translate_make) (simp_all add: ready_def)
  ultimately show ?thesis using assms(5)
    by (simp add: handle_scancode_def track_key_def test_and_set_bit_def VC_XLATE_def VC_RAW_def)
qed


lemma handle_break:
  assumes "keymaps_ok km" "ready s" "0 < unat k" "unat k < 89" "test_bit (unat k) (key_down s)"
    and "key_maps km ! current_map s = Some m" "KTYP (m ! unat k) \<in> {0xf0, 0xfb}"
  shows "handle_scancode km (k OR 0x80) False s =
    Some (s\<lparr>tty := True, rep := False, key_down := snd (test_and_clear_bit (unat k) (key_down s))\<rparr>)"
proof -
  let ?s = "s\<lparr>tty := True, rep := False, key_down := snd (test_and_clear_bit (unat k) (key_down s))\<rparr>"
  have r: "ready ?s" using assms(2) by (simp add: ready_def kbd_ok_def fg_kbd_def test_and_clear_bit_def)
  have same: "current_map ?s = current_map s" by (simp add: current_map_def fg_kbd_def)
  have "handle_keycode km False True k ?s = Some ?s"
    using handle_latin [OF assms(1) r, of m k True] assms(6,7) same by simp
  moreover have "kbdmode (fg_kbd (s\<lparr>tty := True\<rparr>)) = VC_XLATE" using assms(2) by (simp add: ready_def fg_kbd_def)
  moreover have "keyboard_pckbd_translate (k OR 0x80) (s\<lparr>tty := True\<rparr>) = (Some k, s\<lparr>tty := True\<rparr>)"
    using assms(2-4) by (intro translate_break) (simp_all add: ready_def)
  ultimately show ?thesis using assms(5)
    by (simp add: handle_scancode_def track_key_def test_and_clear_bit_def VC_XLATE_def VC_RAW_def)
qed

lemma set_clear_bit:
  assumes "nr div 32 < length ws" "\<not> test_bit nr ws"
  shows "test_bit nr (snd (test_and_set_bit nr ws))" "snd (test_and_clear_bit nr (snd (test_and_set_bit nr ws))) = ws"
proof -
  let ?w = "ws ! (nr div 32)" and ?b = "push_bit (nr mod 32) 1 :: u32"
  have unset: "\<not> bit ?w (nr mod 32)" using assms(2) by (simp add: test_bit_def)
  show "test_bit nr (snd (test_and_set_bit nr ws))" using assms(1) by (simp add: test_and_set_bit_def test_bit_def bit_simps)
  have "(?w OR ?b) AND NOT ?b = ?w" using unset by (intro bit_word_eqI) (auto simp: bit_simps)
  then show "snd (test_and_clear_bit nr (snd (test_and_set_bit nr ws))) = ws"
    using assms(1) by (simp add: test_and_clear_bit_def test_and_set_bit_def)
qed


section \<open>Encodings\<close>

text \<open>UTF-8 of one, two and three bytes, read back.\<close>

fun utf8_decode :: "u8 list \<Rightarrow> u16 option" where
  "utf8_decode [a] = (if a < 0x80 then Some (ucast a) else None)"
| "utf8_decode [a, b] =
     (if a AND 0xe0 = 0xc0 \<and> b AND 0xc0 = 0x80 then Some (push_bit 6 (ucast (a AND 0x1f)) OR ucast (b AND 0x3f)) else None)"
| "utf8_decode [a, b, c] =
     (if a AND 0xf0 = 0xe0 \<and> b AND 0xc0 = 0x80 \<and> c AND 0xc0 = 0x80
      then Some (push_bit 12 (ucast (a AND 0x0f)) OR push_bit 6 (ucast (b AND 0x3f)) OR ucast (c AND 0x3f)) else None)"
| "utf8_decode _ = None"

lemma utf8_masks:
  "(0x3f :: u16) = mask 6" "(0x3f :: u8) = mask 6" "(0x1f :: u8) = mask 5" "(0x0f :: u8) = mask 4"
  "(0xc0 :: u8) = push_bit 6 (mask 2)" "(0xc0 :: u16) = push_bit 6 (mask 2)" "(0xe0 :: u8) = push_bit 5 (mask 3)"
  "(0xe0 :: u16) = push_bit 5 (mask 3)" "(0xf0 :: u8) = push_bit 4 (mask 4)"
  by (simp_all add: mask_eq_decr_exp push_bit_eq_mult)

lemma bit_0x80: "bit (0x80 :: u8) n \<longleftrightarrow> n = 7" "bit (0x80 :: u16) n \<longleftrightarrow> n = 7" "bit (0x80 :: int) n \<longleftrightarrow> n = 7" "bit (0x80 :: nat) n \<longleftrightarrow> n = 7"
  using bit_exp_iff [where 'a = int, of 7 n] bit_exp_iff [where 'a = nat, of 7 n] bit_exp_iff [where 'a = u8, of 7 n] bit_exp_iff [where 'a = u16, of 7 n] by auto

lemma high_bits:
  fixes c :: u16
  assumes "bit c n" "unat c < 2 ^ k" shows "n < k"
proof -
  have "take_bit k (unat c) = unat c" using assms(2) by (simp add: take_bit_nat_eq_self)
  moreover have "bit (unat c) n" using assms(1) by (simp add: bit_unsigned_iff bit_imp_le_length)
  ultimately show ?thesis using bit_take_bit_iff [of k "unat c" n] by simp
qed

lemma utf8_follow: "(ucast (0x80 OR (c AND 0x3f)) :: u8) AND 0xc0 = 0x80" for c :: u16
  unfolding utf8_masks by (intro bit_word_eqI) (auto simp: bit_simps bit_0x80)

lemma utf8_two:
  fixes c :: u16
  assumes "unat c < 2 ^ 11"
  shows "(ucast (0xc0 OR drop_bit 6 c) :: u8) AND 0xe0 = 0xc0"
    and "push_bit 6 (ucast ((ucast (0xc0 OR drop_bit 6 c) :: u8) AND 0x1f)) OR ucast ((ucast (0x80 OR (c AND 0x3f)) :: u8) AND 0x3f) = c"
  unfolding utf8_masks
  by (intro bit_word_eqI; auto simp: bit_simps bit_0x80 dest: high_bits [OF _ assms])+

lemma utf8_three:
  fixes c :: u16
  shows "(ucast (0xe0 OR drop_bit 12 c) :: u8) AND 0xf0 = 0xe0"
    and "push_bit 12 (ucast ((ucast (0xe0 OR drop_bit 12 c) :: u8) AND 0x0f)) OR
      push_bit 6 (ucast ((ucast (0x80 OR (drop_bit 6 c AND 0x3f)) :: u8) AND 0x3f)) OR
      ucast ((ucast (0x80 OR (c AND 0x3f)) :: u8) AND 0x3f) = c"
proof -
  show "(ucast (0xe0 OR drop_bit 12 c) :: u8) AND 0xf0 = 0xe0" unfolding utf8_masks
    by (intro bit_word_eqI) (auto simp: bit_simps dest: bit_imp_le_length)
  have "n < 6 \<or> 6 \<le> n \<and> n < 12 \<or> 12 \<le> n \<and> \<not> n < 12" for n :: nat by linarith
  then show "push_bit 12 (ucast ((ucast (0xe0 OR drop_bit 12 c) :: u8) AND 0x0f)) OR
      push_bit 6 (ucast ((ucast (0x80 OR (drop_bit 6 c AND 0x3f)) :: u8) AND 0x3f)) OR
      ucast ((ucast (0x80 OR (c AND 0x3f)) :: u8) AND 0x3f) = c" unfolding utf8_masks
    by (intro bit_word_eqI) (elim meta_allE disjE; auto simp: bit_simps bit_0x80 dest: bit_imp_le_length)
qed

lemma utf8_nonzero: "(ucast (0x80 OR (d AND 0x3f)) :: u8) \<noteq> 0" "(ucast (0xc0 OR d) :: u8) \<noteq> 0" "(ucast (0xe0 OR d) :: u8) \<noteq> 0" for d :: u16
proof -
  have "bit (ucast (0x80 OR (d AND 0x3f)) :: u8) 7" "bit (ucast (0xc0 OR d) :: u8) 7" "bit (ucast (0xe0 OR d) :: u8) 7" by (simp_all add: bit_simps)
  then show "(ucast (0x80 OR (d AND 0x3f)) :: u8) \<noteq> 0" "(ucast (0xc0 OR d) :: u8) \<noteq> 0" "(ucast (0xe0 OR d) :: u8) \<noteq> 0" by auto
qed

lemma utf8_one:
  fixes c :: u16
  assumes "c < 0x80"
  shows "(ucast c :: u8) < 0x80" "ucast (ucast c :: u8) = c" 
proof -
  have "unat c < 128" using assms by (simp add: word_less_nat_alt)
  then have u: "unat (ucast c :: u8) = unat c" by (simp add: unsigned_ucast_eq take_bit_nat_eq_self)
  then show "(ucast c :: u8) < 0x80" using \<open>unat c < 128\<close> by (simp add: word_less_nat_alt)
  show "ucast (ucast c :: u8) = c" 
    using \<open>unat c < 128\<close> by (intro bit_word_eqI) (auto simp: bit_simps dest: high_bits [where k = 7])
qed

lemma to_utf8_roundtrip:
  assumes "tty s" "c \<noteq> 0"
  shows "\<exists>cs. sent (to_utf8 c s) = sent s @ map (\<lambda>b. [b]) cs \<and> utf8_decode cs = Some c"
proof -
  consider "c < 0x80" | "\<not> c < 0x80" "c < 0x800" | "\<not> c < 0x80" "\<not> c < 0x800" by auto
  then show ?thesis
  proof cases
    case 1
    then have "(ucast c :: u8) \<noteq> 0" using utf8_one(2) [OF 1] assms(2) by auto
    then show ?thesis using 1 assms(1) utf8_one [OF 1] by (intro exI [of _ "[ucast c]"]) (simp add: to_utf8_def put_queue_alt)
  next
    case 2
    then have "unat c < 2 ^ 11" by (simp add: word_less_nat_alt)
    note two = utf8_two [OF this] utf8_follow [of c]
    show ?thesis using 2 assms(1) two utf8_nonzero
      by (intro exI [of _ "[ucast (0xc0 OR drop_bit 6 c), ucast (0x80 OR (c AND 0x3f))]"]) (simp add: to_utf8_def put_queue_alt)
  next
    case 3
    then show ?thesis using assms(1) utf8_three [of c] utf8_follow [of c] utf8_follow [of "drop_bit 6 c"] utf8_nonzero
      by (intro exI [of _ "[ucast (0xe0 OR drop_bit 12 c), ucast (0x80 OR (drop_bit 6 c AND 0x3f)), ucast (0x80 OR (c AND 0x3f))]"])
        (simp add: to_utf8_def put_queue_alt)
  qed
qed
text \<open>The key code set for a scan code is the one read back.\<close>

lemma keycode_roundtrip:
  assumes ok: "kbd_ok s" and sc: "89 \<le> unat scancode" "scancode \<le> 255" and kc: "keycode \<le> 127"
  shows "fst (keyboard_pckbd_setkeycode scancode keycode s) = 0"
    and "keyboard_pckbd_getkeycode scancode (snd (keyboard_pckbd_setkeycode scancode keycode s)) = uint keycode"
proof -
  have len: "length (high_keys s) = 39" "length (e0_keys s) = 128" using ok by (simp_all add: kbd_ok_def)
  have "unat keycode < 256" using kc by (simp add: word_le_nat_alt)
  then have byte: "uint (ucast keycode :: u8) = uint keycode"
    unfolding uint_nat unsigned_ucast_eq by (simp add: take_bit_nat_eq_self)
  have sc': "\<not> unat scancode < SC_LIM" "\<not> scancode > 255" "\<not> keycode > 127" using sc kc by (simp_all add: SC_LIM_def not_less)
  have lt: "unat scancode < 256" using sc(2) by (simp add: word_le_nat_alt)
  show "fst (keyboard_pckbd_setkeycode scancode keycode s) = 0"
    unfolding keyboard_pckbd_setkeycode_def using sc' by auto
  show "keyboard_pckbd_getkeycode scancode (snd (keyboard_pckbd_setkeycode scancode keycode s)) = uint keycode"
  proof (cases "scancode < 128")
    case True
    then have "unat scancode < 128" by (simp add: word_less_nat_alt)
    then have "unat scancode - SC_LIM < length (high_keys s)" using sc(1) len by (simp add: SC_LIM_def)
    then show ?thesis using True sc' byte by (simp add: keyboard_pckbd_setkeycode_def keyboard_pckbd_getkeycode_def nth_list_update_eq)
  next
    case False
    then have "unat scancode - 128 < length (e0_keys s)" using lt len by (simp add: word_less_nat_alt not_less)
    then show ?thesis using False sc' byte by (simp add: keyboard_pckbd_setkeycode_def keyboard_pckbd_getkeycode_def nth_list_update_eq)
  qed
qed

section \<open>Properties\<close>


text \<open>
  C17: When the decoder waits for a key, pressing and releasing a key that has a character under the current modifiers sends
  exactly this character (the one of the other case for a letter when caps lock is on; the character 0 gets lost) and
  changes neither the modifiers, the keys that are down nor the settings of the console.
\<close>

theorem kbd_types_key:
  assumes "keymaps_ok km" "ready s" "0 < unat k" "unat k < 89" "\<not> test_bit (unat k) (key_down s)"
    and "key_maps km ! current_map s = Some keymap" "KTYP (keymap ! unat k) \<in> {0xf0, 0xfb}"
  defines "c \<equiv> KVAL (typed_symbol km s keymap (unat k))"
  shows "\<exists>s'. scan_bytes km m [k, k OR 0x80] s = Some s' \<and> sent s' = sent s @ [if c = 0 then [] else [c]] \<and> ready s' \<and>
    key_down s' = key_down s \<and> k_down s' = k_down s \<and> shift_state s' = shift_state s \<and> kbd_table s' = kbd_table s"
proof -
  define s1 where "s1 = kbd_bh m (put_queue c (s\<lparr>tty := True, rep := False, key_down := snd (test_and_set_bit (unat k) (key_down s))\<rparr>))"
  have ok: "kbd_ok s" and init: "glue_init s" using assms(2) by (simp_all add: ready_def)
  have nz: "k \<noteq> 0" "k OR 0x80 \<noteq> 0" using assms(3) seven_bits(3) [OF assms(4)] by auto
  have div: "unat k div 32 < length (key_down s)" using assms(4) ok by (simp add: kbd_ok_def)
  have "scan_byte km m k s = Some s1"
    using handle_make [OF assms(1-7)] seven_bits(4) [OF assms(4)] nz(1) init by (simp add: scan_byte_eq s1_def c_def)
  moreover have r1: "ready s1" using assms(2) by (simp add: s1_def ready_def put_queue_alt fg_kbd_def kbd_ok_def test_and_set_bit_def)
  moreover have same: "current_map s1 = current_map s" by (simp add: s1_def current_map_def put_queue_alt fg_kbd_def)
  moreover have down: "key_down s1 = snd (test_and_set_bit (unat k) (key_down s))" by (simp add: s1_def put_queue_alt)
  ultimately have "scan_bytes km m [k, k OR 0x80] s =
      Some (kbd_bh m (s1\<lparr>tty := True, rep := False, key_down := snd (test_and_clear_bit (unat k) (key_down s1))\<rparr>))"
    using handle_break [OF assms(1) r1 assms(3,4)] assms(6,7) set_clear_bit(1) [OF div assms(5)] nz(2) seven_bits(3) [OF assms(4)]
    by (simp add: scan_byte_eq ready_def)
  moreover have "sent s1 = sent s @ [if c = 0 then [] else [c]]" by (simp add: s1_def put_queue_alt)
  moreover have "k_down s1 = k_down s" "shift_state s1 = shift_state s" "kbd_table s1 = kbd_table s" by (simp_all add: s1_def put_queue_alt)
  moreover have "key_down s = snd (test_and_clear_bit (unat k) (key_down s1))" unfolding down using set_clear_bit(2) [OF div assms(5)] by simp
  moreover have "length (snd (test_and_clear_bit (unat k) (key_down s1))) = 8" using r1
    by (simp add: test_and_clear_bit_def ready_def kbd_ok_def)
  ultimately show ?thesis using r1 by (simp add: ready_def kbd_ok_def fg_kbd_def)
qed


definition demo_kbd :: kbd where
  "demo_kbd = kbd_init (\<lambda>_. 0) (boot_kbd\<lparr>glue_init := True\<rparr>)"

lemma demo_kbd_fields: "key_down demo_kbd = replicate 8 0" "kbd_table demo_kbd = replicate 63 kbd0" "shift_state demo_kbd = 0" "ready demo_kbd"
proof -
  show 1: "key_down demo_kbd = replicate 8 0" "kbd_table demo_kbd = replicate 63 kbd0" "shift_state demo_kbd = 0"
    by (simp_all add: demo_kbd_def kbd_init_def keyboard_schedule_tasklet_def boot_kbd_def MAX_NR_CONSOLES_def)
  have "kbd_ok demo_kbd" using boot_kbd_ok by (simp add: demo_kbd_def)
  moreover have "glue_init demo_kbd" "diacr demo_kbd = 0" "\<not> dead_key_next demo_kbd" "prev_scancode demo_kbd = 0"
    by (simp_all add: demo_kbd_def kbd_init_def keyboard_schedule_tasklet_def boot_kbd_def)
  ultimately show "ready demo_kbd" using 1 by (simp add: ready_def fg_kbd_def kbd0_def)
qed

lemma demo_key:
  "KTYP (plain_map ! 16) = 0xfb" "KVAL (plain_map ! 16) = 97" "key_maps def_keymaps ! current_map demo_kbd = Some plain_map"
  "\<not> test_bit 16 (key_down demo_kbd)" "\<not> vc_kbd_led (fg_kbd demo_kbd) VC_CAPSLOCK"
proof -
  show "KTYP (plain_map ! 16) = 0xfb" "KVAL (plain_map ! 16) = 97" by (simp_all add: plain_map_def KTYP_def KVAL_def)
  have "current_map demo_kbd = 0" by (simp add: current_map_def demo_kbd_fields fg_kbd_def kbd0_def)
  then show "key_maps def_keymaps ! current_map demo_kbd = Some plain_map" by (simp add: def_keymaps_def def_key_maps_def)
  show "\<not> test_bit 16 (key_down demo_kbd)" by (simp add: demo_kbd_fields test_bit_def)
  show "\<not> vc_kbd_led (fg_kbd demo_kbd) VC_CAPSLOCK" by (simp add: vc_kbd_led_def fg_kbd_def demo_kbd_fields kbd0_def)
qed

text \<open>The key with the scan code 16 is an a on a French keyboard.\<close>

theorem kbd_types_key_witness:
  "\<exists>s'. scan_bytes def_keymaps (\<lambda>_. 0) [16, 16 OR 0x80] demo_kbd = Some s' \<and> sent s' = sent demo_kbd @ [[97]]"
proof -
  show ?thesis
    using kbd_types_key [OF def_keymaps_ok demo_kbd_fields(4), of 16 plain_map "\<lambda>_. 0"] demo_key by (auto simp: typed_symbol_def)
qed

end
