(* ===== verification/Keyboard.thy ===== *)
theory Keyboard
  imports Kernel_Funs Console_Props Kbd_Props
begin

text \<open>
  \<^verbatim>\<open>kernel/driver/keyboard.c\<close>: the echo of typed characters with its piano mode, the queue of characters between the
  keyboard interrupt and the processes, and reading a line.

  Calls of the kernel can switch to another process in the middle of these functions. The loop of
  \<^verbatim>\<open>keyboard_data\<close> therefore stops with the characters that are left when sending one has switched; they are sent when the interrupted
  process runs again. \<^verbatim>\<open>cons_readline\<close> consumes the list of the values that \<^verbatim>\<open>msg\<close> has after each of its calls of
  \<^verbatim>\<open>preceive\<close>, and gives the calls that it makes at the end. As in the model of the console, a beep character makes the process sleep
  until a tick.
\<close>

section \<open>State\<close>

record kdriver =
  keyboard_buffer :: int
  echo_on :: bool
  piano :: bool

definition BUFFER_SIZE :: nat where
  "BUFFER_SIZE = CONSOLE_COL * CONSOLE_LIG"

definition init_kdriver :: kdriver where
  "init_kdriver = \<lparr>keyboard_buffer = 0, echo_on = True, piano = False\<rparr>"

text \<open>\<open>ok\<close> says whether the allocation of the queue succeeds.\<close>

definition init_keyboard_buffer :: "bool \<Rightarrow> kdriver \<Rightarrow> kstate \<Rightarrow> kdriver \<times> kstate" where
  "init_keyboard_buffer ok k s = (case pcreate ok (int BUFFER_SIZE) s of (f, s) \<Rightarrow> (k\<lparr>keyboard_buffer := f\<rparr>, s))"

definition cons_echo :: "int \<Rightarrow> kdriver \<Rightarrow> kdriver" where
  "cons_echo on k = k\<lparr>echo_on := (on \<noteq> 0)\<rparr>"

definition cons_write :: "u32 \<Rightarrow> u32 \<Rightarrow> int \<Rightarrow> dstate \<Rightarrow> (u32 \<times> u8 list) option \<times> dstate" where
  "cons_write clock str n d = console_putbytes clock (rd (pmem d) str (nat n)) d"

section \<open>Echo\<close>

text \<open>The note of a key in piano mode.\<close>

definition piano_note :: "int \<Rightarrow> int option" where
  "piano_note code = map_of [(113, 262), (122, 277), (115, 294), (101, 311), (100, 330), (102, 349), (116, 370), (103, 392),
     (121, 415), (104, 440), (117, 466), (106, 494), (107, 523)] code"

definition piano_key :: "u32 \<Rightarrow> u8 \<Rightarrow> kdriver \<Rightarrow> dstate \<Rightarrow> (kdriver \<times> dstate) option" where
  "piano_key clock c k d =
     (if sint c = 16 then Some (k\<lparr>piano := False\<rparr>, d)
      else case piano_note (sint c) of
        Some f \<Rightarrow> map_option (Pair k) (async_beep f tenth clock d)
      | None \<Rightarrow> Some (k, d))"

text \<open>\<^verbatim>\<open>printf\<close> hands blocks to the console; a beep among them leaves the rest of its block and the other blocks.\<close>

primrec print_blocks :: "u32 \<Rightarrow> u8 list list \<Rightarrow> dstate \<Rightarrow> (u32 \<times> u8 list list) option \<times> dstate" where
  "print_blocks clock [] d = (None, d)"
| "print_blocks clock (b # bs) d =
     (case console_putbytes clock b d of
        (None, d) \<Rightarrow> print_blocks clock bs d
      | (Some (t, cs), d) \<Rightarrow> (Some (t, cs # bs), d))"

text \<open>The blocks of \<^verbatim>\<open>printf("^%c", c)\<close>; \<open>printf_caret\<close> proves that they are what \<^verbatim>\<open>vprintf\<close> gives.\<close>

definition caret_blocks :: "u8 \<Rightarrow> u8 list list" where
  "caret_blocks c = (if c = 0 \<or> c = 10 then [[94], [c]] else [[94, c]])"

definition echo_char :: "u32 \<Rightarrow> u8 \<Rightarrow> kdriver \<Rightarrow> dstate \<Rightarrow> ((u32 \<times> u8 list list) option \<times> kdriver \<times> dstate) option" where
  "echo_char clock c k d =
     (let out = (\<lambda>bs. case print_blocks clock bs d of (z, d) \<Rightarrow> Some (z, k, d));
          char_code = sint c
      in if char_code = 9 \<or> char_code \<ge> 32 \<and> char_code \<le> 126 then out [[c]]
         else if char_code = 13 then out [[10]]
         else if char_code < 32 then
           (if char_code = 12 then out [[12]]
            else if char_code = 7 then map_option (\<lambda>d. (None, k, d)) (async_beep 392 tenth clock d)
            else if char_code = 16 then Some (None, k\<lparr>piano := True\<rparr>, d)
            else out (caret_blocks (c + 64)))
         else if char_code = 127 then out [[8, 32, 8]]
         else Some (None, k, d))"

text \<open>In piano mode only the first character is looked at. The rest of the string stays when the console sleeps.\<close>

primrec echo :: "u32 \<Rightarrow> u8 list \<Rightarrow> kdriver \<Rightarrow> dstate \<Rightarrow> ((u32 \<times> u8 list list \<times> u8 list) option \<times> kdriver \<times> dstate) option" where
  "echo clock [] k d = Some (None, k, d)"
| "echo clock (c # cs) k d =
     (if piano k then map_option (\<lambda>(k, d). (None, k, d)) (piano_key clock c k d)
      else do {
        (z, k, d) \<leftarrow> echo_char clock c k d;
        case z of None \<Rightarrow> echo clock cs k d | Some (t, bs) \<Rightarrow> Some (Some (t, bs, cs), k, d) })"

text \<open>What is left of an echo after the beep: the buzzer stops, the blocks are printed and the string goes on.\<close>

definition echo_resume :: "u32 \<Rightarrow> u8 list list \<Rightarrow> u8 list \<Rightarrow> kdriver \<Rightarrow> dstate \<Rightarrow>
    ((u32 \<times> u8 list list \<times> u8 list) option \<times> kdriver \<times> dstate) option" where
  "echo_resume clock bs cs k d =
     (case print_blocks clock bs (stop_beep d) of
        (None, d) \<Rightarrow> echo clock cs k d
      | (Some (t, bs), d) \<Rightarrow> Some (Some (t, bs, cs), k, d))"

section \<open>From the interrupt to the queue\<close>

text \<open>
  One round of the loop: \<open>bc\<close> is the address of \<^verbatim>\<open>buffer_count\<close>. The flag says whether the character was sent.
\<close>

definition keyboard_char :: "int \<Rightarrow> u32 \<Rightarrow> u8 \<Rightarrow> kstate \<Rightarrow> (bool \<times> kstate) option" where
  "keyboard_char fid bc c s = do {
     (_, s) \<leftarrow> pcount fid (I_user bc) s;
     n \<leftarrow> load_int (I_user bc) s;
     if n \<noteq> int BUFFER_SIZE then map_option (Pair True) (psend fid (sint c) s) else Some (False, s) }"

datatype kd_end = KD_done | KD_full | KD_switched "u8 list"

primrec keyboard_loop :: "int \<Rightarrow> u32 \<Rightarrow> u8 list \<Rightarrow> kstate \<Rightarrow> (kd_end \<times> kstate) option" where
  "keyboard_loop fid bc [] s = Some (KD_done, s)"
| "keyboard_loop fid bc (c # cs) s = do {
     (ok, s1) \<leftarrow> keyboard_char fid bc c s;
     if \<not> ok then Some (KD_full, s1)
     else if active_process s1 \<noteq> active_process s then Some (KD_switched cs, s1)
     else do { (_, s2) \<leftarrow> resume s1; keyboard_loop fid bc cs s2 } }"

text \<open>
  \<^verbatim>\<open>keyboard_data\<close>; \<open>KD_asleep\<close> is an echo that sleeps, after which the characters are still to be sent.
\<close>

datatype kd_result =
  KD_asleep u32 "u8 list list" "u8 list"
| KD_end kd_end

definition keyboard_queue :: "u32 \<Rightarrow> u8 list \<Rightarrow> kdriver \<Rightarrow> dstate \<Rightarrow> kstate \<Rightarrow> (kd_result \<times> kdriver \<times> dstate \<times> kstate) option" where
  "keyboard_queue bc str k d s = do {
     (e, s) \<leftarrow> keyboard_loop (keyboard_buffer k) bc str s;
     d \<leftarrow> (if e = KD_full then async_beep 1000 tenth (pit_count s) d else Some d);
     Some (KD_end e, k, d, s) }"

definition keyboard_data :: "u32 \<Rightarrow> u8 list \<Rightarrow> kdriver \<Rightarrow> dstate \<Rightarrow> kstate \<Rightarrow> (kd_result \<times> kdriver \<times> dstate \<times> kstate) option" where
  "keyboard_data bc str k d s = do {
     (z, k, d) \<leftarrow> (if echo_on k \<or> take 1 str = [13] then echo (pit_count s) str k d else Some (None, k, d));
     case z of
       Some (t, bs, cs) \<Rightarrow> Some (KD_asleep t bs cs, k, d, s)
     | None \<Rightarrow> keyboard_queue bc str k d s }"

text \<open>
  \<^verbatim>\<open>keyboard_IT\<close>: the byte of the keyboard controller goes through the decoder, which calls \<^verbatim>\<open>keyboard_data\<close> for the strings
  it puts into \<open>sent\<close>.
\<close>

definition keyboard_IT :: "keymaps \<Rightarrow> kbd \<Rightarrow> dstate \<Rightarrow> (u8 list list \<times> kbd \<times> dstate) option" where
  "keyboard_IT km q d = do {
     let d = outb 0x20 0x20 d;
     let (c, d) = inb 0x60 d;
     q \<leftarrow> scan_byte km (pmem d) c (q\<lparr>sent := []\<rparr>);
     Some (sent q, q, d) }"

section \<open>Reading\<close>

definition cons_read :: "kdriver \<Rightarrow> u32 \<Rightarrow> kstate \<Rightarrow> kstate option" where
  "cons_read k msg s = preceive (keyboard_buffer k) (I_user msg) s"

record rl =
  rl_string :: u32
  rl_len :: u32
  rl_save :: "int list"
  rl_mem :: mem

text \<open>\<open>rl_save\<close> is the part of \<^verbatim>\<open>buf_save\<close> below \<^verbatim>\<open>buf_idx\<close>; storing behind its end is \<open>None\<close>.\<close>

definition save_char :: "int \<Rightarrow> rl \<Rightarrow> rl option" where
  "save_char msg r = (if length (rl_save r) \<ge> BUFFER_SIZE then None else Some (r\<lparr>rl_save := rl_save r @ [msg]\<rparr>))"

definition rubout :: "u32 \<Rightarrow> int \<Rightarrow> rl \<Rightarrow> rl option" where
  "rubout len msg r = do {
     r \<leftarrow> (if rl_len r > len then save_char msg r
           else if rl_len r > 0 then
             Some (r\<lparr>rl_string := rl_string r - 1, rl_mem := (rl_mem r)(rl_string r - 1 := 0)\<rparr>)
           else Some r);
     Some (if rl_len r > 0 then r\<lparr>rl_len := rl_len r - 1\<rparr> else r) }"

definition readline_char :: "u32 \<Rightarrow> int \<Rightarrow> rl \<Rightarrow> rl option" where
  "readline_char len msg r =
     (if msg = 127 then rubout len msg r
      else if rl_len r \<ge> len then do {
        r \<leftarrow> save_char msg r;
        Some (r\<lparr>rl_len := rl_len r + 1\<rparr>) }
      else Some (r\<lparr>rl_mem := (rl_mem r)(rl_string r := of_int msg), rl_string := rl_string r + 1, rl_len := rl_len r + 1\<rparr>))"

text \<open>
  Either more messages are needed, or the line is complete: its length, memory, the calls to put back what did not fit,
  and the messages that have not been received.
\<close>

datatype rl_result = RL_wait rl | RL_done u32 mem "kcall list" "int list"

definition put_back :: "int \<Rightarrow> u32 \<Rightarrow> rl \<Rightarrow> kcall list" where
  "put_back fid len r =
     (if rl_len r \<ge> len then C_preset fid # map (C_psend fid) (rl_save r) @ [C_psend fid 13] else [])"

primrec readline_loop :: "int \<Rightarrow> u32 \<Rightarrow> int list \<Rightarrow> rl \<Rightarrow> rl_result option" where
  "readline_loop fid len [] r = Some (RL_wait r)"
| "readline_loop fid len (msg # msgs) r =
     (if msg = 13 then Some (RL_done (if rl_len r < len then rl_len r else len) (rl_mem r) (put_back fid len r) msgs)
      else do { r \<leftarrow> readline_char len msg r; readline_loop fid len msgs r })"

definition cons_readline :: "kdriver \<Rightarrow> u32 \<Rightarrow> u32 \<Rightarrow> int list \<Rightarrow> mem \<Rightarrow> rl_result option" where
  "cons_readline k string len msgs m =
     (if len = 0 then Some (RL_done 0 m [] msgs)
      else readline_loop (keyboard_buffer k) len msgs \<lparr>rl_string = string, rl_len = 0, rl_save = [], rl_mem = m\<rparr>)"

end
