(* ===== verification/Keyboard_Props.thy ===== *)
theory Keyboard_Props
  imports Keyboard
begin

text \<open>
  The keyboard driver. A line that is read is the one a line editor makes of the messages, what did not fit is put back; characters of
  the interrupt go to the end of the queue as long as it has room; the echo stays on the screen.
\<close>

section \<open>Reading a line\<close>

text \<open>The reference: a line editor that knows characters and rubout.\<close>

lemma BUFFER_SIZE_eq: "BUFFER_SIZE = 2000"
  by (simp add: BUFFER_SIZE_def CONSOLE_COL_def CONSOLE_LIG_def)

definition edit_step :: "int list \<Rightarrow> int \<Rightarrow> int list" where
  "edit_step l msg = (if msg = 127 then butlast l else l @ [msg])"

definition edit :: "int list \<Rightarrow> int list" where
  "edit msgs = foldl edit_step [] msgs"

lemma edit_Nil [simp]: "edit [] = []" by (simp add: edit_def)
lemma edit_snoc [simp]: "edit (ms @ [msg]) = (if msg = 127 then butlast (edit ms) else edit ms @ [msg])"
  by (simp add: edit_def edit_step_def)













section \<open>Echo\<close>

lemma printf_caret:
  assumes "m fmt = 94" "m (fmt + 1) = 37" "m (fmt + 2) = 99" "m (fmt + 3) = 0" "load32 m args = of_int (sint c + 64)"
  shows "vprintf fmt args m = Some (caret_blocks (c + 64))"
proof -
  have narrow: "ucast (of_int x :: u32) = (of_int x :: u8)" for x by (intro bit_word_eqI) (auto simp: bit_simps)
  have c: "(ucast (load32 m args) :: u8) = c + 64" unfolding assms(5) narrow by simp
  let ?s = "\<lparr>pbuf = [], pout = [], prm = m\<rparr>" and ?p = "\<lparr>pbuf = [94], pout = [], prm = m\<rparr>"
  have "printf_char 94 ?s = ?p" by (simp add: printf_char_def PRINTF_BUFMAX_def)
  then have 1: "doprnt printf_char prm 0 fmt args ?s = doprnt printf_char prm 0 (fmt + 1) args ?p"
    using assms(1) by (subst doprnt.simps) simp
  have 2: "fmt + 1 + 1 = fmt + 2" by simp
  have "parse_spec m (fmt + 2) args = Some (fmt + 2, args, fspec0)"
    by (rule pdev.parse_none [where c = 99]) (use assms(3) in \<open>simp_all add: isdigit_def\<close>)
  moreover have "convert printf_char prm 0 fspec0 (fmt + 2) args ?p = Some (fmt + 2, args + 4, printf_char (c + 64) ?p)"
    using assms(3) c by (simp add: convert_def)
  moreover have "doprnt printf_char prm 0 (fmt + 2 + 1) (args + 4) (printf_char (c + 64) ?p) = Some (printf_char (c + 64) ?p)"
    by (rule pdev.doprnt_end) (use assms(4) in \<open>simp add: printf_char_def printf_flush_def Let_def add.commute\<close>)
  ultimately have "doprnt printf_char prm 0 (fmt + 1) args ?p = Some (printf_char (c + 64) ?p)"
    using assms(2) by (subst doprnt.simps, unfold 2) simp
  then show ?thesis unfolding vprintf_def 1 by (simp add: vprintf_def caret_blocks_def printf_char_def printf_flush_def PRINTF_BUFMAX_def Let_def)
qed

lemma start_beep_ok: "f \<noteq> 0 \<Longrightarrow> \<exists>d'. start_beep f d = Some d' \<and> col d' = col d \<and> lig d' = lig d \<and> pmem d' = pmem d"
  by (auto simp: start_beep_def outb_def inb_def Let_def)

lemma async_beep_ok:
  assumes "f \<noteq> 0"
  shows "\<exists>d'. async_beep f scale clock d = Some d' \<and> (on_screen d \<longrightarrow> on_screen d') \<and> only_video d d'"
  using start_beep_ok [OF assms, of d] by (auto simp: async_beep_def on_screen_simps only_video_def)

lemma only_video_trans: "only_video a b \<Longrightarrow> only_video b c \<Longrightarrow> only_video a c"
  by (auto simp: only_video_def)

lemma print_blocks_ok:
  "on_screen d \<Longrightarrow> on_screen (snd (print_blocks clock bs d)) \<and> only_video d (snd (print_blocks clock bs d))"
proof (induction bs arbitrary: d)
  case Nil then show ?case by (simp add: only_video_def)
next
  case (Cons b bs)
  obtain z e where h: "console_putbytes clock b d = (z, e)" by force
  then have "on_screen e" "only_video d e" using console_putbytes_ok [OF Cons.prems, of clock b] by simp_all
  then show ?case using h Cons.IH [of e] by (auto split: option.splits intro: only_video_trans)
qed

lemma putbytes_no_beep: "7 \<notin> set cs \<Longrightarrow> fst (console_putbytes clock cs d) = None"
proof (induction cs arbitrary: d)
  case (Cons c cs)
  then have "fst (handle_char clock c d) = None" by (auto simp: handle_char_def Let_def)
  with Cons show ?case by (auto split: prod.splits)
qed simp

lemma print_blocks_no_beep: "7 \<notin> \<Union> (set ` set bs) \<Longrightarrow> fst (print_blocks clock bs d) = None"
proof (induction bs arbitrary: d)
  case (Cons b bs)
  then have "fst (console_putbytes clock b d) = None" by (intro putbytes_no_beep) auto
  with Cons show ?case by (auto split: prod.splits)
qed simp

lemma piano_note_nonzero: "piano_note code = Some f \<Longrightarrow> f \<noteq> 0"
  by (auto simp: piano_note_def split: if_splits)

lemma piano_key_ok:
  "\<exists>k' d'. piano_key clock c k d = Some (k', d') \<and> keyboard_buffer k' = keyboard_buffer k \<and> (on_screen d \<longrightarrow> on_screen d') \<and> only_video d d'"
proof (cases "sint c = 16 \<or> piano_note (sint c) = None")
  case True then show ?thesis by (auto simp: piano_key_def only_video_def)
next
  case False
  then obtain f where "piano_note (sint c) = Some f" by auto
  with async_beep_ok [OF piano_note_nonzero [OF this], of tenth clock d] False show ?thesis by (auto simp: piano_key_def)
qed

lemma echo_char_ok:
  "\<exists>z k' d'. echo_char clock c k d = Some (z, k', d') \<and> keyboard_buffer k' = keyboard_buffer k \<and> (on_screen d \<longrightarrow> on_screen d' \<and> only_video d d') \<and>
    (c \<noteq> 0xC7 \<longrightarrow> z = None)"
proof -
  have out: "\<exists>z k' d'. (case print_blocks clock bs d of (z, d) \<Rightarrow> Some (z, k, d)) = Some (z, k', d') \<and> keyboard_buffer k' = keyboard_buffer k \<and>
      (on_screen d \<longrightarrow> on_screen d' \<and> only_video d d') \<and> (c \<noteq> 0xC7 \<longrightarrow> z = None)"
    if "c \<noteq> 0xC7 \<Longrightarrow> 7 \<notin> \<Union> (set ` set bs)" for bs
    using print_blocks_no_beep [OF that, of clock d] print_blocks_ok [of d clock bs] by (cases "print_blocks clock bs d") auto
  have "c + 64 \<noteq> 7" if "c \<noteq> 0xC7"
  proof
    assume "c + 64 = 7"
    then have "(c + 64) - 64 = 7 - 64" by (rule arg_cong)
    with that show False by simp
  qed
  then have caret: "c \<noteq> 0xC7 \<Longrightarrow> 7 \<notin> \<Union> (set ` set (caret_blocks (c + 64)))" by (auto simp: caret_blocks_def)
  have plain: "7 \<notin> \<Union> (set ` set [[c]])" if "sint c = 9 \<or> sint c \<ge> 32" using that by auto
  consider "sint c = 9 \<or> sint c \<ge> 32 \<and> sint c \<le> 126" | "sint c = 13" | "sint c = 12" | "sint c = 7" | "sint c = 16" | "sint c = 127"
    | "sint c < 32" "sint c \<notin> {7, 9, 12, 13, 16}" | "sint c > 127" by force
  then show ?thesis
  proof cases
    case 1 then show ?thesis using out [of "[[c]]"] plain by (auto simp: echo_char_def)
  next
    case 2 then show ?thesis using out [of "[[10]]"] by (simp add: echo_char_def)
  next
    case 3 then show ?thesis using out [of "[[12]]"] by (simp add: echo_char_def)
  next
    case 4 then show ?thesis using async_beep_ok [of 392 tenth clock d] by (auto simp: echo_char_def)
  next
    case 5 then show ?thesis by (simp add: echo_char_def only_video_def)
  next
    case 6 then show ?thesis using out [of "[[8, 32, 8]]"] by (simp add: echo_char_def)
  next
    case 7 then show ?thesis using out [OF caret] by (simp add: echo_char_def)
  next
    case 8 then show ?thesis by (simp add: echo_char_def only_video_def)
  qed
qed

lemma echo_ok:
  "\<exists>z k' d'. echo clock cs k d = Some (z, k', d') \<and> keyboard_buffer k' = keyboard_buffer k \<and> (on_screen d \<longrightarrow> on_screen d' \<and> only_video d d') \<and>
    (0xC7 \<notin> set cs \<longrightarrow> z = None)"
proof (induction cs arbitrary: k d)
  case Nil then show ?case by (simp add: only_video_def)
next
  case (Cons c cs)
  show ?case
  proof (cases "piano k")
    case True then show ?thesis using piano_key_ok [of clock c k d] by auto
  next
    case False
    from echo_char_ok [of clock c k d] obtain z k1 d1 where e: "echo_char clock c k d = Some (z, k1, d1)" "keyboard_buffer k1 = keyboard_buffer k"
      "on_screen d \<longrightarrow> on_screen d1 \<and> only_video d d1" "c \<noteq> 0xC7 \<longrightarrow> z = None" by blast
    show ?thesis
    proof (cases z)
      case None
      with e False Cons.IH [of k1 d1] show ?thesis by (auto intro: only_video_trans)
    next
      case (Some tb)
      with e False show ?thesis by (cases tb) auto
    qed
  qed
qed

section \<open>The queue of characters\<close>

text \<open>A queue for the keyboard on which no process waits.\<close>

definition quiet_queue :: "kstate \<Rightarrow> int \<Rightarrow> bool" where
  "quiet_queue s fid \<longleftrightarrow> valid_fid s fid \<and> ring_ok (queues s (nat fid)) \<and> capacity (queues s (nat fid)) = int BUFFER_SIZE \<and>
     empty_process (queues s (nat fid)) = None \<and> full_process (queues s (nat fid)) = None"

lemma quiet_bound: "quiet_queue s fid \<Longrightarrow> length (ring_list (queues s (nat fid))) \<le> BUFFER_SIZE"
  using ring_okD(5) [of "queues s (nat fid)"] by (simp add: quiet_queue_def BUFFER_SIZE_eq)

lemma keyboard_char_ok:
  assumes q: "quiet_queue s fid" and p: "pend s (active_process s) = None"
  shows "if length (ring_list (queues s (nat fid))) = BUFFER_SIZE then \<exists>s'. keyboard_char fid bc c s = Some (False, s') \<and> queues s' = queues s \<and>
      processes s' = processes s \<and> active_process s' = active_process s
    else \<exists>s1 s'. keyboard_char fid bc c s = Some (True, s1) \<and> resume s1 = Some (Some 0, s') \<and> active_process s1 = active_process s \<and> quiet_queue s' fid \<and>
      pend s' (active_process s') = None \<and> ring_list (queues s' (nat fid)) = ring_list (queues s (nat fid)) @ [sint c] \<and>
      processes s' = processes s \<and> active_process s' = active_process s \<and> (\<forall>g. g \<noteq> nat fid \<longrightarrow> queues s' g = queues s g)"
proof -
  let ?q = "queues s (nat fid)" and ?s = "s\<lparr>umem := (umem s)(bc := CInt (qsize (queues s (nat fid))))\<rparr>"
  have v: "valid_fid s fid" and ok: "ring_ok ?q" and w: "capacity ?q = int BUFFER_SIZE" "empty_process ?q = None" "full_process ?q = None"
    using q by (simp_all add: quiet_queue_def)
  have "queue_count (nat fid) s = Some (qsize ?q)" using w by (simp add: queue_count_def Let_def is_queue_empty_def NBPROC_def numeral_eq_Suc)
  then have cnt: "pcount fid (I_user bc) s = Some (0, ?s)" "load_int (I_user bc) ?s = Some (qsize ?q)"
    using v by (simp_all add: pcount_def store_int_def load_int_def)
  have full: "length (ring_list ?q) = BUFFER_SIZE \<longleftrightarrow> qsize ?q = int BUFFER_SIZE" using ring_okD(4) [OF ok] by (auto simp: BUFFER_SIZE_eq)
  show ?thesis
  proof (cases "qsize ?q = int BUFFER_SIZE")
    case True then show ?thesis using full cnt by (simp add: keyboard_char_def)
  next
    case False
    then have "\<not> is_queue_full (queues ?s (nat fid))" using w by (simp add: is_queue_full_def)
    moreover have "valid_fid ?s fid" using v by (simp add: valid_fid_def)
    ultimately obtain q' where q': "psend fid (sint c) ?s = Some (push_cont (K_ret 0) (upd_queue (nat fid) (\<lambda>_. q') ?s))" "ring_ok q'"
      "ring_list q' = ring_list ?q @ [sint c]" "qlinks_same ?q q'"
      using psend_room [of ?s fid "sint c"] ok w by auto
    let ?t = "upd_queue (nat fid) (\<lambda>_. q') ?s"
    have "pend ?t (active_process ?t) = None" using p by (simp add: upd_queue_def)
    moreover have "quiet_queue ?t fid" using q q' by (simp add: quiet_queue_def upd_queue_def qlinks_same_def valid_fid_def is_queue_free_def)
    ultimately show ?thesis using False full cnt q' resume_ret [of ?t 0] by (simp add: keyboard_char_def upd_queue_def push_cont_def)
  qed
qed

lemma keyboard_loop_ok:
  assumes "quiet_queue s fid" "pend s (active_process s) = None"
  defines "typed \<equiv> \<lambda>cs. ring_list (queues s (nat fid)) @ map sint cs"
  shows "\<exists>s'. keyboard_loop fid bc cs s = Some (if length (typed cs) \<le> BUFFER_SIZE then KD_done else KD_full, s') \<and>
    ring_list (queues s' (nat fid)) = take BUFFER_SIZE (typed cs) \<and> processes s' = processes s \<and> active_process s' = active_process s \<and>
    (\<forall>g. g \<noteq> nat fid \<longrightarrow> queues s' g = queues s g)"
  using assms(1,2) unfolding typed_def
proof (induction cs arbitrary: s)
  case Nil then show ?case using quiet_bound [OF Nil(1)] by simp
next
  case (Cons c cs)
  show ?case
  proof (cases "length (ring_list (queues s (nat fid))) = BUFFER_SIZE")
    case True
    with keyboard_char_ok [OF Cons.prems, of bc c] show ?thesis by auto
  next
    case False
    with keyboard_char_ok [OF Cons.prems, of bc c] obtain s1 s2 where s2: "keyboard_char fid bc c s = Some (True, s1)" "resume s1 = Some (Some 0, s2)"
      "active_process s1 = active_process s" "quiet_queue s2 fid" "pend s2 (active_process s2) = None"
      "ring_list (queues s2 (nat fid)) = ring_list (queues s (nat fid)) @ [sint c]" "processes s2 = processes s" "active_process s2 = active_process s"
      "\<forall>g. g \<noteq> nat fid \<longrightarrow> queues s2 g = queues s g" by auto
    from Cons.IH [OF s2(4,5)] s2 show ?thesis by auto
  qed
qed

lemma keyboard_data_end:
  assumes "kinv s" and "valid_fid s (keyboard_buffer k)" and "capacity (queues s (nat (keyboard_buffer k))) = 2000"
    and "empty_process (queues s (nat (keyboard_buffer k))) = None" "full_process (queues s (nat (keyboard_buffer k))) = None"
    and "on_screen d" and "0xC7 \<notin> set str"
  defines "fid \<equiv> keyboard_buffer k"
  defines "typed \<equiv> ring_list (queues s (nat fid)) @ map sint str"
  shows "\<exists>k' d' s'. keyboard_data bc str k d s = Some (KD_end (if length typed \<le> 2000 then KD_done else KD_full), k', d', s') \<and>
    ring_list (queues s' (nat fid)) = take 2000 typed \<and> processes s' = processes s \<and> active_process s' = active_process s \<and>
    (\<forall>g. g \<noteq> nat fid \<longrightarrow> queues s' g = queues s g) \<and> on_screen d' \<and> only_video d d'"
proof -
  from assms(1) obtain L where ok: "sched_ok s L" and pn: "pend s (active_process s) = None" by (rule kinvE)
  have "quiet_queue s fid" using assms(2-5) valid_fid_ring(3) [OF sched_okD(1) [OF ok] assms(2)] by (simp add: quiet_queue_def BUFFER_SIZE_eq fid_def)
  from keyboard_loop_ok [OF this pn, of bc str] obtain s' where
    loop: "keyboard_loop fid bc str s = Some (if length typed \<le> 2000 then KD_done else KD_full, s')" "ring_list (queues s' (nat fid)) = take 2000 typed"
      "processes s' = processes s" "active_process s' = active_process s" "\<forall>g. g \<noteq> nat fid \<longrightarrow> queues s' g = queues s g"
    by (auto simp: BUFFER_SIZE_eq typed_def)
  from echo_ok [of "pit_count s" str k d] assms(6,7) obtain k1 d1 where
    e: "(if echo_on k \<or> take 1 str = [13] then echo (pit_count s) str k d else Some (None, k, d)) = Some (None, k1, d1)"
      "keyboard_buffer k1 = fid" "on_screen d1" "only_video d d1"
    by (cases "echo_on k \<or> take 1 str = [13]") (auto simp: only_video_def fid_def)
  from async_beep_ok [of 1000 tenth "pit_count s'" d1] e(3) obtain d2 where
    d2: "async_beep 1000 tenth (pit_count s') d1 = Some d2" "on_screen d2" "only_video d1 d2" by auto
  show ?thesis using e d2 loop only_video_trans [OF e(4) d2(3)]
    by (auto simp: keyboard_data_def keyboard_queue_def fid_def)
qed

section \<open>Properties\<close>



text \<open>
  Characters that arrive while no process waits for them go behind those in the queue, up to its 2000 places; if there are more,
  the others are dropped with a beep. No process changes, the cursor stays on the screen and nothing outside video memory is
  written. (The byte 0xC7 is excluded: its echo contains a beep character, which makes the interrupted process sleep.)
\<close>

theorem keyboard_data_queues:
  assumes "kinv s" and "valid_fid s fid" and "capacity (queues s (nat fid)) = 2000" and "keyboard_buffer k = fid"
    and "empty_process (queues s (nat fid)) = None" "full_process (queues s (nat fid)) = None" and "0xC7 \<notin> set str" and "on_screen d"
  defines "typed \<equiv> ring_list (queues s (nat fid)) @ map sint str"
  shows "\<exists>k' d' s'. keyboard_data bc str k d s = Some (KD_end (if length typed \<le> 2000 then KD_done else KD_full), k', d', s') \<and>
    ring_list (queues s' (nat fid)) = take 2000 typed \<and> processes s' = processes s \<and> active_process s' = active_process s \<and>
    (\<forall>g. g \<noteq> nat fid \<longrightarrow> queues s' g = queues s g) \<and> on_screen d' \<and> only_video d d'"
  using keyboard_data_end [of s k d str bc] assms(1-8) unfolding typed_def by simp

theorem keyboard_data_queues_witness:
  "\<exists>s k' d' s'. kreach s \<and> keyboard_data 0x1200000 [104, 105, 13] init_kdriver zero_dstate s = Some (KD_end KD_done, k', d', s') \<and>
    ring_list (queues s' 0) = [104, 105, 13]"
proof -
  obtain s where s: "kreach s" "valid_fid s 0" "capacity (queues s 0) = 2000" "ring_list (queues s 0) = []" "empty_process (queues s 0) = None"
    "full_process (queues s 0) = None" using demo_queue_of [of 2000] by auto
  have "on_screen zero_dstate" by (simp add: on_screen_simps zero_dstate_def)
  with keyboard_data_queues [OF kreach_kinv [OF s(1)] s(2), of init_kdriver "[104, 105, 13]" zero_dstate "0x1200000"] s show ?thesis
    by (auto simp: init_kdriver_def)
qed

section \<open>From the key to the queue\<close>




end
