(* ===== verification/Syscall.thy ===== *)
theory Syscall
  imports Keyboard Floppy
begin

text \<open>
  \<^verbatim>\<open>kernel/syscall.c\<close>: the dispatcher of system calls, over the models of the kernel, the console, the keyboard and the file system.

  \<open>user_request\<close> is the switch of \<^verbatim>\<open>user_IT\<close> up to the calls: the request with its arguments converted, or \<open>None\<close> where the macro
  \<^verbatim>\<open>SEGFAULT\<close> returns. \<open>serve\<close> makes the calls. Calls of the scheduler and of the message queues are steps of the kernel
  (\<^theory_text>\<open>Kernel_Run\<close>), a console output with a beep character sleeps first, and reading a line goes on with the messages
  that arrive (\<open>cons_readline\<close>).
\<close>

section \<open>Requests\<close>

datatype request =
  R_console_putbytes u32 int
| R_cons_write u32 int
| R_cons_read
| R_cons_echo int
| R_cons_readline u32 u32
| R_beep int u32
| R_getpid
| R_processes_status u32 int
| R_getprio int
| R_queues_status u32 int
| R_clock_settings u32 u32
| R_current_clock
| R_kernel kcall
| R_reboot
| R_fs_root u32
| R_fs_list u32 u32 u32 u32
| R_fs_file_name u32 u32 u32
| R_fs_read u32 u32 u32 u32
| R_fs_write u32 u32 u32 u32

text \<open>
  What the dispatcher gets from its surroundings: the bounds of user memory, the string at an address, the results of the
  allocators, the multiplication by a floating-point number, and addresses for local variables.
\<close>

record sys_env =
  user_start :: u32
  user_end :: u32
  string_at :: "u32 \<Rightarrow> string"
  stack_alloc :: "u32 \<Rightarrow> u32 option"
  mem_alloc_ok :: bool
  scale_by :: "u32 \<Rightarrow> u32 \<Rightarrow> u32"
  local_var :: u32

definition IS_USER_PTR :: "sys_env \<Rightarrow> u32 \<Rightarrow> bool" where
  "IS_USER_PTR e p \<longleftrightarrow> p \<ge> user_start e \<and> p < user_end e"

definition USER_OR_NULL_PTR :: "sys_env \<Rightarrow> u32 \<Rightarrow> bool" where
  "USER_OR_NULL_PTR e p \<longleftrightarrow> p = 0 \<or> IS_USER_PTR e p"

definition int_ptr :: "u32 \<Rightarrow> iptr" where
  "int_ptr p = (if p = 0 then I_null else I_user p)"

definition guarded :: "bool \<Rightarrow> request \<Rightarrow> request option" where
  "guarded b r = (if b then Some r else None)"

definition user_request :: "sys_env \<Rightarrow> int \<Rightarrow> u32 \<Rightarrow> u32 \<Rightarrow> u32 \<Rightarrow> u32 \<Rightarrow> u32 \<Rightarrow> request option" where
  "user_request e call_id p1 p2 p3 p4 p5 =
     (if call_id = 0 then guarded (IS_USER_PTR e p1) (R_console_putbytes p1 (sint p2))
      else if call_id = 10 then guarded (IS_USER_PTR e p1) (R_cons_write p1 (sint p2))
      else if call_id = 11 then Some R_cons_read
      else if call_id = 12 then Some (R_cons_echo (sint p1))
      else if call_id = 13 then guarded (IS_USER_PTR e p1) (R_cons_readline p1 p2)
      else if call_id = 14 then Some (R_beep (sint p1) p2)
      else if call_id = 20 then Some R_getpid
      else if call_id = 21 then guarded (USER_OR_NULL_PTR e p2) (R_kernel (C_waitpid (sint p1) (int_ptr p2)))
      else if call_id = 22 then guarded (IS_USER_PTR e p1) (R_processes_status p1 (sint p2))
      else if call_id = 30 then Some (R_kernel (C_chprio (sint p1) (sint p2)))
      else if call_id = 31 then Some (R_getprio (sint p1))
      else if call_id = 40 then guarded (USER_OR_NULL_PTR e p2) (R_kernel (C_pcount (sint p1) (int_ptr p2)))
      else if call_id = 41 then Some (R_kernel (C_pcreate (mem_alloc_ok e) (sint p1)))
      else if call_id = 42 then Some (R_kernel (C_pdelete (sint p1)))
      else if call_id = 43 then guarded (USER_OR_NULL_PTR e p2) (R_kernel (C_preceive (sint p1) (int_ptr p2)))
      else if call_id = 44 then Some (R_kernel (C_preset (sint p1)))
      else if call_id = 45 then Some (R_kernel (C_psend (sint p1) (sint p2)))
      else if call_id = 46 then guarded (IS_USER_PTR e p1) (R_queues_status p1 (sint p2))
      else if call_id = 50 then guarded (USER_OR_NULL_PTR e p1 \<and> USER_OR_NULL_PTR e p2) (R_clock_settings p1 p2)
      else if call_id = 51 then Some R_current_clock
      else if call_id = 52 then Some (R_kernel (C_wait_clock p1))
      else if call_id = 60 then guarded (IS_USER_PTR e p1 \<and> IS_USER_PTR e p4)
        (R_kernel (C_start_user (stack_alloc e) p1 p2 (sint p3) (string_at e p4) p5))
      else if call_id = 61 then Some (R_kernel (C_kill (sint p1)))
      else if call_id = 62 then Some (R_kernel (C_exit (sint p1)))
      else if call_id = 63 then Some R_reboot
      else if call_id = 70 then guarded (IS_USER_PTR e p1) (R_fs_root p1)
      else if call_id = 71 then guarded (IS_USER_PTR e p1 \<and> IS_USER_PTR e p2) (R_fs_list p1 p2 p3 p4)
      else if call_id = 72 then guarded (IS_USER_PTR e p1 \<and> IS_USER_PTR e p2) (R_fs_file_name p1 p2 p2)
      else if call_id = 73 then guarded (IS_USER_PTR e p1 \<and> IS_USER_PTR e p2) (R_fs_read p1 p2 p3 p4)
      else if call_id = 74 then guarded (IS_USER_PTR e p1 \<and> IS_USER_PTR e p3) (R_fs_write p1 p2 p3 p4)
      else None)"

section \<open>Service\<close>

text \<open>The system: the kernel, the devices and disks, the keyboard driver and the disk of \<^verbatim>\<open>root_fs\<close>.\<close>

record sys =
  kst :: kstate
  fss :: fstate
  kdr :: kdriver
  root_disk :: disk_t

text \<open>After a sleep the buzzer is stopped; \<open>Some cs\<close> is what the console then still prints.\<close>

datatype served =
  SV_ret int
| SV_kernel kcall
| SV_sleep u32 "u8 list option" int
| SV_readline u32 u32
| SV_processes u32 int "process_status_t list"
| SV_queues u32 int "queue_status_t list"
| SV_reboot

definition dev :: "sys \<Rightarrow> dstate" where
  "dev s = dv (fss s)"

definition set_dev :: "dstate \<Rightarrow> sys \<Rightarrow> sys" where
  "set_dev d s = s\<lparr>fss := (fss s)\<lparr>dv := d\<rparr>\<rparr>"

definition serve_print :: "(u32 \<times> u8 list) option \<times> dstate \<Rightarrow> int \<Rightarrow> sys \<Rightarrow> served \<times> sys" where
  "serve_print r v s =
     (case r of (None, d) \<Rightarrow> (SV_ret v, set_dev d s)
      | (Some (t, cs), d) \<Rightarrow> (SV_sleep t (Some cs) v, set_dev d s))"

definition serve_fs :: "(u32 \<times> fstate) option \<Rightarrow> sys \<Rightarrow> (served \<times> sys) option" where
  "serve_fs r s = map_option (\<lambda>(n, f). (SV_ret (sint n), s\<lparr>fss := f\<rparr>)) r"

fun serve :: "sys_env \<Rightarrow> request \<Rightarrow> sys \<Rightarrow> (served \<times> sys) option" where
  "serve e (R_console_putbytes p n) s =
     Some (serve_print (console_putbytes (pit_count (kst s)) (rd (pmem (dev s)) p (nat n)) (dev s)) 0 s)"
| "serve e (R_cons_write p n) s = Some (serve_print (cons_write (pit_count (kst s)) p n (dev s)) n s)"
| "serve e R_cons_read s = Some (SV_kernel (C_preceive (keyboard_buffer (kdr s)) (I_user (local_var e))), s)"
| "serve e (R_cons_echo on) s = Some (SV_ret 0, s\<lparr>kdr := cons_echo on (kdr s)\<rparr>)"
| "serve e (R_cons_readline p n) s = Some (if n = 0 then SV_ret 0 else SV_readline p n, s)"
| "serve e (R_beep freq delay) s = do {
     d \<leftarrow> start_beep freq (dev s);
     Some (SV_sleep (end_tick (scale_by e delay) (pit_count (kst s))) None 0, set_dev d s) }"
| "serve e R_getpid s = Some (SV_ret (getpid (kst s)), s)"
| "serve e (R_processes_status p n) s = (case processes_status n (kst s) of (v, ps) \<Rightarrow> Some (SV_processes p v ps, s))"
| "serve e (R_getprio p) s = Some (SV_ret (getprio p (kst s)), s)"
| "serve e (R_queues_status p n) s = do { (v, qs) \<leftarrow> queues_status n (kst s); Some (SV_queues p v qs, s) }"
| "serve e (R_clock_settings p q) s = Some (SV_ret 0, set_dev ((dev s)\<lparr>pmem := clock_settings p q (pmem (dev s))\<rparr>) s)"
| "serve e R_current_clock s = Some (SV_ret (sint (pit_count (kst s))), s)"
| "serve e (R_kernel c) s = Some (SV_kernel c, s)"
| "serve e R_reboot s = Some (SV_reboot, s)"
| "serve e (R_fs_root p) s = Some (SV_ret 0, set_dev ((dev s)\<lparr>pmem := store32 (pmem (dev s)) p fat_fs_root\<rparr>) s)"
| "serve e (R_fs_list p q n off) s = serve_fs (fat_fs_list (root_disk s) (load32 (pmem (dev s)) p) q n off (fss s)) s"
| "serve e (R_fs_file_name f nm len) s =
     map_option (\<lambda>f. (SV_ret 0, s\<lparr>fss := f\<rparr>)) (fat_fs_file_name (root_disk s) f nm len (fss s))"
| "serve e (R_fs_read dst f off len) s = serve_fs (fat_fs_read (root_disk s) (local_var e) dst f off len (fss s)) s"
| "serve e (R_fs_write f off src len) s = serve_fs (fat_fs_write (root_disk s) (local_var e) f off src len (fss s)) s"

definition user_IT :: "sys_env \<Rightarrow> int \<Rightarrow> u32 \<Rightarrow> u32 \<Rightarrow> u32 \<Rightarrow> u32 \<Rightarrow> u32 \<Rightarrow> sys \<Rightarrow> (served \<times> sys) option" where
  "user_IT e call_id p1 p2 p3 p4 p5 s =
     (case user_request e call_id p1 p2 p3 p4 p5 of
        None \<Rightarrow> Some (SV_ret (-42), s)
      | Some r \<Rightarrow> serve e r s)"

text \<open>
  The step of the kernel that follows: the call itself, the sleep of a beep, or the first message of a line. The value of
  \<^verbatim>\<open>cons_read\<close> is the message at \<open>local_var\<close>, that of the others the one of the kernel's call.
\<close>

definition kernel_part :: "sys_env \<Rightarrow> sys \<Rightarrow> served \<Rightarrow> kcall option" where
  "kernel_part e s r =
     (case r of SV_kernel c \<Rightarrow> Some c
      | SV_sleep t cs v \<Rightarrow> Some (C_wait_clock t)
      | SV_readline p n \<Rightarrow> Some (C_preceive (keyboard_buffer (kdr s)) (I_user (local_var e)))
      | _ \<Rightarrow> None)"

inductive sys_step :: "sys_env \<Rightarrow> int \<Rightarrow> u32 list \<Rightarrow> sys \<Rightarrow> sys \<Rightarrow> bool" for e where
  sys_local: "user_IT e call_id p1 p2 p3 p4 p5 s = Some (r, s') \<Longrightarrow> kernel_part e s' r = None \<Longrightarrow> sys_step e call_id [p1, p2, p3, p4, p5] s s'"
| sys_kernel: "user_IT e call_id p1 p2 p3 p4 p5 s = Some (r, s') \<Longrightarrow> kernel_part e s' r = Some c \<Longrightarrow> kstep (kst s') c v k \<Longrightarrow>
    sys_step e call_id [p1, p2, p3, p4, p5] s (s'\<lparr>kst := k\<rparr>)"

inductive_cases sys_stepE: "sys_step e call_id ps s s'"

end
