(* ===== verification/Syscall_Props.thy ===== *)
theory Syscall_Props
  imports Syscall
begin

text \<open>
  System calls with arbitrary arguments: what reaches the kernel is allowed, so that no user program can make the scheduler or
  the message queues fail; bad pointers and unknown numbers are rejected.
\<close>



lemma caller_int_ptr [simp]: "caller_ptr (int_ptr p)"
  by (simp add: int_ptr_def)














section \<open>Properties\<close>







text \<open>
  Only the first byte of what a pointer points to is checked: \<^verbatim>\<open>clock_settings\<close> with the last address of user memory overwrites the byte behind it.
\<close>

lemma pointer_check_first_byte:
  assumes "user_start e < user_end e" "user_end e \<noteq> 1"
  shows "\<exists>s'. user_IT e 50 (user_end e - 1) 0 0 0 0 s = Some (SV_ret 0, s') \<and> pmem (dev s') (user_end e) = 0x34"
proof -
  have "user_end e \<noteq> 0" using assms(1) by auto
  then have "user_end e - 1 < user_end e" "user_start e \<le> user_end e - 1" using assms(1)
    by (simp_all add: word_less_nat_alt word_le_nat_alt unat_minus_one)
  then have "user_request e 50 (user_end e - 1) 0 0 0 0 = Some (R_clock_settings (user_end e - 1) 0)"
    by (simp add: user_request_def guarded_def USER_OR_NULL_PTR_def IS_USER_PTR_def)
  moreover have "clock_settings (user_end e - 1) 0 m (user_end e) = 0x34" for m
    using assms(2) by (simp add: clock_settings_def store32_def bytes32_def QUARTZ_def)
  ultimately show ?thesis by (simp add: user_IT_def set_dev_def dev_def)
qed

end
