(* ===== verification/Gdb.thy ===== *)
theory Gdb
  imports String_Props Convert
begin

text \<open>
  \<^verbatim>\<open>kernel/gdb_serial.c\<close> and \<^verbatim>\<open>gdb_serial_support.c\<close>: the debugger's side of the serial protocol. Packets are
  received into a buffer with a checksum, replies are sent with runs of equal characters shortened; commands read and write
  registers and memory through the page tables of the stopped program.

  The line is the list \<open>rx\<close> of the bytes that will arrive and the list \<open>tx\<close> of those sent; waiting for a byte when none is left is
  \<open>None\<close>. The buffer is at the address \<open>ib\<close>, the registers at \<open>rg\<close>, the local pointers at \<open>lv\<close>. The only caller passes no
  callbacks, so that the branches for threads answer with an empty packet.
\<close>

record gdb =
  gm :: mem
  rx :: "u8 list"
  tx :: "u8 list"
  connected :: bool
  gdb_serial_debug :: bool
  client_cr0 :: u32
  client_cr3 :: u32
  signo :: u8
  regs_changed :: bool

text \<open>Small blocks, by their addresses.\<close>

lemma block_four: "block a 4 = {a, a + 1, a + 2, a + 3}"
proof -
  have n: "4 = Suc (Suc (Suc (Suc 0)))" by simp
  show ?thesis unfolding n by (simp add: block_Suc add.assoc)
qed

lemma block_eight: "block a 8 = {a, a + 1, a + 2, a + 3, a + 4, a + 5, a + 6, a + 7}"
  using block_four [of "a + 4"] block_Suc [of 7 a] block_Suc [of 6 "a + 1"] block_Suc [of 5 "a + 2"] block_Suc [of 4 "a + 3"] by (simp add: add.assoc)

lemma rd_three: "rd m a 3 = [m a, m (a + 1), m (a + 2)]"
  by (simp add: numeral_eq_Suc add.assoc)

section \<open>Hexadecimal digits\<close>

definition hexchars :: "u8 list" where
  "hexchars = [48, 49, 50, 51, 52, 53, 54, 55, 56, 57, 97, 98, 99, 100, 101, 102]"

definition hex :: "u8 \<Rightarrow> int" where
  "hex ch =
     (let c = sint ch
      in if c \<ge> 48 \<and> c \<le> 57 then c - 48
         else if c \<ge> 97 \<and> c \<le> 102 then c - 97 + 10
         else if c \<ge> 65 \<and> c \<le> 70 then c - 65 + 10
         else -1)"

text \<open>Two digits to a byte; an invalid digit stops the conversion.\<close>

primrec hex2bin :: "nat \<Rightarrow> u32 \<Rightarrow> u32 \<Rightarrow> mem \<Rightarrow> int \<times> mem" where
  "hex2bin 0 inp out m = (0, m)"
| "hex2bin (Suc n) inp out m =
     (let ch = push_bit 4 (hex (m inp)) OR hex (m (inp + 1))
      in if ch < 0 then (-1, m) else hex2bin n (inp + 2) (out + 1) (m(out := of_int ch)))"

section \<open>Receiving a packet\<close>

definition BUFMAX :: nat where "BUFMAX = 400"

primrec skip_start :: "u8 list \<Rightarrow> u8 list option" where
  "skip_start [] = None"
| "skip_start (ch # cs) = (if ch AND 0x7f = 36 then Some cs else skip_start cs)"

text \<open>The inner loop; \<open>last\<close> is the character read last.\<close>

primrec read_packet :: "u32 \<Rightarrow> u8 list \<Rightarrow> u8 \<Rightarrow> nat \<Rightarrow> u8 \<Rightarrow> mem \<Rightarrow> (u8 \<times> u8 list \<times> nat \<times> u8 \<times> mem) option" where
  "read_packet ib [] lastc count checksum m = (if count < BUFMAX then None else Some (lastc, [], count, checksum, m))"
| "read_packet ib (ch # cs) lastc count checksum m =
     (if count < BUFMAX then
        (if ch = 35 \<and> (count = 0 \<or> m (ib + of_nat (count - 1)) \<noteq> 0x7d) then Some (ch, cs, count, checksum, m)
         else read_packet ib cs ch (Suc count) (checksum + ch) (m(ib + of_nat count := ch)))
      else Some (lastc, ch # cs, count, checksum, m))"

text \<open>The sequence number before a colon is sent back and removed.\<close>

definition drop_sequence :: "u32 \<Rightarrow> gdb \<Rightarrow> gdb option" where
  "drop_sequence ib s =
     (if gm s (ib + 2) = 58 then do {
        let s = s\<lparr>tx := tx s @ [gm s ib, gm s (ib + 1)]\<rparr>;
        count \<leftarrow> strlen (gm s) ib;
        Some (s\<lparr>gm := foldl (\<lambda>m i. m(ib + of_nat i - 3 := m (ib + of_nat i))) (gm s) [3..<Suc (unat count)]\<rparr>) }
      else Some s)"

partial_function (option) getpacket :: "u32 \<Rightarrow> gdb \<Rightarrow> gdb option" where
  "getpacket ib s = do {
     cs \<leftarrow> skip_start (rx s);
     (ch, cs, count, checksum, m) \<leftarrow> read_packet ib cs 36 0 0 (gm s);
     let s = s\<lparr>rx := cs, gm := m(ib + of_nat count := 0)\<rparr>;
     if ch = 35 then
       (case cs of
          a # b # cs \<Rightarrow>
            (let xmitcsum = of_int (push_bit 4 (hex a)) + of_int (hex b);
                 s = s\<lparr>rx := cs\<rparr>
             in if checksum \<noteq> xmitcsum then getpacket ib (s\<lparr>tx := tx s @ [45]\<rparr>)
                else drop_sequence ib (s\<lparr>tx := tx s @ [43]\<rparr>))
        | _ \<Rightarrow> None)
     else if checksum \<noteq> 255 then getpacket ib s else Some s }"

declare getpacket.simps [code]

section \<open>Sending a packet\<close>

text \<open>
  A fragment has its bytes, those of a string up to the terminator when its length is 0, and a flag for sending them as digits. A
  run of at least four equal output characters is sent as the character, a star and the length.
\<close>

record outfrag =
  fdata :: "u8 list"
  hexify :: bool

definition frag_at :: "mem \<Rightarrow> u32 \<Rightarrow> u32 \<Rightarrow> bool \<Rightarrow> outfrag option" where
  "frag_at m p len h = do {
     n \<leftarrow> (if len \<noteq> 0 then Some len else strlen m p);
     Some \<lparr>fdata = rd m p (unat n), hexify = h\<rparr> }"

definition same_run :: "nat \<Rightarrow> u8 list \<Rightarrow> nat" where
  "same_run limit xs = length (takeWhile (\<lambda>x. x = hd xs) (take limit xs))"

definition starts_run :: "bool \<Rightarrow> u8 list \<Rightarrow> bool" where
  "starts_run h xs =
     (if h then 1 < length xs \<and> xs ! 1 = xs ! 0 \<and> drop_bit 4 (xs ! 0) = xs ! 0 AND 0xf
      else 3 < length xs \<and> xs ! 1 = xs ! 0 \<and> xs ! 2 = xs ! 0 \<and> xs ! 3 = xs ! 0)"

definition run_len :: "bool \<Rightarrow> u8 list \<Rightarrow> nat" where
  "run_len h xs = same_run (if h then 49 else 98) xs"

lemma run_len_pos: "xs \<noteq> [] \<Longrightarrow> 0 < run_len h xs"
  by (cases xs) (auto simp: run_len_def same_run_def take_Cons')

function put_data :: "bool \<Rightarrow> u8 list \<Rightarrow> u8 list" where
  "put_data h xs =
     (if xs = [] then []
      else if starts_run h xs then
        (let n = run_len h xs;
             rl = (if h then 2 * n else n)
         in [if h then hexchars ! unat (hd xs AND 0xf) else hd xs, 42, of_nat (29 + rl - 1)] @ put_data h (drop n xs))
      else if h then [hexchars ! unat (drop_bit 4 (hd xs)), hexchars ! unat (hd xs AND 0xf)] @ put_data h (tl xs)
      else hd xs # put_data h (tl xs))"
  by pat_completeness auto
termination
  by (relation "measure (\<lambda>(h, xs). length xs)") (auto simp: run_len_pos)

declare put_data.simps [simp del]

definition payload :: "outfrag list \<Rightarrow> u8 list" where
  "payload frags = concat (map (\<lambda>f. put_data (hexify f) (fdata f)) frags)"

definition packet_of :: "u8 list \<Rightarrow> u8 list" where
  "packet_of cs =
     (let checksum = sum_list cs
      in 36 # cs @ [35, hexchars ! unat (drop_bit 4 checksum), hexchars ! unat (checksum mod 16)])"

text \<open>The packet is sent again until it is acknowledged.\<close>

primrec send_until_ack :: "u8 list \<Rightarrow> u8 list \<Rightarrow> u8 list \<Rightarrow> (u8 list \<times> u8 list) option" where
  "send_until_ack pkt out [] = None"
| "send_until_ack pkt out (c # cs) = (if c AND 0x7f = 43 then Some (cs, out @ pkt) else send_until_ack pkt (out @ pkt) cs)"

definition putfrags :: "outfrag list \<Rightarrow> gdb \<Rightarrow> gdb option" where
  "putfrags frags s = do {
     (cs, out) \<leftarrow> send_until_ack (packet_of (payload frags)) (tx s) (rx s);
     Some (s\<lparr>rx := cs, tx := out\<rparr>) }"

section \<open>The memory of the program\<close>

text \<open>\<^verbatim>\<open>phys_addr_lookup\<close>: the physical address and the number of bytes up to the end of the page, or 0 bytes.\<close>

definition phys_addr_lookup :: "gdb \<Rightarrow> u32 \<Rightarrow> u32 \<times> u32" where
  "phys_addr_lookup s vaddr =
     (let pd = client_cr3 s AND 0xfffff000;
          pde = load32 (gm s) (pd + 4 * (drop_bit 22 vaddr AND 0x3ff))
      in if client_cr0 s AND 0x80000000 = 0 then (vaddr, 0xffffffff)
         else if pde AND 1 = 0 then (0, 0)
         else if pde AND 0x80 = 0 then
           (let pt = pde AND 0xfffff000;
                pte = load32 (gm s) (pt + 4 * (drop_bit 12 vaddr AND 0x3ff));
                offs = vaddr AND 0xfff
            in if pte AND 1 = 0 then (0, 0) else ((pte AND 0xfffff000) + offs, 0x1000 - offs))
         else
           (let offs = vaddr AND 0x3fffff
            in ((pde AND 0xffc00000) + offs, 0x400000 - offs)))"

text \<open>The loops copy page by page; they end because each round copies at least one byte.\<close>

function gdb_copyin :: "u32 \<Rightarrow> u32 \<Rightarrow> u32 \<Rightarrow> gdb \<Rightarrow> int \<times> gdb" where
  "gdb_copyin src_va dest n s =
     (if n = 0 then (0, s)
      else case phys_addr_lookup s src_va of (pa, sz) \<Rightarrow>
        if sz = 0 then (-1, s)
        else
          let sz = (if sz > n then n else sz)
          in gdb_copyin (src_va + sz) (dest + sz) (n - sz) (s\<lparr>gm := snd (memcpy dest pa sz (gm s))\<rparr>))"
  by pat_completeness auto
termination
  by (relation "measure (\<lambda>(_, _, n, _). unat n)") (auto simp: word_less_nat_alt unat_sub word_le_nat_alt unat_gt_0)

function gdb_copyout :: "u32 \<Rightarrow> u32 \<Rightarrow> u32 \<Rightarrow> gdb \<Rightarrow> int \<times> gdb" where
  "gdb_copyout src dest_va n s =
     (if n = 0 then (0, s)
      else case phys_addr_lookup s dest_va of (pa, sz) \<Rightarrow>
        if sz = 0 then (-1, s)
        else
          let sz = (if sz > n then n else sz)
          in gdb_copyout (src + sz) (dest_va + sz) (n - sz) (s\<lparr>gm := snd (memcpy pa src sz (gm s))\<rparr>))"
  by pat_completeness auto
termination
  by (relation "measure (\<lambda>(_, _, n, _). unat n)") (auto simp: word_less_nat_alt unat_sub word_le_nat_alt unat_gt_0)

declare gdb_copyin.simps [simp del] gdb_copyout.simps [simp del]

section \<open>Commands\<close>

datatype gdb_action = GDB_MORE | GDB_CONT | GDB_RUN | GDB_KILL | GDB_DETACH

text \<open>The replies, and the status of a command before its reply is sent.\<close>

datatype gdb_reply = RP_ok | RP_error u8 | RP_unknown | RP_none | RP_frags "outfrag list"

definition text_frag :: "u8 list \<Rightarrow> outfrag" where
  "text_frag cs = \<lparr>fdata = cs, hexify = False\<rparr>"

definition byte_frag :: "u8 \<Rightarrow> outfrag" where
  "byte_frag b = \<lparr>fdata = [b], hexify = True\<rparr>"

definition send_reply :: "gdb_reply \<Rightarrow> gdb \<Rightarrow> gdb option" where
  "send_reply r s =
     (case r of RP_ok \<Rightarrow> putfrags [text_frag [79, 75]] s
      | RP_error code \<Rightarrow> putfrags [text_frag [69], byte_frag code] s
      | RP_unknown \<Rightarrow> putfrags [text_frag []] s
      | RP_frags fs \<Rightarrow> putfrags fs s
      | RP_none \<Rightarrow> Some s)"

text \<open>\<^verbatim>\<open>strtoul\<close> of hexadecimal digits at an address: the value and the address behind them, which it leaves at \<open>lv\<close>.\<close>

definition read_hex :: "u32 \<Rightarrow> u32 \<Rightarrow> gdb \<Rightarrow> (u32 \<times> u32 \<times> gdb) option" where
  "read_hex lv p s = do {
     (v, m) \<leftarrow> strtoul p lv 16 (gm s);
     Some (v, load32 m lv, s\<lparr>gm := m\<rparr>) }"

text \<open>\<^verbatim>\<open>H\<close> and \<^verbatim>\<open>T\<close>: without callbacks only the syntax of the thread number is checked.\<close>

definition cmd_thread :: "u32 \<Rightarrow> u32 \<Rightarrow> u8 \<Rightarrow> gdb \<Rightarrow> (gdb_reply \<times> gdb) option" where
  "cmd_thread lv p code s = do {
     (v, m) \<leftarrow> strtol p lv 16 (gm s);
     let s = s\<lparr>gm := m\<rparr>;
     Some (if load32 m lv = p then RP_error code else RP_unknown, s) }"

definition cmd_set_regs :: "u32 \<Rightarrow> u32 \<Rightarrow> gdb \<Rightarrow> gdb_reply \<times> gdb" where
  "cmd_set_regs ib rg s =
     (case hex2bin 64 (ib + 1) rg (gm s) of (r, m) \<Rightarrow>
        if r \<noteq> 0 then (RP_error 4, s\<lparr>gm := m\<rparr>) else (RP_ok, s\<lparr>gm := m, regs_changed := True\<rparr>))"

definition cmd_set_reg :: "u32 \<Rightarrow> u32 \<Rightarrow> u32 \<Rightarrow> gdb \<Rightarrow> (gdb_reply \<times> gdb) option" where
  "cmd_set_reg lv ib rg s = do {
     (reg, eqp, s) \<leftarrow> read_hex lv (ib + 1) s;
     if eqp = ib + 1 \<or> gm s eqp \<noteq> 61 then Some (RP_error 4, s)
     else if reg = 0x29 then Some (RP_ok, s)
     else if (reg + 1) * 4 > 64 then Some (RP_error 4, s)
     else case hex2bin 4 (eqp + 1) (rg + 4 * reg) (gm s) of (r, m) \<Rightarrow>
       Some (if r \<noteq> 0 then (RP_error 4, s\<lparr>gm := m\<rparr>) else (RP_ok, s\<lparr>gm := m, regs_changed := True\<rparr>)) }"

text \<open>The address and the length of the commands on memory.\<close>

definition read_range :: "u32 \<Rightarrow> u32 \<Rightarrow> gdb \<Rightarrow> ((u32 \<times> u32 \<times> u32 \<times> u32) option \<times> gdb) option" where
  "read_range lv ib s = do {
     (addr, ptr, s) \<leftarrow> read_hex lv (ib + 1) s;
     if ptr = ib + 1 \<or> gm s ptr \<noteq> 44 then Some (None, s)
     else do {
       (len, ptr2, s) \<leftarrow> read_hex lv (ptr + 1) s;
       Some (Some (addr, len, ptr + 1, ptr2), s) } }"

definition cmd_read_mem :: "u32 \<Rightarrow> u32 \<Rightarrow> gdb \<Rightarrow> (gdb_reply \<times> gdb) option" where
  "cmd_read_mem lv ib s = do {
     (r, s) \<leftarrow> read_range lv ib s;
     case r of None \<Rightarrow> Some (RP_error 2, s)
     | Some (addr, len, ptr, ptr2) \<Rightarrow>
         if ptr2 = ptr \<or> len * 2 > of_nat BUFMAX then Some (RP_error 2, s)
         else case gdb_copyin addr ib len s of (e, s) \<Rightarrow>
           if e \<noteq> 0 then Some (RP_error 3, s)
           else do { f \<leftarrow> frag_at (gm s) ib len True; Some (RP_frags [f], s) } }"

definition cmd_write_mem :: "u32 \<Rightarrow> u32 \<Rightarrow> u32 \<Rightarrow> gdb \<Rightarrow> (gdb_reply \<times> gdb) option" where
  "cmd_write_mem lv ib outbuf s = do {
     (r, s) \<leftarrow> read_range lv ib s;
     case r of None \<Rightarrow> Some (RP_error 2, s)
     | Some (addr, len, ptr, ptr2) \<Rightarrow>
         if ptr2 = ptr \<or> gm s ptr2 \<noteq> 58 then Some (RP_error 2, s)
         else if (ptr2 + 1) + len * 2 > ib + of_nat BUFMAX then Some (RP_error 2, s)
         else case hex2bin (unat len) (ptr2 + 1) outbuf (gm s) of (e, m) \<Rightarrow>
           let s = s\<lparr>gm := m\<rparr>
           in if e \<noteq> 0 then Some (RP_error 2, s)
              else case gdb_copyout outbuf addr len s of (e, s) \<Rightarrow>
                Some (if e \<noteq> 0 then RP_error 3 else RP_ok, s) }"

text \<open>The binary data of \<^verbatim>\<open>X\<close> is unquoted in place; \<open>None\<close> in the first component is a quote at the end.\<close>

fun dequote :: "nat \<Rightarrow> u32 \<Rightarrow> u32 \<Rightarrow> mem \<Rightarrow> u32 option \<times> mem" where
  "dequote 0 inp out m = (Some out, m)"
| "dequote (Suc 0) inp out m =
     (if m inp = 0x7d then (None, m) else dequote 0 (inp + 1) (out + 1) (m(out := m inp)))"
| "dequote (Suc (Suc n)) inp out m =
     (if m inp = 0x7d then dequote n (inp + 2) (out + 1) (m(out := m (inp + 1) XOR 0x20))
      else dequote (Suc n) (inp + 1) (out + 1) (m(out := m inp)))"

definition cmd_write_binary :: "u32 \<Rightarrow> u32 \<Rightarrow> gdb \<Rightarrow> (gdb_reply \<times> gdb) option" where
  "cmd_write_binary lv ib s = do {
     (r, s) \<leftarrow> read_range lv ib s;
     case r of None \<Rightarrow> Some (RP_error 2, s)
     | Some (addr, len, ptr, ptr2) \<Rightarrow>
         if ptr2 = ptr \<or> gm s ptr2 \<noteq> 58 then Some (RP_error 2, s)
         else if (ptr2 + 1) + len > ib + of_nat BUFMAX then Some (RP_error 2, s)
         else case dequote (unat len) (ptr2 + 1) ib (gm s) of
           (None, m) \<Rightarrow> Some (RP_error 2, s\<lparr>gm := m\<rparr>)
         | (Some out, m) \<Rightarrow>
             (case gdb_copyout ib addr (out - ib) (s\<lparr>gm := m\<rparr>) of (e, s) \<Rightarrow>
                Some (if e \<noteq> 0 then RP_error 3 else RP_ok, s)) }"

text \<open>\<^verbatim>\<open>eip\<close> and \<^verbatim>\<open>eflags\<close> are at the offsets 32 and 36 of the registers.\<close>

definition gdb_set_trace_flag :: "bool \<Rightarrow> u32 \<Rightarrow> mem \<Rightarrow> mem" where
  "gdb_set_trace_flag on rg m =
     store32 m (rg + 36) (if on then load32 m (rg + 36) OR 0x100 else load32 m (rg + 36) AND NOT 0x100)"

definition cmd_continue :: "u32 \<Rightarrow> u32 \<Rightarrow> u32 \<Rightarrow> bool \<Rightarrow> u8 \<Rightarrow> gdb \<Rightarrow> gdb option" where
  "cmd_continue lv p rg step sig s = do {
     (new_eip, ptr, s) \<leftarrow> read_hex lv p s;
     let s = (if ptr > p \<and> new_eip \<noteq> load32 (gm s) (rg + 32)
              then s\<lparr>gm := store32 (gm s) (rg + 32) new_eip, regs_changed := True\<rparr> else s);
     Some (s\<lparr>gm := gdb_set_trace_flag step rg (gm s), signo := sig\<rparr>) }"

definition report :: "gdb \<Rightarrow> gdb_reply" where
  "report s = RP_frags [text_frag [83], byte_frag (signo s)]"

text \<open>The switch on the first character of the packet.\<close>

definition gdb_command :: "u32 \<Rightarrow> u32 \<Rightarrow> u32 \<Rightarrow> u32 \<Rightarrow> gdb \<Rightarrow> (gdb_action \<times> gdb_reply \<times> gdb) option" where
  "gdb_command lv ib rg outbuf s =
     (let c = gm s ib;
          more = map_option (\<lambda>(r, s). (GDB_MORE, r, s));
          go = map_option (\<lambda>s. (GDB_CONT, RP_none, s))
      in if c = 72 then more (cmd_thread lv (ib + 2) 4 s)
         else if c = 84 then more (cmd_thread lv (ib + 1) 1 s)
         else if c = 103 then more (do { f \<leftarrow> frag_at (gm s) rg 64 True; Some (RP_frags [f], s) })
         else if c = 71 then more (Some (cmd_set_regs ib rg s))
         else if c = 80 then more (cmd_set_reg lv ib rg s)
         else if c = 109 then more (cmd_read_mem lv ib s)
         else if c = 77 then more (cmd_write_mem lv ib outbuf s)
         else if c = 88 then more (cmd_write_binary lv ib s)
         else if c = 99 \<or> c = 115 then go (cmd_continue lv (ib + 1) rg (c = 115) 0 s)
         else if c = 67 \<or> c = 83 then
           (let nsig = push_bit 4 (hex (gm s (ib + 1))) OR hex (gm s (ib + 2))
            in if nsig \<le> 0 \<or> nsig \<ge> 32 then Some (GDB_MORE, RP_error 5, s)
               else go (cmd_continue lv (ib + 3) rg (c = 83) (of_int nsig) s))
         else if c = 63 then Some (GDB_MORE, report s, s)
         else if c = 68 then Some (GDB_DETACH, RP_ok, s\<lparr>connected := False\<rparr>)
         else if c = 82 then Some (GDB_RUN, RP_none, s\<lparr>connected := False\<rparr>)
         else if c = 107 then Some (GDB_KILL, RP_none, s\<lparr>connected := False\<rparr>)
         else if c = 100 then Some (GDB_MORE, RP_ok, s\<lparr>gdb_serial_debug := \<not> gdb_serial_debug s\<rparr>)
         else if c = 33 then Some (GDB_MORE, RP_ok, s)
         else Some (GDB_MORE, RP_unknown, s))"

partial_function (option) converse_loop :: "u32 \<Rightarrow> u32 \<Rightarrow> u32 \<Rightarrow> u32 \<Rightarrow> gdb \<Rightarrow> (gdb_action \<times> gdb) option" where
  "converse_loop lv ib rg outbuf s = do {
     s \<leftarrow> getpacket ib s;
     (a, r, s) \<leftarrow> gdb_command lv ib rg outbuf (s\<lparr>connected := True\<rparr>);
     s \<leftarrow> send_reply r s;
     if a = GDB_MORE then converse_loop lv ib rg outbuf s else Some (a, s) }"

declare converse_loop.simps [code]

definition gdb_serial_converse :: "u32 \<Rightarrow> u32 \<Rightarrow> u32 \<Rightarrow> u32 \<Rightarrow> gdb \<Rightarrow> (gdb_action \<times> gdb) option" where
  "gdb_serial_converse lv ib rg outbuf s = do {
     let s = s\<lparr>regs_changed := False\<rparr>;
     s \<leftarrow> send_reply (report s) s;
     converse_loop lv ib rg outbuf s }"

section \<open>Messages without a command\<close>

text \<open>\<open>line\<close> says whether the functions to send and receive are set.\<close>

definition gdb_serial_exit :: "bool \<Rightarrow> u8 \<Rightarrow> gdb \<Rightarrow> gdb option" where
  "gdb_serial_exit line code s =
     (if \<not> line \<or> \<not> connected s then Some s
      else do { s \<leftarrow> putfrags [text_frag [87], byte_frag code] s; Some (s\<lparr>connected := False\<rparr>) })"

definition gdb_serial_killed :: "bool \<Rightarrow> u8 \<Rightarrow> gdb \<Rightarrow> gdb option" where
  "gdb_serial_killed line sig s =
     (if \<not> line \<or> \<not> connected s then Some s
      else do { s \<leftarrow> putfrags [text_frag [88], byte_frag sig] s; Some (s\<lparr>connected := False\<rparr>) })"

definition gdb_serial_putchar :: "bool \<Rightarrow> u8 \<Rightarrow> gdb \<Rightarrow> gdb option" where
  "gdb_serial_putchar line ch s =
     (if \<not> line then Some s
      else if \<not> connected s then Some (s\<lparr>tx := tx s @ [ch]\<rparr>)
      else putfrags [text_frag [79], byte_frag ch] s)"

definition gdb_serial_puts :: "bool \<Rightarrow> u8 list \<Rightarrow> gdb \<Rightarrow> gdb option" where
  "gdb_serial_puts line str s =
     (if \<not> line then Some s
      else if \<not> connected s then Some (s\<lparr>tx := tx s @ str @ [10]\<rparr>)
      else putfrags [text_frag [79], \<lparr>fdata = str, hexify = True\<rparr>, byte_frag 10] s)"

definition copy_client_paging_registers :: "u32 \<Rightarrow> u32 \<Rightarrow> gdb \<Rightarrow> gdb" where
  "copy_client_paging_registers cr0 cr3 s = s\<lparr>client_cr0 := cr0, client_cr3 := cr3\<rparr>"

end
