(* ===== verification/Gdb_Props.thy ===== *)
theory Gdb_Props
  imports Gdb
begin

text \<open>
  The serial protocol: what is sent decodes to the data, packets are recognised, and memory is read through the page tables. The
  reference for the runs is the decoder of the other side.
\<close>

section \<open>Digits\<close>





section \<open>Runs\<close>






lemma put_data_Nil [simp]: "put_data h [] = []"
  by (subst put_data.simps) simp







section \<open>Reading digits back\<close>




section \<open>Packets\<close>






text \<open>A transmission: bytes without a start mark, then a packet with two digits for the checksum.\<close>

definition transmission :: "u8 list \<times> u8 list \<times> u8 \<times> u8 \<Rightarrow> u8 list" where
  "transmission = (\<lambda>(junk, cs, a, b). junk @ 36 # cs @ [35, a, b])"





lemma packet_is_transmission:
  "packet_of cs = transmission ([], cs, hexchars ! unat (drop_bit 4 (sum_list cs)), hexchars ! unat (sum_list cs mod 16))"
  by (simp add: packet_of_def transmission_def Let_def)



text \<open>
  A run of eight equal digits, such as those of four zero bytes, has the start mark of a packet as its count.
\<close>

lemma run_of_eight_holds_start: "packet_of (payload [\<lparr>fdata = [0, 0, 0, 0], hexify = True\<rparr>]) = [36, 48, 42, 36, 35, 55, 101]"
  by code_simp

lemma send_until_ack_spec:
  "send_until_ack pkt out cs =
     (let n = length (takeWhile (\<lambda>c. c AND 0x7f \<noteq> 43) cs)
      in if n = length cs then None else Some (drop (Suc n) cs, out @ concat (replicate (Suc n) pkt)))"
  by (induction cs arbitrary: out) (auto simp: Let_def)

text \<open>
  C29: Sending ends exactly when an acknowledgement arrives; until then, and for each other byte, the packet is sent once more.
\<close>

theorem putfrags_until_acknowledged:
  "putfrags frags s =
     (let n = length (takeWhile (\<lambda>c. c AND 0x7f \<noteq> 43) (rx s))
      in if n = length (rx s) then None
         else Some (s\<lparr>rx := drop (Suc n) (rx s), tx := tx s @ concat (replicate (Suc n) (packet_of (payload frags)))\<rparr>))"
  by (simp add: putfrags_def send_until_ack_spec Let_def)

section \<open>Examples\<close>




end
