(* ===== verification/Gdb_Mem.thy ===== *)
theory Gdb_Mem
  imports Gdb Disk
begin

text \<open>
  The debugger reads the memory of the stopped program through its page tables: \<^verbatim>\<open>gdb_copyin\<close> copies page by page what a lookup
  of each single address gives.
\<close>

section \<open>Addresses of one page\<close>

lemma unat_low: "unat ((va :: u32) AND mask j) = unat va mod 2 ^ j"
  by (simp only: take_bit_eq_mask [symmetric] unsigned_take_bit_eq) (simp add: take_bit_eq_mod)

lemma page_offset:
  fixes va :: u32
  assumes "j < 32" "unat (va AND mask j) + k < 2 ^ j"
  shows "drop_bit j (va + of_nat k) = drop_bit j va" "(va + of_nat k) AND mask j = (va AND mask j) + of_nat k"
proof -
  let ?r = "unat va mod 2 ^ j" and ?q = "unat va div 2 ^ j"
  note r = unat_low [of va j]
  have lt: "unat va < 2 ^ 32" using unsigned_less [of va, where ?'a = nat] by simp
  have "(2 :: nat) ^ 32 = 2 ^ j * 2 ^ (32 - j)" using assms(1) by (simp flip: power_add)
  then have "?q < 2 ^ (32 - j)" using lt by (metis less_mult_imp_div_less mult.commute)
  then have "2 ^ j * (?q + 1) \<le> 2 ^ j * (2 :: nat) ^ (32 - j)" by (intro mult_le_mono2) simp
  moreover have d: "unat va = 2 ^ j * ?q + ?r" by simp
  have "unat va + k < 2 ^ j * (?q + 1)" using assms(2) d unfolding r distrib_left by linarith
  ultimately have small: "unat va + k < 2 ^ 32" using \<open>(2 :: nat) ^ 32 = _\<close> by linarith
  then have u: "unat (va + of_nat k) = unat va + k" by (simp add: unat_word_ariths take_bit_eq_mod unsigned_of_nat)
  have e: "unat va + k = (?r + k) + ?q * 2 ^ j" using d by (simp add: mult.commute)
  have small_r: "?r + k < 2 ^ j" using assms(2) r by simp
  have low: "?r + k < 4294967296" using le_less_trans [OF add_le_mono1 [OF mod_less_eq_dividend] small] by simp
  have div: "(unat va + k) div 2 ^ j = ?q" unfolding e by (subst div_mult_self1) (use small_r in simp_all)
  have md: "(unat va + k) mod 2 ^ j = ?r + k" unfolding e by (subst mod_mult_self1) (use small_r in simp)
  have "unat (drop_bit j (va + of_nat k)) = unat (drop_bit j va)"
    using div lt small u by (simp only: unsigned_drop_bit_eq) (simp add: take_bit_nat_eq_self drop_bit_eq_div)
  then show "drop_bit j (va + of_nat k) = drop_bit j va" by (rule unsigned_word_eqI)
  have "unat ((va + of_nat k) AND mask j) = ?r + k" using md u by (simp only: unat_low)
  also have "\<dots> = unat (va AND mask j) + unat (of_nat k :: u32)" using small r by (simp add: unsigned_of_nat take_bit_nat_eq_self)
  also have "\<dots> = unat ((va AND mask j) + of_nat k)"
    using small low r by (simp add: unat_word_ariths unsigned_of_nat take_bit_nat_eq_self)
  finally show "(va + of_nat k) AND mask j = (va AND mask j) + of_nat k" by (rule unsigned_word_eqI)
qed

lemma page_masks: "(0xfff :: u32) = mask 12" "(0x3fffff :: u32) = mask 22"
  by (simp_all add: mask_eq_decr_exp)

lemma unat_rest: "j < 32 \<Longrightarrow> unat (2 ^ j - (va AND mask j) :: u32) = 2 ^ j - unat (va AND mask j)"
proof -
  assume j: "j < 32"
  then have "unat (of_nat (2 ^ j) :: u32) = 2 ^ j" by (simp add: unsigned_of_nat take_bit_nat_eq_self del: of_nat_power)
  then have p: "unat (2 ^ j :: u32) = 2 ^ j" by simp
  have "unat (va AND mask j) < 2 ^ j" by (simp only: unat_low) simp
  then have "(va AND mask j) \<le> 2 ^ j" by (simp add: word_le_nat_alt p)
  then show ?thesis by (simp add: unat_sub p)
qed

lemma low_neq: "(va :: u32) AND mask 12 \<noteq> 4096" "(va :: u32) AND mask 22 \<noteq> 4194304"
  using unat_low [of va 12] unat_low [of va 22] by auto

lemma drop_bit_22: "drop_bit 22 (va :: u32) = drop_bit 10 (drop_bit 12 va)"
  by simp

lemma lookup_page:
  assumes "phys_addr_lookup s va = (pa, sz)" "k < unat sz"
  shows "fst (phys_addr_lookup s (va + of_nat k)) = pa + of_nat k \<and> snd (phys_addr_lookup s (va + of_nat k)) \<noteq> 0"
proof (cases "client_cr0 s AND 0x80000000 = 0")
  case True then show ?thesis using assms(1) by (auto simp: phys_addr_lookup_def)
next
  case paged: False
  define pde where "pde = load32 (gm s) ((client_cr3 s AND 0xfffff000) + 4 * (drop_bit 22 va AND 0x3ff))"
  show ?thesis
  proof (cases "pde AND 0x80 = 0")
    case True
    then have "sz = 0 \<or> sz = 2 ^ 12 - (va AND mask 12)" using assms(1) paged
      by (auto simp: phys_addr_lookup_def Let_def pde_def page_masks split: if_splits)
    then have "unat (va AND mask 12) + k < 2 ^ 12" using assms(2) unat_rest [of 12 va] by auto
    from page_offset [OF _ this] have o: "drop_bit 12 (va + of_nat k) = drop_bit 12 va" "(va + of_nat k) AND mask 12 = (va AND mask 12) + of_nat k" by simp_all
    then have "drop_bit 22 (va + of_nat k) = drop_bit 22 va" by (simp only: drop_bit_22)
    with o show ?thesis using assms paged True low_neq(1) [of "va + of_nat k"]
      by (auto simp: phys_addr_lookup_def Let_def pde_def page_masks split: if_splits)
  next
    case False
    then have "sz = 0 \<or> sz = 2 ^ 22 - (va AND mask 22)" using assms(1) paged
      by (auto simp: phys_addr_lookup_def Let_def pde_def page_masks split: if_splits)
    then have "unat (va AND mask 22) + k < 2 ^ 22" using assms(2) unat_rest [of 22 va] by auto
    from page_offset [OF _ this] have "drop_bit 22 (va + of_nat k) = drop_bit 22 va" "(va + of_nat k) AND mask 22 = (va AND mask 22) + of_nat k" by simp_all
    then show ?thesis using assms paged False low_neq(2) [of "va + of_nat k"]
      by (auto simp: phys_addr_lookup_def Let_def pde_def page_masks split: if_splits)
  qed
qed


section \<open>The memory the program sees\<close>

definition virt :: "gdb \<Rightarrow> u32 \<Rightarrow> u8 option" where
  "virt s va = (case phys_addr_lookup s va of (pa, sz) \<Rightarrow> if sz = 0 then None else Some (gm s pa))"

text \<open>The bytes from an address up to the first page that is not there.\<close>

primrec vread :: "gdb \<Rightarrow> u32 \<Rightarrow> nat \<Rightarrow> u8 list" where
  "vread s va 0 = []"
| "vread s va (Suc n) = (case virt s va of None \<Rightarrow> [] | Some b \<Rightarrow> b # vread s (va + 1) n)"

text \<open>The addresses a lookup and a read depend on: the entries of the tables and the byte.\<close>

definition pde_at :: "gdb \<Rightarrow> u32 \<Rightarrow> u32" where
  "pde_at s va = (client_cr3 s AND 0xfffff000) + 4 * (drop_bit 22 va AND 0x3ff)"

definition pte_at :: "gdb \<Rightarrow> u32 \<Rightarrow> u32" where
  "pte_at s va = (load32 (gm s) (pde_at s va) AND 0xfffff000) + 4 * (drop_bit 12 va AND 0x3ff)"

definition used :: "gdb \<Rightarrow> u32 \<Rightarrow> u32 set" where
  "used s va =
     (if client_cr0 s AND 0x80000000 = 0 then {} else block (pde_at s va) 4 \<union> block (pte_at s va) 4)
     \<union> (case phys_addr_lookup s va of (pa, sz) \<Rightarrow> if sz = 0 then {} else {pa})"

lemma lookup_same:
  assumes "\<And>x. x \<in> used s va \<Longrightarrow> m x = gm s x"
  shows "phys_addr_lookup (s\<lparr>gm := m\<rparr>) va = phys_addr_lookup s va"
proof (cases "client_cr0 s AND 0x80000000 = 0")
  case True then show ?thesis by (simp add: phys_addr_lookup_def)
next
  case False
  then have "load32 m (pde_at s va) = load32 (gm s) (pde_at s va)" "load32 m (pte_at s va) = load32 (gm s) (pte_at s va)"
    using assms by (auto simp: used_def intro!: load32_same)
  then show ?thesis by (simp add: phys_addr_lookup_def pte_at_def pde_at_def Let_def)
qed

lemma used_same:
  assumes "\<And>x. x \<in> used s va \<Longrightarrow> m x = gm s x"
  shows "used (s\<lparr>gm := m\<rparr>) va = used s va" "virt (s\<lparr>gm := m\<rparr>) va = virt s va"
proof -
  have "load32 m (pde_at s va) = load32 (gm s) (pde_at s va)" if "client_cr0 s AND 0x80000000 \<noteq> 0"
    using assms that by (auto simp: used_def intro!: load32_same)
  then show "used (s\<lparr>gm := m\<rparr>) va = used s va"
    using lookup_same [of s va m] assms by (simp add: used_def pte_at_def pde_at_def)
  show "virt (s\<lparr>gm := m\<rparr>) va = virt s va"
    using lookup_same [of s va m] assms by (auto simp: virt_def used_def split: prod.splits if_splits)
qed

lemma vread_same: "(\<And>k. k < n \<Longrightarrow> virt s' (va + of_nat k) = virt s (va + of_nat k)) \<Longrightarrow> vread s' va n = vread s va n"
proof (induction n arbitrary: va)
  case (Suc n)
  have "virt s' va = virt s va" using Suc.prems [of 0] by simp
  moreover have "vread s' (va + 1) n = vread s (va + 1) n"
  proof (rule Suc.IH)
    fix k assume "k < n" then show "virt s' (va + 1 + of_nat k) = virt s (va + 1 + of_nat k)"
      using Suc.prems [of "Suc k"] by (simp add: add.assoc)
  qed
  ultimately show ?case by (simp split: option.split)
qed simp

lemma vread_page:
  assumes "\<And>k. k < c \<Longrightarrow> virt s (va + of_nat k) = Some (gm s (pa + of_nat k))"
  shows "vread s va (c + n) = rd (gm s) pa c @ vread s (va + of_nat c) n"
  using assms
proof (induction c arbitrary: va pa)
  case (Suc c)
  have "vread s (va + 1) (c + n) = rd (gm s) (pa + 1) c @ vread s (va + 1 + of_nat c) n"
  proof (rule Suc.IH)
    fix k assume "k < c" then show "virt s (va + 1 + of_nat k) = Some (gm s (pa + 1 + of_nat k))"
      using Suc.prems [of "Suc k"] by (simp add: add.assoc)
  qed
  then show ?case using Suc.prems [of 0] by (simp add: add.assoc)
qed simp


lemma virt_page:
  assumes "phys_addr_lookup s va = (pa, sz)" "k < unat sz"
  shows "virt s (va + of_nat k) = Some (gm s (pa + of_nat k))" "pa + of_nat k \<in> used s (va + of_nat k)"
  using lookup_page [OF assms] by (auto simp: virt_def used_def split: prod.splits)

text \<open>
  One round of the copy: the bytes of the page are those of the program's memory, and the destination overlaps neither with them nor
  with the tables.
\<close>

lemma copy_round:
  assumes look: "phys_addr_lookup s va = (pa, sz)" and c: "unat c \<le> unat sz" "unat c \<le> N"
    and apart: "\<forall>k < N. used s (va + of_nat k) \<inter> block dest N = {}"
  defines "s' \<equiv> s\<lparr>gm := snd (memcpy dest pa c (gm s))\<rparr>"
  shows "s' = s\<lparr>gm := wr (gm s) dest (rd (gm s) pa (unat c))\<rparr>"
    and "vread s va N = rd (gm s) pa (unat c) @ vread s' (va + c) (N - unat c)"
    and "\<forall>k < N - unat c. used s' (va + c + of_nat k) \<inter> block (dest + c) (N - unat c) = {}"
proof -
  have blk: "block dest (unat c) \<subseteq> block dest N" using c(2) by (rule block_mono)
  have "block pa (unat c) \<inter> block dest (unat c) = {}"
  proof (rule ccontr)
    assume "block pa (unat c) \<inter> block dest (unat c) \<noteq> {}"
    then obtain x where x: "unat (x - pa) < unat c" "x \<in> block dest (unat c)" by (auto simp: in_block)
    have "pa + of_nat (unat (x - pa)) \<in> used s (va + of_nat (unat (x - pa)))" using x c by (intro virt_page(2) [OF look]) simp
    moreover have "used s (va + of_nat (unat (x - pa))) \<inter> block dest N = {}" using apart x(1) c(2) by (meson less_le_trans)
    ultimately show False using x(2) blk by auto
  qed
  then show s': "s' = s\<lparr>gm := wr (gm s) dest (rd (gm s) pa (unat c))\<rparr>" by (simp add: s'_def memcpy_step)
  have same: "used s' (va + of_nat k) = used s (va + of_nat k)" "virt s' (va + of_nat k) = virt s (va + of_nat k)" if "k < N" for k
  proof -
    have "wr (gm s) dest (rd (gm s) pa (unat c)) x = gm s x" if "x \<in> used s (va + of_nat k)" for x
      using apart \<open>k < N\<close> that blk unat_lt [of c] by (intro wr_other) auto
    then show "used s' (va + of_nat k) = used s (va + of_nat k)" "virt s' (va + of_nat k) = virt s (va + of_nat k)"
      unfolding s' by (simp_all add: used_same)
  qed
  have shift: "va + c + of_nat k = va + of_nat (unat c + k)" for k by (simp add: add.assoc)
  have "vread s va (unat c + (N - unat c)) = rd (gm s) pa (unat c) @ vread s (va + of_nat (unat c)) (N - unat c)"
    using c(1) by (intro vread_page virt_page(1) [OF look]) simp
  moreover have "vread s' (va + c) (N - unat c) = vread s (va + c) (N - unat c)"
    by (rule vread_same) (simp add: shift same del: of_nat_add)
  ultimately show "vread s va N = rd (gm s) pa (unat c) @ vread s' (va + c) (N - unat c)" using c(2) by simp
  have "block (dest + c) (N - unat c) \<subseteq> block dest N" using c(2) by (intro block_shift) simp
  moreover have "used s' (va + c + of_nat k) \<inter> block dest N = {}" if "k < N - unat c" for k
    unfolding shift using apart that same(1) [of "unat c + k"] by (simp del: of_nat_add)
  ultimately show "\<forall>k < N - unat c. used s' (va + c + of_nat k) \<inter> block (dest + c) (N - unat c) = {}" by blast
qed

text \<open>
  C25: \<^verbatim>\<open>gdb_copyin\<close> copies exactly the bytes the program sees, up to the first page that is not there, and reports an error if it
  meets one.
\<close>

theorem gdb_copyin_reads_virtual:
  assumes "\<forall>k < unat n. used s (va + of_nat k) \<inter> block dest (unat n) = {}"
  shows "gdb_copyin va dest n s =
    (let xs = vread s va (unat n) in (if length xs = unat n then 0 else -1, s\<lparr>gm := wr (gm s) dest xs\<rparr>))"
  using assms
proof (induction va dest n s rule: gdb_copyin.induct)
  case (1 va dest n s)
  obtain pa sz where look: "phys_addr_lookup s va = (pa, sz)" by fastforce
  consider "n = 0" | "n \<noteq> 0" "sz = 0" | "n \<noteq> 0" "sz \<noteq> 0" by blast
  then show ?case
  proof cases
    case 1 then show ?thesis by (subst gdb_copyin.simps) simp
  next
    case 2
    then obtain k where k: "unat n = Suc k" by (cases "unat n") (auto simp: unsigned_eq_0_iff)
    then have "vread s va (unat n) = []" using 2 by (simp add: virt_def look)
    then show ?thesis using 2 k look by (subst gdb_copyin.simps) simp
  next
    case 3
    define c where "c = (if sz > n then n else sz)"
    have c: "unat c \<le> unat sz" "unat c \<le> unat n" by (auto simp: c_def word_less_nat_alt)
    have n: "unat (n - c) = unat n - unat c" using c(2) by (simp add: unat_sub word_le_nat_alt)
    let ?s = "s\<lparr>gm := snd (memcpy dest pa c (gm s))\<rparr>"
    note round = copy_round [OF look c "1.prems"]
    have "gdb_copyin (va + c) (dest + c) (n - c) ?s =
      (let xs = vread ?s (va + c) (unat (n - c)) in (if length xs = unat (n - c) then 0 else -1, ?s\<lparr>gm := wr (gm ?s) (dest + c) xs\<rparr>))"
      using round(3) unfolding n [symmetric] by (intro "1.IH" [OF 3(1) look [symmetric] 3(2) c_def]) simp
    moreover have "gdb_copyin va dest n s = gdb_copyin (va + c) (dest + c) (n - c) ?s"
      using 3 look by (subst gdb_copyin.simps) (simp add: c_def Let_def)
    moreover have "gm ?s = wr (gm s) dest (rd (gm s) pa (unat c))" using arg_cong [OF round(1), of gm] by simp
    ultimately show ?thesis using round(2) c(2) n by (auto simp: Let_def wr_append)
  qed
qed


section \<open>A program with two pages\<close>

text \<open>The directory is at 0x1000, the table at 0x2000; the first page is at 0x5000, the second at 0x3000, the third is missing.\<close>

definition demo_paged :: gdb where
  "demo_paged = \<lparr>gm = wr (wr (wr (wr (\<lambda>_. 0) 0x1000 [1, 0x20]) 0x2000 [1, 0x50, 0, 0, 1, 0x30]) 0x5ffe [7, 8]) 0x3000 [9],
     rx = [], tx = [], connected = False, gdb_serial_debug = False, client_cr0 = 0x80000000, client_cr3 = 0x1000,
     signo = 5, regs_changed = False\<rparr>"

lemma demo_used:
  "used demo_paged 0xffe = {0x1000, 0x1001, 0x1002, 0x1003, 0x2000, 0x2001, 0x2002, 0x2003, 0x5ffe}"
  "used demo_paged 0xfff = {0x1000, 0x1001, 0x1002, 0x1003, 0x2000, 0x2001, 0x2002, 0x2003, 0x5fff}"
  "used demo_paged 0x1000 = {0x1000, 0x1001, 0x1002, 0x1003, 0x2004, 0x2005, 0x2006, 0x2007, 0x3000}"
  "used demo_paged 0x1001 = {0x1000, 0x1001, 0x1002, 0x1003, 0x2004, 0x2005, 0x2006, 0x2007, 0x3001}"
proof -
  have "client_cr0 demo_paged AND 0x80000000 \<noteq> 0" by code_simp
  moreover have "phys_addr_lookup demo_paged 0xffe = (0x5ffe, 2)" "phys_addr_lookup demo_paged 0xfff = (0x5fff, 1)"
    "phys_addr_lookup demo_paged 0x1000 = (0x3000, 0x1000)" "phys_addr_lookup demo_paged 0x1001 = (0x3001, 0xfff)" by code_simp+
  moreover have "pde_at demo_paged 0xffe = 0x1000" "pde_at demo_paged 0xfff = 0x1000"
    "pde_at demo_paged 0x1000 = 0x1000" "pde_at demo_paged 0x1001 = 0x1000" by code_simp+
  moreover have "pte_at demo_paged 0xffe = 0x2000" "pte_at demo_paged 0xfff = 0x2000"
    "pte_at demo_paged 0x1000 = 0x2004" "pte_at demo_paged 0x1001 = 0x2004" by code_simp+
  ultimately show
    "used demo_paged 0xffe = {0x1000, 0x1001, 0x1002, 0x1003, 0x2000, 0x2001, 0x2002, 0x2003, 0x5ffe}"
    "used demo_paged 0xfff = {0x1000, 0x1001, 0x1002, 0x1003, 0x2000, 0x2001, 0x2002, 0x2003, 0x5fff}"
    "used demo_paged 0x1000 = {0x1000, 0x1001, 0x1002, 0x1003, 0x2004, 0x2005, 0x2006, 0x2007, 0x3000}"
    "used demo_paged 0x1001 = {0x1000, 0x1001, 0x1002, 0x1003, 0x2004, 0x2005, 0x2006, 0x2007, 0x3001}"
    by (auto simp: used_def block_four)
qed

theorem gdb_copyin_reads_virtual_witness:
  "gdb_copyin 0xffe 0x8000 4 demo_paged = (0, demo_paged\<lparr>gm := wr (gm demo_paged) 0x8000 [7, 8, 9, 0]\<rparr>)"
proof -
  have "\<forall>k < unat (4 :: u32). used demo_paged (0xffe + of_nat k) \<inter> block 0x8000 (unat (4 :: u32)) = {}"
  proof (intro allI impI)
    fix k assume "k < unat (4 :: u32)"
    then have "k = 0 \<or> k = 1 \<or> k = 2 \<or> k = 3" by auto
    then show "used demo_paged (0xffe + of_nat k) \<inter> block 0x8000 (unat (4 :: u32)) = {}" by (auto simp: demo_used block_four)
  qed
  moreover have "vread demo_paged 0xffe 4 = [7, 8, 9, 0]" by code_simp
  ultimately show ?thesis by (subst gdb_copyin_reads_virtual) simp_all
qed

end
