(* ===== verification/Serial.thy ===== *)
theory Serial
  imports Console_Props
begin

text \<open>
  \<^verbatim>\<open>kernel/serial.c\<close>: the serial line. The controller is programmed at the first use, which the static variable \<^verbatim>\<open>done\<close> records;
  sending and receiving poll the status register at port \<open>0x3fd\<close>. A poll that never ends is \<open>None\<close>.
\<close>

record serial =
  sdev :: dstate
  sdone :: bool

definition init_serial :: "serial \<Rightarrow> serial" where
  "init_serial s =
     (if sdone s then s
      else
        let d = outb 0x0f 0x3fc (sdev s);
            d = outb 0 0x3f9 d;
            d = outb 0x83 0x3fb d;
            d = outb 1 0x3f8 d;
            d = outb 0 0x3f9 d;
            d = outb 0x03 0x3fb d
        in \<lparr>sdev = d, sdone = True\<rparr>)"

definition send_ready :: "u8 \<Rightarrow> bool" where
  "send_ready v = (v AND 0x20 \<noteq> 0)"

definition recv_ready :: "u8 \<Rightarrow> bool" where
  "recv_ready v = (\<not> (v AND 0x1e \<noteq> 0 \<or> v AND 1 = 0))"

partial_function (option) poll :: "(u8 \<Rightarrow> bool) \<Rightarrow> dstate \<Rightarrow> dstate option" where
  "poll ready d = (case inb 0x3fd d of (v, d) \<Rightarrow> if ready v then Some d else poll ready d)"

definition write_com1 :: "u8 \<Rightarrow> serial \<Rightarrow> serial option" where
  "write_com1 c s = do {
     let s = init_serial s;
     d \<leftarrow> poll send_ready (sdev s);
     Some (s\<lparr>sdev := outb c 0x3f8 d\<rparr>) }"

definition read_com1 :: "serial \<Rightarrow> (u8 \<times> serial) option" where
  "read_com1 s = do {
     let s = init_serial s;
     d \<leftarrow> poll recv_ready (sdev s);
     let (c, d) = inb 0x3f8 d;
     Some (c, s\<lparr>sdev := d\<rparr>) }"

section \<open>Polling\<close>

text \<open>A poll ends with the first status that is ready, and only reads.\<close>

lemma poll_ends:
  assumes "ready (ins d (nread d + k) 0x3fd)" "\<forall>j < k. \<not> ready (ins d (nread d + j) 0x3fd)"
  shows "poll ready d = Some (d\<lparr>nread := nread d + Suc k\<rparr>)"
  using assms
proof (induction k arbitrary: d)
  case 0 then show ?case by (subst poll.simps) (simp add: inb_def)
next
  case (Suc k)
  let ?d = "d\<lparr>nread := Suc (nread d)\<rparr>"
  have "poll ready ?d = Some (?d\<lparr>nread := nread ?d + Suc k\<rparr>)" using Suc.prems by (intro Suc.IH) auto
  then show ?case using Suc.prems(2) by (subst poll.simps) (force simp: inb_def)
qed

lemma init_serial_reads [simp]: "nread (sdev (init_serial s)) = nread (sdev s)" "ins (sdev (init_serial s)) = ins (sdev s)"
  by (simp_all add: init_serial_def outb_def)

lemma poll_ready_least:
  assumes "\<exists>k. ready (ins d (nread d + k) 0x3fd)"
  obtains k where "ready (ins d (nread d + k) 0x3fd)" "\<forall>j < k. \<not> ready (ins d (nread d + j) 0x3fd)"
  using exists_least_iff [of "\<lambda>k. ready (ins d (nread d + k) 0x3fd)"] assms by blast

text \<open>
  When the status register gives, sooner or later, a byte without an error, \<^verbatim>\<open>read_com1\<close> ends: it returns the byte that follows the
  first such status, and the only bytes it writes are those that program the controller.
\<close>

theorem read_com1_returns:
  assumes "\<exists>k. recv_ready (ins (sdev s) (nread (sdev s) + k) 0x3fd)"
  shows "\<exists>k. recv_ready (ins (sdev s) (nread (sdev s) + k) 0x3fd) \<and> (\<forall>j < k. \<not> recv_ready (ins (sdev s) (nread (sdev s) + j) 0x3fd))
    \<and> read_com1 s = Some (ins (sdev s) (nread (sdev s) + Suc k) 0x3f8,
        (init_serial s)\<lparr>sdev := (sdev (init_serial s))\<lparr>nread := nread (sdev s) + k + 2\<rparr>\<rparr>)"
proof -
  let ?d = "sdev (init_serial s)"
  obtain k where k: "recv_ready (ins ?d (nread ?d + k) 0x3fd)" "\<forall>j < k. \<not> recv_ready (ins ?d (nread ?d + j) 0x3fd)"
    using poll_ready_least [of recv_ready ?d] assms by auto
  have "read_com1 s = Some (ins (sdev s) (nread (sdev s) + Suc k) 0x3f8,
        (init_serial s)\<lparr>sdev := ?d\<lparr>nread := nread (sdev s) + k + 2\<rparr>\<rparr>)"
    unfolding read_com1_def Let_def poll_ends [of recv_ready, OF k] by (simp add: inb_def)
  then show ?thesis using k by auto
qed

definition demo_serial :: serial where
  "demo_serial = \<lparr>sdev = zero_dstate\<lparr>ins := (\<lambda>n p. if p = 0x3f8 then 65 else if n < 3 then 0 else 1)\<rparr>, sdone = False\<rparr>"

theorem read_com1_returns_witness:
  "recv_ready (ins (sdev demo_serial) (nread (sdev demo_serial) + 3) 0x3fd) \<and> (\<exists>s. read_com1 demo_serial = Some (65, s))"
proof -
  have r: "recv_ready (ins (sdev demo_serial) (nread (sdev demo_serial) + 3) 0x3fd)"
    by (simp add: demo_serial_def zero_dstate_def recv_ready_def)
  moreover have "ins (sdev demo_serial) n 0x3f8 = 65" for n by (simp add: demo_serial_def)
  ultimately show ?thesis using read_com1_returns [of demo_serial] by metis
qed

end
