(* ===== verification/Debugger.thy ===== *)
theory Debugger
  imports Gdb Disk
begin

text \<open>
  \<^verbatim>\<open>kernel/debugger.c\<close>: what happens on a trap. The processor switches to the task of the trap; \<^verbatim>\<open>trap_handler\<close> finds the segment
  of the interrupted task through the descriptor table and shows its registers on the screen, or talks to a debugger on the serial line.

  The memory is the \<open>gm\<close> of the debugger's state, with the screen at \<open>0xb8000\<close>; segments are at their addresses, with the layout of
  \<^verbatim>\<open>struct x86_tss\<close>. The addresses of the table, of the local variables and of the text of the screen are in a record.
\<close>

record dbg_env =
  gdt_addr :: u32
  state_at :: u32
  ptrs_at :: u32
  inbuf_at :: u32
  outbuf_at :: u32
  video_at :: u32
  dump_text :: u32

record dbg =
  stub :: gdb
  do_debug :: bool

datatype trap_end = T_return | T_reboot

section \<open>The conversation\<close>

definition trap_signo :: "u32 \<Rightarrow> u8" where
  "trap_signo trapno =
     (if trapno \<in> {0, 4, 5, 7, 8, 9, 15} then 8
      else if trapno \<in> {1, 3} then 5
      else if trapno \<in> {10, 11, 12, 13, 14} then 11
      else 4)"

text \<open>Where the registers of \<^verbatim>\<open>struct gdb_state\<close>, in their order, are in the segment.\<close>

definition tss_fields :: "u32 list" where
  "tss_fields = [40, 44, 48, 52, 56, 60, 64, 68, 32, 36, 76, 80, 84, 72, 88, 92]"

primrec copy_fields :: "u32 list \<Rightarrow> u32 \<Rightarrow> u32 \<Rightarrow> mem \<Rightarrow> mem" where
  "copy_fields [] t rg m = m"
| "copy_fields (f # fs) t rg m = copy_fields fs t (rg + 4) (store32 m rg (load32 m (t + f)))"

primrec copy_back :: "u32 list \<Rightarrow> u32 \<Rightarrow> u32 \<Rightarrow> mem \<Rightarrow> mem" where
  "copy_back [] t rg m = m"
| "copy_back (f # fs) t rg m = copy_back fs t (rg + 4) (store32 m (t + f) (load32 m rg))"

text \<open>\<open>cr0\<close> is the control register at the time of the trap. The order to kill reboots.\<close>

definition debugger :: "dbg_env \<Rightarrow> u32 \<Rightarrow> u32 \<Rightarrow> u32 \<Rightarrow> dbg \<Rightarrow> (trap_end \<times> dbg) option" where
  "debugger e cr0 trapno t s = do {
     let g = stub s;
     let g = g\<lparr>signo := trap_signo trapno, gm := copy_fields tss_fields t (state_at e) (gm g)\<rparr>;
     let g = copy_client_paging_registers cr0 (load32 (gm g) (t + 28)) g;
     (action, g) \<leftarrow> gdb_serial_converse (ptrs_at e) (inbuf_at e) (state_at e) (outbuf_at e) g;
     let s = s\<lparr>stub := g, do_debug := do_debug s \<and> action \<noteq> GDB_DETACH\<rparr>;
     if action = GDB_KILL then Some (T_reboot, s)
     else Some (T_return, s\<lparr>stub := g\<lparr>gm := copy_back tss_fields t (state_at e) (gm g)\<rparr>\<rparr>) }"

section \<open>The screen\<close>

definition screen_base :: u32 where "screen_base = 0xb8000"

definition disp :: "nat \<Rightarrow> u8" where
  "disp i = (if i < 10 then 48 + of_nat i else 65 + of_nat (i - 10))"

primrec write_digits :: "nat \<Rightarrow> u32 \<Rightarrow> u32 \<Rightarrow> mem \<Rightarrow> mem" where
  "write_digits 0 p v m = m"
| "write_digits (Suc n) p v m = write_digits n (p - 2) (drop_bit 4 v) (m(p - 2 := disp (unat (v AND 15))))"

definition write_hex :: "u32 \<Rightarrow> u32 \<Rightarrow> nat \<Rightarrow> u32 \<Rightarrow> mem \<Rightarrow> mem" where
  "write_hex line pos n v m = write_digits n (screen_base + ((line - 1) * 160 + (pos + of_nat n - 1) * 2)) v m"

definition dump_fields :: "u32 \<Rightarrow> u32 \<Rightarrow> u32 \<Rightarrow> (u32 \<times> u32 \<times> nat \<times> (mem \<Rightarrow> u32)) list" where
  "dump_fields trapno error_code t =
     (let f = (\<lambda>off m. load32 m (t + off))
      in [(7, 21, 2, \<lambda>m. trapno), (7, 60, 8, \<lambda>m. error_code), (9, 21, 8, \<lambda>m. t), (9, 69, 4, f 0),
          (11, 11, 8, f 56), (11, 32, 4, f 80), (11, 52, 8, f 4), (11, 74, 4, f 8),
          (13, 11, 8, f 12), (13, 32, 4, f 16), (13, 52, 8, f 20), (13, 74, 4, f 24),
          (15, 15, 8, f 32), (15, 41, 4, f 76), (15, 66, 8, f 36),
          (17, 10, 8, f 40), (17, 30, 8, f 52), (17, 50, 8, f 44), (17, 70, 8, f 48),
          (19, 10, 8, f 64), (19, 30, 8, f 68), (19, 50, 8, f 60), (19, 72, 4, f 96),
          (21, 12, 4, f 84), (21, 32, 4, f 72), (21, 52, 4, f 88), (21, 72, 4, f 92),
          (23, 30, 8, f 28), (23, 70, 1, \<lambda>m. ucast (load16 m (t + 100)) AND 1)])"

definition dump_registers :: "dbg_env \<Rightarrow> u32 \<Rightarrow> u32 \<Rightarrow> u32 \<Rightarrow> mem \<Rightarrow> mem" where
  "dump_registers e trapno error_code t m =
     (let m = foldl (\<lambda>m k. m(screen_base + 2 * of_nat k := m (dump_text e + of_nat (k + k div 80)))) m [0..<2000];
          m = foldl (\<lambda>m i. m(screen_base + (2 * of_nat i + 1) := 0x30)) m [0..<2000];
          m = foldl (\<lambda>m i. m(screen_base + (2 * of_nat i + 1) := 0x34)) m [161..<239]
      in foldl (\<lambda>m (line, pos, n, v). write_hex line pos n (v m) m) m (dump_fields trapno error_code t))"

section \<open>The handler\<close>

definition tss_sel_2_tss :: "dbg_env \<Rightarrow> mem \<Rightarrow> u16 \<Rightarrow> u32" where
  "tss_sel_2_tss e m sel =
     (let pdesc = gdt_addr e + 8 * ucast (drop_bit 3 sel)
      in (load32 m (pdesc + 2) AND 0xffffff) + push_bit 24 (ucast (m (pdesc + 7))))"

text \<open>
  Waiting until the keyboard gives another code; the codes to come are a list, and \<open>None\<close> means that the wait does not end.
\<close>

definition wait_release :: "u8 \<Rightarrow> u8 list \<Rightarrow> u8 list option" where
  "wait_release c cs = (case dropWhile (\<lambda>x. x = c) cs of [] \<Rightarrow> None | x # xs \<Rightarrow> Some xs)"

lemma wait_release_shorter: "wait_release c cs = Some cs' \<Longrightarrow> length cs' < length cs"
  using length_dropWhile_le [of "\<lambda>x. x = c" cs] by (auto simp: wait_release_def split: list.splits)

definition save_screen :: "dbg_env \<Rightarrow> mem \<Rightarrow> mem" where
  "save_screen e m = snd (memcpy (video_at e) screen_base 4000 m)"

definition restore_screen :: "dbg_env \<Rightarrow> mem \<Rightarrow> mem" where
  "restore_screen e m = snd (memcpy screen_base (video_at e) 4000 m)"

definition on_mem :: "(mem \<Rightarrow> mem) \<Rightarrow> dbg \<Rightarrow> dbg" where
  "on_mem f s = s\<lparr>stub := (stub s)\<lparr>gm := f (gm (stub s))\<rparr>\<rparr>"

definition enable_debugger :: "dbg \<Rightarrow> dbg" where
  "enable_debugger s = s\<lparr>do_debug := True\<rparr>"

function trap_loop :: "dbg_env \<Rightarrow> u32 \<Rightarrow> u32 \<Rightarrow> u32 \<Rightarrow> u32 \<Rightarrow> bool \<Rightarrow> u8 list \<Rightarrow> dbg \<Rightarrow> (trap_end \<times> u8 list \<times> dbg) option" where
  "trap_loop e cr0 trapno error_code t d [] s = None"
| "trap_loop e cr0 trapno error_code t d (c # cs) s =
     (if c = 0x39 then
        (let s = on_mem (if \<not> d then dump_registers e trapno error_code t else restore_screen e) s
         in case wait_release 0x39 cs of None \<Rightarrow> None | Some cs \<Rightarrow> trap_loop e cr0 trapno error_code t (\<not> d) cs s)
      else if c = 1 then Some (T_reboot, cs, s)
      else if c = 0x17 then
        (let s = on_mem (restore_screen e) s
         in case wait_release 0x17 cs of None \<Rightarrow> None | Some cs \<Rightarrow> Some (T_return, cs, s))
      else if c = 0x20 then
        (let s = on_mem (restore_screen e) s
         in case wait_release 0x20 cs of None \<Rightarrow> None
            | Some cs \<Rightarrow> map_option (\<lambda>(r, s). (r, cs, s)) (debugger e cr0 trapno t (enable_debugger s)))
      else trap_loop e cr0 trapno error_code t d cs s)"
  by pat_completeness auto
termination
  by (relation "measure (\<lambda>(_, _, _, _, _, _, cs, _). length cs)") (auto dest: wait_release_shorter)

text \<open>\<open>tr\<close> is the task register.\<close>

definition trap_handler :: "dbg_env \<Rightarrow> u16 \<Rightarrow> u32 \<Rightarrow> u32 \<Rightarrow> u32 \<Rightarrow> u8 list \<Rightarrow> dbg \<Rightarrow> (trap_end \<times> u8 list \<times> dbg) option" where
  "trap_handler e tr cr0 trapno error_code keys s =
     (let m = gm (stub s);
          t = tss_sel_2_tss e m (ucast (load32 m (tss_sel_2_tss e m tr)))
      in if do_debug s then map_option (\<lambda>(r, s). (r, keys, s)) (debugger e cr0 trapno t s)
         else trap_loop e cr0 trapno error_code t True keys
           (on_mem (dump_registers e trapno error_code t) (on_mem (save_screen e) s)))"

end
