(* ===== verification/Debugger_Props.thy ===== *)
theory Debugger_Props
  imports Debugger
begin

text \<open>
  The trap screen leaves no trace when it is left, and the debugger works on the registers of the interrupted task.
\<close>

section \<open>Writing on the screen\<close>

definition screen :: "u32 set" where
  "screen = block screen_base 4000"

lemma write_digits_other:
  assumes "2 * n \<le> unat (p - screen_base)" "unat (p - screen_base) \<le> 4000" "x \<notin> screen"
  shows "write_digits n p v m x = m x"
  using assms
proof (induction n arbitrary: p v m)
  case (Suc n)
  have le: "2 \<le> p - screen_base" using Suc.prems(1) by (simp add: word_le_nat_alt)
  have e: "p - 2 - screen_base = (p - screen_base) - 2" by simp
  have u: "unat (p - 2 - screen_base) = unat (p - screen_base) - 2" unfolding e using unat_sub [OF le] by simp
  then have "p - 2 \<in> screen" using Suc.prems(1,2) by (simp add: screen_def in_block)
  moreover have "write_digits n (p - 2) (drop_bit 4 v) (m(p - 2 := disp (unat (v AND 15)))) x = (m(p - 2 := disp (unat (v AND 15)))) x"
    using Suc.prems u by (intro Suc.IH) simp_all
  ultimately show ?case using Suc.prems(3) by auto
qed simp

lemma foldl_other:
  assumes "\<And>m y. y \<in> set ys \<Longrightarrow> f m y x = m x"
  shows "foldl f m ys x = m x"
  using assms by (induction ys arbitrary: m) auto

text \<open>The place of a number: within the screen, with room for its digits on the left.\<close>

definition placed :: "u32 \<times> u32 \<times> nat \<times> (mem \<Rightarrow> u32) \<Rightarrow> bool" where
  "placed = (\<lambda>(line, pos, n, v). let o1 = (line - 1) * 160 + (pos + of_nat n - 1) * 2 in 2 * n \<le> unat o1 \<and> unat o1 \<le> 4000)"

lemma dump_fields_placed: "list_all placed (dump_fields trapno error_code t)"
  by (simp add: dump_fields_def placed_def)

lemma cell_in_screen: "k < 4000 \<Longrightarrow> screen_base + of_nat k \<in> screen"
  by (simp add: screen_def in_block unat_of_nat_less)

lemma dump_registers_other: "x \<notin> screen \<Longrightarrow> dump_registers e trapno error_code t m x = m x"
proof -
  assume x: "x \<notin> screen"
  have letters: "foldl (\<lambda>m k. m(screen_base + 2 * of_nat k := m (dump_text e + of_nat (k + k div 80)))) m [0..<2000] x = m x" for m
    using x cell_in_screen [of "2 * k" for k] by (intro foldl_other) auto
  have odd: "screen_base + (2 * of_nat k + 1) \<in> screen" if "k < 2000" for k
    using cell_in_screen [of "2 * k + 1"] that by (simp add: ac_simps)
  have colour: "foldl (\<lambda>m i. m(screen_base + (2 * of_nat i + 1) := c)) m [a..<b] x = m x" if "b \<le> 2000" for m a b c
    using x that odd by (intro foldl_other) auto
  have "foldl (\<lambda>m (line, pos, n, v). write_hex line pos n (v m) m) m (dump_fields trapno error_code t) x = m x" for m
  proof (rule foldl_other)
    fix m' y assume "y \<in> set (dump_fields trapno error_code t)"
    then have "placed y" using dump_fields_placed by (metis list_all_iff)
    then show "(case y of (line, pos, n, v) \<Rightarrow> write_hex line pos n (v m') m') x = m' x"
      using x by (auto simp: placed_def write_hex_def Let_def intro!: write_digits_other)
  qed
  moreover have le: "(2000 :: nat) \<le> 2000" "(239 :: nat) \<le> 2000" by simp_all
  ultimately show ?thesis by (simp only: dump_registers_def Let_def letters colour [OF le(1)] colour [OF le(2)])
qed


section \<open>Leaving the screen\<close>

text \<open>The memory while the registers are shown: only the screen and the copy of it have changed.\<close>

definition covered :: "dbg_env \<Rightarrow> mem \<Rightarrow> mem \<Rightarrow> bool" where
  "covered e m0 m \<longleftrightarrow> (\<forall>x. x \<notin> screen \<longrightarrow> x \<notin> block (video_at e) 4000 \<longrightarrow> m x = m0 x)
     \<and> rd m (video_at e) 4000 = rd m0 screen_base 4000"

definition video_apart :: "dbg_env \<Rightarrow> bool" where
  "video_apart e \<longleftrightarrow> block (video_at e) 4000 \<inter> block screen_base 4000 = {}"

lemma save_screen_covered:
  assumes "video_apart e"
  shows "covered e m (save_screen e m)"
proof -
  have "memcpy (video_at e) screen_base 4000 m = (video_at e, wr m (video_at e) (rd m screen_base 4000))"
    using memcpy_step [of screen_base 4000 "video_at e" m] assms by (simp add: video_apart_def Int_commute)
  then show ?thesis
    using rd_wr [of "rd m screen_base 4000" m "video_at e"] by (simp add: covered_def save_screen_def wr_other)
qed

lemma dump_registers_covered:
  assumes "video_apart e" "covered e m0 m"
  shows "covered e m0 (dump_registers e trapno error_code t m)"
proof -
  have "rd (dump_registers e trapno error_code t m) (video_at e) 4000 = rd m (video_at e) 4000"
  proof (rule rd_cong)
    fix x assume "x \<in> block (video_at e) 4000"
    then have "x \<notin> screen" using assms(1) by (auto simp: video_apart_def screen_def)
    then show "dump_registers e trapno error_code t m x = m x" by (rule dump_registers_other)
  qed simp
  then show ?thesis using assms(2) by (simp add: covered_def dump_registers_other)
qed

lemma restore_screen_covered:
  assumes "video_apart e" "covered e m0 m"
  shows "covered e m0 (restore_screen e m)" "x \<notin> block (video_at e) 4000 \<Longrightarrow> restore_screen e m x = m0 x"
proof -
  have "memcpy screen_base (video_at e) 4000 m = (screen_base, wr m screen_base (rd m0 screen_base 4000))"
    using memcpy_step [of "video_at e" 4000 screen_base m] assms by (simp add: video_apart_def covered_def)
  then have r: "restore_screen e m = wr m screen_base (rd m0 screen_base 4000)" by (simp add: restore_screen_def)
  have "rd (restore_screen e m) (video_at e) 4000 = rd m (video_at e) 4000"
    unfolding r using assms(1) by (intro rd_wr_disjoint) (simp_all add: video_apart_def)
  then show "covered e m0 (restore_screen e m)" using assms(2) by (simp add: covered_def r wr_other screen_def)
  have "restore_screen e m x = m0 x" if "x \<in> screen"
  proof -
    define k where "k = unat (x - screen_base)"
    have k: "k < 4000" "x = screen_base + of_nat k" using that by (simp_all add: screen_def in_block k_def)
    show ?thesis using nth_rd [OF k(1), of "restore_screen e m" screen_base] nth_rd [OF k(1), of m0 screen_base]
      rd_wr [of "rd m0 screen_base 4000" m screen_base] by (simp add: r k(2))
  qed
  then show "restore_screen e m x = m0 x" if "x \<notin> block (video_at e) 4000"
    using that assms(2) by (cases "x \<in> screen") (simp_all add: r wr_other covered_def screen_def)
qed

text \<open>What is left of the codes when the screen is left with the key \<^verbatim>\<open>i\<close>; each key must be released.\<close>

function quits :: "u8 list \<Rightarrow> u8 list option" where
  "quits [] = None"
| "quits (c # cs) =
     (if c = 0x39 then (case wait_release 0x39 cs of None \<Rightarrow> None | Some cs \<Rightarrow> quits cs)
      else if c = 0x17 then wait_release 0x17 cs
      else if c = 1 \<or> c = 0x20 then None
      else quits cs)"
  by pat_completeness auto
termination
  by (relation "measure length") (auto dest: wait_release_shorter)

lemma on_mem_fields [simp]: "gm (stub (on_mem f s)) = f (gm (stub s))" "do_debug (on_mem f s) = do_debug s"
  "on_mem f (on_mem g s) = on_mem (\<lambda>m. f (g m)) s"
  by (simp_all add: on_mem_def)

lemma trap_loop_quits:
  assumes "quits keys = Some rest" "video_apart e" "covered e m0 (gm (stub s))"
  shows "\<exists>m. trap_loop e cr0 trapno error_code t d keys s = Some (T_return, rest, on_mem (\<lambda>_. m) s)
    \<and> (\<forall>x. x \<notin> block (video_at e) 4000 \<longrightarrow> m x = m0 x)"
  using assms
proof (induction keys arbitrary: d s rule: quits.induct)
  case (2 c cs)
  consider cs' where "c = 0x39" "wait_release 0x39 cs = Some cs'" "quits cs' = Some rest"
    | "c = 0x17" "wait_release 0x17 cs = Some rest" | "c \<noteq> 0x39" "c \<noteq> 0x17" "c \<noteq> 1" "c \<noteq> 0x20" "quits cs = Some rest"
    using "2.prems"(1) by (auto split: if_splits option.splits)
  then show ?case
  proof cases
    case 1
    let ?f = "if \<not> d then dump_registers e trapno error_code t else restore_screen e"
    have "covered e m0 (gm (stub (on_mem ?f s)))"
      using "2.prems"(2,3) by (simp add: dump_registers_covered restore_screen_covered(1))
    then obtain m where "trap_loop e cr0 trapno error_code t (\<not> d) cs' (on_mem ?f s) = Some (T_return, rest, on_mem (\<lambda>_. m) (on_mem ?f s))"
      "\<forall>x. x \<notin> block (video_at e) 4000 \<longrightarrow> m x = m0 x"
      using "2.IH"(1) [OF 1(1,2) 1(3) "2.prems"(2)] by blast
    then show ?thesis using 1(1,2) by (auto simp: Let_def)
  next
    case 2
    have "on_mem (\<lambda>_. restore_screen e (gm (stub s))) s = on_mem (restore_screen e) s" by (simp add: on_mem_def)
    then show ?thesis using 2 restore_screen_covered(2) [OF "2.prems"(2,3)] by (intro exI [of _ "restore_screen e (gm (stub s))"]) simp
  next
    case 3
    then show ?thesis using "2.IH"(2) [OF 3(1,2) _ 3(5) "2.prems"(2,3), of d] by simp
  qed
qed simp

text \<open>
  C27: A trap without a debugger, whatever its registers and however often the dump is hidden and shown again: when the keys leave the
  screen, the handler returns, and the memory is as it was, the screen included, but for its own buffer.
\<close>

theorem trap_screen_restored:
  assumes "\<not> do_debug s" "video_apart e" "quits keys = Some rest"
  shows "\<exists>m. trap_handler e tr cr0 trapno error_code keys s = Some (T_return, rest, on_mem (\<lambda>_. m) s)
    \<and> (\<forall>x. x \<notin> block (video_at e) 4000 \<longrightarrow> m x = gm (stub s) x)"
proof -
  define t where "t = tss_sel_2_tss e (gm (stub s)) (ucast (load32 (gm (stub s)) (tss_sel_2_tss e (gm (stub s)) tr)))"
  let ?s = "on_mem (dump_registers e trapno error_code t) (on_mem (save_screen e) s)"
  have "covered e (gm (stub s)) (gm (stub ?s))"
    using dump_registers_covered [OF assms(2) save_screen_covered [OF assms(2)]] by simp
  from trap_loop_quits [OF assms(3,2) this] obtain m
    where "trap_loop e cr0 trapno error_code t True keys ?s = Some (T_return, rest, on_mem (\<lambda>_. m) ?s)"
      "\<forall>x. x \<notin> block (video_at e) 4000 \<longrightarrow> m x = gm (stub s) x" by blast
  then show ?thesis using assms(1) by (auto simp: trap_handler_def Let_def t_def)
qed


section \<open>The registers of the task\<close>












section \<open>Examples\<close>

definition demo_env :: dbg_env where
  "demo_env = \<lparr>gdt_addr = 0x10000, state_at = 0x5000, ptrs_at = 0x6000, inbuf_at = 0x7000, outbuf_at = 0x8000, video_at = 0x9000,
     dump_text = 0xa000\<rparr>"

text \<open>The other side acknowledges the report and detaches.\<close>

definition demo_dbg :: dbg where
  "demo_dbg = \<lparr>stub = \<lparr>gm = wr (\<lambda>_. 0) 0x4020 [0x99], rx = 43 # packet_of [68] @ [43], tx = [], connected = False, gdb_serial_debug = False,
     client_cr0 = 0, client_cr3 = 0, signo = 0, regs_changed = False\<rparr>, do_debug = False\<rparr>"


lemma demo_apart: "block 0x4000 104 \<inter> block (state_at demo_env) 64 = {}" "video_apart demo_env"
proof -
  have "block (0x4000 :: u32) 104 \<subseteq> block 0x4000 0x1000" by (rule block_mono) simp
  then show "block 0x4000 104 \<inter> block (state_at demo_env) 64 = {}"
    using block_split_disjoint [of "0x1000" 64 "0x4000"] by (auto simp: demo_env_def)
  have "block (0x9000 :: u32) 4000 \<subseteq> block 0x9000 0xaf000" by (rule block_mono) simp
  then show "video_apart demo_env"
    using block_split_disjoint [of "0xaf000" 4000 "0x9000"] by (auto simp: demo_env_def video_apart_def screen_base_def)
qed


theorem trap_screen_restored_witness:
  "\<exists>m. trap_handler demo_env 0x50 0 13 0 [0x39, 0xb9, 0x39, 0xb9, 0x17, 0x97, 0x1e] demo_dbg = Some (T_return, [0x1e], on_mem (\<lambda>_. m) demo_dbg)
    \<and> m 0x4020 = 0x99"
proof -
  have "quits [0x39, 0xb9, 0x39, 0xb9, 0x17, 0x97, 0x1e] = Some [0x1e]" by code_simp
  moreover have "\<not> do_debug demo_dbg" by (simp add: demo_dbg_def)
  ultimately obtain m where m: "trap_handler demo_env 0x50 0 13 0 [0x39, 0xb9, 0x39, 0xb9, 0x17, 0x97, 0x1e] demo_dbg = Some (T_return, [0x1e], on_mem (\<lambda>_. m) demo_dbg)"
    "\<forall>x. x \<notin> block (video_at demo_env) 4000 \<longrightarrow> m x = gm (stub demo_dbg) x" using trap_screen_restored demo_apart(2) by blast
  moreover have "(0x4020 :: u32) \<notin> block (video_at demo_env) 4000" by (simp add: in_block demo_env_def)
  moreover have "gm (stub demo_dbg) 0x4020 = 0x99" by (simp add: demo_dbg_def)
  ultimately show ?thesis by metis
qed

end
