(* ===== verification/Clock_Text.thy ===== *)
theory Clock_Text
  imports Console_Props
begin

text \<open>
  The text that the timer interrupt prints: what \<^verbatim>\<open>sprintf\<close> makes of the format \<^verbatim>\<open>%02ld:%02ld:%02ld\<close>.
\<close>

section \<open>Two digits\<close>

definition two_digits :: "u32 \<Rightarrow> u8 list" where
  "two_digits n = [48 + ucast (n div 10), 48 + ucast (n mod 10)]"

lemma two_digits_small:
  assumes "n < 100"
  shows "0 \<le> sint n" "num_digits n 10 [] = Some (if n < 10 then tl (two_digits n) else two_digits n)" "n < 10 \<Longrightarrow> hd (two_digits n) = 48"
    "\<forall>c \<in> set (two_digits n). printable c"
proof -
  have "list_all (\<lambda>k. let n = of_nat k in 0 \<le> sint n \<and> num_digits n 10 [] = Some (if n < 10 then tl (two_digits n) else two_digits n)
    \<and> (n < 10 \<longrightarrow> hd (two_digits n) = 48) \<and> list_all printable (two_digits n)) [0..<100]" by code_simp
  moreover have "unat n < 100" using assms by (simp add: word_less_nat_alt)
  ultimately have "let n = of_nat (unat n) in 0 \<le> sint n \<and> num_digits n 10 [] = Some (if n < 10 then tl (two_digits n) else two_digits n)
    \<and> (n < 10 \<longrightarrow> hd (two_digits n) = 48) \<and> list_all printable (two_digits n)"
    unfolding list_all_iff by (elim ballE [of _ _ "unat n"]) simp_all
  then show "0 \<le> sint n" "num_digits n 10 [] = Some (if n < 10 then tl (two_digits n) else two_digits n)" "n < 10 \<Longrightarrow> hd (two_digits n) = 48"
    "\<forall>c \<in> set (two_digits n). printable c" by (simp_all add: Let_def list_all_iff)
qed

lemma print_num_two:
  assumes "n < 100"
  shows "print_num putc (fspec0\<lparr>padc := 48, flength := 2\<rparr>) 0 n 10 s = Some (put_list putc (two_digits n) s)"
proof (cases "n < 10")
  case True
  have "two_digits n = [48, 48 + ucast (n mod 10)]" using two_digits_small(3) [OF assms True] by (simp add: two_digits_def)
  then show ?thesis using two_digits_small(2) [OF assms] True by (simp add: print_num_def fspec0_def pad_loop_def put_list_def Let_def)
next
  case False
  then show ?thesis using two_digits_small(2) [OF assms] by (simp add: print_num_def fspec0_def pad_loop_def put_list_def Let_def two_digits_def)
qed

lemma doprnt_02ld:
  assumes "rdm s fmt = 37" "rdm s (fmt + 1) = 48" "rdm s (fmt + 2) = 50" "rdm s (fmt + 3) = 108" "rdm s (fmt + 4) = 100"
    and "load32 (rdm s) args < 100"
  shows "doprnt putc rdm radix fmt args s = doprnt putc rdm radix (fmt + 5) (args + 4) (put_list putc (two_digits (load32 (rdm s) args)) s)"
proof -
  let ?f = "fspec0\<lparr>padc := 48, flength := 2\<rparr>"
  have flags: "parse_flags (rdm s) (fmt + 1) fspec0 = Some (fmt + 1, fspec0)" using assms(2) by (subst parse_flags.simps) simp
  have "parse_int (rdm s) (fmt + 3) 2 = Some (fmt + 3, 2)" using assms(4) by (subst parse_int.simps) (simp add: isdigit_def)
  then have width: "parse_int (rdm s) (fmt + 2) 0 = Some (fmt + 3, 2)"
    using assms(3) by (subst parse_int.simps) (simp add: isdigit_def add.assoc)
  have "parse_spec (rdm s) (fmt + 1) args = Some (fmt + 4, args, ?f)"
    using assms(2-5) by (simp add: parse_spec_def flags width isdigit_def add.assoc)
  moreover have "convert putc rdm radix ?f (fmt + 4) args s = Some (fmt + 4, args + 4, put_list putc (two_digits (load32 (rdm s) args)) s)"
    using assms(5) two_digits_small(1) [OF assms(6)] print_num_two [OF assms(6), of putc s]
    by (simp add: convert_def print_signed_def fspec0_def Let_def)
  ultimately show ?thesis using assms(1) by (subst doprnt.simps) (simp add: add.assoc)
qed


section \<open>The time\<close>

definition time_format :: "u8 list" where
  "time_format = bytes ''%02ld:%02ld:%02ld'' @ [0]"

definition time_text :: "u32 \<Rightarrow> u32 \<Rightarrow> u32 \<Rightarrow> u8 list" where
  "time_text h mi se = two_digits h @ [58] @ two_digits mi @ [58] @ two_digits se"

lemma time_format_bytes: "time_format = [37, 48, 50, 108, 100, 58, 37, 48, 50, 108, 100, 58, 37, 48, 50, 108, 100, 0]"
  by code_simp

lemma length_time_text [simp]: "length (time_text h mi se) = 8"
  by (simp add: time_text_def two_digits_def)

lemma time_text_printable: "h < 100 \<Longrightarrow> mi < 100 \<Longrightarrow> se < 100 \<Longrightarrow> \<forall>c \<in> set (time_text h mi se). printable c"
  using two_digits_small(4) by (auto simp: time_text_def printable_def)

text \<open>The state of \<^verbatim>\<open>sprintf\<close> after the characters \<open>xs\<close>.\<close>

definition printed :: "u32 \<Rightarrow> mem \<Rightarrow> u8 list \<Rightarrow> sprintf_state" where
  "printed ts m xs = \<lparr>sbuf = ts + of_nat (length xs), slen = of_nat (length xs), smax = SPRINTF_UNLIMITED, smem = wr m ts xs\<rparr>"

lemma put_list_printed: "put_list savechar ys (printed ts m xs) = printed ts m (xs @ ys)"
  by (simp add: put_list_savechar printed_def wr_append add.assoc)

lemma printed_keeps: "length xs \<le> 8 \<Longrightarrow> a \<notin> block ts 9 \<Longrightarrow> smem (printed ts m xs) a = m a"
  using block_mono [of "length xs" 9 ts] by (auto simp: printed_def intro!: wr_other)

text \<open>One conversion, and the colon.\<close>

lemma printed_02ld:
  assumes "length xs \<le> 8" "load32 m args < 100" "block args 4 \<inter> block ts 9 = {}"
    and "\<forall>k < 5. m (fmt + of_nat k) = [37, 48, 50, 108, 100] ! k \<and> fmt + of_nat k \<notin> block ts 9"
  shows "doprnt savechar smem 0 fmt args (printed ts m xs) = doprnt savechar smem 0 (fmt + 5) (args + 4) (printed ts m (xs @ two_digits (load32 m args)))"
proof -
  let ?s = "printed ts m xs"
  have byte: "smem ?s (fmt + of_nat k) = [37, 48, 50, 108, 100] ! k" if "k < 5" for k
    using printed_keeps [OF assms(1)] assms(4) that by simp
  have "load32 (smem ?s) args = load32 m args"
    by (rule load32_same, rule printed_keeps [OF assms(1)]) (use assms(3) in blast)
  then show ?thesis
    using doprnt_02ld [of smem ?s fmt args savechar 0] byte [of 0] byte [of 1] byte [of 2] byte [of 3] byte [of 4] assms(2)
    by (simp add: put_list_printed)
qed

lemma printed_colon:
  assumes "length xs \<le> 8" "m fmt = 58" "fmt \<notin> block ts 9"
  shows "doprnt savechar smem 0 fmt args (printed ts m xs) = doprnt savechar smem 0 (fmt + 1) args (printed ts m (xs @ [58]))"
  using printed_keeps [OF assms(1,3), of m] assms(2) put_list_printed [of "[58]" ts m xs]
  by (subst doprnt.simps) (simp add: put_list_def)

lemma sprintf_time:
  assumes fmt: "rd m fmt 18 = time_format" and small: "load32 m args < 100" "load32 m (args + 4) < 100" "load32 m (args + 8) < 100"
    and apart: "block fmt 18 \<inter> block ts 9 = {}" "block args 12 \<inter> block ts 9 = {}"
  shows "sprintf ts fmt args m = Some (8, wr m ts (time_text (load32 m args) (load32 m (args + 4)) (load32 m (args + 8)) @ [0]))"
proof -
  have byte: "m (fmt + of_nat k) = time_format ! k" "fmt + of_nat k \<notin> block ts 9" if "k < 18" for k
  proof -
    show "m (fmt + of_nat k) = time_format ! k" using nth_rd [OF that, of m fmt] fmt by simp
    have "fmt + of_nat k \<in> block fmt 18" using that by (simp add: in_block unat_of_nat_less)
    then show "fmt + of_nat k \<notin> block ts 9" using apart(1) by blast
  qed
  have conv: "\<forall>k < 5. m (fmt + of_nat i + of_nat k) = [37, 48, 50, 108, 100] ! k \<and> fmt + of_nat i + of_nat k \<notin> block ts 9"
    if "i \<in> {0, 6, 12}" for i
  proof (intro allI impI)
    fix k :: nat assume k: "k < 5"
    have "time_format ! (i + k) = [37, 48, 50, 108, 100] ! k"
      using that k by (auto simp: time_format_bytes less_Suc_eq numeral_eq_Suc)
    then show "m (fmt + of_nat i + of_nat k) = [37, 48, 50, 108, 100] ! k \<and> fmt + of_nat i + of_nat k \<notin> block ts 9"
      using byte [of "i + k"] that k by (auto simp: add.assoc)
  qed
  have arg: "block (args + of_nat j) 4 \<inter> block ts 9 = {}" if "j \<le> 8" for j
    using block_shift [of "of_nat j" 4 12 args] that apart(2) by (auto simp: unat_of_nat_less)
  let ?d = "doprnt savechar smem 0" and ?a = "two_digits (load32 m args)" and ?b = "two_digits (load32 m (args + 4))" and ?c = "two_digits (load32 m (args + 8))"
  have l: "length ?a = 2" "length ?b = 2" by (simp_all add: two_digits_def)
  have "?d fmt args (printed ts m []) = ?d (fmt + 5) (args + 4) (printed ts m ?a)"
    using printed_02ld [of "[]" m args ts fmt] small conv [of 0] arg [of 0] by simp
  also have "\<dots> = ?d (fmt + 6) (args + 4) (printed ts m (?a @ [58]))"
    using printed_colon [of ?a m "fmt + 5" ts] byte [of 5] l by (simp add: time_format_bytes add.assoc)
  also have "\<dots> = ?d (fmt + 11) (args + 8) (printed ts m (?a @ [58] @ ?b))"
    using printed_02ld [of "?a @ [58]" m "args + 4" ts "fmt + 6"] small conv [of 6] arg [of 4] l by (simp add: add.assoc)
  also have "\<dots> = ?d (fmt + 12) (args + 8) (printed ts m (?a @ [58] @ ?b @ [58]))"
    using printed_colon [of "?a @ [58] @ ?b" m "fmt + 11" ts] byte [of 11] l by (simp add: time_format_bytes add.assoc)
  also have "\<dots> = ?d (fmt + 17) (args + 12) (printed ts m (?a @ [58] @ ?b @ [58] @ ?c))"
    using printed_02ld [of "?a @ [58] @ ?b @ [58]" m "args + 8" ts "fmt + 12"] small conv [of 12] arg [of 8] l by (simp add: add.assoc)
  also have "\<dots> = Some (printed ts m (time_text (load32 m args) (load32 m (args + 4)) (load32 m (args + 8))))"
    unfolding time_text_def
    by (rule sdev.doprnt_end) (use printed_keeps [of "time_text (load32 m args) (load32 m (args + 4)) (load32 m (args + 8))" "fmt + 17" ts m] byte [of 17]
      in \<open>simp add: time_text_def two_digits_def time_format_bytes\<close>)
  finally show ?thesis by (simp add: sprintf_def vsprintf_def printed_def wr_snoc del: fun_upd_apply)
qed


section \<open>Showing it\<close>

lemma putbytes_at_cells:
  assumes "\<forall>c \<in> set cs. printable c" "unat x + length cs < 80" "unat y < 25"
  shows "\<forall>j < 2000. cell (pmem (console_putbytes_at clock cs x y d)) j =
      (let k = unat y * 80 + unat x in if k \<le> j \<and> j < k + length cs then pack_char (cs ! (j - k)) CONSOLE_WHITE CONSOLE_BLACK else cell (pmem d) j)"
    and "col (console_putbytes_at clock cs x y d) = col d" "lig (console_putbytes_at clock cs x y d) = lig d"
proof -
  let ?d = "d\<lparr>col := x, lig := y, ct := CONSOLE_WHITE, cf := CONSOLE_BLACK\<rparr>"
  obtain d' where "console_putbytes clock cs ?d = (None, d')" "\<forall>j < 2000. cell (pmem d') j =
      (let k = unat y * 80 + unat x in if k \<le> j \<and> j < k + length cs then pack_char (cs ! (j - k)) CONSOLE_WHITE CONSOLE_BLACK else cell (pmem d) j)"
    using console_text_ok [of ?d cs clock] assms by (auto simp: on_screen_simps Let_def)
  then show "\<forall>j < 2000. cell (pmem (console_putbytes_at clock cs x y d)) j =
      (let k = unat y * 80 + unat x in if k \<le> j \<and> j < k + length cs then pack_char (cs ! (j - k)) CONSOLE_WHITE CONSOLE_BLACK else cell (pmem d) j)"
    "col (console_putbytes_at clock cs x y d) = col d" "lig (console_putbytes_at clock cs x y d) = lig d"
    by (simp_all add: console_putbytes_at_def restore_state_def Let_def)
qed

lemma red_cross_cells:
  "j < 2000 \<Longrightarrow> cell (pmem (console_draw_red_cross clock d)) j = (if j = 79 then pack_char 88 CONSOLE_WHITE CONSOLE_RED else cell (pmem d) j)"
  "col (console_draw_red_cross clock d) = col d" "lig (console_draw_red_cross clock d) = lig d"
proof -
  have "char_addr 79 0 = cell_addr 79" by (simp add: char_addr_cell)
  then show "col (console_draw_red_cross clock d) = col d" "lig (console_draw_red_cross clock d) = lig d"
    "j < 2000 \<Longrightarrow> cell (pmem (console_draw_red_cross clock d)) j = (if j = 79 then pack_char 88 CONSOLE_WHITE CONSOLE_RED else cell (pmem d) j)"
    by (simp_all add: console_draw_red_cross_def handle_char_def wrap_cursor_def restore_state_def store_cell CONSOLE_COL_def CONSOLE_LIG_def Let_def)
qed

lemma check_buzzer_cells: "pmem (check_buzzer clock d) = pmem d" "col (check_buzzer clock d) = col d" "lig (check_buzzer clock d) = lig d"
  by (simp_all add: check_buzzer_def stop_beep_def outb_def inb_def Let_def)

end
