(* ===== verification/Clock.thy ===== *)
theory Clock
  imports Kernel_Funs Clock_Text
begin



section \<open>The clock on the screen\<close>











end
