(* ===== verification/Shell.thy ===== *)
theory Shell
  imports Fat16 Doprnt_Props
begin

text \<open>
  The user programs: the loop of \<^verbatim>\<open>user/shell.c\<close> that reads a line and runs what it names, its commands on files, and the music player
  of \<^verbatim>\<open>user/play.c\<close>.

  A program acts on the system by system calls. The calls on files are those of the model of the file system, on the memory of the
  program; the other calls are events, in their order. The tables of names are the addresses of their strings.
\<close>

section \<open>The line\<close>

text \<open>A loop over a table: the index of the first name equal to the string at \<open>p\<close>.\<close>

primrec find_name :: "u32 list \<Rightarrow> u32 \<Rightarrow> mem \<Rightarrow> nat option option" where
  "find_name [] p m = Some None"
| "find_name (q # qs) p m = do {
     d \<leftarrow> strcmp m q p;
     if d = 0 then Some (Some 0) else map_option (map_option Suc) (find_name qs p m) }"

definition keyword_names :: "string list" where
  "keyword_names = [''ps'', ''clear'', ''uptime'', ''test'', ''sys_info'', ''reboot'', ''help'', ''logo'', ''beep'', ''ping'', ''exit'']"

definition command_names :: "string list" where
  "command_names = [''echo'', ''cd'', ''ls'', ''cat'', ''play'']"

text \<open>
  One round of the loop after the line has been read to \<open>buf\<close>: the keyword and the command to run, with the address of its argument;
  \<open>none\<close> is the address of \<^verbatim>\<open>NONE\<close>. No keyword changes the buffer.
\<close>

definition shell_line :: "u32 list \<Rightarrow> u32 list \<Rightarrow> u32 \<Rightarrow> u32 \<Rightarrow> mem \<Rightarrow> (nat option \<times> (nat \<times> u32) option \<times> mem) option" where
  "shell_line keywords commands none buf m = do {
     firstWord \<leftarrow> strchr m buf 32;
     let m = (if firstWord \<noteq> 0 then m(firstWord := 0) else m);
     k \<leftarrow> find_name keywords buf m;
     c \<leftarrow> find_name commands buf m;
     Some (k, map_option (\<lambda>i. (i, if firstWord \<noteq> 0 then firstWord + 1 else none)) c, m) }"

section \<open>Music\<close>

datatype figures = RO | BP | BL | NP | NO | CP | CR | DC
datatype pauses = PA | DP | SO | DS | QS | HS

text \<open>
  A beep has a frequency, the length \<^verbatim>\<open>60000 / tempo - 100\<close> of a beat in milliseconds and the figure by whose factor it is
  multiplied; a silence likewise. No figure stands for the factor -1. A beep is followed by a tenth of a second of silence.
\<close>

datatype uevent =
  U_write "u8 list"
| U_printf string u32
| U_echo int
| U_beep int int "figures option"
| U_gap
| U_silence int "pauses option"
| U_entry bool u32 "nat list" "u8 list"

definition low_notes :: "int list" where "low_notes = [262, 277, 294, 311, 330, 349, 370, 392, 415, 440, 466, 494]"
definition medium_notes :: "int list" where "medium_notes = [523, 554, 587, 622, 659, 698, 740, 784, 831, 880, 932, 988]"
definition high_notes :: "int list" where "high_notes = [1046, 1109, 1175, 1244, 1318, 1397, 1480, 1568, 1661, 1760, 1865, 1975]"

text \<open>The enumeration of the notes.\<close>

definition note_index :: "u8 \<Rightarrow> int option" where
  "note_index c = map_of [(67, 0), (68, 2), (69, 4), (70, 5), (71, 7), (65, 9), (66, 11)] c"

text \<open>\<open>None\<close> is a read outside the array, \<open>Some None\<close> an unknown note.\<close>

definition note_of :: "u8 \<Rightarrow> u8 \<Rightarrow> u8 \<Rightarrow> int option option" where
  "note_of letter accident octave =
     (let scale = (if octave = 49 then low_notes else if octave = 50 then medium_notes else high_notes);
          accidental = (if accident = 66 then -1 else if accident = 68 then 1 else 0)
      in case note_index letter of None \<Rightarrow> Some None
         | Some n \<Rightarrow> if 0 \<le> n + accidental \<and> n + accidental < 12 then Some (Some (scale ! nat (n + accidental))) else None)"

definition figure_of :: "u8 \<Rightarrow> u8 \<Rightarrow> figures option" where
  "figure_of a b =
     (if a = 82 then Some RO
      else if a = 66 then Some (if b = 76 then BL else BP)
      else if a = 78 then Some (if b = 79 then NO else NP)
      else if a = 67 then Some (if b = 82 then CR else CP)
      else if a = 68 then Some DC
      else None)"

definition pause_of :: "u8 \<Rightarrow> u8 \<Rightarrow> pauses option" where
  "pause_of a b =
     (if a = 80 then Some PA
      else if a = 68 then Some (if b = 80 then DP else DS)
      else if a = 83 then Some SO
      else if a = 81 then Some QS
      else if a = 72 then Some HS
      else None)"

text \<open>Division by a tempo of zero faults. \<open>nc\<close> and \<open>fc\<close> are the local arrays.\<close>

definition play_note :: "u32 \<Rightarrow> u32 \<Rightarrow> int \<Rightarrow> u32 \<Rightarrow> mem \<Rightarrow> (uevent list \<times> mem) option" where
  "play_note nc fc tempo line m = do {
     let m = snd (strncpy nc line 3 m);
     let m = snd (strncpy fc (line + 4) 2 m);
     note \<leftarrow> note_of (m nc) (m (nc + 1)) (m (nc + 2));
     case note of None \<Rightarrow> Some ([U_printf ''Incorrect line %.7s .'' line], m)
     | Some f \<Rightarrow>
         if tempo = 0 then None
         else Some ([U_beep f (c_div 60000 tempo - 100) (figure_of (m fc) (m (fc + 1))), U_gap], m) }"

definition wait_silence :: "int \<Rightarrow> u32 \<Rightarrow> mem \<Rightarrow> uevent list option" where
  "wait_silence tempo line m =
     (if tempo = 0 then None else Some [U_silence (c_div 60000 tempo - 100) (pause_of (m (line + 2)) (m (line + 3)))])"

definition decode_music_line :: "u32 \<Rightarrow> u32 \<Rightarrow> int \<Rightarrow> u32 \<Rightarrow> mem \<Rightarrow> (int \<times> uevent list \<times> mem) option" where
  "decode_music_line nc fc tempo line m =
     (if m line = 84 then do { (v, m) \<leftarrow> strtoul (line + 2) 0 10 m; Some (sint v, [], m) }
      else if tempo = -1 then Some (tempo, [U_printf ''Non set tempo.'' 0], m)
      else if m line = 80 then do { es \<leftarrow> wait_silence tempo line m; Some (tempo, es, m) }
      else do { (es, m) \<leftarrow> play_note nc fc tempo line m; Some (tempo, es, m) })"

text \<open>The loop over the lines of a file of \<open>n\<close> bytes at \<open>buffer\<close>; \<open>eol\<close> is the address before the line.\<close>

partial_function (option) play_loop :: "u32 \<Rightarrow> u32 \<Rightarrow> u32 \<Rightarrow> u32 \<Rightarrow> u32 \<Rightarrow> int \<Rightarrow> mem \<Rightarrow> (int \<times> uevent list \<times> mem) option" where
  "play_loop nc fc buffer n eol tempo m =
     (if eol \<noteq> 0 \<and> eol < buffer + n then do {
        (tempo, es, m) \<leftarrow> decode_music_line nc fc tempo (eol + 1) m;
        eol \<leftarrow> strchr m (eol + 1) 10;
        (tempo, es', m) \<leftarrow> play_loop nc fc buffer n eol tempo m;
        Some (tempo, es @ es', m) }
      else Some (tempo, [], m))"

section \<open>Files\<close>

text \<open>
  \<open>f\<close> is the address of a \<^verbatim>\<open>FILE\<close>, \<open>lv\<close> that of a variable of the kernel; the directory is the number of its first cluster.
\<close>

partial_function (option) find_file_loop :: "disk_t \<Rightarrow> u32 \<Rightarrow> u32 \<Rightarrow> u32 \<Rightarrow> u32 \<Rightarrow> fstate \<Rightarrow> (bool \<times> fstate) option" where
  "find_file_loop d dir f name i s = do {
     (n, s) \<leftarrow> fat_fs_list d dir f 1 i s;
     if sint n \<le> 0 then Some (False, s)
     else do {
       c \<leftarrow> strcmp (fm s) name f;
       if c = 0 then Some (True, s) else find_file_loop d dir f name (i + 1) s } }"

definition find_file :: "disk_t \<Rightarrow> u32 \<Rightarrow> u32 \<Rightarrow> u32 \<Rightarrow> fstate \<Rightarrow> (bool \<times> fstate) option" where
  "find_file d pwd f name s = find_file_loop d pwd f name 0 s"

definition is_directory :: "u32 \<Rightarrow> mem \<Rightarrow> bool" where
  "is_directory f m \<longleftrightarrow> load32 m (f + 36) AND 0x10 \<noteq> 0"

text \<open>The condition that \<^verbatim>\<open>cd\<close>, \<^verbatim>\<open>cat\<close> and \<^verbatim>\<open>play\<close> share: a name is given, the file exists and is, or is not, a directory.\<close>

definition named_file :: "disk_t \<Rightarrow> u32 \<Rightarrow> u32 \<Rightarrow> u32 \<Rightarrow> bool \<Rightarrow> fstate \<Rightarrow> (bool \<times> fstate) option" where
  "named_file d pwd f path dir s =
     (if path \<noteq> 0 \<and> fm s path \<noteq> 0 then do {
        (found, s) \<leftarrow> find_file d pwd f path s;
        Some (found \<and> is_directory f (fm s) = dir, s) }
      else Some (False, s))"

definition shell_cd :: "disk_t \<Rightarrow> u32 \<Rightarrow> u32 \<Rightarrow> u32 \<Rightarrow> fstate \<Rightarrow> (u32 \<times> uevent list \<times> fstate) option" where
  "shell_cd d pwd f path s = do {
     (ok, s) \<leftarrow> named_file d pwd f path True s;
     Some (if ok then (load32 (fm s) (f + 56), [], s) else (pwd, [U_write (bytes ''Directory not found'' @ [10])], s)) }"

text \<open>A buffer of a screen, 2000 bytes, is cleared, filled and written until the file ends.\<close>

partial_function (option) cat_loop :: "disk_t \<Rightarrow> u32 \<Rightarrow> u32 \<Rightarrow> u32 \<Rightarrow> u32 \<Rightarrow> fstate \<Rightarrow> (uevent list \<times> fstate) option" where
  "cat_loop d lv f buf offset s =
     (if offset < load32 (fm s) (f + 32) then do {
        let s = set_fm (snd (memset buf 0 2000 (fm s))) s;
        (n, s) \<leftarrow> fat_fs_read d lv buf f offset 2000 s;
        if sint n \<le> 0 then Some ([], s)
        else do {
          let e = U_write (rd (fm s) buf (unat n));
          (es, s) \<leftarrow> cat_loop d lv f buf (offset + 2000) s;
          Some (e # es, s) } }
      else Some ([], s))"

definition shell_cat :: "disk_t \<Rightarrow> u32 \<Rightarrow> u32 \<Rightarrow> u32 \<Rightarrow> u32 \<Rightarrow> u32 \<Rightarrow> fstate \<Rightarrow> (uevent list \<times> fstate) option" where
  "shell_cat d lv pwd f buf path s = do {
     (ok, s) \<leftarrow> named_file d pwd f path False s;
     if ok then cat_loop d lv f buf 0 s else Some ([U_write (bytes ''File not found'' @ [10])], s) }"

text \<open>The fields of a line of \<^verbatim>\<open>ls\<close>: the date is day, month, year, hour and minutes.\<close>

definition ls_entry :: "u32 \<Rightarrow> mem \<Rightarrow> uevent option" where
  "ls_entry f m = do {
     n \<leftarrow> strlen m f;
     let time = load16 m (f + 46);
     let date = load16 m (f + 48);
     Some (U_entry (is_directory f m) (load32 m (f + 32))
       [unat (date AND 0x1f), unat (drop_bit 5 date AND 0xf), unat (drop_bit 9 date AND 0x7f) + 1980,
        unat (drop_bit 11 time AND 0x1f), unat (drop_bit 5 time AND 0x3f)] (rd m f (unat n))) }"

primrec ls_entries :: "nat \<Rightarrow> u32 \<Rightarrow> mem \<Rightarrow> uevent list option" where
  "ls_entries 0 f m = Some []"
| "ls_entries (Suc n) f m = do { e \<leftarrow> ls_entry f m; es \<leftarrow> ls_entries n (f + 64) m; Some (e # es) }"

text \<open>A path that is not a directory is reported, and the current directory is listed.\<close>

definition shell_ls :: "disk_t \<Rightarrow> u32 \<Rightarrow> u32 \<Rightarrow> u32 \<Rightarrow> fstate \<Rightarrow> (uevent list \<times> fstate) option" where
  "shell_ls d pwd files path s = do {
     let given = (path \<noteq> 0 \<and> fm s path \<noteq> 0);
     (ok, s) \<leftarrow> named_file d pwd files path True s;
     let root = (if ok then load32 (fm s) (files + 56) else pwd);
     let es = (if given \<and> \<not> ok then [U_write (bytes ''Directory not found'' @ [10])] else []);
     (n, s) \<leftarrow> fat_fs_list d root files 20 0 s;
     es' \<leftarrow> ls_entries (nat (sint n)) files (fm s);
     Some (es @ es', s) }"

text \<open>\<open>buffer\<close> is what the allocator returns.\<close>

definition shell_play :: "disk_t \<Rightarrow> u32 \<Rightarrow> u32 \<Rightarrow> u32 \<Rightarrow> u32 \<Rightarrow> u32 \<Rightarrow> u32 \<Rightarrow> u32 \<Rightarrow> int \<Rightarrow> fstate \<Rightarrow> (int \<times> uevent list \<times> fstate) option" where
  "shell_play d lv nc fc pwd f buffer path tempo s = do {
     (ok, s) \<leftarrow> named_file d pwd f path False s;
     if ok then do {
       let n = load32 (fm s) (f + 32);
       (_, s) \<leftarrow> fat_fs_read d lv buffer f 0 n s;
       (tempo, es, m) \<leftarrow> play_loop nc fc buffer n (buffer - 1) tempo (fm s);
       Some (tempo, es, set_fm m s) }
     else Some (tempo, [U_write (bytes ''File not found'' @ [10])], s) }"

section \<open>Echo\<close>

text \<open>Here the strings are compared in the other order, with the same result when they are equal.\<close>

definition echo_args :: "(string \<times> int) list" where
  "echo_args = [(''0'', 0), (''1'', 1), (''on'', 1), (''off'', 0)]"

definition shell_echo :: "u32 list \<Rightarrow> u32 \<Rightarrow> mem \<Rightarrow> uevent option" where
  "shell_echo names arg m = do {
     k \<leftarrow> find_name names arg m;
     Some (case k of Some i \<Rightarrow> U_echo (snd (echo_args ! i)) | None \<Rightarrow> U_printf ''Invalid arg'' 0) }"

end
