(* ===== verification/Shell_Props.thy ===== *)
theory Shell_Props
  imports Shell
begin

text \<open>
  The shell runs the keyword or the command that the first word of the line names, with the rest of the line as its argument; the player
  reads the tables of notes within their bounds but for two notes.
\<close>

section \<open>Words\<close>

primrec index_of :: "'a \<Rightarrow> 'a list \<Rightarrow> nat option" where
  "index_of x [] = None"
| "index_of x (y # ys) = (if x = y then Some 0 else map_option Suc (index_of x ys))"

lemma find_name_ok:
  assumes "list_all2 (cstr m) qs ns" "cstr m p w"
  shows "find_name qs p m = Some (index_of w ns)"
  using assms(1)
proof (induction qs ns rule: list_all2_induct)
  case (Cons q qs n ns)
  obtain d where "strcmp m q p = Some d" "d = 0 \<longleftrightarrow> n = w" using strcmp_step [OF Cons(1) assms(2)] by blast
  then show ?case using Cons by auto
qed simp

lemma strchr_ok:
  assumes "cstr m a xs" "(ucast c :: u8) \<noteq> 0"
  shows "strchr m a c = Some (if ucast c \<in> set xs then a + of_nat (length (takeWhile (\<lambda>x. x \<noteq> ucast c) xs)) else 0)"
  using assms(1)
proof (induction xs arbitrary: a)
  case Nil then show ?case using assms(2) by (subst strchr.simps) simp
next
  case (Cons x xs)
  then have "m a = x" "x \<noteq> 0" "strchr m (a + 1) c = Some (if ucast c \<in> set xs then a + 1 + of_nat (length (takeWhile (\<lambda>x. x \<noteq> ucast c) xs)) else 0)"
    by simp_all
  then show ?case by (subst strchr.simps) (auto simp: add.assoc)
qed

definition first_word :: "u8 list \<Rightarrow> u8 list" where
  "first_word line = takeWhile (\<lambda>x. x \<noteq> 32) line"

definition rest_of_line :: "u8 list \<Rightarrow> u8 list" where
  "rest_of_line line = drop (Suc (length (first_word line))) line"

lemma first_word_shorter: "32 \<in> set line \<Longrightarrow> length (first_word line) < length line"
  unfolding first_word_def by (induction line) auto

text \<open>Strings elsewhere survive the terminator that is written into the line.\<close>

lemma names_survive:
  assumes "list_all2 (cstr m) qs ns" "\<forall>n \<in> set ns. length n < 100"
    and "\<forall>q \<in> set qs. block q 100 \<inter> block buf 80 = {}" "p \<in> block buf 80"
  shows "list_all2 (cstr (m(p := 0))) qs ns"
  using assms
proof (induction qs ns rule: list_all2_induct)
  case (Cons q qs n ns)
  have "block q (Suc (length n)) \<subseteq> block q 100" using Cons.prems(1) by (intro block_mono) simp
  then have "p \<notin> block q (Suc (length n))" using Cons.prems by auto
  then have "cstr (m(p := 0)) q n = cstr m q n" using Cons.prems(1) by (intro cstr_cong) auto
  then have "cstr (m(p := 0)) q n" using Cons(1) by blast
  moreover have "list_all2 (cstr (m(p := 0))) qs ns" using Cons.prems by (intro Cons(3)) simp_all
  ultimately show ?case by (intro list_all2_Cons [THEN iffD2] conjI)
qed simp

text \<open>
  C31: A line of fewer than 80 characters runs the keyword equal to its first word and the command equal to it, each if there is one; the
  command gets the rest of the line, or the empty string if the line is a single word.
\<close>

theorem shell_runs_line:
  assumes line: "cstr m buf line" "length line < 80" and zero: "0 \<notin> block buf 80" "cstr m none []"
    and kws: "list_all2 (cstr m) keywords (map bytes keyword_names)" and cmds: "list_all2 (cstr m) commands (map bytes command_names)"
    and apart: "\<forall>q \<in> set keywords \<union> set commands. block q 100 \<inter> block buf 80 = {}"
  shows "\<exists>arg m'. shell_line keywords commands none buf m =
      Some (index_of (first_word line) (map bytes keyword_names), map_option (\<lambda>i. (i, arg)) (index_of (first_word line) (map bytes command_names)), m')
    \<and> cstr m' arg (rest_of_line line) \<and> (\<forall>a. a \<notin> block buf 80 \<longrightarrow> m' a = m a)"
proof (cases "32 \<in> set line")
  case False
  then have w: "first_word line = line" by (auto simp: first_word_def takeWhile_eq_all_conv)
  have "strchr m buf 32 = Some 0" using strchr_ok [OF line(1), of 32] False by simp
  moreover have "find_name keywords buf m = Some (index_of line (map bytes keyword_names))" "find_name commands buf m = Some (index_of line (map bytes command_names))"
    using find_name_ok [OF kws line(1)] find_name_ok [OF cmds line(1)] by simp_all
  ultimately show ?thesis using zero(2) by (intro exI [of _ none] exI [of _ m]) (simp add: shell_line_def w rest_of_line_def)
next
  case True
  let ?k = "length (first_word line)"
  let ?p = "buf + of_nat ?k"
  have k: "?k < length line" using True by (rule first_word_shorter)
  have p: "?p \<in> block buf 80" using k line(2) by (simp add: in_block unat_of_nat_less)
  then have nz: "?p \<noteq> 0" using zero(1) by auto
  have chr: "strchr m buf 32 = Some ?p" using strchr_ok [OF line(1), of 32] True by (simp add: first_word_def)
  let ?m = "m(?p := 0)"
  have "take ?k line = first_word line" by (simp add: first_word_def takeWhile_eq_take [symmetric])
  have unat_minus_one: "unat (- 1 :: u32) = 4294967295" by (simp add: unsigned_minus_1_eq_mask mask_eq_exp_minus_1)
  from \<open>take ?k line = first_word line\<close> have w: "cstr ?m buf (first_word line)" using cstr_cut [OF line(1), of ?k] k line(2) by simp
  have small: "\<forall>n \<in> set (map bytes keyword_names). length n < 100" "\<forall>n \<in> set (map bytes command_names). length n < 100"
    by (auto simp: keyword_names_def command_names_def bytes_def)
  have "find_name keywords buf ?m = Some (index_of (first_word line) (map bytes keyword_names))"
    using find_name_ok [OF names_survive [OF kws small(1) _ p] w] apart by blast
  moreover have "find_name commands buf ?m = Some (index_of (first_word line) (map bytes command_names))"
    using find_name_ok [OF names_survive [OF cmds small(2) _ p] w] apart by blast
  moreover have "cstr ?m (?p + 1) (rest_of_line line)"
  proof -
    have "cstr m (buf + of_nat (Suc ?k)) (rest_of_line line)" unfolding rest_of_line_def using cstr_drop [OF line(1), of "Suc ?k"] k by simp
    then have c: "cstr m (?p + 1) (rest_of_line line)" by (simp add: ac_simps)
    have "?p \<notin> block (?p + 1) (Suc (length (rest_of_line line)))"
      using k line(2) unat_minus_one by (simp add: in_block rest_of_line_def)
    then have "cstr ?m (?p + 1) (rest_of_line line) = cstr m (?p + 1) (rest_of_line line)"
      using k line(2) by (intro cstr_cong) (auto simp: rest_of_line_def)
    then show ?thesis using c by simp
  qed
  ultimately show ?thesis using chr nz p
    by (intro exI [of _ "?p + 1"] exI [of _ ?m]) (auto simp: shell_line_def)
qed


section \<open>Notes\<close>

text \<open>A sharp and the flat of the next letter are the same key.\<close>

lemma enharmonic_notes:
  "note_of 67 68 o1 = note_of 68 66 o1" "note_of 68 68 o1 = note_of 69 66 o1" "note_of 70 68 o1 = note_of 71 66 o1"
  "note_of 71 68 o1 = note_of 65 66 o1" "note_of 65 68 o1 = note_of 66 66 o1"
  by (simp_all add: note_of_def note_index_def)

text \<open>The tables are read outside their bounds for the flat of C and the sharp of B, and only for them.\<close>

lemma note_outside: "note_of letter accident octave = None \<longleftrightarrow> letter = 67 \<and> accident = 66 \<or> letter = 66 \<and> accident = 68"
  by (auto simp: note_of_def note_index_def Let_def)

section \<open>An example\<close>

definition demo_table :: "u32 \<Rightarrow> nat \<Rightarrow> u32 list" where
  "demo_table a n = map (\<lambda>i. a + 100 * of_nat i) [0..<n]"

primrec store_strings :: "u32 \<Rightarrow> string list \<Rightarrow> mem \<Rightarrow> mem" where
  "store_strings a [] m = m"
| "store_strings a (n # ns) m = store_strings (a + 100) ns (wr m a (bytes n))"

definition demo_user :: mem where
  "demo_user = wr (store_strings 0x2000 command_names (store_strings 0x1000 keyword_names (\<lambda>_. 0))) 0x4000 (bytes ''cat notes'')"

lemma demo_strings:
  "list_all2 (cstr demo_user) (demo_table 0x1000 11) (map bytes keyword_names)"
  "list_all2 (cstr demo_user) (demo_table 0x2000 5) (map bytes command_names)"
  "cstr demo_user 0x4000 (bytes ''cat notes'')" "cstr demo_user 0x5000 []"
  by code_simp+

theorem shell_runs_line_witness:
  "\<exists>arg m'. shell_line (demo_table 0x1000 11) (demo_table 0x2000 5) 0x5000 0x4000 demo_user = Some (None, Some (3, arg), m') \<and> cstr m' arg (bytes ''notes'')"
proof -
  have "length (bytes ''cat notes'') < 80" "(0 :: u32) \<notin> block 0x4000 80" by (simp_all add: bytes_def in_block)
  moreover have "\<forall>q \<in> set (demo_table 0x1000 11) \<union> set (demo_table 0x2000 5). block q 100 \<inter> block 0x4000 80 = {}"
    by (auto simp: demo_table_def upt_conv_Cons fits_block fits_def)
  moreover have "index_of (first_word (bytes ''cat notes'')) (map bytes keyword_names) = None"
    "index_of (first_word (bytes ''cat notes'')) (map bytes command_names) = Some 3" "rest_of_line (bytes ''cat notes'') = bytes ''notes''" by code_simp+
  ultimately show ?thesis using shell_runs_line [OF demo_strings(3) _ _ demo_strings(4) demo_strings(1,2)] by auto
qed

end
