(* ===== verification/Spec2Isabelle.thy ===== *)
theory Spec2Isabelle
  imports Kernel_Props Mouse_Props Fat16_Claims Floppy_Props Boot Div64 Queue_Header Keyboard_Props
    Syscall_Props Gdb_Props Gdb_Mem Serial Debugger_Props Clock Shell_Props
begin

text \<open>
  \<^bold>\<open>CalmOS: a model of the kernel and its libraries.\<close>

  CalmOS is a small operating system for 32-bit PCs. Its kernel schedules processes by priority, with
  a tree of processes, sleeping and message queues; it drives a text console, a buzzer, a keyboard, a PS/2 mouse
  and a floppy disk, and has a FAT16 file system on the floppy or in memory; user programs reach all of it by system calls. Kernel and user programs share a C
  library of string functions, formatted output, queues and 64-bit division. This development models these parts and proves
  what they promise.

  \<^bold>\<open>Layers.\<close>

  \<^item> \<^theory_text>\<open>Prelude\<close>: machine types, C arithmetic, linked lists threaded through arrays.
  \<^item> Scheduler and message queues, \<^verbatim>\<open>kernel/scheduler.c\<close> and \<^verbatim>\<open>kernel/queues.c\<close>: \<^theory_text>\<open>Kernel_State\<close> has the process table, the lists
    and the queues as one record; \<^theory_text>\<open>Kernel_Lists\<close>, \<^theory_text>\<open>Scheduler\<close> and \<^theory_text>\<open>Msg_Queue\<close> have one definition per C function, with the names of the
    source; \<^theory_text>\<open>Kernel_Run\<close> composes the system calls and the clock interrupt of \<^verbatim>\<open>kernel/interrupt.c\<close> to a
    step relation. A call that blocks stores what it does on waking up, since the context switch itself is assembly.
    \<^theory_text>\<open>Kernel_Inv\<close> states the invariant of the state, \<^theory_text>\<open>List_Specs\<close>, \<^theory_text>\<open>Inv_Steps\<close>, \<^theory_text>\<open>Inv_Moves\<close>, \<^theory_text>\<open>Inv_Sched\<close>, \<^theory_text>\<open>Inv_Ops\<close>, \<^theory_text>\<open>Inv_Prio\<close>,
    \<^theory_text>\<open>Inv_Start\<close>, \<^theory_text>\<open>Inv_Stop\<close> and \<^theory_text>\<open>Inv_Queue\<close> prove that each operation keeps it, \<^theory_text>\<open>Ring\<close> refines the circular message buffers to
    lists, \<^theory_text>\<open>Kernel_Demo\<close> and \<^theory_text>\<open>Kernel_Funs\<close> have example runs and facts on single calls, and \<^theory_text>\<open>Kernel_Props\<close> the theorems: the invariant holds in every reachable state and no call
    gets stuck; the running process has the highest priority; who waits is waiting for a reason; and what each call does.
  \<^item> Memory and strings, \<^verbatim>\<open>shared/string.c\<close>: \<^theory_text>\<open>Memory\<close> is byte-addressed memory, \<^theory_text>\<open>String_Lib\<close> the functions and \<^theory_text>\<open>String_Props\<close> their theorems (copying with overlap,
    searching, comparing, bounded concatenation, splitting).
  \<^item> Numbers and formatted output, \<^verbatim>\<open>shared/strtol.c\<close>, \<^verbatim>\<open>strtoul.c\<close>, \<^verbatim>\<open>doprnt.c\<close>, \<^verbatim>\<open>sprintf.c\<close>: \<^theory_text>\<open>Convert\<close>, \<^theory_text>\<open>Doprnt\<close>, \<^theory_text>\<open>Doprnt_Props\<close>. The output function that
    \<^verbatim>\<open>_doprnt\<close> calls is a parameter with the contract \<^theory_text>\<open>output_device\<close>.
  \<^item> Devices: \<^theory_text>\<open>Devices\<close> has the state of the drivers, the ports, the buzzer (\<^verbatim>\<open>driver/beep.c\<close>) and the interrupt
    controller; \<^theory_text>\<open>Console\<close> and \<^theory_text>\<open>Console_Props\<close> are \<^verbatim>\<open>kernel/console.c\<close> and \<^verbatim>\<open>shared/printf.c\<close>; \<^theory_text>\<open>Ps2_Mouse\<close> and \<^theory_text>\<open>Mouse_Props\<close> are \<^verbatim>\<open>driver/ps2.c\<close>, \<^verbatim>\<open>driver/mouse.c\<close> and
    the set-up of the handlers. The bytes that the hardware gives are an arbitrary function, so that the theorems hold for every
    behaviour of the devices.
  \<^item> Disks and files: \<^theory_text>\<open>Disk\<close> is \<^verbatim>\<open>driver/disk.c\<close>, with the locale \<^theory_text>\<open>disk_image\<close> as the contract between disks and the file system, interpreted by
    the disk in memory; \<^theory_text>\<open>Fat16\<close> is \<^verbatim>\<open>filesystem/fat16.c\<close>; \<^theory_text>\<open>Fat16_Props\<close> and \<^theory_text>\<open>Fat16_Files\<close> prove in the locale what it does to the image of a disk
    (volumes, chains of clusters, their contents), and \<^theory_text>\<open>Fat16_Claims\<close> has the theorems: data that is stored can be read back,
    other files are not disturbed, a full disk is left as it was. \<^theory_text>\<open>Floppy\<close> and \<^theory_text>\<open>Floppy_Props\<close> are \<^verbatim>\<open>driver/floppy.c\<close>.
  \<^item> Keyboard: \<^theory_text>\<open>Kbd\<close> is the decoder \<^verbatim>\<open>kbd-linux/keyboard.c\<close> and \<^verbatim>\<open>scancode.c\<close> with the glue \<^verbatim>\<open>driver/keyboard-glue.c\<close>, from scan codes to
    strings, with the static variables as one record; \<^theory_text>\<open>Kbd_Maps\<close> has the tables of \<^verbatim>\<open>defkeymap.c\<close>; \<^theory_text>\<open>Kbd_Props\<close> proves in the locale \<^theory_text>\<open>keyboard_tables\<close>, for all tables of the right
    shape, that no scan code makes it fail and what a key types. \<^theory_text>\<open>Keyboard\<close> and \<^theory_text>\<open>Keyboard_Props\<close> are \<^verbatim>\<open>driver/keyboard.c\<close>: the echo, the queue
    between the interrupt and the readers, and reading a line, which refines a line editor.
  \<^item> System calls, \<^verbatim>\<open>kernel/syscall.c\<close>: \<^theory_text>\<open>Syscall\<close> composes the models above to the dispatcher \<^verbatim>\<open>user_IT\<close>; \<^theory_text>\<open>Syscall_Props\<close> shows that calls with arbitrary arguments
    keep the kernel in its reachable states.
  \<^item> Processor set-up, \<^verbatim>\<open>boot/processor_structs.c\<close> and the page table of \<^verbatim>\<open>crt0.S\<close>: \<^theory_text>\<open>Boot\<close>, with descriptors, gates and pages decoded as the processor does.
  \<^item> \<^theory_text>\<open>Queue_Header\<close> is \<^verbatim>\<open>shared/queue.h\<close>, circular lists with priorities that refine the contract \<^theory_text>\<open>stable_queue\<close>; \<^theory_text>\<open>Div64\<close> is \<^verbatim>\<open>shared/div64.c\<close>.
  \<^item> The timer interrupt, \<^verbatim>\<open>tic_PIT\<close> of \<^verbatim>\<open>kernel/interrupt.c\<close>: \<^theory_text>\<open>Clock\<close> composes formatted output, console, buzzer and scheduler and shows that the time appears on the
    screen; \<^theory_text>\<open>Clock_Text\<close> has what \<^verbatim>\<open>sprintf\<close> makes of its format.
  \<^item> Traps and the debugger: \<^theory_text>\<open>Serial\<close> is \<^verbatim>\<open>kernel/serial.c\<close>; \<^theory_text>\<open>Gdb\<close> is the protocol of \<^verbatim>\<open>kernel/gdb_serial.c\<close> and \<^verbatim>\<open>gdb_serial_support.c\<close>, with the line as lists of bytes received and
    sent; \<^theory_text>\<open>Gdb_Props\<close> shows that packets and dumps survive the line, \<^theory_text>\<open>Gdb_Mem\<close> that memory is read as the page tables map it; \<^theory_text>\<open>Debugger\<close> and \<^theory_text>\<open>Debugger_Props\<close> are
    \<^verbatim>\<open>kernel/debugger.c\<close>: the screen of a trap and the exchange of registers.
  \<^item> User programs: \<^theory_text>\<open>Shell\<close> and \<^theory_text>\<open>Shell_Props\<close> are the loop of \<^verbatim>\<open>user/shell.c\<close>, its commands on files over the model of the file system, and the player \<^verbatim>\<open>user/play.c\<close>; other
    system calls of theirs are events.

  \<^bold>\<open>Conventions.\<close> A panic, a failed assertion, a division by zero, a null pointer that is read and a loop that does not end are the
  value \<^theory_text>\<open>None\<close>; theorems that say that an operation returns are proved as such. Integers have their width where they can wrap. Loops over a counter
  are recursions on it; the loops over linked lists in the kernel have a bound of one more than the number of processes, which
  suffices since a list holds each process at most once (the invariant shows it); loops with no evident bound are partial functions. A local variable whose address is taken is a
  parameter, the address. What \<^verbatim>\<open>malloc\<close> returns is a parameter of the operations that call it.

  \<^bold>\<open>Faults found.\<close> Some theorems state what the code does where that is not what it means to do: \<^verbatim>\<open>vsnprintf\<close> writes its terminator
  behind the buffer, \<^verbatim>\<open>ps2_read\<close> does not notice a time-out, the process that stops the floppy motor is never
  started, \<^verbatim>\<open>do_div64\<close> divides by zero for some divisors, and so does the system call for a beep of frequency 0; the check of user pointers looks at their first
  byte only; a run of eight digits in a packet to the debugger is sent as the mark that starts a packet; the shell reads past its buffer after a line
  of 80 characters.

  \<^bold>\<open>Not modelled.\<close> Assembly (\<^verbatim>\<open>crt0.S\<close>, \<^verbatim>\<open>handlers.S\<close>, \<^verbatim>\<open>context.S\<close>); the memory allocator \<^verbatim>\<open>malloc.c.h\<close>, which is third-party code; the
  test programs; the keywords of the shell that only print or make one system call; the entry code around \<^verbatim>\<open>kernel_start\<close>. Floating-point formats are compiled out of
  \<^verbatim>\<open>_doprnt\<close>. The messages that drivers print are left out.
\<close>

end
